(* ===== verification/Prelude.thy ===== *)
theory Prelude
  imports Main "HOL-Library.Word" "HOL-Library.Multiset"
begin

text \<open>
  Shared vocabulary of the development: the machine-integer and byte-string types of the Go
  sources, results of fallible operations as sums (\<open>Inl\<close> the error), the sequencing
  operator for them, and generic facts on maps, lists and forests that several components use.
\<close>

unbundle bit_operations_syntax

section \<open>Types\<close>

type_synonym byte = "8 word"
type_synonym u16 = "16 word"
type_synonym u32 = "32 word"
type_synonym u64 = "64 word"
type_synonym bytes = "byte list"
type_synonym handle = string
type_synonym ('e, 'a) result = "'e + 'a"

named_theorems codec \<open>layout facts of the wire formats\<close>
named_theorems nopanic \<open>absence of run-time panics\<close>
named_theorems pres \<open>preservation of component invariants\<close>

section \<open>Sequencing of fallible operations\<close>

definition bindR :: "('e, 'a) result \<Rightarrow> ('a \<Rightarrow> ('e, 'b) result) \<Rightarrow> ('e, 'b) result" where
  "bindR m f = (case m of Inl e \<Rightarrow> Inl e | Inr x \<Rightarrow> f x)"

definition guardR :: "bool \<Rightarrow> 'e \<Rightarrow> ('e, unit) result" where
  "guardR b e = (if b then Inr () else Inl e)"

lemma bindR_simps [simp]:
  "bindR (Inl e) f = Inl e"
  "bindR (Inr x) f = f x"
  by (simp_all add: bindR_def)

lemma guardR_simps [simp]:
  "b \<Longrightarrow> guardR b e = Inr ()"
  "\<not> b \<Longrightarrow> guardR b e = Inl e"
  by (simp_all add: guardR_def)

lemma bindR_Inr_iff: "bindR m f = Inr y \<longleftrightarrow> (\<exists>x. m = Inr x \<and> f x = Inr y)"
  by (cases m) auto

lemma bindR_Inl_iff: "bindR m f = Inl e \<longleftrightarrow> m = Inl e \<or> (\<exists>x. m = Inr x \<and> f x = Inl e)"
  by (cases m) auto

lemma guardR_Inr_iff [simp]: "guardR b e = Inr u \<longleftrightarrow> b"
  by (cases b) auto

lemma guardR_Inl_iff [simp]: "guardR b e = Inl e' \<longleftrightarrow> \<not> b \<and> e' = e"
  by (cases b) auto

section \<open>Maps\<close>

lemma restrict_map_del: "(m |` (- A))(k := None) = m |` (- insert k A)"
  by (rule ext) (auto simp: restrict_map_def)

lemma restrict_map_compose: "(m |` (- A)) |` (- B) = m |` (- (A \<union> B))"
  by (rule ext) (auto simp: restrict_map_def)

lemma restrict_map_Compl_empty [simp]: "m |` (- {}) = m"
  by (rule ext) (simp add: restrict_map_def)

lemma restrict_Compl_apply [simp]: "(m |` (- A)) x = (if x \<in> A then None else m x)"
  by (simp add: restrict_map_def)

lemma dom_restrict_Compl: "dom (m |` (- A)) = dom m - A"
  by (auto simp: dom_restrict)

section \<open>Lists\<close>

lemma sum_list_map_remove1:
  "x \<in> set xs \<Longrightarrow> sum_list (map f xs) = (f x :: nat) + sum_list (map f (remove1 x xs))"
  by (induction xs) auto

lemma take_drop_append_exact [simp]:
  "length xs = n \<Longrightarrow> take n (xs @ ys) = xs"
  "length xs = n \<Longrightarrow> drop n (xs @ ys) = ys"
  by simp_all

section \<open>Forests given by a parent map\<close>

text \<open>
  \<open>descends par\<close> relates a node to its parent; \<open>desc par h\<close> is the subtree of \<open>h\<close>.
\<close>

definition descends :: "('a \<rightharpoonup> 'a) \<Rightarrow> ('a \<times> 'a) set" where
  "descends par = {(k, p). par k = Some p}"

definition desc :: "('a \<rightharpoonup> 'a) \<Rightarrow> 'a \<Rightarrow> 'a set" where
  "desc par h = {k. (k, h) \<in> (descends par)\<^sup>*}"

lemma descends_iff [simp]: "(k, p) \<in> descends par \<longleftrightarrow> par k = Some p"
  by (simp add: descends_def)

lemma desc_refl [simp, intro]: "h \<in> desc par h"
  by (simp add: desc_def)

lemma desc_child: "par k = Some p \<Longrightarrow> p \<in> desc par h \<Longrightarrow> k \<in> desc par h"
  by (auto simp: desc_def intro: converse_rtrancl_into_rtrancl)

lemma desc_trans: "x \<in> desc par y \<Longrightarrow> y \<in> desc par z \<Longrightarrow> x \<in> desc par z"
  by (auto simp: desc_def)

lemma desc_cases:
  assumes "x \<in> desc par h"
  obtains "x = h" | p where "par x = Some p" "p \<in> desc par h"
  using assms unfolding desc_def
  by (auto elim: converse_rtranclE)

lemma desc_dom: "x \<in> desc par h \<Longrightarrow> x \<noteq> h \<Longrightarrow> x \<in> dom par"
  by (erule desc_cases) auto

text \<open>The parent map is a function, so two nodes above the same node are comparable.\<close>

lemma desc_linear:
  assumes "x \<in> desc par a" and "x \<in> desc par b"
  shows "a \<in> desc par b \<or> b \<in> desc par a"
proof -
  have "(x, a) \<in> (descends par)\<^sup>*" using assms(1) by (simp add: desc_def)
  then show ?thesis using assms(2)
  proof (induction rule: converse_rtrancl_induct)
    case base
    then show ?case by simp
  next
    case (step y z)
    from step.prems show ?case
    proof (cases rule: desc_cases)
      case 1
      have "y \<in> desc par a"
        using step.hyps by (auto simp: desc_def intro: converse_rtrancl_into_rtrancl)
      then show ?thesis using 1 by simp
    next
      case (2 p)
      then show ?thesis using step by simp
    qed
  qed
qed

lemma desc_unfold: "desc par h = insert h (\<Union>k \<in> {k. par k = Some h}. desc par k)"
proof (intro equalityI subsetI)
  fix x assume "x \<in> desc par h"
  then have "(x, h) \<in> (descends par)\<^sup>*" by (simp add: desc_def)
  then show "x \<in> insert h (\<Union>k \<in> {k. par k = Some h}. desc par k)"
    by (cases rule: rtranclE) (auto simp: desc_def)
next
  fix x assume "x \<in> insert h (\<Union>k \<in> {k. par k = Some h}. desc par k)"
  then show "x \<in> desc par h"
    by (auto simp: desc_def intro: rtrancl_into_rtrancl)
qed

text \<open>In an acyclic forest a node is not below its own child, and siblings are disjoint.\<close>

lemma wf_desc_antisym:
  assumes "wf ((descends par)\<inverse>)" and "par k = Some p"
  shows "p \<notin> desc par k"
proof
  assume "p \<in> desc par k"
  then have "(k, k) \<in> (descends par)\<^sup>+"
    using assms(2) by (auto simp: desc_def intro: rtrancl_into_trancl2)
  then have "(k, k) \<in> ((descends par)\<inverse>)\<^sup>+"
    by (simp add: trancl_converse)
  then show False using wf_acyclic [OF assms(1)] by (simp add: acyclic_def)
qed

lemma desc_antisym:
  assumes wf: "wf ((descends par)\<inverse>)" and ab: "a \<in> desc par b" and ba: "b \<in> desc par a"
  shows "a = b"
  using ab
proof (cases rule: desc_cases)
  case 1
  then show ?thesis .
next
  case (2 p)
  from 2(2) ba have "p \<in> desc par a" by (rule desc_trans)
  then show ?thesis using wf_desc_antisym [OF wf 2(1)] by simp
qed

lemma desc_siblings_disjoint:
  assumes wf: "wf ((descends par)\<inverse>)" and "par a = Some h" and "par b = Some h" and "a \<noteq> b"
  shows "desc par a \<inter> desc par b = {}"
proof (rule ccontr)
  have no: "c \<notin> desc par d" if "par c = Some h" "par d = Some h" "c \<noteq> d" for c d
  proof
    assume "c \<in> desc par d"
    then have "h \<in> desc par d"
      by (cases rule: desc_cases) (use that in simp_all)
    then show False using wf_desc_antisym [OF wf that(2)] by simp
  qed
  assume "desc par a \<inter> desc par b \<noteq> {}"
  then obtain x where "x \<in> desc par a" "x \<in> desc par b" by blast
  then have "a \<in> desc par b \<or> b \<in> desc par a" by (rule desc_linear)
  then show False using no [OF assms(2,3)] no [OF assms(3,2)] assms(4) by simp
qed

text \<open>Removing a downward-closed set of nodes from the forest.\<close>

definition downset :: "('a \<rightharpoonup> 'a) \<Rightarrow> 'a set \<Rightarrow> bool" where
  "downset par D \<longleftrightarrow> (\<forall>k p. par k = Some p \<longrightarrow> p \<in> D \<longrightarrow> k \<in> D)"

lemma downset_desc [simp]: "downset par (desc par h)"
  by (auto simp: downset_def intro: desc_child)

lemma downset_empty [simp]: "downset par {}"
  by (simp add: downset_def)

lemma downset_Un: "downset par A \<Longrightarrow> downset par B \<Longrightarrow> downset par (A \<union> B)"
  by (auto simp: downset_def)

lemma downset_Union: "(\<And>x. x \<in> A \<Longrightarrow> downset par (B x)) \<Longrightarrow> downset par (\<Union>x\<in>A. B x)"
  by (auto simp: downset_def)

lemma downsetD: "downset par D \<Longrightarrow> x \<in> desc par h \<Longrightarrow> h \<in> D \<Longrightarrow> x \<in> D"
proof -
  assume D: "downset par D" and x: "x \<in> desc par h" and h: "h \<in> D"
  from x have "(x, h) \<in> (descends par)\<^sup>*" by (simp add: desc_def)
  then show "x \<in> D" using h
    by (induction rule: converse_rtrancl_induct) (use D in \<open>auto simp: downset_def\<close>)
qed

lemma desc_restrict:
  assumes down: "downset par D" and h: "h \<notin> D"
  shows "desc (par |` (- D)) h = desc par h - D"
proof (intro equalityI subsetI)
  fix x assume "x \<in> desc (par |` (- D)) h"
  then have "(x, h) \<in> (descends (par |` (- D)))\<^sup>*" by (simp add: desc_def)
  then show "x \<in> desc par h - D"
    by (induction rule: converse_rtrancl_induct)
      (use h in \<open>auto simp: restrict_map_def intro: desc_child split: if_splits\<close>)
next
  fix x assume x: "x \<in> desc par h - D"
  then have "(x, h) \<in> (descends par)\<^sup>*" by (simp add: desc_def)
  then have "x \<notin> D \<longrightarrow> x \<in> desc (par |` (- D)) h"
  proof (induction rule: converse_rtrancl_induct)
    case base
    then show ?case by simp
  next
    case (step y z)
    then show ?case using down
      by (auto simp: downset_def restrict_map_def intro: desc_child)
  qed
  then show "x \<in> desc (par |` (- D)) h" using x by simp
qed

lemma wf_descends_restrict:
  "wf ((descends par)\<inverse>) \<Longrightarrow> wf ((descends (par |` A))\<inverse>)"
  by (erule wf_subset) (auto simp: restrict_map_def split: if_splits)

end
