(* ===== verification/Trace.thy ===== *)
theory Trace
  imports Prelude
begin

text \<open>
  The trace counters of \<^verbatim>\<open>go/internal/pionserver/trace.go\<close>: the per-channel slot allocator
  (\<open>DCIdx\<close>, \<open>ReleaseDC\<close>), the counter snapshot and the once-only switch of
  \<open>StartTracing\<close>. The methods run under the trace's mutex, so each is one atomic function on
  the state. The per-second printing goroutine is not modelled.
\<close>

section \<open>State\<close>

text \<open>The fixed arrays \<open>[16]int64\<close> are lists of length 16; the counters wrap at 64 bits.\<close>

record PionTrace =
  tr_enabled :: bool
  ReadFrames :: u64
  ReadBytes :: u64
  DCFrames :: "u64 list"
  DCBytes :: "u64 list"
  DCNs :: "u64 list"
  DCQDepth :: "u64 list"
  WriteFrames :: u64
  WriteBytes :: u64
  WriteNs :: u64
  dcIndex :: "handle \<rightharpoonup> nat"
  nextIdx :: nat
  freeIdx :: "nat list"

definition newTrace :: PionTrace where
  "newTrace = \<lparr>tr_enabled = False, ReadFrames = 0, ReadBytes = 0,
     DCFrames = replicate 16 0, DCBytes = replicate 16 0, DCNs = replicate 16 0,
     DCQDepth = replicate 16 0, WriteFrames = 0, WriteBytes = 0, WriteNs = 0,
     dcIndex = Map.empty, nextIdx = 0, freeIdx = []\<rparr>"

section \<open>Operations\<close>

definition Enabled :: "PionTrace \<Rightarrow> bool" where
  "Enabled t = tr_enabled t"

text \<open>A released slot is taken from the end of \<open>freeIdx\<close> before \<open>nextIdx\<close> grows.\<close>

definition DCIdx :: "handle \<Rightarrow> PionTrace \<Rightarrow> nat \<times> PionTrace" where
  "DCIdx h t =
     (case dcIndex t h of
        Some idx \<Rightarrow> (idx, t)
      | None \<Rightarrow>
          (if freeIdx t \<noteq> [] then
             (let idx = last (freeIdx t)
              in (idx, t\<lparr>freeIdx := butlast (freeIdx t), dcIndex := (dcIndex t)(h \<mapsto> idx)\<rparr>))
           else
             (let idx0 = nextIdx t;
                  idx = (if idx0 \<ge> 16 then 15 else idx0)
              in (idx, t\<lparr>nextIdx := nextIdx t + 1, dcIndex := (dcIndex t)(h \<mapsto> idx)\<rparr>))))"

definition ReleaseDC :: "handle \<Rightarrow> PionTrace \<Rightarrow> PionTrace" where
  "ReleaseDC h t =
     (case dcIndex t h of
        None \<Rightarrow> t
      | Some idx \<Rightarrow>
          (let t' = t\<lparr>dcIndex := (dcIndex t)(h := None)\<rparr>
           in if idx < 15 then t'\<lparr>freeIdx := freeIdx t' @ [idx]\<rparr> else t'))"

record traceSnapshot =
  snReadFrames :: u64
  snReadBytes :: u64
  snDCFrames :: "u64 list"
  snDCBytes :: "u64 list"
  snDCNs :: "u64 list"
  snWriteFrames :: u64
  snWriteBytes :: u64
  snWriteNs :: u64

definition captureSnapshot :: "PionTrace \<Rightarrow> traceSnapshot" where
  "captureSnapshot t = \<lparr>snReadFrames = ReadFrames t, snReadBytes = ReadBytes t,
     snDCFrames = map (\<lambda>i. DCFrames t ! i) [0..<16],
     snDCBytes = map (\<lambda>i. DCBytes t ! i) [0..<16],
     snDCNs = map (\<lambda>i. DCNs t ! i) [0..<16],
     snWriteFrames = WriteFrames t, snWriteBytes = WriteBytes t, snWriteNs = WriteNs t\<rparr>"

text \<open>
  \<open>StartTracing\<close> swaps the flag from 0 to 1; the result says whether this call launches the
  printing goroutine.
\<close>

definition StartTracing :: "PionTrace \<Rightarrow> bool \<times> PionTrace" where
  "StartTracing t = (if tr_enabled t then (False, t) else (True, t\<lparr>tr_enabled := True\<rparr>))"

section \<open>Invariant of the slot allocator\<close>

definition trace_inv :: "PionTrace \<Rightarrow> bool" where
  "trace_inv t \<longleftrightarrow>
     distinct (freeIdx t) \<and>
     (\<forall>i \<in> set (freeIdx t). i < 15 \<and> i < nextIdx t \<and> i \<notin> ran (dcIndex t)) \<and>
     (\<forall>i \<in> ran (dcIndex t). i < 16 \<and> i < nextIdx t) \<and>
     (\<forall>h h' i. dcIndex t h = Some i \<longrightarrow> dcIndex t h' = Some i \<longrightarrow> i < 15 \<longrightarrow> h = h') \<and>
     (\<forall>i. i < nextIdx t \<longrightarrow> i < 15 \<longrightarrow> i \<in> set (freeIdx t) \<or> i \<in> ran (dcIndex t)) \<and>
     finite (dom (dcIndex t))"

lemma trace_inv_new [pres]: "trace_inv newTrace"
  by (simp add: trace_inv_def newTrace_def)

lemma ran_upd_fresh: "m h = None \<Longrightarrow> ran (m(h \<mapsto> i)) = insert i (ran m)"
  by simp

lemma trace_inv_DCIdx [pres]:
  assumes inv: "trace_inv t"
  shows "trace_inv (snd (DCIdx h t))"
proof (cases "dcIndex t h")
  case (Some idx)
  then show ?thesis using inv by (simp add: DCIdx_def)
next
  case None
  show ?thesis
  proof (cases "freeIdx t = []")
    case True
    then show ?thesis using None inv
      unfolding trace_inv_def DCIdx_def
      by (auto simp: ran_upd_fresh Let_def less_Suc_eq dest: ranI)
  next
    case False
    then obtain fs i where fs: "freeIdx t = fs @ [i]" by (metis rev_exhaust)
    then show ?thesis using None inv
      unfolding trace_inv_def DCIdx_def
      by (auto simp: ran_upd_fresh Let_def dest: ranI)
  qed
qed

lemma trace_inv_ReleaseDC [pres]:
  assumes inv: "trace_inv t"
  shows "trace_inv (ReleaseDC h t)"
proof (cases "dcIndex t h")
  case None
  then show ?thesis using inv by (simp add: ReleaseDC_def)
next
  case (Some idx)
  then have "idx \<in> ran (dcIndex t)" by (rule ranI)
  moreover have "dom ((dcIndex t)(h := None)) = dom (dcIndex t) - {h}" by auto
  ultimately show ?thesis using Some inv
    unfolding trace_inv_def ReleaseDC_def
    by (auto simp: Let_def ran_def) (metis option.inject)+
qed

lemma dcIndex_ReleaseDC: "dcIndex (ReleaseDC h t) = (dcIndex t)(h := None)"
  by (auto simp: ReleaseDC_def Let_def split: option.splits)

lemma trace_slots_used:
  assumes inv: "trace_inv t" and free: "freeIdx t = []"
  shows "min (nextIdx t) 15 \<le> card (dom (dcIndex t))"
proof -
  have "{..<min (nextIdx t) 15} \<subseteq> ran (dcIndex t)"
    using inv free by (auto simp: trace_inv_def)
  also have "ran (dcIndex t) = (the \<circ> dcIndex t) ` dom (dcIndex t)"
    by (force simp: ran_def)
  finally have "card {..<min (nextIdx t) 15} \<le> card (dom (dcIndex t))"
    using inv by (intro surj_card_le) (auto simp: trace_inv_def)
  then show ?thesis by simp
qed

section \<open>Properties\<close>

text \<open>
  C16: the slot \<open>DCIdx\<close> returns always lies within the 16-element counter arrays and is
  stable: asking again for the handle gives the same slot and changes nothing. While fewer than 15
  channels hold a slot a new one gets a slot of its own, however many channels were created and
  released before.
\<close>

theorem DCIdx_slot:
  assumes inv: "trace_inv t"
  shows "fst (DCIdx h t) < 16
    \<and> DCIdx h (snd (DCIdx h t)) = (fst (DCIdx h t), snd (DCIdx h t))
    \<and> (dcIndex t h = None \<and> card (dom (dcIndex t)) < 15 \<longrightarrow>
        fst (DCIdx h t) < 15 \<and> fst (DCIdx h t) \<notin> ran (dcIndex t))"
proof (cases "dcIndex t h")
  case (Some idx)
  then have "idx \<in> ran (dcIndex t)" by (rule ranI)
  then show ?thesis using Some inv by (auto simp: DCIdx_def trace_inv_def)
next
  case None
  show ?thesis
  proof (cases "freeIdx t = []")
    case True
    then show ?thesis using None inv trace_slots_used [OF inv True]
      by (auto simp: DCIdx_def trace_inv_def Let_def)
  next
    case False
    then have "last (freeIdx t) \<in> set (freeIdx t)" by simp
    then have "last (freeIdx t) < 15" "last (freeIdx t) \<notin> ran (dcIndex t)"
      using inv by (simp_all add: trace_inv_def)
    then show ?thesis using None False by (auto simp: DCIdx_def Let_def)
  qed
qed

theorem DCIdx_slot_witness:
  "fst (DCIdx ''a'' newTrace) < 15 \<and> fst (DCIdx ''a'' newTrace) \<notin> ran (dcIndex newTrace)"
  using DCIdx_slot [OF trace_inv_new, of "''a''"] by (simp add: newTrace_def)

end
