(* ===== verification/HandleRegistry.thy ===== *)
theory HandleRegistry
  imports Trace "HOL-Library.Monad_Syntax"
begin

text \<open>
  The handle registry of \<^verbatim>\<open>go/internal/pionserver/registry.go\<close>: the five maps of the
  \<open>Registry\<close> struct, registration, lookup, the activity stamps, the cascading delete and the
  sweep of stale handles. Every method holds \<open>r.mu\<close> around its map accesses, so each is one
  atomic function on the state.

  Code outside the repository enters as arguments: the string of a new UUID, the clock readings
  (\<open>now\<close>, nanoseconds), the connection state pion reports for a PeerConnection, and the
  order in which Go ranges over a map (\<open>order\<close>, any enumeration of the keys). Stamps are
  \<open>int\<close>: differences of the non-negative \<open>int64\<close> clock readings of one process do not
  overflow. A loop that follows parent links is a \<open>partial_function\<close>, so that not returning is
  \<open>None\<close>; the recursive collection takes fuel and returns \<open>None\<close> when it runs out.
\<close>

section \<open>State\<close>

text \<open>
  A registered \<open>interface{}\<close>: the dynamic types the code distinguishes. The number is the
  object's identity. \<open>OtherCloser\<close> is any further \<open>io.Closer\<close>, \<open>Opaque\<close> a value
  that is not one.
\<close>

datatype resource = PeerConnection nat | DataChannel nat | OtherCloser nat | Opaque nat

fun isCloser :: "resource \<Rightarrow> bool" where
  "isCloser (Opaque _) = False"
| "isCloser _ = True"

text \<open>Send states are referred to by identity; their contents are in theory \<open>DCSend\<close>.\<close>

type_synonym sendref = nat

record Registry =
  resources :: "handle \<rightharpoonup> resource"
  parent :: "handle \<rightharpoonup> handle"
  children :: "handle \<rightharpoonup> handle list"
  dcSendStates :: "handle \<rightharpoonup> sendref"
  lastSeen :: "handle \<rightharpoonup> int"

definition NewRegistry :: Registry where
  "NewRegistry = \<lparr>resources = Map.empty, parent = Map.empty, children = Map.empty,
     dcSendStates = Map.empty, lastSeen = Map.empty\<rparr>"

section \<open>Stamps\<close>

definition second :: int where
  "second = 1000000000"

definition newStampLocked :: "int \<Rightarrow> handle \<Rightarrow> Registry \<Rightarrow> Registry" where
  "newStampLocked now h r = r\<lparr>lastSeen := (lastSeen r)(h \<mapsto> now)\<rparr>"

definition touchStamp :: "int \<Rightarrow> int \<Rightarrow> int" where
  "touchStamp now st = (if now - st > second then now else st)"

text \<open>\<open>touchStamp\<close> through the pointer held for \<open>h\<close>; a nil pointer is skipped.\<close>

definition touchAt :: "int \<Rightarrow> handle \<Rightarrow> Registry \<Rightarrow> Registry" where
  "touchAt now h r = r\<lparr>lastSeen := (lastSeen r)(h := map_option (touchStamp now) (lastSeen r h))\<rparr>"

section \<open>Send states\<close>

definition RegisterDCSendState :: "handle \<Rightarrow> sendref \<Rightarrow> Registry \<Rightarrow> bool \<times> Registry" where
  "RegisterDCSendState h st r =
     (if dcSendStates r h \<noteq> None then (False, r)
      else (True, r\<lparr>dcSendStates := (dcSendStates r)(h \<mapsto> st)\<rparr>))"

definition LookupDCSendState :: "handle \<Rightarrow> Registry \<Rightarrow> sendref option" where
  "LookupDCSendState h r = dcSendStates r h"

definition removeDCSendStateLocked :: "handle \<Rightarrow> Registry \<Rightarrow> sendref option \<times> Registry" where
  "removeDCSendStateLocked h r =
     (dcSendStates r h, r\<lparr>dcSendStates := (dcSendStates r)(h := None)\<rparr>)"

definition RemoveDCSendState :: "handle \<Rightarrow> Registry \<Rightarrow> sendref option \<times> Registry" where
  "RemoveDCSendState h r = removeDCSendStateLocked h r"

section \<open>Registration and lookup\<close>

text \<open>\<open>strings.ReplaceAll(uuid, "-", "")\<close> on the string of a new UUID.\<close>

definition generateHandle :: "string \<Rightarrow> handle" where
  "generateHandle uuid = filter (\<lambda>c. c \<noteq> CHR ''-'') uuid"

definition Register :: "string \<Rightarrow> int \<Rightarrow> resource \<Rightarrow> Registry \<Rightarrow> handle \<times> Registry" where
  "Register uuid now res r =
     (let h = generateHandle uuid;
          r1 = r\<lparr>resources := (resources r)(h \<mapsto> res)\<rparr>
      in (h, newStampLocked now h r1))"

definition kids_of :: "Registry \<Rightarrow> handle \<Rightarrow> handle list" where
  "kids_of r p = (case children r p of None \<Rightarrow> [] | Some ks \<Rightarrow> ks)"

definition RegisterChild :: "string \<Rightarrow> int \<Rightarrow> resource \<Rightarrow> handle \<Rightarrow> Registry \<Rightarrow> handle \<times> Registry" where
  "RegisterChild uuid now res parentHandle r =
     (let h = generateHandle uuid;
          r1 = r\<lparr>resources := (resources r)(h \<mapsto> res),
                 parent := (parent r)(h \<mapsto> parentHandle),
                 children := (children r)(parentHandle \<mapsto> kids_of r parentHandle @ [h])\<rparr>
      in (h, newStampLocked now h r1))"

definition Lookup :: "int \<Rightarrow> handle \<Rightarrow> Registry \<Rightarrow> resource option \<times> Registry" where
  "Lookup now h r =
     (resources r h, if resources r h \<noteq> None then touchAt now h r else r)"

text \<open>The loops of \<open>Touch\<close> and \<open>Cleanup\<close> over parent links.\<close>

partial_function (option) parentChain :: "(handle \<rightharpoonup> handle) \<Rightarrow> handle \<Rightarrow> handle list option" where
  "parentChain par h =
     (case par h of
        None \<Rightarrow> Some []
      | Some p \<Rightarrow> parentChain par p \<bind> (\<lambda>ps. Some (p # ps)))"

partial_function (option) rootOf :: "(handle \<rightharpoonup> handle) \<Rightarrow> handle \<Rightarrow> handle option" where
  "rootOf par h = (case par h of None \<Rightarrow> Some h | Some p \<Rightarrow> rootOf par p)"

definition Touch :: "int \<Rightarrow> handle \<Rightarrow> Registry \<Rightarrow> Registry option" where
  "Touch now h r =
     (if lastSeen r h = None then Some r
      else parentChain (parent r) h \<bind> (\<lambda>ps. Some (fold (touchAt now) (h # ps) r)))"

section \<open>Cascading delete\<close>

text \<open>The registry, the two accumulators of \<open>collectLocked\<close> and the global trace.\<close>

record collection =
  creg :: Registry
  cclosers :: "resource list"
  cstates :: "sendref list"
  ctrace :: PionTrace

text \<open>The part of \<open>collectLocked\<close> after the children have been collected.\<close>

definition detachSelf :: "handle \<Rightarrow> resource \<Rightarrow> collection \<Rightarrow> collection" where
  "detachSelf h res c =
     (let (st, r1) = removeDCSendStateLocked h (creg c);
          states' = (case st of None \<Rightarrow> cstates c | Some s \<Rightarrow> cstates c @ [s]);
          closers' = (if isCloser res then cclosers c @ [res] else cclosers c);
          r2 = (case parent r1 h of
                  None \<Rightarrow> r1
                | Some p \<Rightarrow>
                    r1\<lparr>children := (if h \<in> set (kids_of r1 p)
                                    then (children r1)(p \<mapsto> remove1 h (kids_of r1 p))
                                    else children r1),
                       parent := (parent r1)(h := None)\<rparr>);
          r3 = r2\<lparr>resources := (resources r2)(h := None), lastSeen := (lastSeen r2)(h := None)\<rparr>
      in \<lparr>creg = r3, cclosers = closers', cstates = states', ctrace = ReleaseDC h (ctrace c)\<rparr>)"

fun collectLocked :: "nat \<Rightarrow> handle \<Rightarrow> collection \<Rightarrow> collection option"
  and collectKids :: "nat \<Rightarrow> handle list \<Rightarrow> collection \<Rightarrow> collection option" where
  "collectLocked 0 h c = None"
| "collectLocked (Suc n) h c =
     (case resources (creg c) h of
        None \<Rightarrow> Some c
      | Some res \<Rightarrow>
          (case children (creg c) h of
             None \<Rightarrow> Some c
           | Some kids \<Rightarrow>
               collectKids n kids
                 (c\<lparr>creg := (creg c)\<lparr>children := (children (creg c))(h := None)\<rparr>\<rparr>))
          \<bind> (\<lambda>c'. Some (detachSelf h res c')))"
| "collectKids n [] c = Some c"
| "collectKids n (k # ks) c = collectLocked n k c \<bind> collectKids n ks"

text \<open>Every level of the recursion removes an entry of \<open>children\<close>, which bounds its depth.\<close>

definition collectFuel :: "Registry \<Rightarrow> nat" where
  "collectFuel r = Suc (card (dom (children r)))"

datatype shutdown = CloseState sendref | CloseResource resource

text \<open>Close errors are only logged, so the effect is the sequence of close calls.\<close>

definition closeCollected :: "resource list \<Rightarrow> sendref list \<Rightarrow> shutdown list" where
  "closeCollected closers states = map CloseState states @ map CloseResource closers"

datatype registry_error = HandleNotFound handle

type_synonym registry_outcome = "shutdown list \<times> Registry \<times> PionTrace"

definition Delete :: "handle \<Rightarrow> PionTrace \<Rightarrow> Registry \<Rightarrow> (registry_error, registry_outcome) result option" where
  "Delete h t r =
     (if resources r h = None then Some (Inl (HandleNotFound h))
      else collectLocked (collectFuel r) h \<lparr>creg = r, cclosers = [], cstates = [], ctrace = t\<rparr>
           \<bind> (\<lambda>c. Some (Inr (closeCollected (cclosers c) (cstates c), creg c, ctrace c))))"

section \<open>Sweep of stale handles\<close>

datatype PeerConnectionState = PCNew | PCConnecting | PCConnected | PCDisconnected | PCFailed | PCClosed

definition isLivePeerConnection :: "(nat \<Rightarrow> PeerConnectionState) \<Rightarrow> resource option \<Rightarrow> bool" where
  "isLivePeerConnection connState res =
     (case res of Some (PeerConnection pc) \<Rightarrow> connState pc = PCConnected | _ \<Rightarrow> False)"

definition isExpired :: "int \<Rightarrow> int \<Rightarrow> Registry \<Rightarrow> handle \<Rightarrow> bool" where
  "isExpired now maxAge r h =
     (case lastSeen r h of None \<Rightarrow> False | Some st \<Rightarrow> \<not> now - st \<le> maxAge)"

text \<open>The read-locked pass: the expired handles, each with its root resource if there is one.\<close>

fun cleanupScan :: "int \<Rightarrow> int \<Rightarrow> Registry \<Rightarrow> handle list \<Rightarrow> (handle \<times> resource option) list option" where
  "cleanupScan now maxAge r [] = Some []"
| "cleanupScan now maxAge r (h # hs) =
     (if isExpired now maxAge r h
      then rootOf (parent r) h \<bind> (\<lambda>root.
             cleanupScan now maxAge r hs \<bind> (\<lambda>rest. Some ((h, resources r root) # rest)))
      else cleanupScan now maxAge r hs)"

text \<open>The write-locked pass over the handles to reap.\<close>

definition cleanupReap :: "handle list \<Rightarrow> PionTrace \<Rightarrow> Registry \<Rightarrow> collection option" where
  "cleanupReap reap t r =
     collectKids (collectFuel r) reap \<lparr>creg = r, cclosers = [], cstates = [], ctrace = t\<rparr>"

fun touchAll :: "int \<Rightarrow> handle list \<Rightarrow> Registry \<Rightarrow> Registry option" where
  "touchAll now [] r = Some r"
| "touchAll now (h # hs) r = Touch now h r \<bind> touchAll now hs"

text \<open>\<open>now\<close> is the reading at the start of the sweep, \<open>later\<close> the one of the final touches.\<close>

definition Cleanup ::
  "int \<Rightarrow> int \<Rightarrow> int \<Rightarrow> handle list \<Rightarrow> (nat \<Rightarrow> PeerConnectionState) \<Rightarrow> PionTrace \<Rightarrow> Registry
   \<Rightarrow> registry_outcome option" where
  "Cleanup now later maxAge order connState t r =
     cleanupScan now maxAge r order \<bind> (\<lambda>expired.
       if expired = [] then Some ([], r, t)
       else
         let live = (\<lambda>(h, root). isLivePeerConnection connState root);
             spared = map fst (filter live expired);
             reap = map fst (filter (\<lambda>x. \<not> live x) expired)
         in cleanupReap reap t r \<bind> (\<lambda>c.
              touchAll later spared (creg c) \<bind> (\<lambda>r'.
                Some (closeCollected (cclosers c) (cstates c), r', ctrace c))))"

section \<open>Invariant\<close>

text \<open>
  \<open>reg_core X\<close> is the invariant while the subtrees of the handles in \<open>X\<close> are being
  collected: their \<open>children\<close> entries are detached already, so the lists are complete only for
  the other parents. Between operations \<open>X\<close> is empty. A parent need not be registered:
  \<open>RegisterChild\<close> does not look it up.
\<close>

definition reg_core :: "handle set \<Rightarrow> Registry \<Rightarrow> bool" where
  "reg_core X r \<longleftrightarrow>
     dom (lastSeen r) = dom (resources r) \<and>
     dom (parent r) \<subseteq> dom (resources r) \<and>
     (\<forall>p ks. children r p = Some ks \<longrightarrow> distinct ks \<and> (\<forall>k \<in> set ks. parent r k = Some p)) \<and>
     (\<forall>k p. parent r k = Some p \<longrightarrow> p \<notin> X \<longrightarrow> k \<in> set (kids_of r p)) \<and>
     (\<forall>p \<in> X. children r p = None) \<and>
     wf ((descends (parent r))\<inverse>) \<and>
     finite (dom (resources r)) \<and> finite (dom (children r))"

definition reg_inv :: "Registry \<Rightarrow> bool" where
  "reg_inv r \<longleftrightarrow> reg_core {} r"

text \<open>What the UUID generator provides: the handle occurs nowhere in the registry.\<close>

definition fresh :: "handle \<Rightarrow> Registry \<Rightarrow> bool" where
  "fresh h r \<longleftrightarrow> h \<notin> dom (resources r) \<and> h \<notin> dom (children r) \<and> h \<notin> dom (dcSendStates r)"

lemma reg_inv_New [pres]: "reg_inv NewRegistry"
  by (simp add: reg_inv_def reg_core_def NewRegistry_def descends_def)

lemma fresh_not_parent:
  assumes "reg_inv r" and "fresh h r"
  shows "parent r h = None" and "parent r k \<noteq> Some h"
proof -
  show "parent r h = None"
    using assms by (auto simp: reg_inv_def reg_core_def fresh_def)
  show "parent r k \<noteq> Some h"
  proof
    assume "parent r k = Some h"
    then have "k \<in> set (kids_of r h)" using assms by (auto simp: reg_inv_def reg_core_def)
    then show False using assms(2) by (auto simp: fresh_def kids_of_def split: option.splits)
  qed
qed

lemma reg_inv_Register [pres]:
  assumes "reg_inv r" and "fresh (generateHandle uuid) r"
  shows "reg_inv (snd (Register uuid now res r))"
  using assms
  by (auto simp: reg_inv_def reg_core_def Register_def Let_def newStampLocked_def kids_of_def fresh_def)

lemma wf_descends_upd:
  assumes wf: "wf ((descends par)\<inverse>)" and h: "h \<notin> ran par" and "p \<noteq> h"
  shows "wf ((descends (par(h \<mapsto> p)))\<inverse>)"
proof -
  have "(descends (par(h \<mapsto> p)))\<inverse> \<subseteq> insert (p, h) ((descends par)\<inverse>)"
    by (auto split: if_splits)
  moreover have "wf (insert (p, h) ((descends par)\<inverse>))"
  proof -
    have "(h, p) \<notin> ((descends par)\<inverse>)\<^sup>*"
    proof
      assume "(h, p) \<in> ((descends par)\<inverse>)\<^sup>*"
      then show False using \<open>p \<noteq> h\<close> h
        by (cases rule: converse_rtranclE) (auto intro: ranI)
    qed
    then show ?thesis using wf by simp
  qed
  ultimately show ?thesis by (rule wf_subset [rotated])
qed

lemma reg_inv_RegisterChild [pres]:
  assumes inv: "reg_inv r" and fr: "fresh (generateHandle uuid) r" and p: "p \<noteq> generateHandle uuid"
  shows "reg_inv (snd (RegisterChild uuid now res p r))"
proof -
  let ?h = "generateHandle uuid"
  note no = fresh_not_parent [OF inv fr]
  have nr: "?h \<notin> ran (parent r)" using no(2) by (auto simp: ran_def)
  have "?h \<notin> set ks" if "children r q = Some ks" for q ks
    using that inv no(1) by (auto simp: reg_inv_def reg_core_def)
  then show ?thesis
    using inv fr p no wf_descends_upd [OF _ nr p]
    by (auto simp: reg_inv_def reg_core_def RegisterChild_def Let_def newStampLocked_def
        kids_of_def fresh_def split: option.splits)
qed

lemma touchAt_simps [simp]:
  "resources (touchAt now h r) = resources r" "parent (touchAt now h r) = parent r"
  "children (touchAt now h r) = children r" "dcSendStates (touchAt now h r) = dcSendStates r"
  "dom (lastSeen (touchAt now h r)) = dom (lastSeen r)"
  by (auto simp: touchAt_def)

lemma fold_touchAt_simps [simp]:
  "resources (fold (touchAt now) hs r) = resources r" "parent (fold (touchAt now) hs r) = parent r"
  "children (fold (touchAt now) hs r) = children r"
  "dcSendStates (fold (touchAt now) hs r) = dcSendStates r"
  "dom (lastSeen (fold (touchAt now) hs r)) = dom (lastSeen r)"
  by (induction hs arbitrary: r) simp_all

lemma reg_core_cong:
  assumes "resources r' = resources r" "parent r' = parent r" "children r' = children r"
    "dom (lastSeen r') = dom (lastSeen r)"
  shows "reg_core X r' = reg_core X r"
  using assms by (simp add: reg_core_def kids_of_def)

lemma reg_inv_Lookup [pres]: "reg_inv r \<Longrightarrow> reg_inv (snd (Lookup now h r))"
  by (simp add: Lookup_def reg_inv_def reg_core_cong [of "touchAt now h r" r])

lemma Touch_Some:
  assumes "Touch now h r = Some r'"
  obtains hs where "r' = fold (touchAt now) hs r"
proof -
  have "r' = fold (touchAt now) [] r \<or> (\<exists>ps. r' = fold (touchAt now) (h # ps) r)"
    using assms by (auto simp: Touch_def split: if_splits bind_splits)
  then show thesis using that by blast
qed

lemma touchAll_Some:
  assumes "touchAll now hs r = Some r'"
  obtains ks where "r' = fold (touchAt now) ks r"
  using assms
proof (induction hs arbitrary: r thesis)
  case Nil
  then show ?case by (auto intro: Nil(1) [of "[]"])
next
  case (Cons h hs)
  from Cons.prems(2) obtain r1 where 1: "Touch now h r = Some r1" and 2: "touchAll now hs r1 = Some r'"
    by (auto split: bind_splits)
  from 1 obtain as where as: "r1 = fold (touchAt now) as r" by (rule Touch_Some)
  from Cons.IH [OF _ 2] obtain bs where "r' = fold (touchAt now) bs r1" by blast
  then show ?case using Cons.prems(1) [of "as @ bs"] as by simp
qed

lemma reg_inv_Touch [pres]:
  assumes "reg_inv r" and "Touch now h r = Some r'"
  shows "reg_inv r'"
proof -
  from assms(2) obtain hs where "r' = fold (touchAt now) hs r" by (rule Touch_Some)
  then show ?thesis using assms(1) by (simp add: reg_inv_def reg_core_cong [of "fold (touchAt now) hs r" r])
qed

lemma reg_inv_dcSendStates [pres]:
  "reg_inv r \<Longrightarrow> reg_inv (snd (RegisterDCSendState h st r))"
  "reg_inv r \<Longrightarrow> reg_inv (snd (RemoveDCSendState h r))"
  by (auto simp: RegisterDCSendState_def RemoveDCSendState_def removeDCSendStateLocked_def
      reg_inv_def reg_core_def kids_of_def)

section \<open>The loops over parent links return\<close>

lemma parentChain_returns:
  assumes "wf ((descends par)\<inverse>)"
  shows "\<exists>ps. parentChain par h = Some ps \<and> set (h # ps) = {p. h \<in> desc par p}"
  using assms
proof (induction h rule: wf_induct_rule)
  case (less h)
  show ?case
  proof (cases "par h")
    case None
    have "h \<in> desc par p \<longleftrightarrow> p = h" for p
      using desc_dom [of h par p] None by auto
    then show ?thesis using None by (simp add: parentChain.simps)
  next
    case (Some p)
    then obtain ps where ps: "parentChain par p = Some ps" "set (p # ps) = {q. p \<in> desc par q}"
      using less by auto
    have "h \<in> desc par q \<longleftrightarrow> q = h \<or> p \<in> desc par q" for q
      using Some by (auto intro: desc_child elim: desc_cases)
    then show ?thesis using Some ps by (auto simp: parentChain.simps)
  qed
qed

lemma rootOf_returns:
  assumes "wf ((descends par)\<inverse>)"
  shows "\<exists>root. rootOf par h = Some root \<and> par root = None \<and> h \<in> desc par root"
  using assms
proof (induction h rule: wf_induct_rule)
  case (less h)
  show ?case
  proof (cases "par h")
    case None
    then show ?thesis by (simp add: rootOf.simps)
  next
    case (Some p)
    then show ?thesis using less by (auto simp: rootOf.simps intro: desc_child)
  qed
qed

lemma reg_inv_wf: "reg_inv r \<Longrightarrow> wf ((descends (parent r))\<inverse>)"
  by (simp add: reg_inv_def reg_core_def)

lemma touchStamp_idem [simp]: "touchStamp now (touchStamp now st) = touchStamp now st"
  by (simp add: touchStamp_def second_def)

lemma lastSeen_fold_touchAt:
  "lastSeen (fold (touchAt now) hs r) h =
     (if h \<in> set hs then map_option (touchStamp now) (lastSeen r h) else lastSeen r h)"
  by (induction hs arbitrary: r) (auto simp: touchAt_def option.map_comp o_def)

text \<open>\<open>Touch\<close> in closed form: the handle and everything above it.\<close>

lemma Touch_eq:
  assumes "reg_inv r"
  shows "\<exists>r'. Touch now h r = Some r' \<and> lastSeen r' =
     (\<lambda>k. if lastSeen r h \<noteq> None \<and> h \<in> desc (parent r) k
          then map_option (touchStamp now) (lastSeen r k) else lastSeen r k)"
proof -
  from parentChain_returns [OF reg_inv_wf [OF assms], of h] obtain ps where
    ps: "parentChain (parent r) h = Some ps" "set (h # ps) = {p. h \<in> desc (parent r) p}" by blast
  from ps(2) have "k \<in> set (h # ps) \<longleftrightarrow> h \<in> desc (parent r) k" for k by blast
  then show ?thesis
    using lastSeen_fold_touchAt [of now "h # ps" r]
    by (simp add: Touch_def ps(1) fun_eq_iff del: fold.simps fold_simps set_simps)
qed

section \<open>The collection in closed form\<close>

text \<open>\<open>prune D\<close> drops the handles of \<open>D\<close> from all maps and from the lists of the others.\<close>

definition prune :: "handle set \<Rightarrow> Registry \<Rightarrow> Registry" where
  "prune D r = r\<lparr>resources := resources r |` (- D), parent := parent r |` (- D),
     children := (\<lambda>p. map_option (filter (\<lambda>k. k \<notin> D)) (children r p)) |` (- D),
     dcSendStates := dcSendStates r |` (- D), lastSeen := lastSeen r |` (- D)\<rparr>"

definition collected :: "handle list \<Rightarrow> collection \<Rightarrow> collection" where
  "collected ds c = \<lparr>creg = prune (set ds) (creg c),
     cclosers = cclosers c @ filter isCloser (List.map_filter (resources (creg c)) ds),
     cstates = cstates c @ List.map_filter (dcSendStates (creg c)) ds,
     ctrace = fold ReleaseDC ds (ctrace c)\<rparr>"

lemma prune_simps [simp]:
  "resources (prune D r) = resources r |` (- D)" "parent (prune D r) = parent r |` (- D)"
  "children (prune D r) = (\<lambda>p. map_option (filter (\<lambda>k. k \<notin> D)) (children r p)) |` (- D)"
  "dcSendStates (prune D r) = dcSendStates r |` (- D)" "lastSeen (prune D r) = lastSeen r |` (- D)"
  by (simp_all add: prune_def)

lemma prune_empty [simp]: "prune {} r = r"
proof -
  have "map_option (filter (\<lambda>k. True)) ks = ks" for ks :: "handle list option"
    by (cases ks) simp_all
  then show ?thesis by (cases r) (simp add: prune_def restrict_map_def fun_eq_iff)
qed

lemma prune_prune: "prune E (prune D r) = prune (D \<union> E) r"
  by (auto simp: prune_def restrict_map_def fun_eq_iff option.map_comp o_def conj_commute
      intro!: option.map_cong)

lemma collected_Nil [simp]: "collected [] c = c"
  by (simp add: collected_def)

lemma map_filter_restrict:
  "set ds \<inter> D = {} \<Longrightarrow> List.map_filter (m |` (- D)) ds = List.map_filter m ds"
  by (induction ds) (auto simp: restrict_map_def split: option.splits)

lemma map_filter_append: "List.map_filter m (xs @ ys) = List.map_filter m xs @ List.map_filter m ys"
  by (induction xs) (auto split: option.splits)

lemma collected_append:
  "set ds \<inter> set es = {} \<Longrightarrow> collected es (collected ds c) = collected (ds @ es) c"
  by (simp add: collected_def prune_prune map_filter_restrict Int_commute
      map_filter_append)


lemma kids_of_simps:
  "children r p = None \<Longrightarrow> kids_of r p = []"
  "children r p = Some ks \<Longrightarrow> kids_of r p = ks"
  "kids_of (r\<lparr>children := (children r)(h := None)\<rparr>) p = (if p = h then [] else kids_of r p)"
  by (simp_all add: kids_of_def)

lemma kids_of_prune [simp]:
  "kids_of (prune D r) p = (if p \<in> D then [] else filter (\<lambda>k. k \<notin> D) (kids_of r p))"
  by (auto simp: kids_of_def split: option.splits)

lemma reg_core_prune [pres]:
  assumes core: "reg_core X r" and down: "downset (parent r) D" and "X \<inter> D = {}"
  shows "reg_core X (prune D r)"
proof -
  have "dom (children (prune D r)) = dom (children r) - D"
    by (auto simp: restrict_map_def split: if_splits)
  then show ?thesis
    using assms wf_descends_restrict [of "parent r" "- D"]
    unfolding reg_core_def
    by (auto simp: downset_def dom_restrict_Compl simp del: prune_simps(3))
      (auto simp: restrict_map_def split: if_splits)
qed

lemma reg_core_detach:
  assumes "reg_core X r"
  shows "reg_core (insert h X) (r\<lparr>children := (children r)(h := None)\<rparr>)"
  using assms by (auto simp: reg_core_def kids_of_def)

lemma detachSelf_simps:
  "resources (creg (detachSelf h res c)) = (resources (creg c))(h := None)"
  "parent (creg (detachSelf h res c)) = (parent (creg c))(h := None)"
  "dcSendStates (creg (detachSelf h res c)) = (dcSendStates (creg c))(h := None)"
  "lastSeen (creg (detachSelf h res c)) = (lastSeen (creg c))(h := None)"
  "children (creg (detachSelf h res c)) q =
     (if parent (creg c) h = Some q \<and> h \<in> set (kids_of (creg c) q)
      then Some (remove1 h (kids_of (creg c) q)) else children (creg c) q)"
  by (auto simp: detachSelf_def Let_def removeDCSendStateLocked_def kids_of_def fun_eq_iff
      split: option.splits)

lemma detachSelf_collected:
  assumes core: "reg_core X (creg c)" and res: "resources (creg c) h = Some res" and h: "h \<notin> set ds"
  shows "detachSelf h res (collected ds (c\<lparr>creg := (creg c)\<lparr>children := (children (creg c))(h := None)\<rparr>\<rparr>))
    = collected (ds @ [h]) c"
proof -
  have dist: "children (creg c) q = Some ks \<Longrightarrow> distinct ks"
    and sound: "children (creg c) q = Some ks \<Longrightarrow> h \<in> set ks \<Longrightarrow> parent (creg c) h = Some q" for q ks
    using core by (auto simp: reg_core_def)
  have rem: "children (creg c) q = Some ks \<Longrightarrow>
      remove1 h (filter (\<lambda>k. k \<notin> set ds) ks) = filter (\<lambda>k. k \<noteq> h \<and> k \<notin> set ds) ks" for q ks
    using dist [of q ks]
    by (auto simp: distinct_remove1_removeAll removeAll_filter_not_eq intro!: filter_cong)
  have gone: "children (creg c) q = Some ks \<Longrightarrow> h \<notin> set ks \<Longrightarrow>
      filter (\<lambda>k. k \<notin> set ds) ks = filter (\<lambda>k. k \<noteq> h \<and> k \<notin> set ds) ks" for q ks
    by (auto intro!: filter_cong)
  let ?d = "detachSelf h res (collected ds (c\<lparr>creg := (creg c)\<lparr>children := (children (creg c))(h := None)\<rparr>\<rparr>))"
  have "children (creg ?d) q = children (prune (insert h (set ds)) (creg c)) q" for q
  proof (cases "children (creg c) q")
    case None
    then show ?thesis
      by (simp add: detachSelf_simps collected_def kids_of_simps)
  next
    case (Some ks)
    show ?thesis
    proof (cases "h \<in> set ks")
      case True
      then show ?thesis using h Some rem [OF Some] sound [OF Some True]
        by (simp add: detachSelf_simps collected_def kids_of_simps)
    next
      case False
      then show ?thesis using Some gone [OF Some]
        by (simp add: detachSelf_simps collected_def kids_of_simps)
    qed
  qed
  then have kids: "children (creg ?d) = children (prune (insert h (set ds)) (creg c))" ..
  have upd: "(m |` (- set ds))(h := None) = m |` (- insert h (set ds))" for m :: "handle \<rightharpoonup> 'x"
    by (rule restrict_map_del)
  have "creg ?d = prune (insert h (set ds)) (creg c)"
    by (rule Registry.equality [OF _ _ kids])
      (simp_all add: detachSelf_simps(1-4) collected_def upd del: fun_upd_restrict fun_upd_None_restrict)
  moreover have "cclosers ?d = cclosers (collected (ds @ [h]) c)"
    using res by (simp add: detachSelf_def collected_def Let_def map_filter_append
        removeDCSendStateLocked_def)
  moreover have "cstates ?d = cstates (collected (ds @ [h]) c)"
    using h by (simp add: detachSelf_def collected_def Let_def map_filter_append
        removeDCSendStateLocked_def split: option.splits)
  moreover have "ctrace ?d = ctrace (collected (ds @ [h]) c)"
    by (simp add: detachSelf_def collected_def Let_def removeDCSendStateLocked_def)
  ultimately show ?thesis
    by (intro collection.equality) (simp_all add: collected_def)
qed

text \<open>
  A collection started from the handles \<open>hs\<close> removes exactly the subtrees of the registered
  ones, every handle once and after everything below it.
\<close>

definition subtrees :: "Registry \<Rightarrow> handle list \<Rightarrow> handle set" where
  "subtrees r hs = (\<Union>h \<in> set hs \<inter> dom (resources r). desc (parent r) h)"

definition postorder :: "(handle \<rightharpoonup> handle) \<Rightarrow> handle list \<Rightarrow> bool" where
  "postorder par ds \<longleftrightarrow> sorted_wrt (\<lambda>a b. b \<notin> desc par a) ds"

definition collects :: "handle list \<Rightarrow> collection \<Rightarrow> collection option \<Rightarrow> bool" where
  "collects hs c res \<longleftrightarrow>
     (\<exists>ds. res = Some (collected ds c) \<and> postorder (parent (creg c)) ds \<and> set ds = subtrees (creg c) hs)"

lemma postorder_distinct: "postorder par ds \<Longrightarrow> distinct ds"
  unfolding postorder_def by (induction ds) auto

lemma downset_subtrees: "downset (parent r) (subtrees r hs)"
  by (auto simp: subtrees_def intro: downset_Union)

lemma creg_collected [simp]: "creg (collected ds c) = prune (set ds) (creg c)"
  by (simp add: collected_def)

lemma subtrees_Cons:
  "subtrees r (h # hs) = subtrees r [h] \<union> subtrees (prune (subtrees r [h]) r) hs" (is "_ = ?D \<union> _")
proof -
  have d: "downset (parent r) ?D" by (rule downset_subtrees)
  have "?D \<union> desc (parent (prune ?D r)) k = ?D \<union> desc (parent r) k" if "k \<notin> ?D" for k
    using desc_restrict [OF d that] by auto
  moreover have "desc (parent r) k \<subseteq> ?D" if "k \<in> ?D" for k
    using downsetD [OF d _ that] by blast
  ultimately have "?D \<union> subtrees (prune ?D r) hs = ?D \<union> subtrees r hs"
    unfolding subtrees_def [of "prune ?D r"] subtrees_def [of r hs]
    by (simp add: dom_restrict_Compl) blast
  then show ?thesis by (auto simp: subtrees_def)
qed

lemma postorder_append:
  assumes "postorder par ds" and "postorder (par |` (- set ds)) es"
    and "downset par (set ds)" and "set ds \<inter> set es = {}"
  shows "postorder par (ds @ es)"
proof -
  have "b \<notin> desc par a" if "a \<in> set ds" "b \<in> set es" for a b
    using that assms(4) downsetD [OF assms(3), of b a] by auto
  moreover have "sorted_wrt (\<lambda>a b. b \<notin> desc par a) es"
  proof (rule sorted_wrt_mono_rel [OF _ assms(2) [unfolded postorder_def]])
    fix a b assume "a \<in> set es" "b \<in> set es" "b \<notin> desc (par |` (- set ds)) a"
    then show "b \<notin> desc par a"
      using desc_restrict [OF assms(3), of a] assms(4) by auto
  qed
  ultimately show ?thesis using assms(1) by (simp add: postorder_def sorted_wrt_append)
qed

lemma collects_Cons:
  assumes one: "collects [h] c (collectLocked n h c)"
    and rest: "\<And>c1. collectLocked n h c = Some c1 \<Longrightarrow> collects hs c1 (collectKids n hs c1)"
  shows "collects (h # hs) c (collectKids n (h # hs) c)"
proof -
  from one obtain ds where ds: "collectLocked n h c = Some (collected ds c)"
    "postorder (parent (creg c)) ds" "set ds = subtrees (creg c) [h]"
    by (auto simp: collects_def)
  from rest [OF ds(1)] obtain es where es: "collectKids n hs (collected ds c) = Some (collected es (collected ds c))"
    "postorder (parent (creg c) |` (- set ds)) es" "set es = subtrees (prune (set ds) (creg c)) hs"
    by (auto simp: collects_def)
  have d: "downset (parent (creg c)) (set ds)" unfolding ds(3) by (rule downset_subtrees)
  have dis: "set ds \<inter> set es = {}"
  proof -
    have "desc (parent (prune (set ds) (creg c))) k \<inter> set ds = {}" if "k \<notin> set ds" for k
      using desc_restrict [OF d that] by auto
    then show ?thesis by (auto simp: es(3) subtrees_def dom_restrict_Compl)
  qed
  have "postorder (parent (creg c)) (ds @ es)" by (rule postorder_append [OF ds(2) es(2) d dis])
  moreover have "set (ds @ es) = subtrees (creg c) (h # hs)"
    using subtrees_Cons [of "creg c" h hs] by (simp add: ds(3) es(3))
  ultimately show ?thesis
    unfolding collects_def using ds(1) es(1) collected_append [OF dis] by auto
qed

lemma subtree_children:
  assumes core: "reg_core X r" and h: "h \<notin> X"
  shows "desc (parent r) h = insert h (\<Union>k \<in> set (kids_of r h). desc (parent r) k)"
proof -
  have "{k. parent r k = Some h} = set (kids_of r h)"
    using core h by (cases "children r h") (fastforce simp: reg_core_def kids_of_simps)+
  then show ?thesis using desc_unfold [of "parent r" h] by simp
qed

lemma kid_registered:
  "reg_core X r \<Longrightarrow> k \<in> set (kids_of r h) \<Longrightarrow> k \<in> dom (resources r) \<and> parent r k = Some h"
proof -
  assume core: "reg_core X r" and k: "k \<in> set (kids_of r h)"
  then have "parent r k = Some h"
    by (cases "children r h") (auto simp: reg_core_def kids_of_simps)
  then show ?thesis using core by (auto simp: reg_core_def dest: subsetD [OF _ domI])
qed

text \<open>The last step of \<open>collectLocked\<close>, from the collection of the children.\<close>

lemma collects_self:
  assumes core: "reg_core X (creg c)" and hX: "h \<notin> X" and res: "resources (creg c) h = Some res"
    and kids: "collects (kids_of (creg c) h)
      (c\<lparr>creg := (creg c)\<lparr>children := (children (creg c))(h := None)\<rparr>\<rparr>) (Some c')"
  shows "collects [h] c (Some (detachSelf h res c'))"
proof -
  let ?par = "parent (creg c)"
  have wf: "wf ((descends ?par)\<inverse>)" using core by (simp add: reg_core_def)
  have sub: "set (kids_of (creg c) h) \<inter> dom (resources (creg c)) = set (kids_of (creg c) h)"
    using kid_registered [OF core] by blast
  obtain ds where ds: "c' = collected ds (c\<lparr>creg := (creg c)\<lparr>children := (children (creg c))(h := None)\<rparr>\<rparr>)"
    "postorder ?par ds" "set ds = (\<Union>k \<in> set (kids_of (creg c) h). desc ?par k)"
    using kids by (auto simp: collects_def subtrees_def sub)
  have low: "h \<notin> desc ?par k" if "k \<in> set (kids_of (creg c) h)" for k
    using kid_registered [OF core that] wf_desc_antisym [OF wf, of k h] by simp
  then have h: "h \<notin> set ds" by (simp add: ds(3))
  have "h \<notin> desc ?par a" if "a \<in> set ds" for a
  proof
    assume "h \<in> desc ?par a"
    with that ds(3) obtain k where "k \<in> set (kids_of (creg c) h)" "h \<in> desc ?par k"
      by (auto intro: desc_trans)
    then show False using low by blast
  qed
  then have "postorder ?par (ds @ [h])"
    using ds(2) by (simp add: postorder_def sorted_wrt_append)
  moreover have "set (ds @ [h]) = subtrees (creg c) [h]"
    using subtree_children [OF core hX] res ds(3) by (auto simp: subtrees_def)
  ultimately show ?thesis
    using detachSelf_collected [OF core res h] ds(1) by (auto simp: collects_def)
qed

lemma collect_spec:
  "\<lbrakk>reg_core X (creg c); subtrees (creg c) [h] \<inter> X = {}; card (dom (children (creg c))) < n\<rbrakk>
    \<Longrightarrow> collects [h] c (collectLocked n h c)"
  "\<lbrakk>reg_core X (creg c); subtrees (creg c) hs \<inter> X = {}; card (dom (children (creg c))) < n\<rbrakk>
    \<Longrightarrow> collects hs c (collectKids n hs c)"
proof (induction n h c and n hs c arbitrary: X and X rule: collectLocked_collectKids.induct)
  case (2 n h c)
  show ?case
  proof (cases "resources (creg c) h")
    case None
    then show ?thesis
      by (auto simp: collects_def subtrees_def postorder_def intro!: exI [of _ "[]"])
  next
    case (Some res)
    let ?c = "c\<lparr>creg := (creg c)\<lparr>children := (children (creg c))(h := None)\<rparr>\<rparr>"
    have hX: "h \<notin> X" using 2(3) Some by (auto simp: subtrees_def)
    show ?thesis
    proof (cases "children (creg c) h")
      case None
      then have "?c = c" by (simp add: fun_upd_idem)
      then have "collects (kids_of (creg c) h) ?c (Some c)"
        using None by (auto simp: collects_def kids_of_simps subtrees_def postorder_def intro!: exI [of _ "[]"])
      then show ?thesis using None Some collects_self [OF 2(2) hX Some] by simp
    next
      case kids: (Some ks)
      have fin: "card (dom (children (creg ?c))) < n"
      proof -
        have "card (dom (children (creg c)) - {h}) < card (dom (children (creg c)))"
          using 2(2) kids by (intro card_Diff1_less) (auto simp: reg_core_def)
        then show ?thesis using 2(4) by simp
      qed
      have below: "subtrees (creg ?c) ks \<inter> insert h X = {}"
        using 2(2,3) Some kids wf_desc_antisym [of "parent (creg c)"] subtree_children [OF 2(2) hX]
          kid_registered [OF 2(2), of _ h]
        by (auto simp: subtrees_def reg_core_def kids_of_simps)
      have "collects ks ?c (collectKids n ks ?c)"
        using 2(1) [OF Some kids _ below fin] reg_core_detach [OF 2(2)] by simp
      moreover from this obtain c' where c': "collectKids n ks ?c = Some c'"
        by (auto simp: collects_def)
      ultimately have "collects [h] c (Some (detachSelf h res c'))"
        using collects_self [OF 2(2) hX Some] kids by (simp add: kids_of_simps)
      then show ?thesis using kids Some c' by simp
    qed
  qed
next
  case (4 n h hs c)
  show ?case
  proof (rule collects_Cons)
    show one: "collects [h] c (collectLocked n h c)"
      using 4(1) [OF 4(3) _ 4(5)] 4(4) subtrees_Cons [of "creg c" h hs] by auto
    fix c1 assume c1: "collectLocked n h c = Some c1"
    then obtain ds where ds: "c1 = collected ds c" "set ds = subtrees (creg c) [h]"
      using one by (auto simp: collects_def)
    have "subtrees (creg c1) hs \<inter> X = {}" "set ds \<inter> X = {}"
      using 4(4) subtrees_Cons [of "creg c" h hs] ds by auto
    moreover have "reg_core X (creg c1)"
      using reg_core_prune [OF 4(3), of "set ds"] downset_subtrees ds \<open>set ds \<inter> X = {}\<close> by auto
    moreover have "card (dom (children (creg c1))) < n"
    proof (rule le_less_trans [OF card_mono 4(5)])
      show "finite (dom (children (creg c)))" using 4(3) by (simp add: reg_core_def)
      show "dom (children (creg c1)) \<subseteq> dom (children (creg c))"
        using ds(1) by (auto split: if_splits)
    qed
    ultimately show "collects hs c1 (collectKids n hs c1)"
      using 4(2) [OF c1] by blast
  qed
qed (auto simp: collects_def subtrees_def postorder_def intro!: exI [of _ "[]"])

section \<open>Delete and Cleanup in closed form\<close>

definition closeOrder :: "Registry \<Rightarrow> handle list \<Rightarrow> shutdown list" where
  "closeOrder r ds = map CloseState (List.map_filter (dcSendStates r) ds)
     @ map CloseResource (filter isCloser (List.map_filter (resources r) ds))"

lemma collectKids_start:
  assumes "reg_inv r"
  shows "\<exists>ds. collectKids (collectFuel r) hs \<lparr>creg = r, cclosers = [], cstates = [], ctrace = t\<rparr>
      = Some (collected ds \<lparr>creg = r, cclosers = [], cstates = [], ctrace = t\<rparr>)
    \<and> postorder (parent r) ds \<and> set ds = subtrees r hs"
  using collect_spec(2) [of "{}" "\<lparr>creg = r, cclosers = [], cstates = [], ctrace = t\<rparr>" hs "collectFuel r"] assms
  by (auto simp: reg_inv_def collectFuel_def collects_def)

lemma Delete_eq:
  assumes inv: "reg_inv r" and h: "resources r h \<noteq> None"
  shows "\<exists>ds. Delete h t r = Some (Inr (closeOrder r ds, prune (set ds) r, fold ReleaseDC ds t))
    \<and> postorder (parent r) ds \<and> set ds = desc (parent r) h"
proof -
  let ?c = "\<lparr>creg = r, cclosers = [], cstates = [], ctrace = t\<rparr>"
  have "subtrees r [h] = desc (parent r) h" using h by (auto simp: subtrees_def)
  then obtain ds where ds: "collectLocked (collectFuel r) h ?c = Some (collected ds ?c)"
    "postorder (parent r) ds" "set ds = desc (parent r) h"
    using collect_spec(1) [of "{}" ?c h "collectFuel r"] inv
    by (auto simp: reg_inv_def collectFuel_def collects_def simp del: collectLocked.simps)
  then have "Delete h t r = Some (Inr (closeOrder r ds, prune (set ds) r, fold ReleaseDC ds t))"
    using h by (simp add: Delete_def closeCollected_def closeOrder_def collected_def)
  then show ?thesis using ds by blast
qed

lemma reg_inv_prune [pres]: "reg_inv r \<Longrightarrow> downset (parent r) D \<Longrightarrow> reg_inv (prune D r)"
  unfolding reg_inv_def by (rule reg_core_prune) simp_all

lemma reg_inv_Delete [pres]:
  assumes "reg_inv r" and "Delete h t r = Some (Inr (log, r', t'))"
  shows "reg_inv r'"
proof -
  have "resources r h \<noteq> None" using assms(2) by (auto simp: Delete_def split: if_splits)
  from Delete_eq [OF assms(1) this, of t] show ?thesis using assms by (auto intro: reg_inv_prune)
qed

text \<open>What the read-locked pass of the sweep returns.\<close>

definition rootResource :: "Registry \<Rightarrow> handle \<Rightarrow> resource option" where
  "rootResource r h = (case rootOf (parent r) h of None \<Rightarrow> None | Some root \<Rightarrow> resources r root)"

definition isLive :: "(nat \<Rightarrow> PeerConnectionState) \<Rightarrow> Registry \<Rightarrow> handle \<Rightarrow> bool" where
  "isLive connState r h = isLivePeerConnection connState (rootResource r h)"

lemma cleanupScan_eq:
  assumes "reg_inv r"
  shows "cleanupScan now maxAge r hs =
    Some (map (\<lambda>h. (h, rootResource r h)) (filter (isExpired now maxAge r) hs))"
proof (induction hs)
  case (Cons h hs)
  obtain root where "rootOf (parent r) h = Some root"
    using rootOf_returns [OF reg_inv_wf [OF assms]] by blast
  then show ?case using Cons by (simp add: rootResource_def)
qed simp

lemma touchAll_returns:
  "reg_inv r \<Longrightarrow> \<exists>r'. touchAll now hs r = Some r'"
proof (induction hs arbitrary: r)
  case (Cons h hs)
  then obtain r1 where r1: "Touch now h r = Some r1" using Touch_eq by blast
  then show ?case using Cons.IH [OF reg_inv_Touch [OF Cons.prems r1]] by simp
qed simp

definition reaped :: "int \<Rightarrow> int \<Rightarrow> handle list \<Rightarrow> (nat \<Rightarrow> PeerConnectionState) \<Rightarrow> Registry \<Rightarrow> handle set" where
  "reaped now maxAge order connState r =
     subtrees r (filter (\<lambda>h. isExpired now maxAge r h \<and> \<not> isLive connState r h) order)"

lemma downset_reaped: "downset (parent r) (reaped now maxAge order connState r)"
  by (simp add: reaped_def downset_subtrees)

definition spared :: "int \<Rightarrow> int \<Rightarrow> handle list \<Rightarrow> (nat \<Rightarrow> PeerConnectionState) \<Rightarrow> Registry \<Rightarrow> handle list" where
  "spared now maxAge order connState r =
     filter (isLive connState r) (filter (isExpired now maxAge r) order)"

lemma Cleanup_eq:
  assumes inv: "reg_inv r"
  shows "\<exists>ds r'. Cleanup now later maxAge order connState t r =
      Some (closeOrder r ds, r', fold ReleaseDC ds t)
    \<and> postorder (parent r) ds \<and> set ds = reaped now maxAge order connState r
    \<and> touchAll later (spared now maxAge order connState r) (prune (set ds) r) = Some r'"
proof -
  let ?exp = "filter (isExpired now maxAge r) order"
  let ?c = "\<lparr>creg = r, cclosers = [], cstates = [], ctrace = t\<rparr>"
  let ?reap = "filter (\<lambda>h. \<not> isLive connState r h) ?exp"
  obtain ds where ds: "collectKids (collectFuel r) ?reap ?c = Some (collected ds ?c)"
    "postorder (parent r) ds" "set ds = subtrees r ?reap"
    using collectKids_start [OF inv] by blast
  have set: "set ds = reaped now maxAge order connState r"
    unfolding ds(3) reaped_def by (simp add: conj_commute)
  have inv': "reg_inv (prune (set ds) r)"
    using inv unfolding set by (rule reg_inv_prune) (rule downset_reaped)
  obtain r' where r': "touchAll later (spared now maxAge order connState r) (prune (set ds) r) = Some r'"
    using touchAll_returns [OF inv'] by blast
  have maps: "map fst (filter (\<lambda>(h, root). isLivePeerConnection connState root)
        (map (\<lambda>h. (h, rootResource r h)) ?exp)) = (spared now maxAge order connState r)"
    "map fst (filter (\<lambda>x. \<not> (case x of (h, root) \<Rightarrow> isLivePeerConnection connState root))
        (map (\<lambda>h. (h, rootResource r h)) ?exp)) = ?reap"
    by (simp_all add: filter_map o_def isLive_def [abs_def] spared_def del: filter_filter)
  show ?thesis
  proof (cases "?exp = []")
    case True
    then have "set ds = {}" unfolding ds(3) by (simp add: subtrees_def)
    moreover have "spared now maxAge order connState r = []" unfolding spared_def True by simp
    ultimately show ?thesis using True
      by (intro exI [of _ "[]"])
        (simp add: Cleanup_def cleanupScan_eq [OF inv] closeOrder_def postorder_def set [symmetric])
  next
    case False
    then have "Cleanup now later maxAge order connState t r =
        Some (closeOrder r ds, r', fold ReleaseDC ds t)"
      unfolding Cleanup_def cleanupScan_eq [OF inv] Let_def bind.bind_lunit maps cleanupReap_def ds(1)
      by (simp add: r' collected_def closeCollected_def closeOrder_def del: filter_filter)
    then show ?thesis using r' ds(2) set by blast
  qed
qed

section \<open>Runs of the registry\<close>

text \<open>
  One constructor per method of the registry and per use of the trace allocator, each an atomic
  step. A new handle is fresh: the UUIDs of a run do not repeat.
\<close>

inductive reg_step :: "Registry \<times> PionTrace \<Rightarrow> Registry \<times> PionTrace \<Rightarrow> bool" where
  step_Register:
    "fresh (generateHandle uuid) r \<Longrightarrow> reg_step (r, t) (snd (Register uuid now res r), t)"
| step_RegisterChild:
    "fresh (generateHandle uuid) r \<Longrightarrow> p \<noteq> generateHandle uuid
     \<Longrightarrow> reg_step (r, t) (snd (RegisterChild uuid now res p r), t)"
| step_Lookup: "reg_step (r, t) (snd (Lookup now h r), t)"
| step_Touch: "Touch now h r = Some r' \<Longrightarrow> reg_step (r, t) (r', t)"
| step_RegisterDCSendState: "reg_step (r, t) (snd (RegisterDCSendState h st r), t)"
| step_RemoveDCSendState: "reg_step (r, t) (snd (RemoveDCSendState h r), t)"
| step_Delete: "Delete h t r = Some (Inr (log, r', t')) \<Longrightarrow> reg_step (r, t) (r', t')"
| step_Cleanup:
    "Cleanup now later maxAge order connState t r = Some (log, r', t') \<Longrightarrow> reg_step (r, t) (r', t')"
| step_DCIdx: "reg_step (r, t) (r, snd (DCIdx h t))"

inductive reg_reachable :: "Registry \<times> PionTrace \<Rightarrow> bool" where
  reach_init: "reg_reachable (NewRegistry, newTrace)"
| reach_step: "reg_reachable s \<Longrightarrow> reg_step s s' \<Longrightarrow> reg_reachable s'"

lemma trace_inv_fold_ReleaseDC [pres]: "trace_inv t \<Longrightarrow> trace_inv (fold ReleaseDC ds t)"
  by (induction ds arbitrary: t) (simp_all add: trace_inv_ReleaseDC)

lemma reg_inv_fold_touchAt [pres]: "reg_inv r \<Longrightarrow> reg_inv (fold (touchAt now) ks r)"
  by (simp add: reg_inv_def reg_core_cong [of "fold (touchAt now) ks r" r])

lemma reg_step_inv:
  assumes "reg_step s s'" and "reg_inv (fst s) \<and> trace_inv (snd s)"
  shows "reg_inv (fst s') \<and> trace_inv (snd s')"
  using assms
proof (cases rule: reg_step.cases)
  case (step_Delete h t r log r' t')
  have "resources r h \<noteq> None" using step_Delete(3) by (auto simp: Delete_def split: if_splits)
  from Delete_eq [OF _ this, of t] show ?thesis
    using step_Delete assms(2) by (auto intro: reg_inv_prune trace_inv_fold_ReleaseDC)
next
  case (step_Cleanup now later maxAge order connState t r log r' t')
  from Cleanup_eq [of r now later maxAge order connState t] show ?thesis
    using step_Cleanup assms(2)
    by (auto elim!: touchAll_Some
        intro!: reg_inv_fold_touchAt reg_inv_prune trace_inv_fold_ReleaseDC downset_reaped)
next
  case (step_Touch now h r r' t)
  then show ?thesis using assms(2) reg_inv_Touch [OF _ step_Touch(3)] by simp
qed (use assms(2) in \<open>simp_all add: reg_inv_Register reg_inv_RegisterChild reg_inv_Lookup
      reg_inv_dcSendStates trace_inv_DCIdx\<close>)

lemma reg_inv_reachable: "reg_reachable s \<Longrightarrow> reg_inv (fst s) \<and> trace_inv (snd s)"
proof (induction rule: reg_reachable.induct)
  case reach_init
  then show ?case by (simp add: reg_inv_New trace_inv_new)
next
  case (reach_step s s')
  show ?case by (rule reg_step_inv [OF reach_step.hyps(2) reach_step.IH])
qed

lemma touchAll_lastSeen:
  assumes "reg_inv r" and "touchAll now hs r = Some r'"
  shows "lastSeen r' k = (if \<exists>h \<in> set hs. h \<in> dom (resources r) \<and> h \<in> desc (parent r) k
     then map_option (touchStamp now) (lastSeen r k) else lastSeen r k)"
  using assms
proof (induction hs arbitrary: r)
  case (Cons h hs)
  from Touch_eq [OF Cons.prems(1), of now h] obtain r1 where
    r1: "Touch now h r = Some r1" and ls: "lastSeen r1 =
     (\<lambda>k. if lastSeen r h \<noteq> None \<and> h \<in> desc (parent r) k
          then map_option (touchStamp now) (lastSeen r k) else lastSeen r k)" by blast
  from r1 obtain ps where ps: "r1 = fold (touchAt now) ps r" by (rule Touch_Some)
  have dom: "lastSeen r h \<noteq> None \<longleftrightarrow> h \<in> dom (resources r)"
    using Cons.prems(1) by (auto simp: reg_inv_def reg_core_def)
  have "touchAll now hs r1 = Some r'" using Cons.prems(2) r1 by simp
  from Cons.IH [OF reg_inv_Touch [OF Cons.prems(1) r1] this] show ?case
    using dom by (auto simp: ps ls [unfolded ps] option.map_comp o_def)
qed simp

lemma rootOf_desc:
  assumes "wf ((descends par)\<inverse>)" and "h \<in> desc par k"
  shows "rootOf par h = rootOf par k"
proof -
  have "(h, k) \<in> (descends par)\<^sup>*" using assms(2) by (simp add: desc_def)
  then show ?thesis
    by (induction rule: converse_rtrancl_induct) (simp_all add: rootOf.simps)
qed

lemma isLive_desc:
  "reg_inv r \<Longrightarrow> h \<in> desc (parent r) k \<Longrightarrow> isLive connState r h = isLive connState r k"
  using rootOf_desc [OF reg_inv_wf] by (simp add: isLive_def rootResource_def)

lemma notin_reaped:
  assumes "\<And>k. h \<in> desc (parent r) k \<Longrightarrow> isExpired now maxAge r k \<Longrightarrow> isLive connState r k"
  shows "h \<notin> reaped now maxAge order connState r"
  using assms by (auto simp: reaped_def subtrees_def)

lemma isExpired_fresh:
  assumes "lastSeen r k = map_option (touchStamp t0) st" and "now - t0 + second \<le> maxAge"
  shows "\<not> isExpired now maxAge r k"
  using assms by (cases st) (auto simp: isExpired_def touchStamp_def second_def split: if_splits)

section \<open>Properties\<close>

text \<open>
  C5: In every state the methods can reach, the five maps agree: exactly the registered handles
  have a stamp, only registered handles have a parent, the \<open>children\<close> lists are duplicate-free
  and are precisely the inverse of the \<open>parent\<close> map, the parent links contain no cycle and the
  maps are finite; and the trace slot allocator is consistent.
\<close>

theorem registry_reachable_inv:
  assumes "reg_reachable (r, t)"
  shows "reg_inv r \<and> trace_inv t"
  using reg_inv_reachable [OF assms] by simp

text \<open>
  C1: \<open>Delete\<close> of a registered handle returns without error after removing the handle and
  everything below it from all five maps, and leaves every other entry as it was (a surviving parent
  only loses the handle from its \<open>children\<close> list). Every removed handle is collected exactly
  once, after everything below it: the send state of each is closed, then each resource that is a
  closer, DataChannels before their PeerConnection; and its trace slot is released.
\<close>

theorem Delete_cascade:
  assumes "reg_inv r" and "resources r h \<noteq> None"
  shows "\<exists>ds. Delete h t r = Some (Inr (closeOrder r ds, prune (desc (parent r) h) r, fold ReleaseDC ds t))
    \<and> set ds = desc (parent r) h \<and> distinct ds
    \<and> (\<forall>i j. i < j \<longrightarrow> j < length ds \<longrightarrow> ds ! j \<notin> desc (parent r) (ds ! i))"
proof -
  from Delete_eq [OF assms, of t] obtain ds where
    ds: "Delete h t r = Some (Inr (closeOrder r ds, prune (set ds) r, fold ReleaseDC ds t))"
    "postorder (parent r) ds" "set ds = desc (parent r) h" by blast
  then show ?thesis
    using postorder_distinct [OF ds(2)] ds(2)
    by (intro exI [of _ ds]) (simp add: postorder_def sorted_wrt_iff_nth_less)
qed

text \<open>\<open>Delete\<close> of an unknown handle reports it and changes nothing.\<close>

theorem Delete_unknown:
  "Delete h t r = Some (Inl e) \<longleftrightarrow> resources r h = None \<and> e = HandleNotFound h"
  by (auto simp: Delete_def split: bind_splits)

text \<open>
  \<open>Touch\<close> always returns and refreshes the handle and all its ancestors: a sweep that
  starts within \<open>maxAge\<close> less one second of it (the store is skipped for stamps younger than a
  second) removes neither the handle nor anything above it, whatever the connection states and the
  order of the map iteration.
\<close>

theorem Touch_survives_Cleanup:
  assumes inv: "reg_inv r" and h: "resources r h \<noteq> None" and age: "now - t0 + second \<le> maxAge"
  shows "\<exists>r1 log r2 t2. Touch t0 h r = Some r1 \<and>
    Cleanup now later maxAge order connState t r1 = Some (log, r2, t2) \<and>
    (\<forall>k. h \<in> desc (parent r) k \<longrightarrow> resources r2 k = resources r k \<and> dcSendStates r2 k = dcSendStates r k)"
proof -
  have "lastSeen r h \<noteq> None" using inv h by (auto simp: reg_inv_def reg_core_def)
  with Touch_eq [OF inv, of t0 h] obtain r1 where r1: "Touch t0 h r = Some r1"
    and ls: "\<And>k. h \<in> desc (parent r) k \<Longrightarrow> lastSeen r1 k = map_option (touchStamp t0) (lastSeen r k)"
    by auto
  from r1 obtain ps where ps: "r1 = fold (touchAt t0) ps r" by (rule Touch_Some)
  from Cleanup_eq [OF reg_inv_Touch [OF inv r1], of now later maxAge order connState t] obtain ds r2 where
    c: "Cleanup now later maxAge order connState t r1 = Some (closeOrder r1 ds, r2, fold ReleaseDC ds t)"
    and ds: "set ds = reaped now maxAge order connState r1"
    and r2: "touchAll later (spared now maxAge order connState r1) (prune (set ds) r1) = Some r2" by blast
  from r2 obtain ks where ks: "r2 = fold (touchAt later) ks (prune (set ds) r1)" by (rule touchAll_Some)
  have "k \<notin> set ds" if k: "h \<in> desc (parent r) k" for k
    unfolding ds
  proof (rule notin_reaped)
    fix q assume "k \<in> desc (parent r1) q" "isExpired now maxAge r1 q"
    moreover from this(1) k have "h \<in> desc (parent r) q" by (auto simp: ps intro: desc_trans)
    ultimately show "isLive connState r1 q" using isExpired_fresh [OF ls age] by blast
  qed
  then have "\<forall>k. h \<in> desc (parent r) k \<longrightarrow> resources r2 k = resources r k \<and> dcSendStates r2 k = dcSendStates r k"
    by (simp add: ks ps)
  then show ?thesis using r1 c by blast
qed

text \<open>
  C6: the sweep always returns. It removes exactly the handles that are below (or are) a handle
  whose stamp is older than \<open>maxAge\<close> and whose root is not a connected PeerConnection; it
  changes no surviving resource, parent or send state, and closes what it removed, every handle
  once and after what is below it. An expired handle of a connected PeerConnection is kept, and its
  stamp and those above it are refreshed.
\<close>

theorem Cleanup_exact:
  assumes inv: "reg_inv r" and order: "set order = dom (lastSeen r)"
  shows "\<exists>ds r'. Cleanup now later maxAge order connState t r = Some (closeOrder r ds, r', fold ReleaseDC ds t)
    \<and> distinct ds \<and> postorder (parent r) ds
    \<and> set ds = {h. \<exists>k. h \<in> desc (parent r) k \<and> isExpired now maxAge r k \<and> \<not> isLive connState r k}
    \<and> resources r' = resources r |` (- set ds) \<and> parent r' = parent r |` (- set ds)
    \<and> dcSendStates r' = dcSendStates r |` (- set ds) \<and> dom (lastSeen r') = dom (resources r')
    \<and> (\<forall>h k. isExpired now maxAge r h \<and> isLive connState r h \<and> h \<in> desc (parent r) k \<longrightarrow>
         h \<notin> set ds \<and> lastSeen r' k = map_option (touchStamp later) (lastSeen r k))"
proof -
  from Cleanup_eq [OF inv, of now later maxAge order connState t] obtain ds r' where
    c: "Cleanup now later maxAge order connState t r = Some (closeOrder r ds, r', fold ReleaseDC ds t)"
    and po: "postorder (parent r) ds" and ds: "set ds = reaped now maxAge order connState r"
    and r': "touchAll later (spared now maxAge order connState r) (prune (set ds) r) = Some r'" by blast
  from r' obtain ks where ks: "r' = fold (touchAt later) ks (prune (set ds) r)" by (rule touchAll_Some)
  have inv': "reg_inv (prune (set ds) r)"
    using inv unfolding ds by (rule reg_inv_prune) (rule downset_reaped)
  have reg: "k \<in> dom (lastSeen r) \<and> k \<in> dom (resources r)" if "isExpired now maxAge r k" for k
    using that inv by (auto simp: isExpired_def reg_inv_def reg_core_def split: option.splits)
  have set: "set ds = {h. \<exists>k. h \<in> desc (parent r) k \<and> isExpired now maxAge r k \<and> \<not> isLive connState r k}"
  proof -
    have "set (filter (\<lambda>h. isExpired now maxAge r h \<and> \<not> isLive connState r h) order) \<inter> dom (resources r)
        = {k. isExpired now maxAge r k \<and> \<not> isLive connState r k}"
      using order by (auto dest: reg)
    then show ?thesis unfolding ds reaped_def subtrees_def by (simp only:) blast
  qed
  have keep: "h \<notin> set ds" if "isLive connState r h" for h
    using that isLive_desc [OF inv] by (auto simp: set)
  have spare: "h \<notin> set ds \<and> lastSeen r' k = map_option (touchStamp later) (lastSeen r k)"
    if h: "isExpired now maxAge r h" "isLive connState r h" "h \<in> desc (parent r) k" for h k
  proof -
    have k: "k \<notin> set ds" using keep h isLive_desc [OF inv h(3)] by simp
    have "h \<in> desc (parent (prune (set ds) r)) k"
      using desc_restrict [OF downset_reaped, of k] h(3) keep [OF h(2)] k ds by simp
    moreover have "h \<in> set (spared now maxAge order connState r)"
      using h reg order by (simp add: spared_def)
    moreover have "h \<in> dom (resources (prune (set ds) r))"
      using reg [OF h(1)] keep [OF h(2)] by auto
    ultimately show ?thesis using touchAll_lastSeen [OF inv' r'] keep [OF h(2)] k by auto
  qed
  have "dom (lastSeen r') = dom (resources r')"
    using reg_inv_fold_touchAt [OF inv', of later ks] by (simp add: ks reg_inv_def reg_core_def)
  moreover have "resources r' = resources r |` (- set ds)" "parent r' = parent r |` (- set ds)"
    "dcSendStates r' = dcSendStates r |` (- set ds)"
    by (simp_all add: ks)
  moreover have "\<forall>h k. isExpired now maxAge r h \<and> isLive connState r h \<and> h \<in> desc (parent r) k \<longrightarrow>
      h \<notin> set ds \<and> lastSeen r' k = map_option (touchStamp later) (lastSeen r k)"
    using spare by blast
  ultimately show ?thesis using c po postorder_distinct [OF po] set by blast
qed

section \<open>Witnesses\<close>

text \<open>A PeerConnection \<open>p\<close> with one DataChannel \<open>d\<close> and its send state.\<close>

definition exampleRegistry :: Registry where
  "exampleRegistry =
     snd (RegisterDCSendState ''d'' 7
       (snd (RegisterChild ''d-'' 0 (DataChannel 1) ''p'' (snd (Register ''p-'' 0 (PeerConnection 0) NewRegistry)))))"

lemma exampleRegistry_reachable: "reg_reachable (exampleRegistry, newTrace)"
proof -
  let ?r1 = "snd (Register ''p-'' 0 (PeerConnection 0) NewRegistry)"
  have 1: "reg_reachable (?r1, newTrace)"
    by (rule reach_step [OF reach_init]) (rule step_Register, simp add: fresh_def NewRegistry_def)
  have "fresh (generateHandle ''d-'') ?r1"
    by (simp add: fresh_def NewRegistry_def Register_def Let_def newStampLocked_def generateHandle_def)
  then have "reg_reachable (snd (RegisterChild ''d-'' 0 (DataChannel 1) ''p'' ?r1), newTrace)"
    by (intro reach_step [OF 1] step_RegisterChild) (simp_all add: generateHandle_def)
  then show ?thesis unfolding exampleRegistry_def
    by (rule reach_step) (rule step_RegisterDCSendState)
qed

lemma exampleRegistry_inv: "reg_inv exampleRegistry"
  using reg_inv_reachable [OF exampleRegistry_reachable] by simp

lemmas exampleRegistry_simps = exampleRegistry_def RegisterDCSendState_def RegisterChild_def Register_def
  NewRegistry_def Let_def newStampLocked_def generateHandle_def kids_of_def

theorem registry_reachable_inv_witness: "reg_inv exampleRegistry \<and> trace_inv newTrace"
  using registry_reachable_inv [OF exampleRegistry_reachable] by simp

theorem Delete_cascade_witness:
  "\<exists>ds. Delete ''p'' newTrace exampleRegistry = Some (Inr (closeOrder exampleRegistry ds,
      prune (desc (parent exampleRegistry) ''p'') exampleRegistry, fold ReleaseDC ds newTrace))
    \<and> set ds = desc (parent exampleRegistry) ''p'' \<and> distinct ds"
proof -
  have "resources exampleRegistry ''p'' \<noteq> None" by (simp add: exampleRegistry_simps)
  from Delete_cascade [OF exampleRegistry_inv this, of newTrace] show ?thesis by blast
qed

text \<open>The computed log of the same call: the send state, the channel, then the PeerConnection.\<close>

lemma Delete_example:
  "map_option (map_sum id fst) (Delete ''p'' newTrace exampleRegistry) =
     Some (Inr [CloseState 7, CloseResource (DataChannel 1), CloseResource (PeerConnection 0)])"
  by (simp add: Delete_def collectFuel_def exampleRegistry_simps eval_nat_numeral detachSelf_def
      removeDCSendStateLocked_def closeCollected_def)

theorem Touch_survives_Cleanup_witness:
  "\<exists>r1 log r2 t2. Touch (5 * second) ''d'' exampleRegistry = Some r1 \<and>
    Cleanup (9 * second) (9 * second) (5 * second) [''d'', ''p''] (\<lambda>_. PCFailed) newTrace r1 = Some (log, r2, t2) \<and>
    resources r2 ''d'' = Some (DataChannel 1) \<and> resources r2 ''p'' = Some (PeerConnection 0)"
proof -
  have d: "resources exampleRegistry ''d'' \<noteq> None" by (simp add: exampleRegistry_simps)
  have p: "''d'' \<in> desc (parent exampleRegistry) ''p''"
    by (rule desc_child [of _ _ "''p''"]) (simp_all add: exampleRegistry_simps)
  have "resources exampleRegistry ''d'' = Some (DataChannel 1)"
    "resources exampleRegistry ''p'' = Some (PeerConnection 0)"
    by (simp_all add: exampleRegistry_simps)
  then show ?thesis
    using Touch_survives_Cleanup [OF exampleRegistry_inv d, of "9 * second" "5 * second" "5 * second"
        "9 * second" "[''d'', ''p'']" "\<lambda>_. PCFailed" newTrace] p
    by (fastforce simp: second_def)
qed

theorem Cleanup_exact_witness:
  "\<exists>ds r'. Cleanup (9 * second) (9 * second) second [''d'', ''p''] (\<lambda>_. PCFailed) newTrace exampleRegistry
      = Some (closeOrder exampleRegistry ds, r', fold ReleaseDC ds newTrace)
    \<and> resources r' = resources exampleRegistry |` (- set ds) \<and> ''p'' \<in> set ds \<and> ''d'' \<in> set ds"
proof -
  have "set [''d'', ''p''] = dom (lastSeen exampleRegistry)" by (auto simp: exampleRegistry_simps)
  moreover have "isExpired (9 * second) second exampleRegistry ''p''" "''d'' \<in> desc (parent exampleRegistry) ''p''"
    by (auto simp: exampleRegistry_simps isExpired_def second_def intro: desc_child [of _ _ "''p''"])
  moreover have "\<not> isLive (\<lambda>_. PCFailed) exampleRegistry ''p''"
    by (simp add: isLive_def isLivePeerConnection_def split: option.splits resource.splits)
  ultimately show ?thesis
    using Cleanup_exact [OF exampleRegistry_inv, of "[''d'', ''p'']" "9 * second" "9 * second" second
        "\<lambda>_. PCFailed" newTrace] by blast
qed

end
