(* ===== verification/GoBytes.thy ===== *)
theory GoBytes
  imports Prelude
begin

text \<open>
  Byte slices and \<^verbatim>\<open>encoding/binary\<close> as the SCTP codecs use them, with their run-time panics:
  slicing and reading past the end is the error \<open>Panic\<close>, so that its absence can be stated.
  Every other error is named by the Go variable of the sentinel it wraps. Go bounds the upper index
  of a slice expression by the capacity; the model bounds it by the length, which is stricter, so a
  code path free of \<open>Panic\<close> here reads only bytes of its own slice.
\<close>

section \<open>Errors\<close>

datatype sctp_error = Panic | Err string

text \<open>\<open>fmt.Errorf("%w: %v", name, err)\<close> around a failed call.\<close>

definition wrapErr :: "string \<Rightarrow> (sctp_error, 'a) result \<Rightarrow> (sctp_error, 'a) result" where
  "wrapErr name m = (case m of Inl Panic \<Rightarrow> Inl Panic | Inl (Err _) \<Rightarrow> Inl (Err name) | Inr x \<Rightarrow> Inr x)"

definition no_panic :: "(sctp_error, 'a) result \<Rightarrow> bool" where
  "no_panic m \<longleftrightarrow> m \<noteq> Inl Panic"

section \<open>Slices and integers\<close>

definition sliceFrom :: "nat \<Rightarrow> bytes \<Rightarrow> (sctp_error, bytes) result" where
  "sliceFrom a b = (if a \<le> length b then Inr (drop a b) else Inl Panic)"

definition slice :: "nat \<Rightarrow> nat \<Rightarrow> bytes \<Rightarrow> (sctp_error, bytes) result" where
  "slice a z b = (if a \<le> z \<and> z \<le> length b then Inr (take (z - a) (drop a b)) else Inl Panic)"

definition index :: "nat \<Rightarrow> bytes \<Rightarrow> (sctp_error, byte) result" where
  "index i b = (if i < length b then Inr (b ! i) else Inl Panic)"

fun Uint16 :: "bytes \<Rightarrow> (sctp_error, u16) result" where
  "Uint16 (a # b # _) = Inr (push_bit 8 (ucast a) OR ucast b)"
| "Uint16 _ = Inl Panic"

fun Uint32 :: "bytes \<Rightarrow> (sctp_error, u32) result" where
  "Uint32 (a # b # c # d # _) =
     Inr (push_bit 24 (ucast a) OR push_bit 16 (ucast b) OR push_bit 8 (ucast c) OR ucast d)"
| "Uint32 _ = Inl Panic"

fun LittleUint32 :: "bytes \<Rightarrow> (sctp_error, u32) result" where
  "LittleUint32 (a # b # c # d # _) =
     Inr (ucast a OR push_bit 8 (ucast b) OR push_bit 16 (ucast c) OR push_bit 24 (ucast d))"
| "LittleUint32 _ = Inl Panic"

definition PutUint16 :: "u16 \<Rightarrow> bytes" where
  "PutUint16 w = [ucast (drop_bit 8 w), ucast w]"

definition PutUint32 :: "u32 \<Rightarrow> bytes" where
  "PutUint32 w = [ucast (drop_bit 24 w), ucast (drop_bit 16 w), ucast (drop_bit 8 w), ucast w]"

definition PutLittleUint32 :: "u32 \<Rightarrow> bytes" where
  "PutLittleUint32 w = [ucast w, ucast (drop_bit 8 w), ucast (drop_bit 16 w), ucast (drop_bit 24 w)]"

text \<open>\<open>binary.BigEndian.Uint16(raw[off:])\<close> and its 32-bit variant.\<close>

definition getU16 :: "nat \<Rightarrow> bytes \<Rightarrow> (sctp_error, u16) result" where
  "getU16 off b = bindR (sliceFrom off b) Uint16"

definition getU32 :: "nat \<Rightarrow> bytes \<Rightarrow> (sctp_error, u32) result" where
  "getU32 off b = bindR (sliceFrom off b) Uint32"

text \<open>A loop that reads \<open>n\<close> entries of \<open>w\<close> bytes each.\<close>

fun readN :: "(bytes \<Rightarrow> (sctp_error, 'a) result) \<Rightarrow> nat \<Rightarrow> nat \<Rightarrow> bytes \<Rightarrow> (sctp_error, 'a list) result" where
  "readN f w 0 b = Inr []"
| "readN f w (Suc n) b = bindR (f b) (\<lambda>x. bindR (readN f w n (drop w b)) (\<lambda>xs. Inr (x # xs)))"

section \<open>Padding\<close>

definition getPadding :: "nat \<Rightarrow> nat" where
  "getPadding l = (4 - l mod 4) mod 4"

definition padByte :: "bytes \<Rightarrow> int \<Rightarrow> bytes" where
  "padByte b cnt = b @ replicate (nat cnt) 0"

definition allZero :: "bytes \<Rightarrow> bool" where
  "allZero b = list_all (\<lambda>v. v = 0) b"

section \<open>Lemmas\<close>

lemma no_panic_Inr [simp]: "no_panic (Inr x)"
  by (simp add: no_panic_def)

lemma no_panic_Inl [simp]: "no_panic (Inl e) \<longleftrightarrow> e \<noteq> Panic"
  by (simp add: no_panic_def)

lemma no_panic_bindR [nopanic]:
  assumes "no_panic m" and "\<And>x. m = Inr x \<Longrightarrow> no_panic (f x)"
  shows "no_panic (bindR m f)"
  using assms by (cases m) auto

lemma no_panic_wrapErr [simp]: "no_panic (wrapErr n m) = no_panic m"
  by (auto simp: wrapErr_def no_panic_def split: sum.splits sctp_error.splits)

lemma no_panic_guardR [simp]: "no_panic (guardR b e) \<longleftrightarrow> b \<or> e \<noteq> Panic"
  by (cases b) auto

lemma wrapErr_Inr_iff [simp]: "wrapErr n m = Inr x \<longleftrightarrow> m = Inr x"
  by (auto simp: wrapErr_def split: sum.splits sctp_error.splits)

lemma wrapErr_Inr [simp]: "wrapErr n (Inr x) = Inr x"
  by (simp add: wrapErr_def)

lemma wrapErr_Err [simp]: "wrapErr n (Inl (Err m)) = Inl (Err n)"
  by (simp add: wrapErr_def)

lemma Uint16_ok: "2 \<le> length b \<Longrightarrow> \<exists>w. Uint16 b = Inr w"
  by (cases b rule: Uint16.cases) auto

lemma Uint32_ok: "4 \<le> length b \<Longrightarrow> \<exists>w. Uint32 b = Inr w"
  by (cases b rule: Uint32.cases) auto

lemma LittleUint32_ok: "4 \<le> length b \<Longrightarrow> \<exists>w. LittleUint32 b = Inr w"
  by (cases b rule: LittleUint32.cases) auto

lemma Uint16_no_panic: "no_panic (Uint16 b) \<longleftrightarrow> 2 \<le> length b"
  by (cases b rule: Uint16.cases) auto

lemma Uint32_no_panic: "no_panic (Uint32 b) \<longleftrightarrow> 4 \<le> length b"
  by (cases b rule: Uint32.cases) auto

lemma LittleUint32_no_panic: "no_panic (LittleUint32 b) \<longleftrightarrow> 4 \<le> length b"
  by (cases b rule: LittleUint32.cases) auto

lemma getU16_no_panic [simp]: "no_panic (getU16 off b) \<longleftrightarrow> off + 2 \<le> length b"
  by (auto simp: getU16_def sliceFrom_def Uint16_no_panic)

lemma getU32_no_panic [simp]: "no_panic (getU32 off b) \<longleftrightarrow> off + 4 \<le> length b"
  by (auto simp: getU32_def sliceFrom_def Uint32_no_panic)

lemma sliceFrom_no_panic [simp]: "no_panic (sliceFrom a b) \<longleftrightarrow> a \<le> length b"
  by (simp add: sliceFrom_def)

lemma slice_no_panic [simp]: "no_panic (slice a z b) \<longleftrightarrow> a \<le> z \<and> z \<le> length b"
  by (simp add: slice_def)

lemma index_no_panic [simp]: "no_panic (index i b) \<longleftrightarrow> i < length b"
  by (simp add: index_def)

lemma length_Put [simp]:
  "length (PutUint16 w) = 2" "length (PutUint32 v) = 4" "length (PutLittleUint32 v) = 4"
  by (simp_all add: PutUint16_def PutUint32_def PutLittleUint32_def)

lemma Uint16_Put [simp]: "Uint16 (PutUint16 w @ r) = Inr w"
  unfolding PutUint16_def by simp (rule bit_word_eqI, auto simp: bit_simps)

lemma u32_of_bytes:
  fixes w :: u32
  shows "push_bit 24 (ucast (ucast (drop_bit 24 w) :: byte)) OR push_bit 16 (ucast (ucast (drop_bit 16 w) :: byte))
    OR push_bit 8 (ucast (ucast (drop_bit 8 w) :: byte)) OR ucast (ucast w :: byte) = w"
proof (rule bit_word_eqI)
  fix n assume n: "n < LENGTH(32)"
  consider "n < 8" | "8 \<le> n" "n < 16" | "16 \<le> n" "n < 24" | "24 \<le> n" by linarith
  then show "bit (push_bit 24 (ucast (ucast (drop_bit 24 w) :: byte)) OR push_bit 16 (ucast (ucast (drop_bit 16 w) :: byte))
    OR push_bit 8 (ucast (ucast (drop_bit 8 w) :: byte)) OR ucast (ucast w :: byte) :: u32) n = bit w n"
    using n by cases (auto simp: bit_simps less_diff_conv2)
qed

lemma Uint32_Put [simp]: "Uint32 (PutUint32 w @ r) = Inr w"
  using u32_of_bytes [of w] by (simp add: PutUint32_def)

lemma LittleUint32_Put [simp]: "LittleUint32 (PutLittleUint32 w @ r) = Inr w"
  using u32_of_bytes [of w] by (simp add: PutLittleUint32_def or.commute or.left_commute)

lemma Uint_Put_exact [simp]: "Uint16 (PutUint16 w) = Inr w" "Uint32 (PutUint32 v) = Inr v"
  using Uint16_Put [of w "[]"] Uint32_Put [of v "[]"] by simp_all

lemma unat_of_nat_u16: "n < 65536 \<Longrightarrow> unat (of_nat n :: u16) = n"
  by (simp add: unat_of_nat)

lemma getU_0 [simp]: "getU16 0 b = Uint16 b" "getU32 0 b = Uint32 b"
  by (simp_all add: getU16_def getU32_def sliceFrom_def)

lemma getU16_skip [codec]:
  "length xs \<le> n \<Longrightarrow> getU16 n (xs @ ys) = getU16 (n - length xs) ys"
  "0 < n \<Longrightarrow> getU16 n (x # ys) = getU16 (n - 1) ys"
  by (auto simp: getU16_def sliceFrom_def drop_Cons')

lemma getU32_skip [codec]:
  "length xs \<le> n \<Longrightarrow> getU32 n (xs @ ys) = getU32 (n - length xs) ys"
  "0 < n \<Longrightarrow> getU32 n (x # ys) = getU32 (n - 1) ys"
  by (auto simp: getU32_def sliceFrom_def drop_Cons')

lemma getPadding_lt: "getPadding l < 4"
  by (simp add: getPadding_def)

lemma getPadding_dvd: "(l + getPadding l) mod 4 = 0"
  by (simp add: getPadding_def mod_add_right_eq) presburger

lemma getPadding_eq_0 [simp]: "getPadding l = 0 \<longleftrightarrow> l mod 4 = 0"
  unfolding getPadding_def by presburger

lemma getPadding_add4 [simp]: "getPadding (l + 4) = getPadding l" "getPadding (4 + l) = getPadding l"
  by (simp_all add: getPadding_def)

lemma allZero_simps [simp]: "allZero []" "allZero (replicate n 0)" "allZero (x # xs) \<longleftrightarrow> x = 0 \<and> allZero xs"
  by (simp_all add: allZero_def list_all_iff)

lemma readN_no_panic:
  "\<lbrakk>\<And>b. w \<le> length b \<Longrightarrow> no_panic (f b); n * w \<le> length b\<rbrakk> \<Longrightarrow> no_panic (readN f w n b)"
  by (induction n arbitrary: b) (auto intro!: no_panic_bindR)

lemma readN_concat:
  "\<lbrakk>\<And>x r. x \<in> set xs \<Longrightarrow> f (enc x @ r) = Inr x; \<And>x. x \<in> set xs \<Longrightarrow> length (enc x) = w; n = length xs\<rbrakk>
    \<Longrightarrow> readN f w n (concat (map enc xs) @ r) = Inr xs"
  by (induction xs arbitrary: n) auto

lemma readN_length: "readN f w n b = Inr xs \<Longrightarrow> length xs = n"
  by (induction n arbitrary: b xs) (auto simp: bindR_Inr_iff)

lemma length_concat_const: "(\<And>x. x \<in> set xs \<Longrightarrow> length (enc x) = w) \<Longrightarrow> length (concat (map enc xs)) = w * length xs"
  by (induction xs) auto

lemma length_concat_Put [simp]:
  "length (concat (map PutUint16 ws)) = 2 * length ws" "length (concat (map PutUint32 vs)) = 4 * length vs"
  by (simp_all add: length_concat_const)

end
