(* ===== verification/RingQueue.thy ===== *)
theory RingQueue
  imports GoBytes
begin

text \<open>
  The generic ring buffer of \<^verbatim>\<open>go/pion-sctp-patched/queue.go\<close> and the control queue built on
  a slice in \<^verbatim>\<open>control_queue.go\<close>. The buffer refines a list; out-of-range indexing is the
  error \<open>Panic\<close>. The locale \<open>fifo\<close> is the contract the queues of the association rely on.
\<close>

section \<open>Ring buffer\<close>

record 'a ring =
  buf :: "'a list"
  head :: nat
  tail :: nat
  count :: int

definition minCap :: nat where
  "minCap = 16"

text \<open>The doubling loop of \<open>newQueue\<close>.\<close>

function growCap :: "nat \<Rightarrow> nat \<Rightarrow> nat" where
  "growCap queueCap capacity =
     (if 0 < queueCap \<and> queueCap < capacity then growCap (2 * queueCap) capacity else queueCap)"
  by auto
termination by (relation "measure (\<lambda>(queueCap, capacity). capacity - queueCap)") auto

declare growCap.simps [simp del]

definition newQueue :: "'a \<Rightarrow> nat \<Rightarrow> 'a ring" where
  "newQueue zeroVal capacity =
     \<lparr>buf = replicate (growCap minCap capacity) zeroVal, head = 0, tail = 0, count = 0\<rparr>"

definition Len :: "'a ring \<Rightarrow> int" where
  "Len q = count q"

definition copyInto :: "'a list \<Rightarrow> nat \<Rightarrow> 'a list \<Rightarrow> 'a list" where
  "copyInto dst off src = take off dst @ take (length dst - off) src @ drop (off + length src) dst"

definition growIfFull :: "'a \<Rightarrow> 'a ring \<Rightarrow> 'a ring" where
  "growIfFull zeroVal q =
     (if count q < int (length (buf q)) then q
      else
        let newBuf = replicate (nat (2 * count q)) zeroVal;
            newBuf' =
              (if tail q > head q
               then copyInto newBuf 0 (take (tail q - head q) (drop (head q) (buf q)))
               else let n = min (length newBuf) (length (drop (head q) (buf q)))
                    in copyInto (copyInto newBuf 0 (drop (head q) (buf q))) n (take (tail q) (buf q)))
        in q\<lparr>head := 0, tail := nat (count q), buf := newBuf'\<rparr>)"

definition PushBack :: "'a \<Rightarrow> 'a \<Rightarrow> 'a ring \<Rightarrow> 'a ring" where
  "PushBack zeroVal ele q =
     (let q1 = growIfFull zeroVal q
      in q1\<lparr>buf := (buf q1)[tail q1 := ele], tail := (tail q1 + 1) mod length (buf q1),
            count := count q1 + 1\<rparr>)"

definition PopFront :: "'a \<Rightarrow> 'a ring \<Rightarrow> (sctp_error, 'a \<times> 'a ring) result" where
  "PopFront zeroVal q =
     (if head q < length (buf q)
      then Inr (buf q ! head q,
                q\<lparr>buf := (buf q)[head q := zeroVal], head := (head q + 1) mod length (buf q),
                  count := count q - 1\<rparr>)
      else Inl Panic)"

definition Front :: "'a ring \<Rightarrow> (sctp_error, 'a) result" where
  "Front q = (if head q < length (buf q) then Inr (buf q ! head q) else Inl Panic)"

definition Back :: "'a ring \<Rightarrow> (sctp_error, 'a) result" where
  "Back q = (if buf q = [] then Inl Panic
             else Inr (buf q ! ((tail q + length (buf q) - 1) mod length (buf q))))"

definition At :: "nat \<Rightarrow> 'a ring \<Rightarrow> (sctp_error, 'a) result" where
  "At i q = (if buf q = [] then Inl Panic else Inr (buf q ! ((head q + i) mod length (buf q))))"

section \<open>Abstraction\<close>

definition ring_inv :: "'a ring \<Rightarrow> bool" where
  "ring_inv q \<longleftrightarrow> 0 < length (buf q) \<and> head q < length (buf q) \<and>
     0 \<le> count q \<and> count q \<le> int (length (buf q)) \<and>
     tail q = (head q + nat (count q)) mod length (buf q)"

definition items :: "'a ring \<Rightarrow> 'a list" where
  "items q = map (\<lambda>i. buf q ! ((head q + i) mod length (buf q))) [0..<nat (count q)]"

lemma length_items [simp]: "length (items q) = nat (count q)"
  by (simp add: items_def)

lemma growCap_ge: "0 < c \<Longrightarrow> c \<le> growCap c n \<and> n \<le> growCap c n"
  by (induction c n rule: growCap.induct) (subst growCap.simps, subst (2) growCap.simps, auto)

lemma ring_inv_new: "ring_inv (newQueue z n)" "items (newQueue z n) = []"
  using growCap_ge [of minCap n] by (auto simp: ring_inv_def newQueue_def items_def minCap_def)

text \<open>A full ring is the part from the head to the end followed by the part before the head.\<close>

lemma items_full:
  assumes "ring_inv q" and "count q = int (length (buf q))"
  shows "items q = drop (head q) (buf q) @ take (head q) (buf q)"
proof (rule nth_equalityI)
  show "length (items q) = length (drop (head q) (buf q) @ take (head q) (buf q))"
    using assms by (auto simp: ring_inv_def)
  fix i assume "i < length (items q)"
  then show "items q ! i = (drop (head q) (buf q) @ take (head q) (buf q)) ! i"
    using assms by (auto simp: items_def ring_inv_def nth_append mod_if add.commute)
qed

lemma copyInto_append:
  "length xs + length ys \<le> length dst \<Longrightarrow>
     copyInto (copyInto dst 0 xs) (length xs) ys = xs @ ys @ drop (length xs + length ys) dst"
  by (simp add: copyInto_def add.commute)

lemma growIfFull_full:
  assumes inv: "ring_inv q" and full: "count q = int (length (buf q))"
  shows "growIfFull z q =
    q\<lparr>head := 0, tail := length (buf q), buf := items q @ replicate (length (buf q)) z\<rparr>"
proof -
  let ?A = "drop (head q) (buf q)" and ?B = "take (head q) (buf q)" and ?N = "replicate (2 * length (buf q)) z"
  have h: "head q < length (buf q)" and t: "tail q = head q"
    using assms by (simp_all add: ring_inv_def mod_if)
  have "copyInto (copyInto ?N 0 ?A) (length ?A) ?B = items q @ replicate (length (buf q)) z"
    using copyInto_append [of ?A ?B ?N] h items_full [OF assms] by (simp add: mult_2)
  moreover have "min (length ?N) (length ?A) = length ?A" by simp
  moreover have "nat (2 * int (length (buf q))) = 2 * length (buf q)" by simp
  ultimately show ?thesis by (simp add: growIfFull_def Let_def t full)
qed

lemma growIfFull_spec:
  assumes "ring_inv q"
  shows "ring_inv (growIfFull z q)" and "items (growIfFull z q) = items q"
    and "count (growIfFull z q) = count q" and "count (growIfFull z q) < int (length (buf (growIfFull z q)))"
proof -
  have full: "count q = int (length (buf q))" if "\<not> count q < int (length (buf q))"
    using that assms by (simp add: ring_inv_def)
  have same: "items (q\<lparr>head := 0, tail := length (buf q), buf := items q @ replicate (length (buf q)) z\<rparr>) = items q"
    if "count q = int (length (buf q))"
    using that by (intro nth_equalityI)
      (auto simp: items_def [of "q\<lparr>head := _, tail := _, buf := _\<rparr>"] nth_append)
  have "0 < length (buf q)" using assms by (simp add: ring_inv_def)
  then show "ring_inv (growIfFull z q)" "items (growIfFull z q) = items q"
    "count (growIfFull z q) = count q" "count (growIfFull z q) < int (length (buf (growIfFull z q)))"
    using assms growIfFull_full [OF assms, of z] full same
    by (cases "count q < int (length (buf q))"; simp add: growIfFull_def ring_inv_def)+
qed

lemma PushBack_spec:
  assumes "ring_inv q"
  shows "ring_inv (PushBack z x q)" and "items (PushBack z x q) = items q @ [x]"
proof -
  let ?g = "growIfFull z q"
  note g = growIfFull_spec [OF assms, of z]
  have t: "tail ?g = (head ?g + nat (count ?g)) mod length (buf ?g)" "0 \<le> count ?g"
    "0 < length (buf ?g)" "head ?g < length (buf ?g)"
    using g(1) by (simp_all add: ring_inv_def)
  have c: "nat (count ?g + 1) = Suc (nat (count ?g))" using t(2) by simp
  have lt: "nat (count ?g) < length (buf ?g)" using g(4) t(2) by simp
  show "ring_inv (PushBack z x q)"
    using g(4) t by (simp add: ring_inv_def PushBack_def Let_def c mod_Suc_eq)
  have ne: "(head ?g + i) mod length (buf ?g) \<noteq> (head ?g + nat (count ?g)) mod length (buf ?g)"
    if "i < nat (count ?g)" for i
    using that lt t(4) by (auto simp: mod_if)
  have "items (PushBack z x q) = items ?g @ [x]"
    unfolding items_def PushBack_def Let_def
    using t c ne [THEN not_sym] by (simp add: nth_list_update)
  then show "items (PushBack z x q) = items q @ [x]" by (simp add: g(2))
qed

lemma PopFront_spec:
  assumes inv: "ring_inv q" and ne: "items q = x # xs"
  shows "\<exists>q'. PopFront z q = Inr (x, q') \<and> ring_inv q' \<and> items q' = xs"
proof -
  let ?n = "length (buf q)"
  have r: "0 < ?n" "head q < ?n" "count q \<le> int ?n" "tail q = (head q + nat (count q)) mod ?n"
    using inv by (simp_all add: ring_inv_def)
  have c: "0 < count q" using arg_cong [OF ne, of length] by simp
  have up: "[0..<nat (count q)] = 0 # map Suc [0..<nat (count q - 1)]"
    using c by (simp add: map_Suc_upt upt_conv_Cons nat_diff_distrib)
  have x: "buf q ! head q = x" and xs: "xs = map (\<lambda>i. buf q ! ((head q + Suc i) mod ?n)) [0..<nat (count q - 1)]"
    using ne r unfolding items_def up by (simp_all add: o_def)
  let ?q = "q\<lparr>buf := (buf q)[head q := z], head := (head q + 1) mod ?n, count := count q - 1\<rparr>"
  have "(head q + Suc i) mod ?n \<noteq> head q" if "i < nat (count q - 1)" for i
    using that r by (auto simp: mod_if)
  then have "items ?q = xs"
    unfolding xs items_def using r
    by (auto simp: mod_add_left_eq mod_Suc_eq nth_list_update_neq [of "head q"] eq_commute [of "head q"])
  moreover have "ring_inv ?q"
  proof -
    have "Suc (head q) + nat (count q - 1) = head q + nat (count q)" using c by simp
    then have "(Suc (head q) mod ?n + nat (count q - 1)) mod ?n = tail q"
      unfolding r(4) by (metis mod_add_left_eq)
    then show ?thesis using r c by (simp add: ring_inv_def)
  qed
  ultimately show ?thesis using r x by (simp add: PopFront_def)
qed

lemma Front_Back_At_spec:
  assumes inv: "ring_inv q" and ne: "items q \<noteq> []"
  shows "Front q = Inr (hd (items q))" and "Back q = Inr (last (items q))"
    and "i < length (items q) \<Longrightarrow> At i q = Inr (items q ! i)"
proof -
  let ?n = "length (buf q)"
  have r: "0 < ?n" "head q < ?n" "tail q = (head q + nat (count q)) mod ?n"
    using inv by (simp_all add: ring_inv_def)
  obtain m where m: "nat (count q) = Suc m"
    using ne by (cases "nat (count q)") (auto simp: items_def)
  show "Front q = Inr (hd (items q))"
    using r m by (simp add: Front_def items_def hd_map upt_rec del: upt_Suc)
  have "tail q + ?n - 1 = tail q + (?n - 1)" using r(1) by linarith
  then have "(tail q + ?n - 1) mod ?n = (Suc (head q + m) mod ?n + (?n - 1)) mod ?n"
    by (simp add: r(3) m)
  also have "\<dots> = (Suc (head q + m) + (?n - 1)) mod ?n" by (rule mod_add_left_eq)
  also have "Suc (head q + m) + (?n - 1) = head q + m + ?n" using r(1) by simp
  finally have "(tail q + ?n - 1) mod ?n = (head q + m) mod ?n" by simp
  then show "Back q = Inr (last (items q))"
    using r m by (simp add: Back_def items_def last_map)
  show "i < length (items q) \<Longrightarrow> At i q = Inr (items q ! i)"
    using r by (auto simp: At_def items_def)
qed

section \<open>The FIFO contract\<close>

text \<open>
  What the users of a queue rely on: elements are appended at the back and a non-empty queue gives
  its oldest element, without a panic.
\<close>

locale fifo =
  fixes invar :: "'q \<Rightarrow> bool"
    and contents :: "'q \<Rightarrow> 'a list"
    and empty :: 'q
    and push :: "'a \<Rightarrow> 'q \<Rightarrow> 'q"
    and pop :: "'q \<Rightarrow> (sctp_error, 'a \<times> 'q) result"
  assumes empty: "invar empty" "contents empty = []"
    and push: "invar q \<Longrightarrow> invar (push x q)" "invar q \<Longrightarrow> contents (push x q) = contents q @ [x]"
    and pop: "invar q \<Longrightarrow> contents q = x # xs \<Longrightarrow> \<exists>q'. pop q = Inr (x, q') \<and> invar q' \<and> contents q' = xs"
begin

lemma push_all: "invar q \<Longrightarrow> invar (fold push xs q) \<and> contents (fold push xs q) = contents q @ xs"
  by (induction xs arbitrary: q) (simp_all add: push)

end

text \<open>Popping \<open>n\<close> times.\<close>

fun popN :: "('q \<Rightarrow> (sctp_error, 'a \<times> 'q) result) \<Rightarrow> nat \<Rightarrow> 'q \<Rightarrow> (sctp_error, 'a list \<times> 'q) result" where
  "popN pop 0 q = Inr ([], q)"
| "popN pop (Suc n) q =
     bindR (pop q) (\<lambda>(x, q'). bindR (popN pop n q') (\<lambda>(xs, q''). Inr (x # xs, q'')))"

context fifo
begin

lemma popN_prefix:
  "invar q \<Longrightarrow> contents q = xs @ ys \<Longrightarrow>
     \<exists>q'. popN pop (length xs) q = Inr (xs, q') \<and> invar q' \<and> contents q' = ys"
proof (induction xs arbitrary: q)
  case (Cons x xs)
  then obtain q1 where "pop q = Inr (x, q1)" "invar q1" "contents q1 = xs @ ys"
    using pop [of q x "xs @ ys"] by auto
  then show ?case using Cons.IH [of q1] by auto
qed simp

lemma first_in_first_out:
  assumes "invar q"
  shows "\<exists>q'. popN pop (length (contents q) + length xs) (fold push xs q) = Inr (contents q @ xs, q')
    \<and> invar q' \<and> contents q' = []"
  using popN_prefix [of "fold push xs q" "contents q @ xs" "[]"] push_all [OF assms, of xs] by simp

end

interpretation ring: fifo ring_inv items "newQueue z n" "PushBack z" "PopFront z" for z n
  by unfold_locales (simp_all add: ring_inv_new PushBack_spec PopFront_spec)

section \<open>Control queue\<close>

text \<open>\<open>controlQueue\<close> holds the packets in a slice.\<close>

record 'a controlQueue =
  cq_queue :: "'a list"

definition newControlQueue :: "'a controlQueue" where
  "newControlQueue = \<lparr>cq_queue = []\<rparr>"

definition cq_push :: "'a \<Rightarrow> 'a controlQueue \<Rightarrow> 'a controlQueue" where
  "cq_push c q = q\<lparr>cq_queue := cq_queue q @ [c]\<rparr>"

definition cq_pushAll :: "'a list \<Rightarrow> 'a controlQueue \<Rightarrow> 'a controlQueue" where
  "cq_pushAll packets q = q\<lparr>cq_queue := cq_queue q @ packets\<rparr>"

definition cq_popAll :: "'a controlQueue \<Rightarrow> 'a list \<times> 'a controlQueue" where
  "cq_popAll q = (cq_queue q, q\<lparr>cq_queue := []\<rparr>)"

definition cq_size :: "'a controlQueue \<Rightarrow> nat" where
  "cq_size q = length (cq_queue q)"

section \<open>Properties\<close>

text \<open>
  C20: the ring buffer is a first-in first-out queue of unbounded capacity: starting from any
  well-formed ring, pushing any number of elements (growing the buffer when it is full, wherever the
  head stands) and then popping everything returns the old contents followed by the pushed elements
  in order, never panics, and leaves an empty well-formed ring.
\<close>

theorem ring_fifo:
  assumes "ring_inv q"
  shows "\<exists>q'. popN (PopFront z) (length (items q) + length xs) (fold (PushBack z) xs q) = Inr (items q @ xs, q')
    \<and> ring_inv q' \<and> items q' = []"
  using ring.first_in_first_out [OF assms] .

theorem ring_fifo_witness:
  "\<exists>q'. popN (PopFront (0 :: nat)) 20 (fold (PushBack 0) [0..<20] (newQueue 0 3)) = Inr ([0..<20], q') \<and> items q' = []"
  using ring_fifo [OF ring_inv_new(1), of "0 :: nat" "0 :: nat" 3 "[0..<20]"] by (auto simp: ring_inv_new(2))

end
