(* ===== verification/Serial.thy ===== *)
theory Serial
  imports GoBytes
begin

text \<open>
  Serial number arithmetic (RFC 1982) of \<^verbatim>\<open>go/pion-sctp-patched/util.go\<close>, on 32-bit TSNs and
  message identifiers and 16-bit stream sequence numbers. \<open>-\<close> on words wraps, as in Go.
\<close>

definition sna32LT :: "u32 \<Rightarrow> u32 \<Rightarrow> bool" where
  "sna32LT i1 i2 \<longleftrightarrow> (i1 < i2 \<and> i2 - i1 < 2147483648) \<or> (i1 > i2 \<and> i1 - i2 > 2147483648)"

definition sna32LTE :: "u32 \<Rightarrow> u32 \<Rightarrow> bool" where
  "sna32LTE i1 i2 \<longleftrightarrow> i1 = i2 \<or> sna32LT i1 i2"

definition sna32GT :: "u32 \<Rightarrow> u32 \<Rightarrow> bool" where
  "sna32GT i1 i2 \<longleftrightarrow> (i1 < i2 \<and> i2 - i1 \<ge> 2147483648) \<or> (i1 > i2 \<and> i1 - i2 \<le> 2147483648)"

definition sna32GTE :: "u32 \<Rightarrow> u32 \<Rightarrow> bool" where
  "sna32GTE i1 i2 \<longleftrightarrow> i1 = i2 \<or> sna32GT i1 i2"

definition sna32EQ :: "u32 \<Rightarrow> u32 \<Rightarrow> bool" where
  "sna32EQ i1 i2 \<longleftrightarrow> i1 = i2"

definition sna16LT :: "u16 \<Rightarrow> u16 \<Rightarrow> bool" where
  "sna16LT i1 i2 \<longleftrightarrow> (i1 < i2 \<and> i2 - i1 < 32768) \<or> (i1 > i2 \<and> i1 - i2 > 32768)"

definition sna16LTE :: "u16 \<Rightarrow> u16 \<Rightarrow> bool" where
  "sna16LTE i1 i2 \<longleftrightarrow> i1 = i2 \<or> sna16LT i1 i2"

definition sna16GT :: "u16 \<Rightarrow> u16 \<Rightarrow> bool" where
  "sna16GT i1 i2 \<longleftrightarrow> (i1 < i2 \<and> i2 - i1 \<ge> 32768) \<or> (i1 > i2 \<and> i1 - i2 \<le> 32768)"

definition sna16GTE :: "u16 \<Rightarrow> u16 \<Rightarrow> bool" where
  "sna16GTE i1 i2 \<longleftrightarrow> i1 = i2 \<or> sna16GT i1 i2"

definition sna16EQ :: "u16 \<Rightarrow> u16 \<Rightarrow> bool" where
  "sna16EQ i1 i2 \<longleftrightarrow> i1 = i2"

section \<open>The forward distance\<close>

text \<open>
  Both comparisons are decided by the distance from the first to the second number going forward
  around the circle.
\<close>

lemmas serial_arith = word_less_def word_le_def uint_sub_if' word_uint_eq_iff

lemma sna32LT_iff: "sna32LT i1 i2 \<longleftrightarrow> i1 \<noteq> i2 \<and> i2 - i1 < 2147483648"
  using uint_lt2p [of i1] uint_lt2p [of i2] by (auto simp: sna32LT_def serial_arith)

lemma sna32GT_iff: "sna32GT i1 i2 \<longleftrightarrow> i1 \<noteq> i2 \<and> \<not> i2 - i1 < 2147483648"
  using uint_lt2p [of i1] uint_lt2p [of i2] by (auto simp: sna32GT_def serial_arith)

lemma sna16LT_iff: "sna16LT i1 i2 \<longleftrightarrow> i1 \<noteq> i2 \<and> i2 - i1 < 32768"
  using uint_lt2p [of i1] uint_lt2p [of i2] by (auto simp: sna16LT_def serial_arith)

lemma sna16GT_iff: "sna16GT i1 i2 \<longleftrightarrow> i1 \<noteq> i2 \<and> \<not> i2 - i1 < 32768"
  using uint_lt2p [of i1] uint_lt2p [of i2] by (auto simp: sna16GT_def serial_arith)

lemma sna32_cmp:
  "sna32LTE i1 i2 \<longleftrightarrow> i2 - i1 < 2147483648" "sna32GTE i1 i2 \<longleftrightarrow> \<not> sna32LT i1 i2"
  "sna32GT i1 i2 \<longleftrightarrow> \<not> sna32LTE i1 i2"
  by (auto simp: sna32LTE_def sna32GTE_def sna32LT_iff sna32GT_iff)

lemma sna16_cmp:
  "sna16LTE i1 i2 \<longleftrightarrow> i2 - i1 < 32768" "sna16GTE i1 i2 \<longleftrightarrow> \<not> sna16LT i1 i2"
  "sna16GT i1 i2 \<longleftrightarrow> \<not> sna16LTE i1 i2"
  by (auto simp: sna16LTE_def sna16GTE_def sna16LT_iff sna16GT_iff)

lemma int_mod_window: "\<bar>d\<bar> < M \<Longrightarrow> d mod M = (if 0 \<le> d then d else d + M)" for d M :: int
  using mod_pos_pos_trivial [of "d + M" M] by (auto intro: mod_pos_pos_trivial)

lemma uint_diff_of_int:
  assumes "\<bar>m - n\<bar> < 2 ^ LENGTH('a)"
  shows "uint (word_of_int m - word_of_int n :: 'a::len word) = (if n \<le> m then m - n else m - n + 2 ^ LENGTH('a))"
proof -
  have "uint (word_of_int (m - n) :: 'a word) = (m - n) mod 2 ^ LENGTH('a)" by (rule uint_word_of_int)
  then show ?thesis using int_mod_window [OF assms] by simp
qed

lemma of_int_word_inj:
  assumes "\<bar>m - n\<bar> < 2 ^ LENGTH('a)"
  shows "(word_of_int n :: 'a::len word) = word_of_int m \<longleftrightarrow> n = m"
proof -
  have "(word_of_int n :: 'a word) = word_of_int m \<longleftrightarrow> uint (word_of_int m - word_of_int n :: 'a word) = 0"
    by (auto simp: uint_0_iff)
  then show ?thesis using assms uint_diff_of_int [OF assms] by (auto split: if_splits)
qed

lemma sna32_of_int:
  assumes "\<bar>m - n\<bar> < 2147483648"
  shows "sna32LTE (of_int n) (of_int m) \<longleftrightarrow> n \<le> m" "(of_int n :: u32) = of_int m \<longleftrightarrow> n = m"
  using assms uint_diff_of_int [of m n, where 'a = 32] of_int_word_inj [of m n, where 'a = 32]
  by (auto simp: sna32_cmp(1) word_less_def)

lemma sna16_of_int:
  assumes "\<bar>m - n\<bar> < 32768"
  shows "sna16LTE (of_int n) (of_int m) \<longleftrightarrow> n \<le> m" "(of_int n :: u16) = of_int m \<longleftrightarrow> n = m"
  using assms uint_diff_of_int [of m n, where 'a = 16] of_int_word_inj [of m n, where 'a = 16]
  by (auto simp: sna16_cmp(1) word_less_def)

section \<open>Properties\<close>

text \<open>
  a counter that wraps at 32 (16) bits is compared correctly: the serial comparisons of two
  values of an unbounded counter that are less than half the range apart give the order of the
  counter itself, on every side of the wrap-around.
\<close>

theorem serial_order_of_counter:
  "(\<bar>m - n\<bar> < 2 ^ 31 \<longrightarrow>
      sna32LT (of_int n) (of_int m) = (n < m) \<and> sna32LTE (of_int n) (of_int m) = (n \<le> m) \<and>
      sna32GT (of_int n) (of_int m) = (n > m) \<and> sna32GTE (of_int n) (of_int m) = (n \<ge> m) \<and>
      sna32EQ (of_int n) (of_int m) = (n = m)) \<and>
   (\<bar>m - n\<bar> < 2 ^ 15 \<longrightarrow>
      sna16LT (of_int n) (of_int m) = (n < m) \<and> sna16LTE (of_int n) (of_int m) = (n \<le> m) \<and>
      sna16GT (of_int n) (of_int m) = (n > m) \<and> sna16GTE (of_int n) (of_int m) = (n \<ge> m) \<and>
      sna16EQ (of_int n) (of_int m) = (n = m))"
proof (intro conjI impI)
  assume "\<bar>m - n\<bar> < 2 ^ 31"
  note 32 = sna32_of_int [of m n, OF this [simplified]]
  have "sna32LT (of_int n) (of_int m) \<longleftrightarrow> sna32LTE (of_int n) (of_int m) \<and> (of_int n :: u32) \<noteq> of_int m"
    by (auto simp: sna32LTE_def sna32LT_iff)
  then show lt: "sna32LT (of_int n) (of_int m) = (n < m)" using 32 by auto
  show "sna32LTE (of_int n) (of_int m) = (n \<le> m)" by (rule 32)
  show "sna32GT (of_int n) (of_int m) = (n > m)" using 32 by (auto simp: sna32_cmp(3))
  show "sna32GTE (of_int n) (of_int m) = (n \<ge> m)" using lt by (auto simp: sna32_cmp(2))
  show "sna32EQ (of_int n) (of_int m) = (n = m)" unfolding sna32EQ_def by (rule 32)
next
  assume "\<bar>m - n\<bar> < 2 ^ 15"
  note 16 = sna16_of_int [of m n, OF this [simplified]]
  have "sna16LT (of_int n) (of_int m) \<longleftrightarrow> sna16LTE (of_int n) (of_int m) \<and> (of_int n :: u16) \<noteq> of_int m"
    by (auto simp: sna16LTE_def sna16LT_iff)
  then show lt: "sna16LT (of_int n) (of_int m) = (n < m)" using 16 by auto
  show "sna16LTE (of_int n) (of_int m) = (n \<le> m)" by (rule 16)
  show "sna16GT (of_int n) (of_int m) = (n > m)" using 16 by (auto simp: sna16_cmp(3))
  show "sna16GTE (of_int n) (of_int m) = (n \<ge> m)" using lt by (auto simp: sna16_cmp(2))
  show "sna16EQ (of_int n) (of_int m) = (n = m)" unfolding sna16EQ_def by (rule 16)
qed

text \<open>The wrap-around itself: the last TSN of the cycle is before the first one.\<close>

theorem serial_order_of_counter_witness:
  "sna32LT 4294967295 0 \<and> sna16LT 65535 0"
proof -
  have wrap: "(4294967296 :: u32) = 0" "(65536 :: u16) = 0" by (simp_all add: word_uint_eq_iff)
  show ?thesis
    using serial_order_of_counter [of "2 ^ 32" "2 ^ 32 - 1"] serial_order_of_counter [of "2 ^ 16" "2 ^ 16 - 1"]
    by (simp add: wrap)
qed

end
