(* ===== verification/ChunkHeader.thy ===== *)
theory ChunkHeader
  imports GoBytes
begin

text \<open>
  The chunk header (\<^verbatim>\<open>chunkheader.go\<close>, \<^verbatim>\<open>chunktype.go\<close>) and the error causes of ABORT and
  ERROR chunks (\<^verbatim>\<open>error_cause*.go\<close>).
\<close>

section \<open>Chunk types\<close>

type_synonym chunkType = byte

abbreviation ctPayloadData :: chunkType where "ctPayloadData \<equiv> 0"
abbreviation ctIData :: chunkType where "ctIData \<equiv> 64"
abbreviation ctInit :: chunkType where "ctInit \<equiv> 1"
abbreviation ctInitAck :: chunkType where "ctInitAck \<equiv> 2"
abbreviation ctSack :: chunkType where "ctSack \<equiv> 3"
abbreviation ctHeartbeat :: chunkType where "ctHeartbeat \<equiv> 4"
abbreviation ctHeartbeatAck :: chunkType where "ctHeartbeatAck \<equiv> 5"
abbreviation ctAbort :: chunkType where "ctAbort \<equiv> 6"
abbreviation ctShutdown :: chunkType where "ctShutdown \<equiv> 7"
abbreviation ctShutdownAck :: chunkType where "ctShutdownAck \<equiv> 8"
abbreviation ctError :: chunkType where "ctError \<equiv> 9"
abbreviation ctCookieEcho :: chunkType where "ctCookieEcho \<equiv> 10"
abbreviation ctCookieAck :: chunkType where "ctCookieAck \<equiv> 11"
abbreviation ctShutdownComplete :: chunkType where "ctShutdownComplete \<equiv> 14"
abbreviation ctReconfig :: chunkType where "ctReconfig \<equiv> 130"
abbreviation ctForwardTSN :: chunkType where "ctForwardTSN \<equiv> 192"
abbreviation ctIForwardTSN :: chunkType where "ctIForwardTSN \<equiv> 194"

section \<open>Chunk header\<close>

record chunkHeader =
  ch_typ :: chunkType
  ch_flags :: byte
  ch_raw :: bytes

text \<open>The padding check, from the last byte downwards.\<close>

fun paddingScan :: "bytes \<Rightarrow> nat \<Rightarrow> nat \<Rightarrow> (sctp_error, unit) result" where
  "paddingScan raw base 0 = Inr ()"
| "paddingScan raw base (Suc i) =
     bindR (index (base + i) raw) (\<lambda>v.
       if v \<noteq> 0 then Inl (Err ''ErrChunkHeaderPaddingNonZero'') else paddingScan raw base i)"

text \<open>The part of \<open>unmarshal\<close> after the value length is known.\<close>

definition chunkHeader_value :: "chunkType \<Rightarrow> byte \<Rightarrow> nat \<Rightarrow> bytes \<Rightarrow> (sctp_error, chunkHeader) result" where
  "chunkHeader_value t f valueLength raw =
     (let lengthAfterValue = int (length raw) - int (4 + valueLength)
      in bindR (guardR (\<not> lengthAfterValue < 0) (Err ''ErrChunkHeaderNotEnoughSpace'')) (\<lambda>_.
         bindR (if lengthAfterValue < 4 then paddingScan raw (4 + valueLength) (nat lengthAfterValue) else Inr ()) (\<lambda>_.
         bindR (slice 4 (4 + valueLength) raw) (\<lambda>value.
         Inr \<lparr>ch_typ = t, ch_flags = f, ch_raw = value\<rparr>))))"

text \<open>\<open>length - chunkHeaderSize\<close> is computed in 16 bits and wraps for lengths below 4.\<close>

definition chunkHeader_unmarshal :: "bytes \<Rightarrow> (sctp_error, chunkHeader) result" where
  "chunkHeader_unmarshal raw =
     bindR (guardR (\<not> length raw < 4) (Err ''ErrChunkHeaderTooSmall'')) (\<lambda>_.
     bindR (index 0 raw) (\<lambda>t.
     bindR (index 1 raw) (\<lambda>f.
     bindR (getU16 2 raw) (\<lambda>len.
     chunkHeader_value t f (unat (len - 4)) raw))))"

definition chunkHeader_marshal :: "chunkHeader \<Rightarrow> bytes" where
  "chunkHeader_marshal c =
     [ch_typ c, ch_flags c] @ PutUint16 (of_nat (length (ch_raw c) + 4)) @ ch_raw c"

definition chunkHeader_valueLength :: "chunkHeader \<Rightarrow> nat" where
  "chunkHeader_valueLength c = length (ch_raw c)"

section \<open>Error causes\<close>

type_synonym errorCauseCode = u16

abbreviation unrecognizedChunkType :: errorCauseCode where "unrecognizedChunkType \<equiv> 6"
abbreviation invalidMandatoryParameter :: errorCauseCode where "invalidMandatoryParameter \<equiv> 7"
abbreviation userInitiatedAbort :: errorCauseCode where "userInitiatedAbort \<equiv> 12"
abbreviation protocolViolation :: errorCauseCode where "protocolViolation \<equiv> 13"

record errorCauseHeader =
  ec_code :: errorCauseCode
  ec_len :: u16
  ec_raw :: bytes

datatype errorCause =
    InvalidMandatoryParameter errorCauseHeader
  | UnrecognizedChunkType errorCauseHeader bytes
  | ProtocolViolation errorCauseHeader bytes
  | UserInitiatedAbort errorCauseHeader bytes

text \<open>The length is a \<open>uint16\<close>; a value that makes it wrap below 4 panics in \<open>PutUint16\<close>.\<close>

definition errorCauseHeader_marshal :: "errorCauseCode \<Rightarrow> bytes \<Rightarrow> (sctp_error, bytes) result" where
  "errorCauseHeader_marshal code value =
     (let len = of_nat (length value) + 4 :: u16
      in if unat len < 4 then Inl Panic
         else Inr (PutUint16 code @ PutUint16 len @ take (unat len - 4) value))"

definition errorCauseHeader_unmarshal :: "bytes \<Rightarrow> (sctp_error, errorCauseHeader) result" where
  "errorCauseHeader_unmarshal raw =
     bindR (getU16 0 raw) (\<lambda>code.
     bindR (getU16 2 raw) (\<lambda>len.
     bindR (guardR (\<not> (len < 4 \<or> unat len > length raw)) (Err ''ErrInvalidSCTPChunk'')) (\<lambda>_.
     bindR (slice 4 (4 + unat (len - 4)) raw) (\<lambda>value.
     Inr \<lparr>ec_code = code, ec_len = len, ec_raw = value\<rparr>))))"

fun errorCause_header :: "errorCause \<Rightarrow> errorCauseHeader" where
  "errorCause_header (InvalidMandatoryParameter h) = h"
| "errorCause_header (UnrecognizedChunkType h _) = h"
| "errorCause_header (ProtocolViolation h _) = h"
| "errorCause_header (UserInitiatedAbort h _) = h"

definition errorCause_length :: "errorCause \<Rightarrow> u16" where
  "errorCause_length e = ec_len (errorCause_header e)"

fun errorCause_marshal :: "errorCause \<Rightarrow> (sctp_error, bytes) result" where
  "errorCause_marshal (InvalidMandatoryParameter h) = errorCauseHeader_marshal (ec_code h) (ec_raw h)"
| "errorCause_marshal (UnrecognizedChunkType _ c) = errorCauseHeader_marshal unrecognizedChunkType c"
| "errorCause_marshal (ProtocolViolation h info) = errorCauseHeader_marshal (ec_code h) info"
| "errorCause_marshal (UserInitiatedAbort _ reason) = errorCauseHeader_marshal userInitiatedAbort reason"

definition buildErrorCause :: "bytes \<Rightarrow> (sctp_error, errorCause) result" where
  "buildErrorCause raw =
     bindR (getU16 0 raw) (\<lambda>c.
       if c = invalidMandatoryParameter then
         bindR (errorCauseHeader_unmarshal raw) (\<lambda>h. Inr (InvalidMandatoryParameter h))
       else if c = unrecognizedChunkType then
         bindR (errorCauseHeader_unmarshal raw) (\<lambda>h. Inr (UnrecognizedChunkType h (ec_raw h)))
       else if c = protocolViolation then
         bindR (wrapErr ''ErrProtocolViolationUnmarshal'' (errorCauseHeader_unmarshal raw)) (\<lambda>h.
           Inr (ProtocolViolation h (ec_raw h)))
       else if c = userInitiatedAbort then
         bindR (errorCauseHeader_unmarshal raw) (\<lambda>h. Inr (UserInitiatedAbort h (ec_raw h)))
       else Inl (Err ''ErrBuildErrorCaseHandle''))"

section \<open>Lemmas\<close>

lemma paddingScan_no_panic: "base + n \<le> length raw \<Longrightarrow> no_panic (paddingScan raw base n)"
  by (induction n) (auto intro!: no_panic_bindR)

lemma paddingScan_ok:
  "base + n \<le> length raw \<Longrightarrow> allZero (take n (drop base raw)) \<Longrightarrow> paddingScan raw base n = Inr ()"
proof (induction n)
  case (Suc n)
  then show ?case by (simp add: take_Suc_conv_app_nth index_def allZero_def)
qed simp

lemma chunkHeader_unmarshal_no_panic [simp]: "no_panic (chunkHeader_unmarshal raw)"
proof -
  have "no_panic (chunkHeader_value t f v raw)" for t f v
    unfolding chunkHeader_value_def Let_def by (intro no_panic_bindR) (auto intro!: paddingScan_no_panic)
  then show ?thesis
    unfolding chunkHeader_unmarshal_def by (intro no_panic_bindR) auto
qed

lemma chunkHeader_unmarshal_Inr:
  assumes "chunkHeader_unmarshal raw = Inr h"
  shows "4 + length (ch_raw h) \<le> length raw" and "ch_typ h = raw ! 0"
    and "ch_raw h = take (length (ch_raw h)) (drop 4 raw)"
  using assms
  by (auto simp: chunkHeader_unmarshal_def chunkHeader_value_def Let_def bindR_Inr_iff slice_def index_def
      split: if_splits)

lemma errorCauseHeader_unmarshal_no_panic: "4 \<le> length raw \<Longrightarrow> no_panic (errorCauseHeader_unmarshal raw)"
  unfolding errorCauseHeader_unmarshal_def
  by (intro no_panic_bindR) (auto simp: word_less_nat_alt unat_sub word_le_nat_alt Uint16_no_panic)

lemma errorCauseHeader_unmarshal_Inr:
  assumes "errorCauseHeader_unmarshal raw = Inr h"
  shows "4 \<le> unat (ec_len h)" and "unat (ec_len h) \<le> length raw"
  using assms
  by (auto simp: errorCauseHeader_unmarshal_def bindR_Inr_iff word_less_nat_alt)

lemma buildErrorCause_no_panic: "4 \<le> length raw \<Longrightarrow> no_panic (buildErrorCause raw)"
  unfolding buildErrorCause_def
  by (intro no_panic_bindR) (auto intro!: no_panic_bindR simp: errorCauseHeader_unmarshal_no_panic Uint16_no_panic)

lemma buildErrorCause_Inr:
  assumes "buildErrorCause raw = Inr e"
  shows "4 \<le> unat (errorCause_length e)" and "unat (errorCause_length e) \<le> length raw"
  using assms
  by (auto simp: buildErrorCause_def bindR_Inr_iff errorCause_length_def
      dest: errorCauseHeader_unmarshal_Inr split: if_splits)

text \<open>What may follow a chunk in a packet: another chunk, or less than four bytes of zero padding.\<close>

definition rest_ok :: "bytes \<Rightarrow> bool" where
  "rest_ok r \<longleftrightarrow> 4 \<le> length r \<or> allZero r"

lemma chunkHeader_roundtrip:
  assumes len: "length (ch_raw c) + 4 < 65536" and r: "rest_ok r"
  shows "chunkHeader_unmarshal (chunkHeader_marshal c @ r) = Inr c"
proof -
  let ?b = "chunkHeader_marshal c @ r" and ?n = "length (ch_raw c)"
  have lb: "length ?b = 4 + ?n + length r" by (simp add: chunkHeader_marshal_def)
  have idx: "index 0 ?b = Inr (ch_typ c)" "index 1 ?b = Inr (ch_flags c)"
    by (simp_all add: index_def chunkHeader_marshal_def)
  have get: "getU16 2 ?b = Inr (of_nat (?n + 4))"
    by (simp add: chunkHeader_marshal_def getU16_skip)
  have vl: "unat (of_nat (?n + 4) - 4 :: u16) = ?n"
    using len unat_of_nat_u16 [of ?n] by simp
  have sl: "slice 4 (4 + ?n) ?b = Inr (ch_raw c)"
    by (simp add: slice_def chunkHeader_marshal_def PutUint16_def)
  have "drop 4 ?b = ch_raw c @ r" by (simp add: chunkHeader_marshal_def PutUint16_def)
  then have dr: "drop (4 + ?n) ?b = r" using drop_drop [of ?n 4 ?b] by (simp add: add.commute)
  have pad: "(if int (length ?b) - int (4 + ?n) < 4
      then paddingScan ?b (4 + ?n) (nat (int (length ?b) - int (4 + ?n))) else Inr ()) = Inr ()"
    using r paddingScan_ok [of "4 + ?n" "length r" ?b] dr lb by (auto simp: rest_ok_def)
  show ?thesis
    unfolding chunkHeader_unmarshal_def chunkHeader_value_def get idx bindR_simps vl Let_def sl pad
    using lb by simp
qed

lemma length_chunkHeader_marshal [simp]: "length (chunkHeader_marshal c) = 4 + length (ch_raw c)"
  by (simp add: chunkHeader_marshal_def)

end
