(* ===== verification/Params.thy ===== *)
theory Params
  imports GoBytes
begin

text \<open>
  The parameters of INIT, HEARTBEAT and RECONFIG chunks: \<^verbatim>\<open>paramtype.go\<close>, \<^verbatim>\<open>paramheader.go\<close>,
  \<^verbatim>\<open>param.go\<close> and the \<^verbatim>\<open>param_*.go\<close> files. A parameter is its header, as the struct
  embeds it, with the fields of its own. \<open>marshal\<close> also overwrites the type and value of the
  embedded header before it serialises them; no code reads them after that, so only the bytes are
  returned. The functions are named after their Go receiver.
\<close>

section \<open>Types\<close>

type_synonym paramType = u16
type_synonym chunkType = byte

abbreviation heartbeatInfo :: paramType where "heartbeatInfo \<equiv> 1"
abbreviation stateCookie :: paramType where "stateCookie \<equiv> 7"
abbreviation outSSNResetReq :: paramType where "outSSNResetReq \<equiv> 13"
abbreviation reconfigResp :: paramType where "reconfigResp \<equiv> 16"
abbreviation ecnCapable :: paramType where "ecnCapable \<equiv> 32768"
abbreviation zeroChecksumAcceptable :: paramType where "zeroChecksumAcceptable \<equiv> 32769"
abbreviation random :: paramType where "random \<equiv> 32770"
abbreviation chunkList :: paramType where "chunkList \<equiv> 32771"
abbreviation reqHMACAlgo :: paramType where "reqHMACAlgo \<equiv> 32772"
abbreviation supportedExt :: paramType where "supportedExt \<equiv> 32776"
abbreviation forwardTSNSupp :: paramType where "forwardTSNSupp \<equiv> 49152"

record paramHeader =
  ph_typ :: paramType
  ph_unrecognizedAction :: byte
  ph_len :: int
  ph_raw :: bytes

definition paramHeaderUnrecognizedActionMask :: byte where
  "paramHeaderUnrecognizedActionMask = 0b11000000"

abbreviation paramHeaderUnrecognizedActionStop :: byte where
  "paramHeaderUnrecognizedActionStop \<equiv> 0b00000000"
abbreviation paramHeaderUnrecognizedActionStopAndReport :: byte where
  "paramHeaderUnrecognizedActionStopAndReport \<equiv> 0b01000000"

abbreviation hmacSHA128 :: u16 where "hmacSHA128 \<equiv> 1"
abbreviation hmacSHA256 :: u16 where "hmacSHA256 \<equiv> 3"

datatype param =
    ForwardTSNSupported paramHeader
  | SupportedExtensions paramHeader "chunkType list"
  | ECNCapable paramHeader
  | Random paramHeader bytes
  | RequestedHMACAlgorithm paramHeader "u16 list"
  | ChunkList paramHeader "chunkType list"
  | StateCookie paramHeader bytes
  | HeartbeatInfo paramHeader bytes
  | OutgoingResetRequest paramHeader u32 u32 u32 "u16 list"
  | ReconfigResponse paramHeader u32 u32
  | ZeroChecksumAcceptable paramHeader u32

section \<open>Header\<close>

definition parseParamType :: "bytes \<Rightarrow> (sctp_error, paramType) result" where
  "parseParamType raw =
     (if length raw < 2 then Inl (Err ''ErrParamPacketTooShort'') else Uint16 raw)"

definition paramHeader_marshal :: "paramType \<Rightarrow> bytes \<Rightarrow> bytes" where
  "paramHeader_marshal typ raw = PutUint16 typ @ PutUint16 (of_nat (4 + length raw)) @ raw"

definition paramHeader_unmarshal :: "bytes \<Rightarrow> (sctp_error, paramHeader) result" where
  "paramHeader_unmarshal raw =
     bindR (guardR (\<not> length raw < 4) (Err ''ErrParamHeaderTooShort'')) (\<lambda>_.
     bindR (getU16 2 raw) (\<lambda>paramLengthPlusHeader.
     bindR (guardR (\<not> unat paramLengthPlusHeader < 4) (Err ''ErrParamHeaderSelfReportedLengthShorter'')) (\<lambda>_.
     bindR (guardR (\<not> length raw < unat paramLengthPlusHeader) (Err ''ErrParamHeaderSelfReportedLengthLonger'')) (\<lambda>_.
     bindR (wrapErr ''ErrParamHeaderParseFailed'' (parseParamType raw)) (\<lambda>typ.
     bindR (index 0 raw) (\<lambda>r0.
     bindR (slice 4 (unat paramLengthPlusHeader) raw) (\<lambda>value.
     Inr \<lparr>ph_typ = typ, ph_unrecognizedAction = r0 AND paramHeaderUnrecognizedActionMask,
          ph_len = int (unat paramLengthPlusHeader), ph_raw = value\<rparr>)))))))"

section \<open>Marshalling\<close>

definition paramForwardTSNSupported_marshal :: bytes where
  "paramForwardTSNSupported_marshal = paramHeader_marshal forwardTSNSupp []"

definition paramSupportedExtensions_marshal :: "chunkType list \<Rightarrow> bytes" where
  "paramSupportedExtensions_marshal ChunkTypes = paramHeader_marshal supportedExt ChunkTypes"

definition paramECNCapable_marshal :: bytes where
  "paramECNCapable_marshal = paramHeader_marshal ecnCapable []"

definition paramRandom_marshal :: "bytes \<Rightarrow> bytes" where
  "paramRandom_marshal randomData = paramHeader_marshal random randomData"

definition paramRequestedHMACAlgorithm_marshal :: "u16 list \<Rightarrow> bytes" where
  "paramRequestedHMACAlgorithm_marshal availableAlgorithms =
     paramHeader_marshal reqHMACAlgo (concat (map PutUint16 availableAlgorithms))"

definition paramChunkList_marshal :: "chunkType list \<Rightarrow> bytes" where
  "paramChunkList_marshal chunkTypes = paramHeader_marshal chunkList chunkTypes"

definition paramStateCookie_marshal :: "bytes \<Rightarrow> bytes" where
  "paramStateCookie_marshal cookie = paramHeader_marshal stateCookie cookie"

definition paramHeartbeatInfo_marshal :: "bytes \<Rightarrow> bytes" where
  "paramHeartbeatInfo_marshal info = paramHeader_marshal heartbeatInfo info"

definition paramOutgoingResetRequest_marshal :: "u32 \<Rightarrow> u32 \<Rightarrow> u32 \<Rightarrow> u16 list \<Rightarrow> bytes" where
  "paramOutgoingResetRequest_marshal req resp senderLastTSN streamIdentifiers =
     paramHeader_marshal outSSNResetReq
       (PutUint32 req @ PutUint32 resp @ PutUint32 senderLastTSN @ concat (map PutUint16 streamIdentifiers))"

definition paramReconfigResponse_marshal :: "u32 \<Rightarrow> u32 \<Rightarrow> bytes" where
  "paramReconfigResponse_marshal sequenceNumber res =
     paramHeader_marshal reconfigResp (PutUint32 sequenceNumber @ PutUint32 res)"

definition paramZeroChecksumAcceptable_marshal :: "u32 \<Rightarrow> bytes" where
  "paramZeroChecksumAcceptable_marshal edmid = paramHeader_marshal zeroChecksumAcceptable (PutUint32 edmid)"

text \<open>The method set of the \<open>param\<close> interface.\<close>

fun param_marshal :: "param \<Rightarrow> bytes" where
  "param_marshal (ForwardTSNSupported _) = paramForwardTSNSupported_marshal"
| "param_marshal (SupportedExtensions _ ts) = paramSupportedExtensions_marshal ts"
| "param_marshal (ECNCapable _) = paramECNCapable_marshal"
| "param_marshal (Random _ d) = paramRandom_marshal d"
| "param_marshal (RequestedHMACAlgorithm _ as) = paramRequestedHMACAlgorithm_marshal as"
| "param_marshal (ChunkList _ ts) = paramChunkList_marshal ts"
| "param_marshal (StateCookie _ c) = paramStateCookie_marshal c"
| "param_marshal (HeartbeatInfo _ i) = paramHeartbeatInfo_marshal i"
| "param_marshal (OutgoingResetRequest _ q p t ss) = paramOutgoingResetRequest_marshal q p t ss"
| "param_marshal (ReconfigResponse _ n res) = paramReconfigResponse_marshal n res"
| "param_marshal (ZeroChecksumAcceptable _ e) = paramZeroChecksumAcceptable_marshal e"

fun param_header :: "param \<Rightarrow> paramHeader" where
  "param_header (ForwardTSNSupported h) = h"
| "param_header (SupportedExtensions h _) = h"
| "param_header (ECNCapable h) = h"
| "param_header (Random h _) = h"
| "param_header (RequestedHMACAlgorithm h _) = h"
| "param_header (ChunkList h _) = h"
| "param_header (StateCookie h _) = h"
| "param_header (HeartbeatInfo h _) = h"
| "param_header (OutgoingResetRequest h _ _ _ _) = h"
| "param_header (ReconfigResponse h _ _) = h"
| "param_header (ZeroChecksumAcceptable h _) = h"

definition param_length :: "param \<Rightarrow> int" where
  "param_length p = ph_len (param_header p)"

section \<open>Unmarshalling\<close>

definition paramForwardTSNSupported_unmarshal :: "bytes \<Rightarrow> (sctp_error, param) result" where
  "paramForwardTSNSupported_unmarshal raw =
     bindR (paramHeader_unmarshal raw) (\<lambda>h. Inr (ForwardTSNSupported h))"

definition paramSupportedExtensions_unmarshal :: "bytes \<Rightarrow> (sctp_error, param) result" where
  "paramSupportedExtensions_unmarshal raw =
     bindR (paramHeader_unmarshal raw) (\<lambda>h. Inr (SupportedExtensions h (ph_raw h)))"

definition paramECNCapable_unmarshal :: "bytes \<Rightarrow> (sctp_error, param) result" where
  "paramECNCapable_unmarshal raw = bindR (paramHeader_unmarshal raw) (\<lambda>h. Inr (ECNCapable h))"

definition paramRandom_unmarshal :: "bytes \<Rightarrow> (sctp_error, param) result" where
  "paramRandom_unmarshal raw = bindR (paramHeader_unmarshal raw) (\<lambda>h. Inr (Random h (ph_raw h)))"

text \<open>The loop over the algorithm identifiers.\<close>

fun readHMACs :: "bytes \<Rightarrow> (sctp_error, u16 list) result" where
  "readHMACs [] = Inr []"
| "readHMACs (a # b # rest) =
     bindR (Uint16 (a # b # rest)) (\<lambda>alg.
       if alg = hmacSHA128 \<or> alg = hmacSHA256
       then bindR (readHMACs rest) (\<lambda>as. Inr (alg # as))
       else Inl (Err ''ErrInvalidAlgorithmType''))"
| "readHMACs [a] = Inl Panic"

definition paramRequestedHMACAlgorithm_unmarshal :: "bytes \<Rightarrow> (sctp_error, param) result" where
  "paramRequestedHMACAlgorithm_unmarshal raw =
     bindR (paramHeader_unmarshal raw) (\<lambda>h.
     bindR (guardR (\<not> length (ph_raw h) mod 2 = 1) (Err ''ErrInvalidChunkLength'')) (\<lambda>_.
     bindR (readHMACs (ph_raw h)) (\<lambda>as. Inr (RequestedHMACAlgorithm h as))))"

definition paramChunkList_unmarshal :: "bytes \<Rightarrow> (sctp_error, param) result" where
  "paramChunkList_unmarshal raw = bindR (paramHeader_unmarshal raw) (\<lambda>h. Inr (ChunkList h (ph_raw h)))"

definition paramStateCookie_unmarshal :: "bytes \<Rightarrow> (sctp_error, param) result" where
  "paramStateCookie_unmarshal raw = bindR (paramHeader_unmarshal raw) (\<lambda>h. Inr (StateCookie h (ph_raw h)))"

definition paramHeartbeatInfo_unmarshal :: "bytes \<Rightarrow> (sctp_error, param) result" where
  "paramHeartbeatInfo_unmarshal raw =
     bindR (paramHeader_unmarshal raw) (\<lambda>h. Inr (HeartbeatInfo h (ph_raw h)))"

definition paramOutgoingResetRequest_unmarshal :: "bytes \<Rightarrow> (sctp_error, param) result" where
  "paramOutgoingResetRequest_unmarshal raw =
     bindR (paramHeader_unmarshal raw) (\<lambda>h.
     bindR (guardR (\<not> length (ph_raw h) < 12) (Err ''ErrSSNResetRequestParamTooShort'')) (\<lambda>_.
     bindR (getU32 0 (ph_raw h)) (\<lambda>req.
     bindR (getU32 4 (ph_raw h)) (\<lambda>resp.
     bindR (getU32 8 (ph_raw h)) (\<lambda>senderLastTSN.
     bindR (sliceFrom 12 (ph_raw h)) (\<lambda>rest.
     bindR (readN Uint16 2 ((length (ph_raw h) - 12) div 2) rest) (\<lambda>streams.
     Inr (OutgoingResetRequest h req resp senderLastTSN streams))))))))"

definition paramReconfigResponse_unmarshal :: "bytes \<Rightarrow> (sctp_error, param) result" where
  "paramReconfigResponse_unmarshal raw =
     bindR (paramHeader_unmarshal raw) (\<lambda>h.
     bindR (guardR (\<not> length (ph_raw h) < 8) (Err ''ErrReconfigRespParamTooShort'')) (\<lambda>_.
     bindR (getU32 0 (ph_raw h)) (\<lambda>sequenceNumber.
     bindR (getU32 4 (ph_raw h)) (\<lambda>res.
     Inr (ReconfigResponse h sequenceNumber res)))))"

definition paramZeroChecksumAcceptable_unmarshal :: "bytes \<Rightarrow> (sctp_error, param) result" where
  "paramZeroChecksumAcceptable_unmarshal raw =
     bindR (paramHeader_unmarshal raw) (\<lambda>h.
     bindR (guardR (\<not> length (ph_raw h) < 4) (Err ''ErrZeroChecksumParamTooShort'')) (\<lambda>_.
     bindR (getU32 0 (ph_raw h)) (\<lambda>edmid. Inr (ZeroChecksumAcceptable h edmid))))"

definition buildParam :: "paramType \<Rightarrow> bytes \<Rightarrow> (sctp_error, param) result" where
  "buildParam typeParam rawParam =
     (if typeParam = forwardTSNSupp then paramForwardTSNSupported_unmarshal rawParam
      else if typeParam = supportedExt then paramSupportedExtensions_unmarshal rawParam
      else if typeParam = ecnCapable then paramECNCapable_unmarshal rawParam
      else if typeParam = random then paramRandom_unmarshal rawParam
      else if typeParam = reqHMACAlgo then paramRequestedHMACAlgorithm_unmarshal rawParam
      else if typeParam = chunkList then paramChunkList_unmarshal rawParam
      else if typeParam = stateCookie then paramStateCookie_unmarshal rawParam
      else if typeParam = heartbeatInfo then paramHeartbeatInfo_unmarshal rawParam
      else if typeParam = outSSNResetReq then paramOutgoingResetRequest_unmarshal rawParam
      else if typeParam = reconfigResp then paramReconfigResponse_unmarshal rawParam
      else if typeParam = zeroChecksumAcceptable then paramZeroChecksumAcceptable_unmarshal rawParam
      else Inl (Err ''ErrParamTypeUnhandled''))"

lemmas param_unmarshal_defs = paramForwardTSNSupported_unmarshal_def paramSupportedExtensions_unmarshal_def
  paramECNCapable_unmarshal_def paramRandom_unmarshal_def paramRequestedHMACAlgorithm_unmarshal_def
  paramChunkList_unmarshal_def paramStateCookie_unmarshal_def paramHeartbeatInfo_unmarshal_def
  paramOutgoingResetRequest_unmarshal_def paramReconfigResponse_unmarshal_def
  paramZeroChecksumAcceptable_unmarshal_def

lemmas param_marshal_defs = paramForwardTSNSupported_marshal_def paramSupportedExtensions_marshal_def
  paramECNCapable_marshal_def paramRandom_marshal_def paramRequestedHMACAlgorithm_marshal_def
  paramChunkList_marshal_def paramStateCookie_marshal_def paramHeartbeatInfo_marshal_def
  paramOutgoingResetRequest_marshal_def paramReconfigResponse_marshal_def
  paramZeroChecksumAcceptable_marshal_def

section \<open>No panics\<close>

lemma parseParamType_no_panic [simp]: "no_panic (parseParamType raw)"
  by (simp add: parseParamType_def Uint16_no_panic)

lemma paramHeader_unmarshal_no_panic [simp]: "no_panic (paramHeader_unmarshal raw)"
  unfolding paramHeader_unmarshal_def by (intro no_panic_bindR) auto

lemma readHMACs_no_panic: "even (length b) \<Longrightarrow> no_panic (readHMACs b)"
  by (induction b rule: readHMACs.induct) (auto intro!: no_panic_bindR)

lemma buildParam_no_panic [simp]: "no_panic (buildParam t raw)"
proof -
  have "no_panic (paramRequestedHMACAlgorithm_unmarshal raw)"
    unfolding paramRequestedHMACAlgorithm_unmarshal_def
    by (intro no_panic_bindR) (auto intro!: readHMACs_no_panic simp: even_iff_mod_2_eq_zero)
  moreover have "no_panic (paramOutgoingResetRequest_unmarshal raw)"
    unfolding paramOutgoingResetRequest_unmarshal_def
    by (intro no_panic_bindR) (auto intro!: readN_no_panic simp: Uint16_no_panic sliceFrom_def Uint32_no_panic)
  ultimately show ?thesis
    unfolding buildParam_def
    by (auto simp: param_unmarshal_defs Uint32_no_panic intro!: no_panic_bindR)
qed

section \<open>Round trip\<close>

fun param_typ :: "param \<Rightarrow> paramType" where
  "param_typ (ForwardTSNSupported _) = forwardTSNSupp"
| "param_typ (SupportedExtensions _ _) = supportedExt"
| "param_typ (ECNCapable _) = ecnCapable"
| "param_typ (Random _ _) = random"
| "param_typ (RequestedHMACAlgorithm _ _) = reqHMACAlgo"
| "param_typ (ChunkList _ _) = chunkList"
| "param_typ (StateCookie _ _) = stateCookie"
| "param_typ (HeartbeatInfo _ _) = heartbeatInfo"
| "param_typ (OutgoingResetRequest _ _ _ _ _) = outSSNResetReq"
| "param_typ (ReconfigResponse _ _ _) = reconfigResp"
| "param_typ (ZeroChecksumAcceptable _ _) = zeroChecksumAcceptable"

fun param_value :: "param \<Rightarrow> bytes" where
  "param_value (SupportedExtensions _ ts) = ts"
| "param_value (Random _ d) = d"
| "param_value (RequestedHMACAlgorithm _ as) = concat (map PutUint16 as)"
| "param_value (ChunkList _ ts) = ts"
| "param_value (StateCookie _ c) = c"
| "param_value (HeartbeatInfo _ i) = i"
| "param_value (OutgoingResetRequest _ q p t ss) =
     PutUint32 q @ PutUint32 p @ PutUint32 t @ concat (map PutUint16 ss)"
| "param_value (ReconfigResponse _ n res) = PutUint32 n @ PutUint32 res"
| "param_value (ZeroChecksumAcceptable _ e) = PutUint32 e"
| "param_value _ = []"

lemma param_marshal_eq: "param_marshal p = paramHeader_marshal (param_typ p) (param_value p)"
  by (cases p) (simp_all add: param_marshal_defs)

text \<open>The header a parser fills in for a parameter of type \<open>t\<close> with value \<open>v\<close>.\<close>

definition wire_header :: "paramType \<Rightarrow> bytes \<Rightarrow> paramHeader" where
  "wire_header t v = \<lparr>ph_typ = t,
     ph_unrecognizedAction = ucast (drop_bit 8 t) AND paramHeaderUnrecognizedActionMask,
     ph_len = 4 + int (length v), ph_raw = v\<rparr>"

fun set_header :: "paramHeader \<Rightarrow> param \<Rightarrow> param" where
  "set_header h (ForwardTSNSupported _) = ForwardTSNSupported h"
| "set_header h (SupportedExtensions _ ts) = SupportedExtensions h ts"
| "set_header h (ECNCapable _) = ECNCapable h"
| "set_header h (Random _ d) = Random h d"
| "set_header h (RequestedHMACAlgorithm _ as) = RequestedHMACAlgorithm h as"
| "set_header h (ChunkList _ ts) = ChunkList h ts"
| "set_header h (StateCookie _ c) = StateCookie h c"
| "set_header h (HeartbeatInfo _ i) = HeartbeatInfo h i"
| "set_header h (OutgoingResetRequest _ q p t ss) = OutgoingResetRequest h q p t ss"
| "set_header h (ReconfigResponse _ n res) = ReconfigResponse h n res"
| "set_header h (ZeroChecksumAcceptable _ e) = ZeroChecksumAcceptable h e"

definition param_filled :: "param \<Rightarrow> param" where
  "param_filled p = set_header (wire_header (param_typ p) (param_value p)) p"

text \<open>The length field has 16 bits, and the parser knows two of the HMAC algorithms.\<close>

fun param_ok :: "param \<Rightarrow> bool" where
  "param_ok (RequestedHMACAlgorithm _ as) \<longleftrightarrow>
     2 * length as + 4 < 65536 \<and> (\<forall>a \<in> set as. a = hmacSHA128 \<or> a = hmacSHA256)"
| "param_ok p \<longleftrightarrow> length (param_value p) + 4 < 65536"

lemma param_ok_length: "param_ok p \<Longrightarrow> length (param_value p) + 4 < 65536"
  by (cases p) auto

lemma length_paramHeader_marshal [simp]: "length (paramHeader_marshal t v) = 4 + length v"
  by (simp add: paramHeader_marshal_def)

lemma paramHeader_roundtrip:
  assumes "length v + 4 < 65536"
  shows "paramHeader_unmarshal (paramHeader_marshal t v @ r) = Inr (wire_header t v)"
proof -
  have len: "unat (of_nat (4 + length v) :: u16) = 4 + length v" by (rule unat_of_nat_u16) (use assms in simp)
  have 1: "getU16 2 (paramHeader_marshal t v @ r) = Inr (of_nat (4 + length v))"
    by (simp add: paramHeader_marshal_def getU16_skip)
  have 2: "parseParamType (paramHeader_marshal t v @ r) = Inr t"
    by (simp add: parseParamType_def paramHeader_marshal_def)
  have 3: "index 0 (paramHeader_marshal t v @ r) = Inr (ucast (drop_bit 8 t))"
    by (simp add: index_def paramHeader_marshal_def PutUint16_def)
  have 4: "slice 4 (4 + length v) (paramHeader_marshal t v @ r) = Inr v"
    by (simp add: slice_def paramHeader_marshal_def)
  show ?thesis
    unfolding paramHeader_unmarshal_def 1 2 3 bindR_simps wrapErr_Inr len 4
    by (simp add: wire_header_def)
qed

lemma readHMACs_concat:
  "\<forall>a \<in> set as. a = hmacSHA128 \<or> a = hmacSHA256 \<Longrightarrow> readHMACs (concat (map PutUint16 as)) = Inr as"
proof (induction as)
  case (Cons a as)
  have "readHMACs (PutUint16 a @ concat (map PutUint16 as)) =
      bindR (Uint16 (PutUint16 a @ concat (map PutUint16 as))) (\<lambda>alg.
       if alg = hmacSHA128 \<or> alg = hmacSHA256
       then bindR (readHMACs (concat (map PutUint16 as))) (\<lambda>as. Inr (alg # as))
       else Inl (Err ''ErrInvalidAlgorithmType''))"
    by (simp add: PutUint16_def)
  then show ?case using Cons by simp
qed simp

lemma buildParam_marshal:
  assumes ok: "param_ok p"
  shows "buildParam (param_typ p) (param_marshal p @ r) = Inr (param_filled p)"
proof -
  note rt = paramHeader_roundtrip [OF param_ok_length [OF ok], of "param_typ p" r]
  have raw: "ph_raw (wire_header t v) = v" for t v by (simp add: wire_header_def)
  show ?thesis
    using ok rt unfolding param_filled_def param_marshal_eq
    by (cases p)
      (simp_all add: buildParam_def param_unmarshal_defs raw readHMACs_concat getU32_skip sliceFrom_def
        readN_concat [where enc = PutUint16 and r = "[]", simplified] mod_mult_self1_is_0)
qed

text \<open>
  every parameter whose length fits its 16-bit field, followed by anything, is parsed back to
  itself with the header filled in from the wire; the unread remainder is left to the caller.
\<close>

theorem param_roundtrip:
  assumes "param_ok p"
  shows "buildParam (param_typ p) (param_marshal p @ r) = Inr (param_filled p)"
  using assms by (rule buildParam_marshal)

theorem param_roundtrip_witness:
  "buildParam outSSNResetReq (param_marshal (OutgoingResetRequest (wire_header 0 []) 1 2 3 [4, 5]) @ [9])
    = Inr (param_filled (OutgoingResetRequest (wire_header 0 []) 1 2 3 [4, 5]))"
  using param_roundtrip [of "OutgoingResetRequest (wire_header 0 []) 1 2 3 [4, 5]" "[9]"] by simp

end
