(* ===== verification/Chunks.thy ===== *)
theory Chunks
  imports ChunkHeader Params Serial
begin

text \<open>
  The chunks of an SCTP packet: the \<^verbatim>\<open>chunk_*.go\<close> files. Each chunk is its embedded header
  with its own fields; \<open>chunk_marshal\<close>, \<open>chunk_unmarshal\<close> and \<open>chunk_check\<close> are the method
  sets behind the \<open>chunk\<close> interface. \<open>marshal\<close> overwrites type, flags and value of the embedded
  header before it serialises them; as for the parameters only the bytes are returned.
\<close>

section \<open>Data\<close>

record chunkInitCommon =
  initiateTag :: u32
  init_arwnd :: u32
  numOutboundStreams :: u16
  numInboundStreams :: u16
  initialTSN :: u32
  init_params :: "param list"
  unrecognizedParams :: "paramHeader list"

record gapAckBlock =
  gap_start :: u16
  gap_end :: u16

record chunkSelectiveAck = chunkHeader +
  cumulativeTSNAck :: u32
  sack_arwnd :: u32
  gapAckBlocks :: "gapAckBlock list"
  duplicateTSN :: "u32 list"

record chunkForwardTSNStream =
  fwd_identifier :: u16
  fwd_sequence :: u16

record chunkIForwardTSNStream =
  ifwd_identifier :: u16
  ifwd_unordered :: bool
  ifwd_messageIdentifier :: u32

text \<open>
  A DATA or I-DATA chunk. \<open>userData = None\<close> is the nil slice that marks a stream reset. The
  second group of fields is the sender's book-keeping and does not go on the wire; \<open>headRef\<close> is
  the identity of the first fragment of the message, if this is not the first.
\<close>

record chunkPayloadData = chunkHeader +
  unordered :: bool
  beginningFragment :: bool
  endingFragment :: bool
  immediateSack :: bool
  tsn :: u32
  streamIdentifier :: u16
  streamSequenceNumber :: u16
  messageIdentifier :: u32
  fragmentSequenceNumber :: u32
  payloadType :: u32
  userData :: "bytes option"
  iData :: bool
  acked :: bool
  missIndicator :: u32
  since :: int
  nSent :: u32
  abandonedFlag :: bool
  allInflight :: bool
  retransmit :: bool
  headRef :: "nat option"

datatype chunk =
    ChunkInit chunkHeader chunkInitCommon
  | ChunkInitAck chunkHeader chunkInitCommon
  | ChunkAbort chunkHeader "errorCause list"
  | ChunkError chunkHeader "errorCause list"
  | ChunkCookieEcho chunkHeader bytes
  | ChunkCookieAck chunkHeader
  | ChunkHeartbeat chunkHeader "param list"
  | ChunkHeartbeatAck chunkHeader "param list"
  | ChunkPayloadData chunkPayloadData
  | ChunkSelectiveAck chunkSelectiveAck
  | ChunkReconfig chunkHeader param "param option"
  | ChunkForwardTSN chunkHeader u32 "chunkForwardTSNStream list"
  | ChunkIForwardTSN chunkHeader u32 "chunkIForwardTSNStream list"
  | ChunkShutdown chunkHeader u32
  | ChunkShutdownAck chunkHeader
  | ChunkShutdownComplete chunkHeader

definition theHeader :: "'a chunkHeader_scheme \<Rightarrow> chunkHeader" where
  "theHeader c = \<lparr>ch_typ = ch_typ c, ch_flags = ch_flags c, ch_raw = ch_raw c\<rparr>"

fun chunk_header :: "chunk \<Rightarrow> chunkHeader" where
  "chunk_header (ChunkInit h _) = h"
| "chunk_header (ChunkInitAck h _) = h"
| "chunk_header (ChunkAbort h _) = h"
| "chunk_header (ChunkError h _) = h"
| "chunk_header (ChunkCookieEcho h _) = h"
| "chunk_header (ChunkCookieAck h) = h"
| "chunk_header (ChunkHeartbeat h _) = h"
| "chunk_header (ChunkHeartbeatAck h _) = h"
| "chunk_header (ChunkPayloadData p) = theHeader p"
| "chunk_header (ChunkSelectiveAck s) = theHeader s"
| "chunk_header (ChunkReconfig h _ _) = h"
| "chunk_header (ChunkForwardTSN h _ _) = h"
| "chunk_header (ChunkIForwardTSN h _ _) = h"
| "chunk_header (ChunkShutdown h _) = h"
| "chunk_header (ChunkShutdownAck h) = h"
| "chunk_header (ChunkShutdownComplete h) = h"

definition chunk_valueLength :: "chunk \<Rightarrow> nat" where
  "chunk_valueLength c = chunkHeader_valueLength (chunk_header c)"

section \<open>INIT and INIT ACK\<close>

text \<open>
  The parameter loop on the unread part of the value. It stops, without an error, as soon as four or
  fewer bytes are left.
\<close>

lemma paramHeader_unmarshal_Inr:
  assumes "paramHeader_unmarshal raw = Inr h"
  shows "4 \<le> ph_len h" and "nat (ph_len h) \<le> length raw" and "ph_len h = 4 + int (length (ph_raw h))"
  using assms
  by (auto simp: paramHeader_unmarshal_def bindR_Inr_iff slice_def of_nat_diff simp del: of_nat_unat
      split: if_splits)

function initParams :: "bytes \<Rightarrow> (sctp_error, param list \<times> paramHeader list) result" where
  "initParams rem =
     (if length rem > 4 then
        (case paramHeader_unmarshal rem of
           Inl Panic \<Rightarrow> Inl Panic
         | Inl (Err _) \<Rightarrow> Inl (Err ''ErrInitChunkParseParamTypeFailed'')
         | Inr pHeader \<Rightarrow>
             let next = drop (nat (ph_len pHeader) + getPadding (nat (ph_len pHeader))) rem
             in (case buildParam (ph_typ pHeader) rem of
                   Inl Panic \<Rightarrow> Inl Panic
                 | Inl (Err _) \<Rightarrow> bindR (initParams next) (\<lambda>(ps, us). Inr (ps, pHeader # us))
                 | Inr p \<Rightarrow> bindR (initParams next) (\<lambda>(ps, us). Inr (p # ps, us))))
      else Inr ([], []))"
  by pat_completeness auto
termination
  by (relation "measure length") (auto dest!: paramHeader_unmarshal_Inr(1))

declare initParams.simps [simp del]

definition chunkInitCommon_unmarshal :: "bytes \<Rightarrow> (sctp_error, chunkInitCommon) result" where
  "chunkInitCommon_unmarshal raw =
     bindR (getU32 0 raw) (\<lambda>tag.
     bindR (getU32 4 raw) (\<lambda>arwnd.
     bindR (getU16 8 raw) (\<lambda>outs.
     bindR (getU16 10 raw) (\<lambda>ins.
     bindR (getU32 12 raw) (\<lambda>itsn.
     bindR (initParams (drop 16 raw)) (\<lambda>(ps, us).
     Inr \<lparr>initiateTag = tag, init_arwnd = arwnd, numOutboundStreams = outs, numInboundStreams = ins,
          initialTSN = itsn, init_params = ps, unrecognizedParams = us\<rparr>))))))"

text \<open>All parameters but the last are padded.\<close>

fun marshalParams :: "param list \<Rightarrow> bytes" where
  "marshalParams [] = []"
| "marshalParams [p] = param_marshal p"
| "marshalParams (p # ps) =
     padByte (param_marshal p) (int (getPadding (length (param_marshal p)))) @ marshalParams ps"

definition chunkInitCommon_marshal :: "chunkInitCommon \<Rightarrow> bytes" where
  "chunkInitCommon_marshal i =
     PutUint32 (initiateTag i) @ PutUint32 (init_arwnd i) @ PutUint16 (numOutboundStreams i) @
     PutUint16 (numInboundStreams i) @ PutUint32 (initialTSN i) @ marshalParams (init_params i)"

definition chunkInit_unmarshal :: "bytes \<Rightarrow> (sctp_error, chunk) result" where
  "chunkInit_unmarshal raw =
     bindR (chunkHeader_unmarshal raw) (\<lambda>h.
     bindR (guardR (ch_typ h = ctInit) (Err ''ErrChunkTypeNotTypeInit'')) (\<lambda>_.
     bindR (guardR (\<not> length (ch_raw h) < 16) (Err ''ErrChunkValueNotLongEnough'')) (\<lambda>_.
     bindR (guardR (ch_flags h = 0) (Err ''ErrChunkTypeInitFlagZero'')) (\<lambda>_.
     bindR (wrapErr ''ErrChunkTypeInitUnmarshalFailed'' (chunkInitCommon_unmarshal (ch_raw h))) (\<lambda>i.
     Inr (ChunkInit h i))))))"

definition chunkInitAck_unmarshal :: "bytes \<Rightarrow> (sctp_error, chunk) result" where
  "chunkInitAck_unmarshal raw =
     bindR (chunkHeader_unmarshal raw) (\<lambda>h.
     bindR (guardR (ch_typ h = ctInitAck) (Err ''ErrChunkTypeNotInitAck'')) (\<lambda>_.
     bindR (guardR (\<not> length (ch_raw h) < 16) (Err ''ErrChunkNotLongEnoughForParams'')) (\<lambda>_.
     bindR (guardR (ch_flags h = 0) (Err ''ErrChunkTypeInitAckFlagZero'')) (\<lambda>_.
     bindR (wrapErr ''ErrInitAckUnmarshalFailed'' (chunkInitCommon_unmarshal (ch_raw h))) (\<lambda>i.
     Inr (ChunkInitAck h i))))))"

definition chunkInit_marshal :: "chunkHeader \<Rightarrow> chunkInitCommon \<Rightarrow> bytes" where
  "chunkInit_marshal h i = chunkHeader_marshal (h\<lparr>ch_typ := ctInit, ch_raw := chunkInitCommon_marshal i\<rparr>)"

definition chunkInitAck_marshal :: "chunkHeader \<Rightarrow> chunkInitCommon \<Rightarrow> bytes" where
  "chunkInitAck_marshal h i = chunkHeader_marshal (h\<lparr>ch_typ := ctInitAck, ch_raw := chunkInitCommon_marshal i\<rparr>)"

text \<open>The result of \<open>check\<close>: the abort flag and the error.\<close>

type_synonym checked = "bool \<times> sctp_error option"

definition chunkInit_check :: "chunkInitCommon \<Rightarrow> checked" where
  "chunkInit_check i =
     (if initiateTag i = 0 then (True, Some (Err ''ErrChunkTypeInitInitateTagZero''))
      else if numInboundStreams i = 0 then (True, Some (Err ''ErrInitInboundStreamRequestZero''))
      else if numOutboundStreams i = 0 then (True, Some (Err ''ErrInitOutboundStreamRequestZero''))
      else if init_arwnd i < 1500 then (True, Some (Err ''ErrInitAdvertisedReceiver1500''))
      else if list_ex (\<lambda>p. ph_unrecognizedAction p = paramHeaderUnrecognizedActionStop \<or>
             ph_unrecognizedAction p = paramHeaderUnrecognizedActionStopAndReport) (unrecognizedParams i)
           then (True, Some (Err ''ErrInitUnknownParam''))
      else (False, None))"

definition chunkInitAck_check :: "chunkInitCommon \<Rightarrow> checked" where
  "chunkInitAck_check i =
     (if initiateTag i = 0 then (True, Some (Err ''ErrChunkTypeInitAckInitateTagZero''))
      else if numInboundStreams i = 0 then (True, Some (Err ''ErrInitAckInboundStreamRequestZero''))
      else if numOutboundStreams i = 0 then (True, Some (Err ''ErrInitAckOutboundStreamRequestZero''))
      else if init_arwnd i < 1500 then (True, Some (Err ''ErrInitAckAdvertisedReceiver1500''))
      else (False, None))"

section \<open>ABORT and ERROR\<close>

text \<open>
  The cause loop. It runs over the rest of the packet, not only over the value of the chunk.
\<close>

function readCauses :: "string \<Rightarrow> bytes \<Rightarrow> (sctp_error, errorCause list) result" where
  "readCauses failure rem =
     (if length rem \<ge> 4 then
        (case buildErrorCause rem of
           Inl Panic \<Rightarrow> Inl Panic
         | Inl (Err _) \<Rightarrow> Inl (Err failure)
         | Inr e \<Rightarrow> bindR (readCauses failure (drop (unat (errorCause_length e)) rem)) (\<lambda>es. Inr (e # es)))
      else Inr [])"
  by pat_completeness auto
termination
  by (relation "measure (\<lambda>(_, rem). length rem)") (auto dest!: buildErrorCause_Inr(1))

declare readCauses.simps [simp del]

fun marshalCauses :: "errorCause list \<Rightarrow> (sctp_error, bytes) result" where
  "marshalCauses [] = Inr []"
| "marshalCauses (e # es) =
     bindR (errorCause_marshal e) (\<lambda>b. bindR (marshalCauses es) (\<lambda>bs. Inr (b @ bs)))"

definition chunkAbort_unmarshal :: "bytes \<Rightarrow> (sctp_error, chunk) result" where
  "chunkAbort_unmarshal raw =
     bindR (chunkHeader_unmarshal raw) (\<lambda>h.
     bindR (guardR (ch_typ h = ctAbort) (Err ''ErrChunkTypeNotAbort'')) (\<lambda>_.
     bindR (readCauses ''ErrBuildAbortChunkFailed'' (drop 4 raw)) (\<lambda>es.
     Inr (ChunkAbort h es))))"

definition chunkAbort_marshal :: "errorCause list \<Rightarrow> (sctp_error, bytes) result" where
  "chunkAbort_marshal es =
     bindR (marshalCauses es) (\<lambda>b. Inr (chunkHeader_marshal \<lparr>ch_typ = ctAbort, ch_flags = 0, ch_raw = b\<rparr>))"

definition chunkError_unmarshal :: "bytes \<Rightarrow> (sctp_error, chunk) result" where
  "chunkError_unmarshal raw =
     bindR (chunkHeader_unmarshal raw) (\<lambda>h.
     bindR (guardR (ch_typ h = ctError) (Err ''ErrChunkTypeNotCtError'')) (\<lambda>_.
     bindR (readCauses ''ErrBuildErrorChunkFailed'' (drop 4 raw)) (\<lambda>es.
     Inr (ChunkError h es))))"

definition chunkError_marshal :: "errorCause list \<Rightarrow> (sctp_error, bytes) result" where
  "chunkError_marshal es =
     bindR (marshalCauses es) (\<lambda>b. Inr (chunkHeader_marshal \<lparr>ch_typ = ctError, ch_flags = 0, ch_raw = b\<rparr>))"

section \<open>COOKIE ECHO, COOKIE ACK and the SHUTDOWN chunks\<close>

definition chunkCookieEcho_unmarshal :: "bytes \<Rightarrow> (sctp_error, chunk) result" where
  "chunkCookieEcho_unmarshal raw =
     bindR (chunkHeader_unmarshal raw) (\<lambda>h.
     bindR (guardR (ch_typ h = ctCookieEcho) (Err ''ErrChunkTypeNotCookieEcho'')) (\<lambda>_.
     Inr (ChunkCookieEcho h (ch_raw h))))"

definition chunkCookieEcho_marshal :: "chunkHeader \<Rightarrow> bytes \<Rightarrow> bytes" where
  "chunkCookieEcho_marshal h cookie = chunkHeader_marshal (h\<lparr>ch_typ := ctCookieEcho, ch_raw := cookie\<rparr>)"

definition chunkCookieAck_unmarshal :: "bytes \<Rightarrow> (sctp_error, chunk) result" where
  "chunkCookieAck_unmarshal raw =
     bindR (chunkHeader_unmarshal raw) (\<lambda>h.
     bindR (guardR (ch_typ h = ctCookieAck) (Err ''ErrChunkTypeNotCookieAck'')) (\<lambda>_.
     Inr (ChunkCookieAck h)))"

definition chunkCookieAck_marshal :: "chunkHeader \<Rightarrow> bytes" where
  "chunkCookieAck_marshal h = chunkHeader_marshal (h\<lparr>ch_typ := ctCookieAck\<rparr>)"

definition chunkShutdown_unmarshal :: "bytes \<Rightarrow> (sctp_error, chunk) result" where
  "chunkShutdown_unmarshal raw =
     bindR (chunkHeader_unmarshal raw) (\<lambda>h.
     bindR (guardR (ch_typ h = ctShutdown) (Err ''ErrChunkTypeNotShutdown'')) (\<lambda>_.
     bindR (guardR (length (ch_raw h) = 4) (Err ''ErrInvalidChunkSize'')) (\<lambda>_.
     bindR (getU32 0 (ch_raw h)) (\<lambda>t.
     Inr (ChunkShutdown h t)))))"

definition chunkShutdown_marshal :: "chunkHeader \<Rightarrow> u32 \<Rightarrow> bytes" where
  "chunkShutdown_marshal h t = chunkHeader_marshal (h\<lparr>ch_typ := ctShutdown, ch_raw := PutUint32 t\<rparr>)"

definition chunkShutdownAck_unmarshal :: "bytes \<Rightarrow> (sctp_error, chunk) result" where
  "chunkShutdownAck_unmarshal raw =
     bindR (chunkHeader_unmarshal raw) (\<lambda>h.
     bindR (guardR (ch_typ h = ctShutdownAck) (Err ''ErrChunkTypeNotShutdownAck'')) (\<lambda>_.
     Inr (ChunkShutdownAck h)))"

definition chunkShutdownAck_marshal :: "chunkHeader \<Rightarrow> bytes" where
  "chunkShutdownAck_marshal h = chunkHeader_marshal (h\<lparr>ch_typ := ctShutdownAck\<rparr>)"

definition chunkShutdownComplete_unmarshal :: "bytes \<Rightarrow> (sctp_error, chunk) result" where
  "chunkShutdownComplete_unmarshal raw =
     bindR (chunkHeader_unmarshal raw) (\<lambda>h.
     bindR (guardR (ch_typ h = ctShutdownComplete) (Err ''ErrChunkTypeNotShutdownComplete'')) (\<lambda>_.
     Inr (ChunkShutdownComplete h)))"

definition chunkShutdownComplete_marshal :: "chunkHeader \<Rightarrow> bytes" where
  "chunkShutdownComplete_marshal h = chunkHeader_marshal (h\<lparr>ch_typ := ctShutdownComplete\<rparr>)"

section \<open>HEARTBEAT and HEARTBEAT ACK\<close>

text \<open>
  \<open>chunkHeartbeat\<close> declares \<open>Marshal\<close>, with a capital letter; the \<open>marshal\<close> of the
  interface is the one promoted from the embedded header.
\<close>

definition chunkHeartbeat_unmarshal :: "bytes \<Rightarrow> (sctp_error, chunk) result" where
  "chunkHeartbeat_unmarshal raw =
     bindR (chunkHeader_unmarshal raw) (\<lambda>h.
     bindR (guardR (ch_typ h = ctHeartbeat) (Err ''ErrChunkTypeNotHeartbeat'')) (\<lambda>_.
     if ch_raw h = [] then Inr (ChunkHeartbeat h [])
     else
       bindR (guardR (\<not> length (ch_raw h) < 4) (Err ''ErrHeartbeatNotLongEnoughInfo'')) (\<lambda>_.
       bindR (wrapErr ''ErrParseParamTypeFailed'' (parseParamType (ch_raw h))) (\<lambda>pType.
       bindR (guardR (pType = heartbeatInfo) (Err ''ErrHeartbeatParam'')) (\<lambda>_.
       bindR (wrapErr ''ErrParseParamTypeFailed'' (paramHeader_unmarshal (ch_raw h))) (\<lambda>pHeader.
       bindR (guardR (\<not> (ph_len pHeader < 4 \<or> ph_len pHeader > int (length (ch_raw h))))
               (Err ''ErrHeartbeatNotLongEnoughInfo'')) (\<lambda>_.
       bindR (slice 0 (nat (ph_len pHeader)) (ch_raw h)) (\<lambda>praw.
       bindR (wrapErr ''ErrHeartbeatChunkUnmarshal'' (buildParam pType praw)) (\<lambda>p.
       bindR (sliceFrom (nat (ph_len pHeader)) (ch_raw h)) (\<lambda>rem.
       bindR (guardR (\<not> (length rem > 0 \<and> \<not> allZero rem)) (Err ''ErrHeartbeatExtraNonZero'')) (\<lambda>_.
       Inr (ChunkHeartbeat h [p]))))))))))))"

definition chunkHeartbeat_Marshal :: "param list \<Rightarrow> (sctp_error, bytes) result" where
  "chunkHeartbeat_Marshal ps =
     (case ps of
        [p] \<Rightarrow>
          (case p of
             HeartbeatInfo _ _ \<Rightarrow>
               Inr (chunkHeader_marshal \<lparr>ch_typ = ctHeartbeat, ch_flags = 0, ch_raw = param_marshal p\<rparr>)
           | _ \<Rightarrow> Inl (Err ''ErrHeartbeatParam''))
      | _ \<Rightarrow> Inl (Err ''ErrHeartbeatMarshalNoInfo''))"

definition chunkHeartbeat_marshal :: "chunkHeader \<Rightarrow> bytes" where
  "chunkHeartbeat_marshal h = chunkHeader_marshal h"

definition chunkHeartbeatAck_unmarshal :: "bytes \<Rightarrow> (sctp_error, chunk) result" where
  "chunkHeartbeatAck_unmarshal raw =
     bindR (chunkHeader_unmarshal raw) (\<lambda>h.
     bindR (guardR (ch_typ h = ctHeartbeatAck) (Err ''ErrChunkTypeNotHeartbeatAck'')) (\<lambda>_.
     if ch_raw h = [] then Inr (ChunkHeartbeatAck h [])
     else
       bindR (guardR (\<not> length (ch_raw h) < 4) (Err ''ErrHeartbeatAckParams'')) (\<lambda>_.
       bindR (wrapErr ''ErrHeartbeatAckParams'' (parseParamType (ch_raw h))) (\<lambda>pType.
       bindR (guardR (pType = heartbeatInfo) (Err ''ErrHeartbeatAckNotHeartbeatInfo'')) (\<lambda>_.
       bindR (wrapErr ''ErrHeartbeatAckParams'' (paramHeader_unmarshal (ch_raw h))) (\<lambda>pHeader.
       bindR (guardR (\<not> (ph_len pHeader < 4 \<or> ph_len pHeader > int (length (ch_raw h))))
               (Err ''ErrHeartbeatAckParams'')) (\<lambda>_.
       bindR (slice 0 (nat (ph_len pHeader)) (ch_raw h)) (\<lambda>praw.
       bindR (wrapErr ''ErrHeartbeatAckMarshalParam'' (buildParam pType praw)) (\<lambda>p.
       bindR (sliceFrom (nat (ph_len pHeader)) (ch_raw h)) (\<lambda>rem.
       bindR (guardR (\<not> (length rem > 0 \<and> \<not> allZero rem)) (Err ''ErrHeartbeatExtraNonZero'')) (\<lambda>_.
       Inr (ChunkHeartbeatAck h [p]))))))))))))"

definition chunkHeartbeatAck_marshal :: "chunkHeader \<Rightarrow> param list \<Rightarrow> (sctp_error, bytes) result" where
  "chunkHeartbeatAck_marshal h ps =
     (case ps of
        [p] \<Rightarrow>
          (case p of
             HeartbeatInfo _ _ \<Rightarrow>
               Inr (chunkHeader_marshal (h\<lparr>ch_typ := ctHeartbeatAck, ch_raw := param_marshal p\<rparr>))
           | _ \<Rightarrow> Inl (Err ''ErrHeartbeatAckNotHeartbeatInfo''))
      | _ \<Rightarrow> Inl (Err ''ErrHeartbeatAckParams''))"

section \<open>DATA and I-DATA\<close>

definition zeroPayloadData :: chunkPayloadData where
  "zeroPayloadData = \<lparr>ch_typ = 0, ch_flags = 0, ch_raw = [], unordered = False, beginningFragment = False,
     endingFragment = False, immediateSack = False, tsn = 0, streamIdentifier = 0,
     streamSequenceNumber = 0, messageIdentifier = 0, fragmentSequenceNumber = 0, payloadType = 0,
     userData = None, iData = False, acked = False, missIndicator = 0, since = 0, nSent = 0,
     abandonedFlag = False, allInflight = False, retransmit = False, headRef = None\<rparr>"

definition UserData :: "chunkPayloadData \<Rightarrow> bytes" where
  "UserData p = (case userData p of None \<Rightarrow> [] | Some b \<Rightarrow> b)"

definition UserDataLen :: "chunkPayloadData \<Rightarrow> nat" where
  "UserDataLen p = length (UserData p)"

definition IsStreamReset :: "chunkPayloadData \<Rightarrow> bool" where
  "IsStreamReset p \<longleftrightarrow> userData p = None"

definition isIData :: "chunkPayloadData \<Rightarrow> bool" where
  "isIData p \<longleftrightarrow> iData p \<or> ch_typ p = ctIData"

definition isFragmented :: "chunkPayloadData \<Rightarrow> bool" where
  "isFragmented p \<longleftrightarrow> headRef p \<noteq> None \<or> \<not> beginningFragment p \<or> \<not> endingFragment p"

definition chunkSize :: "chunkPayloadData \<Rightarrow> nat" where
  "chunkSize p = (if isIData p then 4 + 16 + UserDataLen p else 4 + 12 + UserDataLen p)"

definition chunkSizeInPacket :: "chunkPayloadData \<Rightarrow> nat" where
  "chunkSizeInPacket p = chunkSize p + getPadding (chunkSize p)"

definition chunkPayloadData_unmarshal :: "bytes \<Rightarrow> (sctp_error, chunk) result" where
  "chunkPayloadData_unmarshal raw =
     bindR (chunkHeader_unmarshal raw) (\<lambda>h.
     let b = ch_raw h;
         p = zeroPayloadData\<lparr>ch_typ := ch_typ h, ch_flags := ch_flags h, ch_raw := b,
               immediateSack := (ch_flags h AND 8 \<noteq> 0), unordered := (ch_flags h AND 4 \<noteq> 0),
               beginningFragment := (ch_flags h AND 2 \<noteq> 0), endingFragment := (ch_flags h AND 1 \<noteq> 0)\<rparr>
     in if ch_typ h = ctPayloadData then
          bindR (guardR (\<not> length b < 12) (Err ''ErrChunkPayloadSmall'')) (\<lambda>_.
          bindR (getU32 0 b) (\<lambda>t.
          bindR (getU16 4 b) (\<lambda>sid.
          bindR (getU16 6 b) (\<lambda>ssn.
          bindR (getU32 8 b) (\<lambda>ppi.
          bindR (sliceFrom 12 b) (\<lambda>d.
          Inr (ChunkPayloadData (p\<lparr>tsn := t, streamIdentifier := sid, streamSequenceNumber := ssn,
            payloadType := ppi, userData := Some d, iData := False\<rparr>))))))))
        else if ch_typ h = ctIData then
          bindR (guardR (\<not> length b < 16) (Err ''ErrChunkPayloadSmall'')) (\<lambda>_.
          bindR (getU32 0 b) (\<lambda>t.
          bindR (getU16 4 b) (\<lambda>sid.
          bindR (getU32 8 b) (\<lambda>mid.
          bindR (getU32 12 b) (\<lambda>w.
          bindR (sliceFrom 16 b) (\<lambda>d.
          Inr (ChunkPayloadData (p\<lparr>tsn := t, streamIdentifier := sid, messageIdentifier := mid,
            payloadType := (if beginningFragment p then w else 0),
            fragmentSequenceNumber := (if beginningFragment p then 0 else w),
            streamSequenceNumber := ucast mid, userData := Some d, iData := True\<rparr>))))))))
        else Inl (Err ''ErrChunkTypeUnhandled''))"

definition payloadFlags :: "chunkPayloadData \<Rightarrow> byte" where
  "payloadFlags p =
     (let f0 = (if endingFragment p then 1 else 0);
          f1 = (if beginningFragment p then f0 OR 2 else f0);
          f2 = (if unordered p then f1 OR 4 else f1)
      in if immediateSack p then f2 OR 8 else f2)"

definition chunkPayloadData_marshal :: "chunkPayloadData \<Rightarrow> bytes" where
  "chunkPayloadData_marshal p =
     (if isIData p
      then chunkHeader_marshal \<lparr>ch_typ = ctIData, ch_flags = payloadFlags p,
             ch_raw = PutUint32 (tsn p) @ PutUint16 (streamIdentifier p) @ PutUint16 0 @
               PutUint32 (messageIdentifier p) @
               PutUint32 (if beginningFragment p then payloadType p else fragmentSequenceNumber p) @ UserData p\<rparr>
      else chunkHeader_marshal \<lparr>ch_typ = ctPayloadData, ch_flags = payloadFlags p,
             ch_raw = PutUint32 (tsn p) @ PutUint16 (streamIdentifier p) @ PutUint16 (streamSequenceNumber p) @
               PutUint32 (payloadType p) @ UserData p\<rparr>)"

section \<open>SACK\<close>

definition readGap :: "bytes \<Rightarrow> (sctp_error, gapAckBlock) result" where
  "readGap b = bindR (getU16 0 b) (\<lambda>s. bindR (getU16 2 b) (\<lambda>e. Inr \<lparr>gap_start = s, gap_end = e\<rparr>))"

definition putGap :: "gapAckBlock \<Rightarrow> bytes" where
  "putGap g = PutUint16 (gap_start g) @ PutUint16 (gap_end g)"

definition chunkSelectiveAck_unmarshal :: "bytes \<Rightarrow> (sctp_error, chunk) result" where
  "chunkSelectiveAck_unmarshal raw =
     bindR (chunkHeader_unmarshal raw) (\<lambda>h.
     let b = ch_raw h in
     bindR (guardR (ch_typ h = ctSack) (Err ''ErrChunkTypeNotSack'')) (\<lambda>_.
     bindR (guardR (\<not> length b < 12) (Err ''ErrSackSizeNotLargeEnoughInfo'')) (\<lambda>_.
     bindR (getU32 0 b) (\<lambda>cum.
     bindR (getU32 4 b) (\<lambda>arwnd.
     bindR (getU16 8 b) (\<lambda>ngaps.
     bindR (getU16 10 b) (\<lambda>ndups.
     bindR (guardR (length b = 12 + (4 * unat ngaps + 4 * unat ndups)) (Err ''ErrSackSizeNotMatchPredicted'')) (\<lambda>_.
     bindR (readN readGap 4 (unat ngaps) (drop 12 b)) (\<lambda>gaps.
     bindR (readN Uint32 4 (unat ndups) (drop (12 + 4 * unat ngaps) b)) (\<lambda>dups.
     Inr (ChunkSelectiveAck \<lparr>ch_typ = ch_typ h, ch_flags = ch_flags h, ch_raw = b, cumulativeTSNAck = cum,
       sack_arwnd = arwnd, gapAckBlocks = gaps, duplicateTSN = dups\<rparr>)))))))))))"

definition chunkSelectiveAck_marshal :: "chunkSelectiveAck \<Rightarrow> bytes" where
  "chunkSelectiveAck_marshal s =
     chunkHeader_marshal \<lparr>ch_typ = ctSack, ch_flags = ch_flags s,
       ch_raw = PutUint32 (cumulativeTSNAck s) @ PutUint32 (sack_arwnd s) @
         PutUint16 (of_nat (length (gapAckBlocks s))) @ PutUint16 (of_nat (length (duplicateTSN s))) @
         concat (map putGap (gapAckBlocks s)) @ concat (map PutUint32 (duplicateTSN s))\<rparr>"

section \<open>RECONFIG\<close>

definition chunkReconfig_unmarshal :: "bytes \<Rightarrow> (sctp_error, chunk) result" where
  "chunkReconfig_unmarshal raw =
     bindR (chunkHeader_unmarshal raw) (\<lambda>h.
     bindR (wrapErr ''ErrChunkParseParamTypeFailed'' (parseParamType (ch_raw h))) (\<lambda>pType.
     bindR (buildParam pType (ch_raw h)) (\<lambda>a.
     let offset = nat (param_length a) + getPadding (nat (param_length a))
     in if length (ch_raw h) > offset then
          bindR (sliceFrom offset (ch_raw h)) (\<lambda>rest.
          bindR (wrapErr ''ErrChunkParseParamTypeFailed'' (parseParamType rest)) (\<lambda>pType'.
          bindR (buildParam pType' rest) (\<lambda>b.
          Inr (ChunkReconfig h a (Some b)))))
        else Inr (ChunkReconfig h a None))))"

definition chunkReconfig_marshal :: "chunkHeader \<Rightarrow> param \<Rightarrow> param option \<Rightarrow> bytes" where
  "chunkReconfig_marshal h paramA paramB =
     (let out = param_marshal paramA;
          out' = (case paramB of
                    None \<Rightarrow> out
                  | Some b \<Rightarrow> padByte out (int (getPadding (length out))) @ param_marshal b)
      in chunkHeader_marshal (h\<lparr>ch_typ := ctReconfig, ch_raw := out'\<rparr>))"

section \<open>FORWARD TSN and I-FORWARD-TSN\<close>

definition chunkForwardTSNStream_unmarshal :: "bytes \<Rightarrow> (sctp_error, chunkForwardTSNStream) result" where
  "chunkForwardTSNStream_unmarshal b =
     bindR (guardR (\<not> length b < 4) (Err ''ErrChunkTooShort'')) (\<lambda>_.
     bindR (getU16 0 b) (\<lambda>i. bindR (getU16 2 b) (\<lambda>s. Inr \<lparr>fwd_identifier = i, fwd_sequence = s\<rparr>)))"

definition chunkForwardTSNStream_marshal :: "chunkForwardTSNStream \<Rightarrow> bytes" where
  "chunkForwardTSNStream_marshal s = PutUint16 (fwd_identifier s) @ PutUint16 (fwd_sequence s)"

text \<open>The stream loop, on the unread part of the value.\<close>

function readForwardStreams :: "bytes \<Rightarrow> (sctp_error, chunkForwardTSNStream list) result" where
  "readForwardStreams rem =
     (if length rem > 0 then
        (case chunkForwardTSNStream_unmarshal rem of
           Inl Panic \<Rightarrow> Inl Panic
         | Inl (Err _) \<Rightarrow> Inl (Err ''ErrMarshalStreamFailed'')
         | Inr s \<Rightarrow> bindR (readForwardStreams (drop 4 rem)) (\<lambda>ss. Inr (s # ss)))
      else Inr [])"
  by pat_completeness auto
termination
  by (relation "measure length") auto

declare readForwardStreams.simps [simp del]

definition chunkForwardTSN_unmarshal :: "bytes \<Rightarrow> (sctp_error, chunk) result" where
  "chunkForwardTSN_unmarshal raw =
     bindR (chunkHeader_unmarshal raw) (\<lambda>h.
     bindR (guardR (\<not> length (ch_raw h) < 4) (Err ''ErrChunkTooShort'')) (\<lambda>_.
     bindR (getU32 0 (ch_raw h)) (\<lambda>cum.
     bindR (readForwardStreams (drop 4 (ch_raw h))) (\<lambda>ss.
     Inr (ChunkForwardTSN h cum ss)))))"

definition chunkForwardTSN_marshal :: "chunkHeader \<Rightarrow> u32 \<Rightarrow> chunkForwardTSNStream list \<Rightarrow> bytes" where
  "chunkForwardTSN_marshal h cum ss =
     chunkHeader_marshal (h\<lparr>ch_typ := ctForwardTSN,
       ch_raw := PutUint32 cum @ concat (map chunkForwardTSNStream_marshal ss)\<rparr>)"

definition chunkIForwardTSNStream_unmarshal :: "bytes \<Rightarrow> (sctp_error, chunkIForwardTSNStream) result" where
  "chunkIForwardTSNStream_unmarshal b =
     bindR (guardR (\<not> length b < 8) (Err ''errIForwardTSNChunkTooShort'')) (\<lambda>_.
     bindR (getU16 0 b) (\<lambda>i.
     bindR (getU16 2 b) (\<lambda>f.
     bindR (getU32 4 b) (\<lambda>m.
     Inr \<lparr>ifwd_identifier = i, ifwd_unordered = (f AND 1 \<noteq> 0), ifwd_messageIdentifier = m\<rparr>))))"

definition chunkIForwardTSNStream_marshal :: "chunkIForwardTSNStream \<Rightarrow> bytes" where
  "chunkIForwardTSNStream_marshal s =
     PutUint16 (ifwd_identifier s) @ PutUint16 (if ifwd_unordered s then 1 else 0) @
     PutUint32 (ifwd_messageIdentifier s)"

definition maxIForwardTSNStreams :: nat where
  "maxIForwardTSNStreams = (65536 - 1 - 4 - 4) div 8"

type_synonym iForwardTSNStreamKey = "u16 \<times> bool"

definition streamKey :: "chunkIForwardTSNStream \<Rightarrow> iForwardTSNStreamKey" where
  "streamKey s = (ifwd_identifier s, ifwd_unordered s)"

fun normalizeLoop :: "chunkIForwardTSNStream list \<Rightarrow> chunkIForwardTSNStream list \<Rightarrow>
    (iForwardTSNStreamKey \<rightharpoonup> nat) \<Rightarrow> chunkIForwardTSNStream list" where
  "normalizeLoop [] normalized forwarded = normalized"
| "normalizeLoop (s # ss) normalized forwarded =
     (case forwarded (streamKey s) of
        Some idx \<Rightarrow>
          normalizeLoop ss
            (if sna32LT (ifwd_messageIdentifier (normalized ! idx)) (ifwd_messageIdentifier s)
             then normalized[idx := (normalized ! idx)\<lparr>ifwd_messageIdentifier := ifwd_messageIdentifier s\<rparr>]
             else normalized) forwarded
      | None \<Rightarrow> normalizeLoop ss (normalized @ [s]) (forwarded(streamKey s \<mapsto> length normalized)))"

definition normalizeIForwardTSNStreams :: "chunkIForwardTSNStream list \<Rightarrow> chunkIForwardTSNStream list" where
  "normalizeIForwardTSNStreams streams =
     (if length streams < 2 then streams else normalizeLoop streams [] Map.empty)"

definition chunkIForwardTSN_check :: "chunkIForwardTSNStream list \<Rightarrow> checked" where
  "chunkIForwardTSN_check ss =
     (if length (normalizeIForwardTSNStreams ss) > maxIForwardTSNStreams
      then (True, Some (Err ''errIForwardTSNTooManyStreams'')) else (False, None))"

definition chunkIForwardTSN_unmarshal :: "bytes \<Rightarrow> (sctp_error, chunk) result" where
  "chunkIForwardTSN_unmarshal raw =
     bindR (chunkHeader_unmarshal raw) (\<lambda>h.
     bindR (guardR (\<not> length (ch_raw h) < 4) (Err ''errIForwardTSNChunkTooShort'')) (\<lambda>_.
     bindR (getU32 0 (ch_raw h)) (\<lambda>cum.
     let streamBytes = length (ch_raw h) - 4; streamCount = streamBytes div 8 in
     bindR (guardR (streamBytes mod 8 = 0) (Err ''ErrMarshalStreamFailed'')) (\<lambda>_.
     bindR (guardR (\<not> streamCount > maxIForwardTSNStreams) (Err ''errIForwardTSNTooManyStreams'')) (\<lambda>_.
     bindR (wrapErr ''ErrMarshalStreamFailed''
              (readN chunkIForwardTSNStream_unmarshal 8 streamCount (drop 4 (ch_raw h)))) (\<lambda>ss.
     Inr (ChunkIForwardTSN h cum (normalizeIForwardTSNStreams ss))))))))"

definition chunkIForwardTSN_marshal ::
  "chunkHeader \<Rightarrow> u32 \<Rightarrow> chunkIForwardTSNStream list \<Rightarrow> (sctp_error, bytes) result" where
  "chunkIForwardTSN_marshal h cum ss =
     (let streams = normalizeIForwardTSNStreams ss
      in case snd (chunkIForwardTSN_check streams) of
           Some e \<Rightarrow> Inl e
         | None \<Rightarrow> Inr (chunkHeader_marshal (h\<lparr>ch_typ := ctIForwardTSN,
             ch_raw := PutUint32 cum @ concat (map chunkIForwardTSNStream_marshal streams)\<rparr>)))"

section \<open>The chunk interface\<close>

fun chunk_marshal :: "chunk \<Rightarrow> (sctp_error, bytes) result" where
  "chunk_marshal (ChunkInit h i) = Inr (chunkInit_marshal h i)"
| "chunk_marshal (ChunkInitAck h i) = Inr (chunkInitAck_marshal h i)"
| "chunk_marshal (ChunkAbort _ es) = chunkAbort_marshal es"
| "chunk_marshal (ChunkError _ es) = chunkError_marshal es"
| "chunk_marshal (ChunkCookieEcho h c) = Inr (chunkCookieEcho_marshal h c)"
| "chunk_marshal (ChunkCookieAck h) = Inr (chunkCookieAck_marshal h)"
| "chunk_marshal (ChunkHeartbeat h _) = Inr (chunkHeartbeat_marshal h)"
| "chunk_marshal (ChunkHeartbeatAck h ps) = chunkHeartbeatAck_marshal h ps"
| "chunk_marshal (ChunkPayloadData p) = Inr (chunkPayloadData_marshal p)"
| "chunk_marshal (ChunkSelectiveAck s) = Inr (chunkSelectiveAck_marshal s)"
| "chunk_marshal (ChunkReconfig h a b) = Inr (chunkReconfig_marshal h a b)"
| "chunk_marshal (ChunkForwardTSN h c ss) = Inr (chunkForwardTSN_marshal h c ss)"
| "chunk_marshal (ChunkIForwardTSN h c ss) = chunkIForwardTSN_marshal h c ss"
| "chunk_marshal (ChunkShutdown h t) = Inr (chunkShutdown_marshal h t)"
| "chunk_marshal (ChunkShutdownAck h) = Inr (chunkShutdownAck_marshal h)"
| "chunk_marshal (ChunkShutdownComplete h) = Inr (chunkShutdownComplete_marshal h)"

fun chunk_check :: "chunk \<Rightarrow> checked" where
  "chunk_check (ChunkInit _ i) = chunkInit_check i"
| "chunk_check (ChunkInitAck _ i) = chunkInitAck_check i"
| "chunk_check (ChunkForwardTSN _ _ _) = (True, None)"
| "chunk_check (ChunkIForwardTSN _ _ ss) = chunkIForwardTSN_check ss"
| "chunk_check (ChunkReconfig _ _ _) = (True, None)"
| "chunk_check _ = (False, None)"

end
