(* ===== verification/ChunkFacts.thy ===== *)
theory ChunkFacts
  imports Chunks
begin

text \<open>
  Facts on the chunk codecs of theory \<open>Chunks\<close>: they never panic, a parsed chunk knows its
  extent, and marshalled chunks are parsed back.
\<close>

section \<open>No panics\<close>

lemma initParams_no_panic [simp]: "no_panic (initParams rem)"
proof (induction rem rule: initParams.induct)
  case (1 rem)
  have h: "paramHeader_unmarshal rem \<noteq> Inl Panic" and b: "buildParam t rem \<noteq> Inl Panic" for t
    using paramHeader_unmarshal_no_panic [of rem] buildParam_no_panic [of t rem] by (simp_all add: no_panic_def)
  show ?case
    apply (subst initParams.simps)
    using 1 h b
    by (auto simp: Let_def split: sum.splits sctp_error.splits intro!: no_panic_bindR)
qed

lemma readCauses_no_panic [simp]: "no_panic (readCauses f rem)"
proof (induction f rem rule: readCauses.induct)
  case (1 f rem)
  show ?case
    apply (subst readCauses.simps)
    using 1 buildErrorCause_no_panic [of rem]
    by (auto split: sum.splits sctp_error.splits intro!: no_panic_bindR)
qed

lemma chunkForwardTSNStream_unmarshal_no_panic [simp]: "no_panic (chunkForwardTSNStream_unmarshal b)"
  unfolding chunkForwardTSNStream_unmarshal_def by (intro no_panic_bindR) (auto simp: Uint16_no_panic)

lemma readForwardStreams_no_panic [simp]: "no_panic (readForwardStreams rem)"
proof (induction rem rule: readForwardStreams.induct)
  case (1 rem)
  have "chunkForwardTSNStream_unmarshal rem \<noteq> Inl Panic"
    using chunkForwardTSNStream_unmarshal_no_panic [of rem] by (simp add: no_panic_def)
  then show ?case
    apply (subst readForwardStreams.simps)
    using 1 by (auto split: sum.splits sctp_error.splits intro!: no_panic_bindR)
qed

lemma chunkIForwardTSNStream_unmarshal_no_panic [simp]: "no_panic (chunkIForwardTSNStream_unmarshal b)"
  unfolding chunkIForwardTSNStream_unmarshal_def by (intro no_panic_bindR) (auto simp: Uint16_no_panic)

lemma readGap_no_panic: "4 \<le> length b \<Longrightarrow> no_panic (readGap b)"
  unfolding readGap_def by (intro no_panic_bindR) (auto simp: Uint16_no_panic)

lemma chunkInitCommon_unmarshal_no_panic: "16 \<le> length b \<Longrightarrow> no_panic (chunkInitCommon_unmarshal b)"
  unfolding chunkInitCommon_unmarshal_def
  by (intro no_panic_bindR) (auto simp: Uint32_no_panic split: prod.splits)

lemma heartbeat_no_panic [simp]:
  "no_panic (chunkHeartbeat_unmarshal raw)" "no_panic (chunkHeartbeatAck_unmarshal raw)"
  unfolding chunkHeartbeat_unmarshal_def chunkHeartbeatAck_unmarshal_def
  by (auto intro!: no_panic_bindR simp: nat_le_iff)

lemma init_no_panic [simp]:
  "no_panic (chunkInit_unmarshal raw)" "no_panic (chunkInitAck_unmarshal raw)"
  unfolding chunkInit_unmarshal_def chunkInitAck_unmarshal_def
  by (auto intro!: no_panic_bindR chunkInitCommon_unmarshal_no_panic)

lemma causes_no_panic [simp]:
  "no_panic (chunkAbort_unmarshal raw)" "no_panic (chunkError_unmarshal raw)"
  unfolding chunkAbort_unmarshal_def chunkError_unmarshal_def
  by (auto intro!: no_panic_bindR)

lemma small_no_panic [simp]:
  "no_panic (chunkCookieEcho_unmarshal raw)" "no_panic (chunkCookieAck_unmarshal raw)"
  "no_panic (chunkShutdown_unmarshal raw)" "no_panic (chunkShutdownAck_unmarshal raw)"
  "no_panic (chunkShutdownComplete_unmarshal raw)"
  unfolding chunkCookieEcho_unmarshal_def chunkCookieAck_unmarshal_def chunkShutdown_unmarshal_def
    chunkShutdownAck_unmarshal_def chunkShutdownComplete_unmarshal_def
  by (auto intro!: no_panic_bindR simp: Uint32_no_panic)

lemma payload_no_panic [simp]: "no_panic (chunkPayloadData_unmarshal raw)"
  unfolding chunkPayloadData_unmarshal_def Let_def
  by (auto intro!: no_panic_bindR simp: Uint32_no_panic)

lemma sack_no_panic [simp]: "no_panic (chunkSelectiveAck_unmarshal raw)"
  unfolding chunkSelectiveAck_unmarshal_def Let_def
  by (intro no_panic_bindR) (auto intro!: readN_no_panic simp: Uint32_no_panic readGap_no_panic)

lemma reconfig_no_panic [simp]: "no_panic (chunkReconfig_unmarshal raw)"
  unfolding chunkReconfig_unmarshal_def Let_def by (auto intro!: no_panic_bindR)

lemma forward_no_panic [simp]:
  "no_panic (chunkForwardTSN_unmarshal raw)" "no_panic (chunkIForwardTSN_unmarshal raw)"
  unfolding chunkForwardTSN_unmarshal_def chunkIForwardTSN_unmarshal_def Let_def
  by (auto intro!: no_panic_bindR readN_no_panic simp: Uint32_no_panic)

section \<open>Round trips\<close>

subsection \<open>INIT parameters\<close>

text \<open>
  The parameter loop gives up when at most four bytes are left, so a list that ends in a parameter
  without a value does not come back.
\<close>

definition params_ok :: "param list \<Rightarrow> bool" where
  "params_ok ps \<longleftrightarrow> (\<forall>p \<in> set ps. param_ok p) \<and> (ps \<noteq> [] \<longrightarrow> param_value (last ps) \<noteq> [])"

lemma length_param_marshal [simp]: "length (param_marshal p) = 4 + length (param_value p)"
  by (simp add: param_marshal_eq)

lemma wire_header_simps [simp]:
  "ph_typ (wire_header t v) = t" "ph_len (wire_header t v) = 4 + int (length v)" "ph_raw (wire_header t v) = v"
  by (simp_all add: wire_header_def)

lemma initParams_step:
  assumes "param_ok p" and "4 < length (param_marshal p @ r)"
  shows "initParams (param_marshal p @ r) =
    bindR (initParams (drop (4 + length (param_value p) + getPadding (length (param_value p))) (param_marshal p @ r)))
      (\<lambda>(ps, us). Inr (param_filled p # ps, us))"
proof -
  have h: "paramHeader_unmarshal (param_marshal p @ r) = Inr (wire_header (param_typ p) (param_value p))"
    unfolding param_marshal_eq by (rule paramHeader_roundtrip [OF param_ok_length [OF assms(1)]])
  have n: "nat (4 + int (length (param_value p))) = 4 + length (param_value p)" by simp
  show ?thesis
    unfolding initParams.simps [of "param_marshal p @ r"] h
    using assms by (simp add: buildParam_marshal n Let_def)
qed

lemma initParams_nil [simp]: "initParams [] = Inr ([], [])"
  by (simp add: initParams.simps)

text \<open>The parameters the loop sees: all of them but a last one without a value.\<close>

definition params_seen :: "param list \<Rightarrow> param list" where
  "params_seen ps = (if ps \<noteq> [] \<and> param_value (last ps) = [] then butlast ps else ps)"

lemma params_seen_ok: "params_ok ps \<Longrightarrow> params_seen ps = ps"
  by (auto simp: params_ok_def params_seen_def)

lemma initParams_marshal:
  "\<forall>p \<in> set ps. param_ok p \<Longrightarrow> initParams (marshalParams ps) = Inr (map param_filled (params_seen ps), [])"
proof (induction ps rule: marshalParams.induct)
  case 1
  show ?case by (simp add: params_seen_def)
next
  case (2 p)
  then show ?case
    using initParams_step [of p "[]"] by (cases "param_value p") (auto simp: params_seen_def initParams.simps)
next
  case (3 p q ps)
  let ?rest = "marshalParams (q # ps)"
  let ?pad = "replicate (getPadding (length (param_value p))) 0 :: bytes"
  have ok: "param_ok p" "\<forall>p \<in> set (q # ps). param_ok p" using 3(2) by auto
  have seen: "params_seen (p # q # ps) = p # params_seen (q # ps)" by (simp add: params_seen_def)
  have "0 < length ?rest" by (cases ps) (simp_all add: padByte_def)
  moreover have "drop (4 + length (param_value p) + getPadding (length (param_value p)))
      (param_marshal p @ ?pad @ ?rest) = ?rest"
    by simp
  ultimately show ?case
    using initParams_step [OF ok(1), of "?pad @ ?rest"] 3(1) [OF ok(2)]
    by (simp add: padByte_def seen)
qed

subsection \<open>Chunks\<close>

lemma errorCauseHeader_marshal_ok:
  assumes "length v + 4 < 65536"
  shows "errorCauseHeader_marshal c v = Inr (PutUint16 c @ PutUint16 (of_nat (length v + 4)) @ v)"
proof -
  have "unat (of_nat (length v) + 4 :: u16) = length v + 4"
    using unat_of_nat_u16 [OF assms] by simp
  then show ?thesis by (simp add: errorCauseHeader_marshal_def Let_def)
qed

lemma errorCauseHeader_roundtrip:
  assumes "length v + 4 < 65536"
  shows "errorCauseHeader_unmarshal (PutUint16 c @ PutUint16 (of_nat (length v + 4)) @ v @ r) =
    Inr \<lparr>ec_code = c, ec_len = of_nat (length v + 4), ec_raw = v\<rparr>"
proof -
  let ?b = "PutUint16 c @ PutUint16 (of_nat (length v + 4)) @ v @ r"
  have l: "unat (of_nat (length v + 4) :: u16) = length v + 4" by (rule unat_of_nat_u16 [OF assms])
  have l4: "unat (of_nat (length v + 4) - 4 :: u16) = length v"
    using unat_of_nat_u16 [of "length v"] assms by simp
  have "getU16 2 ?b = Inr (of_nat (length v + 4))" by (simp add: getU16_skip)
  moreover have "slice 4 (4 + length v) ?b = Inr v" by (simp add: slice_def)
  ultimately show ?thesis
    unfolding errorCauseHeader_unmarshal_def
    by (simp add: l l4 word_less_nat_alt del: of_nat_add)
qed

text \<open>The value of a chunk on the wire.\<close>

definition payload_value :: "chunkPayloadData \<Rightarrow> bytes" where
  "payload_value p =
     (if isIData p
      then PutUint32 (tsn p) @ PutUint16 (streamIdentifier p) @ PutUint16 0 @ PutUint32 (messageIdentifier p) @
           PutUint32 (if beginningFragment p then payloadType p else fragmentSequenceNumber p) @ UserData p
      else PutUint32 (tsn p) @ PutUint16 (streamIdentifier p) @ PutUint16 (streamSequenceNumber p) @
           PutUint32 (payloadType p) @ UserData p)"

definition sack_value :: "chunkSelectiveAck \<Rightarrow> bytes" where
  "sack_value s = PutUint32 (cumulativeTSNAck s) @ PutUint32 (sack_arwnd s) @
     PutUint16 (of_nat (length (gapAckBlocks s))) @ PutUint16 (of_nat (length (duplicateTSN s))) @
     concat (map putGap (gapAckBlocks s)) @ concat (map PutUint32 (duplicateTSN s))"

text \<open>
  A DATA chunk as the receiver sees it: the wire fields, none of the sender's book-keeping. An I-DATA
  chunk carries the payload type in its first fragment and the fragment number in the others.
\<close>

definition payload_received :: "chunkPayloadData \<Rightarrow> chunkPayloadData" where
  "payload_received p =
     (let q = zeroPayloadData\<lparr>ch_flags := payloadFlags p, ch_raw := payload_value p,
            unordered := unordered p, beginningFragment := beginningFragment p,
            endingFragment := endingFragment p, immediateSack := immediateSack p, tsn := tsn p,
            streamIdentifier := streamIdentifier p, userData := Some (UserData p)\<rparr>
      in if isIData p
         then q\<lparr>ch_typ := ctIData, messageIdentifier := messageIdentifier p,
                streamSequenceNumber := ucast (messageIdentifier p),
                payloadType := (if beginningFragment p then payloadType p else 0),
                fragmentSequenceNumber := (if beginningFragment p then 0 else fragmentSequenceNumber p),
                iData := True\<rparr>
         else q\<lparr>streamSequenceNumber := streamSequenceNumber p, payloadType := payloadType p\<rparr>)"

definition init_received :: "chunkInitCommon \<Rightarrow> chunkInitCommon" where
  "init_received i = i\<lparr>init_params := map param_filled (init_params i), unrecognizedParams := []\<rparr>"

lemma payloadFlags_bits:
  "(payloadFlags p AND 8 \<noteq> 0) = immediateSack p" "(payloadFlags p AND 4 \<noteq> 0) = unordered p"
  "(payloadFlags p AND 2 \<noteq> 0) = beginningFragment p" "(payloadFlags p AND 1 \<noteq> 0) = endingFragment p"
  by (simp_all add: payloadFlags_def Let_def)

lemma payload_roundtrip:
  assumes "length (payload_value p) + 4 < 65536" and "rest_ok r"
  shows "chunkPayloadData_unmarshal (chunkPayloadData_marshal p @ r) = Inr (ChunkPayloadData (payload_received p))"
proof (cases "isIData p")
  case True
  let ?c = "\<lparr>ch_typ = ctIData, ch_flags = payloadFlags p, ch_raw = payload_value p\<rparr>"
  have m: "chunkPayloadData_marshal p = chunkHeader_marshal ?c"
    using True by (simp add: chunkPayloadData_marshal_def payload_value_def)
  have h: "chunkHeader_unmarshal (chunkHeader_marshal ?c @ r) = Inr ?c"
    using assms by (intro chunkHeader_roundtrip) simp_all
  show ?thesis
    unfolding chunkPayloadData_unmarshal_def m h using True
    by (simp add: payload_received_def payload_value_def getU32_skip getU16_skip sliceFrom_def
        payloadFlags_bits zeroPayloadData_def)
next
  case False
  let ?c = "\<lparr>ch_typ = ctPayloadData, ch_flags = payloadFlags p, ch_raw = payload_value p\<rparr>"
  have m: "chunkPayloadData_marshal p = chunkHeader_marshal ?c"
    using False by (simp add: chunkPayloadData_marshal_def payload_value_def)
  have h: "chunkHeader_unmarshal (chunkHeader_marshal ?c @ r) = Inr ?c"
    using assms by (intro chunkHeader_roundtrip) simp_all
  show ?thesis
    unfolding chunkPayloadData_unmarshal_def m h using False
    by (simp add: payload_received_def payload_value_def getU32_skip getU16_skip sliceFrom_def
        payloadFlags_bits zeroPayloadData_def)
qed

lemma putGap_length [simp]: "length (putGap g) = 4"
  by (simp add: putGap_def)

lemma readGap_put [simp]: "readGap (putGap g @ r) = Inr g"
  by (simp add: readGap_def putGap_def getU16_skip)

lemma sack_roundtrip:
  assumes len: "length (sack_value s) + 4 < 65536" and r: "rest_ok r"
  shows "chunkSelectiveAck_unmarshal (chunkSelectiveAck_marshal s @ r) =
    Inr (ChunkSelectiveAck (s\<lparr>ch_typ := ctSack, ch_raw := sack_value s\<rparr>))"
proof -
  let ?c = "\<lparr>ch_typ = ctSack, ch_flags = ch_flags s, ch_raw = sack_value s\<rparr>"
  let ?g = "length (gapAckBlocks s)" and ?d = "length (duplicateTSN s)"
  have gl: "length (concat (map putGap (gapAckBlocks s))) = 4 * ?g" by (simp add: length_concat_const)
  have bound: "?g < 65536" "?d < 65536" using len gl by (simp_all add: sack_value_def)
  note u = unat_of_nat_u16 [OF bound(1)] unat_of_nat_u16 [OF bound(2)]
  have m: "chunkSelectiveAck_marshal s = chunkHeader_marshal ?c"
    by (simp add: chunkSelectiveAck_marshal_def sack_value_def)
  have h: "chunkHeader_unmarshal (chunkHeader_marshal ?c @ r) = Inr ?c"
    using assms by (intro chunkHeader_roundtrip) simp_all
  have gaps: "readN readGap 4 ?g (concat (map putGap (gapAckBlocks s)) @ t) = Inr (gapAckBlocks s)" for t
    by (rule readN_concat) simp_all
  have dups: "readN Uint32 4 ?d (concat (map PutUint32 (duplicateTSN s))) = Inr (duplicateTSN s)"
    using readN_concat [of "duplicateTSN s" Uint32 PutUint32 4 ?d "[]"] by simp
  have dr: "drop (12 + 4 * ?g) (sack_value s) = concat (map PutUint32 (duplicateTSN s))"
    by (simp add: sack_value_def gl)
  have fields: "getU32 0 (sack_value s) = Inr (cumulativeTSNAck s)" "getU32 4 (sack_value s) = Inr (sack_arwnd s)"
    "getU16 8 (sack_value s) = Inr (of_nat ?g)" "getU16 10 (sack_value s) = Inr (of_nat ?d)"
    "drop 12 (sack_value s) = concat (map putGap (gapAckBlocks s)) @ concat (map PutUint32 (duplicateTSN s))"
    "length (sack_value s) = 12 + (4 * ?g + 4 * ?d)"
    by (simp_all add: sack_value_def getU32_skip getU16_skip gl)
  show ?thesis
    unfolding chunkSelectiveAck_unmarshal_def m h
    by (simp add: Let_def fields u gaps dr dups del: getU_0)
qed

subsection \<open>Normal form of I-FORWARD-TSN streams\<close>

text \<open>
  The map of the normalisation loop indexes the list built so far, whose keys are distinct.
\<close>

definition norm_inv :: "chunkIForwardTSNStream list \<Rightarrow> (iForwardTSNStreamKey \<rightharpoonup> nat) \<Rightarrow> bool" where
  "norm_inv ns fwd \<longleftrightarrow> distinct (map streamKey ns) \<and>
     (\<forall>k i. fwd k = Some i \<longleftrightarrow> i < length ns \<and> streamKey (ns ! i) = k)"

lemma norm_inv_at: "norm_inv ns fwd \<Longrightarrow> fwd k = Some i \<longleftrightarrow> i < length ns \<and> streamKey (ns ! i) = k"
  unfolding norm_inv_def by blast

lemma norm_inv_distinct: "norm_inv ns fwd \<Longrightarrow> distinct (map streamKey ns)"
  by (simp add: norm_inv_def)

lemma norm_invI:
  "\<lbrakk>distinct (map streamKey ns); \<And>k i. fwd k = Some i \<longleftrightarrow> i < length ns \<and> streamKey (ns ! i) = k\<rbrakk> \<Longrightarrow> norm_inv ns fwd"
  unfolding norm_inv_def by blast

lemma norm_inv_update:
  assumes inv: "norm_inv ns fwd" and "fwd k = Some i"
  shows "norm_inv (ns[i := (ns ! i)\<lparr>ifwd_messageIdentifier := m\<rparr>]) fwd"
proof (rule norm_invI)
  have i: "i < length ns" using assms norm_inv_at by blast
  have key: "streamKey ((ns ! i)\<lparr>ifwd_messageIdentifier := m\<rparr>) = streamKey (ns ! i)"
    by (simp add: streamKey_def)
  have "map streamKey (ns[i := (ns ! i)\<lparr>ifwd_messageIdentifier := m\<rparr>]) = map streamKey ns"
    using i key by (intro nth_equalityI) (auto simp: nth_list_update)
  then show "distinct (map streamKey (ns[i := (ns ! i)\<lparr>ifwd_messageIdentifier := m\<rparr>]))"
    using norm_inv_distinct [OF inv] by simp
  show "fwd q = Some j \<longleftrightarrow> j < length (ns[i := (ns ! i)\<lparr>ifwd_messageIdentifier := m\<rparr>]) \<and>
      streamKey (ns[i := (ns ! i)\<lparr>ifwd_messageIdentifier := m\<rparr>] ! j) = q" for q j
    using norm_inv_at [OF inv, of q j] i key by (cases "i = j") simp_all
qed

lemma norm_inv_fresh: "norm_inv ns fwd \<Longrightarrow> fwd k = None \<longleftrightarrow> k \<notin> streamKey ` set ns"
proof -
  assume inv: "norm_inv ns fwd"
  have "fwd k = None \<longleftrightarrow> (\<forall>i. fwd k \<noteq> Some i)" by (cases "fwd k") auto
  also have "\<dots> \<longleftrightarrow> (\<forall>i < length ns. streamKey (ns ! i) \<noteq> k)" by (simp add: norm_inv_at [OF inv])
  also have "\<dots> \<longleftrightarrow> k \<notin> streamKey ` set ns" by (auto simp: set_conv_nth)
  finally show ?thesis .
qed

lemma norm_inv_snoc:
  assumes inv: "norm_inv ns fwd" and s: "fwd (streamKey s) = None"
  shows "norm_inv (ns @ [s]) (fwd(streamKey s \<mapsto> length ns))"
proof (rule norm_invI)
  have new: "streamKey s \<notin> streamKey ` set ns" using norm_inv_fresh [OF inv] s by blast
  then show "distinct (map streamKey (ns @ [s]))" using norm_inv_distinct [OF inv] by simp
  show "(fwd(streamKey s \<mapsto> length ns)) k = Some i \<longleftrightarrow> i < length (ns @ [s]) \<and> streamKey ((ns @ [s]) ! i) = k" for k i
    using norm_inv_at [OF inv, of k i] s
    by (cases "i < length ns") (auto simp: nth_append)
qed

lemma normalizeLoop_distinct:
  "norm_inv ns fwd \<Longrightarrow> distinct (map streamKey (normalizeLoop ss ns fwd))"
proof (induction ss ns fwd rule: normalizeLoop.induct)
  case (1 ns fwd)
  then show ?case by (simp add: norm_inv_def)
next
  case (2 s ss ns fwd)
  show ?case
  proof (cases "fwd (streamKey s)")
    case None
    then show ?thesis using 2(1) [OF None norm_inv_snoc [OF 2(3) None]] by (simp add: fun_upd_def)
  next
    case (Some i)
    then show ?thesis using 2(2) [OF Some] 2(3) norm_inv_update [OF 2(3) Some] by simp
  qed
qed

lemma norm_inv_empty [simp]: "norm_inv [] Map.empty"
  by (simp add: norm_inv_def)

lemma normalize_distinct: "distinct (map streamKey (normalizeIForwardTSNStreams ss))"
proof (cases "length ss < 2")
  case True
  then show ?thesis
    by (cases ss rule: remdups_adj.cases) (auto simp: normalizeIForwardTSNStreams_def)
next
  case False
  then show ?thesis by (simp add: normalizeIForwardTSNStreams_def normalizeLoop_distinct)
qed

lemma normalizeLoop_fresh:
  "norm_inv ns fwd \<Longrightarrow> distinct (map streamKey (ns @ ss)) \<Longrightarrow> normalizeLoop ss ns fwd = ns @ ss"
proof (induction ss ns fwd rule: normalizeLoop.induct)
  case (2 s ss ns fwd)
  have None: "fwd (streamKey s) = None" using norm_inv_fresh [OF 2(3)] 2(4) by auto
  show ?case using 2(1) [OF None norm_inv_snoc [OF 2(3) None]] 2(4) None by (simp add: fun_upd_def)
qed simp

lemma normalize_id: "distinct (map streamKey ss) \<Longrightarrow> normalizeIForwardTSNStreams ss = ss"
  using normalizeLoop_fresh [of "[]" Map.empty ss] by (simp add: normalizeIForwardTSNStreams_def)

lemma normalize_idem [simp]:
  "normalizeIForwardTSNStreams (normalizeIForwardTSNStreams ss) = normalizeIForwardTSNStreams ss"
  by (rule normalize_id [OF normalize_distinct])

subsection \<open>The other chunks\<close>

lemma chunkHeader_unmarshal_marshal [codec]:
  "\<lbrakk>length v + 4 < 65536; rest_ok r\<rbrakk> \<Longrightarrow>
     chunkHeader_unmarshal (chunkHeader_marshal \<lparr>ch_typ = t, ch_flags = f, ch_raw = v\<rparr> @ r)
       = Inr \<lparr>ch_typ = t, ch_flags = f, ch_raw = v\<rparr>"
  by (rule chunkHeader_roundtrip) simp_all

lemma chunkHeader_update [simp]:
  fixes h :: chunkHeader
  shows "h\<lparr>ch_typ := t, ch_raw := v\<rparr> = \<lparr>ch_typ = t, ch_flags = ch_flags h, ch_raw = v\<rparr>"
    and "h\<lparr>ch_typ := t\<rparr> = \<lparr>ch_typ = t, ch_flags = ch_flags h, ch_raw = ch_raw h\<rparr>"
  by (cases h; simp)+

lemma initCommon_seen:
  assumes "\<forall>p \<in> set (init_params i). param_ok p"
  shows "chunkInitCommon_unmarshal (chunkInitCommon_marshal i) =
    Inr (i\<lparr>init_params := map param_filled (params_seen (init_params i)), unrecognizedParams := []\<rparr>)"
  using initParams_marshal [OF assms]
  by (simp add: chunkInitCommon_unmarshal_def chunkInitCommon_marshal_def getU32_skip getU16_skip)

lemma initCommon_roundtrip:
  assumes "params_ok (init_params i)"
  shows "chunkInitCommon_unmarshal (chunkInitCommon_marshal i) = Inr (init_received i)"
  using initCommon_seen [of i] params_seen_ok [OF assms] assms by (simp add: init_received_def params_ok_def)

lemma init_roundtrip:
  assumes "length (chunkInitCommon_marshal i) + 4 < 65536" and "rest_ok r" and "params_ok (init_params i)"
    and "ch_flags h = 0"
  shows "chunkInit_unmarshal (chunkInit_marshal h i @ r) =
      Inr (ChunkInit \<lparr>ch_typ = ctInit, ch_flags = 0, ch_raw = chunkInitCommon_marshal i\<rparr> (init_received i))"
    and "chunkInitAck_unmarshal (chunkInitAck_marshal h i @ r) =
      Inr (ChunkInitAck \<lparr>ch_typ = ctInitAck, ch_flags = 0, ch_raw = chunkInitCommon_marshal i\<rparr> (init_received i))"
proof -
  have len: "\<not> length (chunkInitCommon_marshal i) < 16" by (simp add: chunkInitCommon_marshal_def)
  show "chunkInit_unmarshal (chunkInit_marshal h i @ r) =
      Inr (ChunkInit \<lparr>ch_typ = ctInit, ch_flags = 0, ch_raw = chunkInitCommon_marshal i\<rparr> (init_received i))"
    "chunkInitAck_unmarshal (chunkInitAck_marshal h i @ r) =
      Inr (ChunkInitAck \<lparr>ch_typ = ctInitAck, ch_flags = 0, ch_raw = chunkInitCommon_marshal i\<rparr> (init_received i))"
    using assms len
    by (simp_all add: chunkInit_unmarshal_def chunkInit_marshal_def chunkInitAck_unmarshal_def
        chunkInitAck_marshal_def codec initCommon_roundtrip)
qed

fun cause_code :: "errorCause \<Rightarrow> errorCauseCode" where
  "cause_code (InvalidMandatoryParameter h) = ec_code h"
| "cause_code (UnrecognizedChunkType _ _) = unrecognizedChunkType"
| "cause_code (ProtocolViolation h _) = ec_code h"
| "cause_code (UserInitiatedAbort _ _) = userInitiatedAbort"

fun cause_value :: "errorCause \<Rightarrow> bytes" where
  "cause_value (InvalidMandatoryParameter h) = ec_raw h"
| "cause_value (UnrecognizedChunkType _ c) = c"
| "cause_value (ProtocolViolation _ c) = c"
| "cause_value (UserInitiatedAbort _ c) = c"

text \<open>Two of the causes take their code from the header the caller filled in.\<close>

fun cause_ok :: "errorCause \<Rightarrow> bool" where
  "cause_ok (InvalidMandatoryParameter h) \<longleftrightarrow>
     ec_code h = invalidMandatoryParameter \<and> length (ec_raw h) + 4 < 65536"
| "cause_ok (ProtocolViolation h c) \<longleftrightarrow> ec_code h = protocolViolation \<and> length c + 4 < 65536"
| "cause_ok e \<longleftrightarrow> length (cause_value e) + 4 < 65536"

definition cause_bytes :: "errorCause \<Rightarrow> bytes" where
  "cause_bytes e = PutUint16 (cause_code e) @ PutUint16 (of_nat (length (cause_value e) + 4)) @ cause_value e"

definition wire_cause :: "errorCause \<Rightarrow> errorCauseHeader" where
  "wire_cause e = \<lparr>ec_code = cause_code e, ec_len = of_nat (length (cause_value e) + 4), ec_raw = cause_value e\<rparr>"

fun cause_received :: "errorCause \<Rightarrow> errorCause" where
  "cause_received (InvalidMandatoryParameter h) = InvalidMandatoryParameter (wire_cause (InvalidMandatoryParameter h))"
| "cause_received (UnrecognizedChunkType h c) = UnrecognizedChunkType (wire_cause (UnrecognizedChunkType h c)) c"
| "cause_received (ProtocolViolation h c) = ProtocolViolation (wire_cause (ProtocolViolation h c)) c"
| "cause_received (UserInitiatedAbort h c) = UserInitiatedAbort (wire_cause (UserInitiatedAbort h c)) c"

lemma cause_ok_length: "cause_ok e \<Longrightarrow> length (cause_value e) + 4 < 65536"
  by (cases e) auto

lemma length_cause_bytes [simp]: "length (cause_bytes e) = 4 + length (cause_value e)"
  by (simp add: cause_bytes_def)

lemma errorCause_marshal_ok: "cause_ok e \<Longrightarrow> errorCause_marshal e = Inr (cause_bytes e)"
  by (cases e) (simp_all add: errorCauseHeader_marshal_ok cause_bytes_def)

lemma errorCause_length_received:
  assumes "cause_ok e"
  shows "unat (errorCause_length (cause_received e)) = 4 + length (cause_value e)"
proof -
  have "errorCause_length (cause_received e) = of_nat (length (cause_value e) + 4)"
    by (cases e) (simp_all add: errorCause_length_def wire_cause_def)
  then show ?thesis using unat_of_nat_u16 [OF cause_ok_length [OF assms]] by (simp del: of_nat_add)
qed

lemma cause_roundtrip:
  assumes "cause_ok e"
  shows "buildErrorCause (cause_bytes e @ r) = Inr (cause_received e)"
proof -
  have "errorCauseHeader_unmarshal (cause_bytes e @ r) = Inr (wire_cause e)"
    using errorCauseHeader_roundtrip [OF cause_ok_length [OF assms], of "cause_code e" r]
    by (simp add: cause_bytes_def wire_cause_def)
  moreover have "getU16 0 (cause_bytes e @ r) = Inr (cause_code e)" by (simp add: cause_bytes_def)
  moreover have "ec_raw (wire_cause e) = cause_value e" by (simp add: wire_cause_def)
  ultimately show ?thesis using assms by (cases e) (simp_all add: buildErrorCause_def)
qed

lemma marshalCauses_ok: "\<forall>e \<in> set es. cause_ok e \<Longrightarrow> marshalCauses es = Inr (concat (map cause_bytes es))"
  by (induction es) (simp_all add: errorCause_marshal_ok)

lemma readCauses_marshal:
  "\<lbrakk>\<forall>e \<in> set es. cause_ok e; length r < 4\<rbrakk> \<Longrightarrow>
     readCauses f (concat (map cause_bytes es) @ r) = Inr (map cause_received es)"
proof (induction es)
  case Nil
  then show ?case by (simp add: readCauses.simps)
next
  case (Cons e es)
  then show ?case
    using cause_roundtrip [of e "concat (map cause_bytes es) @ r"]
    by (subst readCauses.simps) (simp add: errorCause_length_received)
qed

lemma causes_roundtrip:
  assumes "\<forall>e \<in> set es. cause_ok e" and "length (concat (map cause_bytes es)) + 4 < 65536"
    and "rest_ok r" and "length r < 4"
  shows "\<exists>b. chunkAbort_marshal es = Inr b \<and> length b = 4 + length (concat (map cause_bytes es)) \<and>
      chunkAbort_unmarshal (b @ r) = Inr (ChunkAbort \<lparr>ch_typ = ctAbort, ch_flags = 0,
        ch_raw = concat (map cause_bytes es)\<rparr> (map cause_received es))"
    and "\<exists>b. chunkError_marshal es = Inr b \<and> length b = 4 + length (concat (map cause_bytes es)) \<and>
      chunkError_unmarshal (b @ r) = Inr (ChunkError \<lparr>ch_typ = ctError, ch_flags = 0,
        ch_raw = concat (map cause_bytes es)\<rparr> (map cause_received es))"
proof -
  have d: "drop 4 (chunkHeader_marshal c) = ch_raw c" for c
    by (simp add: chunkHeader_marshal_def PutUint16_def)
  show "\<exists>b. chunkAbort_marshal es = Inr b \<and> length b = 4 + length (concat (map cause_bytes es)) \<and>
      chunkAbort_unmarshal (b @ r) = Inr (ChunkAbort \<lparr>ch_typ = ctAbort, ch_flags = 0,
        ch_raw = concat (map cause_bytes es)\<rparr> (map cause_received es))"
    "\<exists>b. chunkError_marshal es = Inr b \<and> length b = 4 + length (concat (map cause_bytes es)) \<and>
      chunkError_unmarshal (b @ r) = Inr (ChunkError \<lparr>ch_typ = ctError, ch_flags = 0,
        ch_raw = concat (map cause_bytes es)\<rparr> (map cause_received es))"
    unfolding chunkAbort_marshal_def chunkError_marshal_def chunkAbort_unmarshal_def chunkError_unmarshal_def
    using assms by (simp_all add: marshalCauses_ok codec d readCauses_marshal)
qed

lemma small_roundtrips:
  assumes "rest_ok r"
  shows "length c + 4 < 65536 \<Longrightarrow> chunkCookieEcho_unmarshal (chunkCookieEcho_marshal h c @ r) =
      Inr (ChunkCookieEcho \<lparr>ch_typ = ctCookieEcho, ch_flags = ch_flags h, ch_raw = c\<rparr> c)"
    and "length (ch_raw h) + 4 < 65536 \<Longrightarrow> chunkCookieAck_unmarshal (chunkCookieAck_marshal h @ r) =
      Inr (ChunkCookieAck \<lparr>ch_typ = ctCookieAck, ch_flags = ch_flags h, ch_raw = ch_raw h\<rparr>)"
    and "length (ch_raw h) + 4 < 65536 \<Longrightarrow> chunkShutdownAck_unmarshal (chunkShutdownAck_marshal h @ r) =
      Inr (ChunkShutdownAck \<lparr>ch_typ = ctShutdownAck, ch_flags = ch_flags h, ch_raw = ch_raw h\<rparr>)"
    and "length (ch_raw h) + 4 < 65536 \<Longrightarrow> chunkShutdownComplete_unmarshal (chunkShutdownComplete_marshal h @ r) =
      Inr (ChunkShutdownComplete \<lparr>ch_typ = ctShutdownComplete, ch_flags = ch_flags h, ch_raw = ch_raw h\<rparr>)"
    and "chunkShutdown_unmarshal (chunkShutdown_marshal h t @ r) =
      Inr (ChunkShutdown \<lparr>ch_typ = ctShutdown, ch_flags = ch_flags h, ch_raw = PutUint32 t\<rparr> t)"
  using assms
  by (simp_all add: chunkCookieEcho_unmarshal_def chunkCookieEcho_marshal_def chunkCookieAck_unmarshal_def
      chunkCookieAck_marshal_def chunkShutdownAck_unmarshal_def chunkShutdownAck_marshal_def
      chunkShutdownComplete_unmarshal_def chunkShutdownComplete_marshal_def chunkShutdown_unmarshal_def
      chunkShutdown_marshal_def codec)

lemma forwardStream_put [simp]:
  "chunkForwardTSNStream_unmarshal (chunkForwardTSNStream_marshal s @ r) = Inr s"
  "length (chunkForwardTSNStream_marshal s) = 4"
  by (simp_all add: chunkForwardTSNStream_unmarshal_def chunkForwardTSNStream_marshal_def getU16_skip)

lemma readForwardStreams_put [simp]:
  "readForwardStreams (concat (map chunkForwardTSNStream_marshal ss)) = Inr ss"
proof (induction ss)
  case Nil
  then show ?case by (simp add: readForwardStreams.simps)
next
  case (Cons s ss)
  have "chunkForwardTSNStream_marshal s \<noteq> []" using forwardStream_put(2) [of s] by fastforce
  then show ?case using Cons by (subst readForwardStreams.simps) simp
qed

lemma forward_roundtrip:
  assumes "4 * length ss + 8 < 65536" and "rest_ok r"
  shows "chunkForwardTSN_unmarshal (chunkForwardTSN_marshal h c ss @ r) = Inr (ChunkForwardTSN
    \<lparr>ch_typ = ctForwardTSN, ch_flags = ch_flags h,
     ch_raw = PutUint32 c @ concat (map chunkForwardTSNStream_marshal ss)\<rparr> c ss)"
  using assms
  by (simp add: chunkForwardTSN_unmarshal_def chunkForwardTSN_marshal_def codec length_concat_const)

lemma iforwardStream_put [simp]:
  "chunkIForwardTSNStream_unmarshal (chunkIForwardTSNStream_marshal s @ r) = Inr s"
  "length (chunkIForwardTSNStream_marshal s) = 8"
  by (cases s; simp add: chunkIForwardTSNStream_unmarshal_def chunkIForwardTSNStream_marshal_def codec)+

lemma iforward_roundtrip:
  assumes few: "length (normalizeIForwardTSNStreams ss) \<le> maxIForwardTSNStreams" and "rest_ok r"
  shows "\<exists>b. chunkIForwardTSN_marshal h c ss = Inr b \<and>
    length b = 8 + 8 * length (normalizeIForwardTSNStreams ss) \<and>
    chunkIForwardTSN_unmarshal (b @ r) = Inr (ChunkIForwardTSN
      \<lparr>ch_typ = ctIForwardTSN, ch_flags = ch_flags h, ch_raw = PutUint32 c @
        concat (map chunkIForwardTSNStream_marshal (normalizeIForwardTSNStreams ss))\<rparr> c
      (normalizeIForwardTSNStreams ss))"
proof -
  let ?ns = "normalizeIForwardTSNStreams ss"
  let ?v = "PutUint32 c @ concat (map chunkIForwardTSNStream_marshal ?ns)"
  have lc: "length (concat (map chunkIForwardTSNStream_marshal ?ns)) = 8 * length ?ns"
    by (simp add: length_concat_const)
  have rd: "readN chunkIForwardTSNStream_unmarshal 8 (length ?ns) (concat (map chunkIForwardTSNStream_marshal ?ns)) = Inr ?ns"
    using readN_concat [of ?ns chunkIForwardTSNStream_unmarshal chunkIForwardTSNStream_marshal 8 "length ?ns" "[]"]
    by simp
  have m: "chunkIForwardTSN_marshal h c ss =
      Inr (chunkHeader_marshal \<lparr>ch_typ = ctIForwardTSN, ch_flags = ch_flags h, ch_raw = ?v\<rparr>)"
    using few by (simp add: chunkIForwardTSN_marshal_def chunkIForwardTSN_check_def)
  have "chunkIForwardTSN_unmarshal (chunkHeader_marshal \<lparr>ch_typ = ctIForwardTSN, ch_flags = ch_flags h, ch_raw = ?v\<rparr> @ r)
      = Inr (ChunkIForwardTSN \<lparr>ch_typ = ctIForwardTSN, ch_flags = ch_flags h, ch_raw = ?v\<rparr> c ?ns)"
    using few assms(2)
    by (simp add: chunkIForwardTSN_unmarshal_def codec lc rd maxIForwardTSNStreams_def Let_def)
  then show ?thesis using m lc by simp
qed

lemma param_length_filled: "param_length (param_filled p) = 4 + int (length (param_value p))"
  by (cases p) (simp_all add: param_length_def param_filled_def)

lemma parseParamType_marshal: "parseParamType (param_marshal p @ r) = Inr (param_typ p)"
  by (simp add: parseParamType_def param_marshal_eq paramHeader_marshal_def)

definition reconfig_value :: "param \<Rightarrow> param option \<Rightarrow> bytes" where
  "reconfig_value a b = (case b of None \<Rightarrow> param_marshal a
     | Some b' \<Rightarrow> padByte (param_marshal a) (int (getPadding (length (param_marshal a)))) @ param_marshal b')"

lemma reconfig_roundtrip:
  assumes a: "param_ok a" and b: "\<And>b'. b = Some b' \<Longrightarrow> param_ok b'"
    and len: "length (reconfig_value a b) + 4 < 65536" and r: "rest_ok r"
  shows "chunkReconfig_unmarshal (chunkReconfig_marshal h a b @ r) = Inr (ChunkReconfig
    \<lparr>ch_typ = ctReconfig, ch_flags = ch_flags h, ch_raw = reconfig_value a b\<rparr> (param_filled a) (map_option param_filled b))"
proof -
  let ?c = "\<lparr>ch_typ = ctReconfig, ch_flags = ch_flags h, ch_raw = reconfig_value a b\<rparr>"
  let ?n = "length (param_value a)"
  have m: "chunkReconfig_marshal h a b = chunkHeader_marshal ?c"
    by (simp add: chunkReconfig_marshal_def reconfig_value_def Let_def)
  note hd = chunkHeader_unmarshal_marshal [OF len r, of ctReconfig "ch_flags h"]
  have "nat (param_length (param_filled a)) = 4 + ?n"
    by (simp add: param_length_filled nat_add_distrib)
  then have off: "nat (param_length (param_filled a)) + getPadding (nat (param_length (param_filled a))) = 4 + ?n + getPadding ?n"
    by simp
  show ?thesis
  proof (cases b)
    case None
    have "parseParamType (param_marshal a) = Inr (param_typ a)" "buildParam (param_typ a) (param_marshal a) = Inr (param_filled a)"
      using parseParamType_marshal [of a "[]"] buildParam_marshal [OF a, of "[]"] by simp_all
    then show ?thesis
      unfolding m chunkReconfig_unmarshal_def hd using None
      by (simp add: off reconfig_value_def Let_def)
  next
    case (Some b')
    have v: "reconfig_value a b = param_marshal a @ (replicate (getPadding ?n) 0 @ param_marshal b')"
      using Some by (simp add: reconfig_value_def padByte_def)
    have "parseParamType (param_marshal b') = Inr (param_typ b')" "buildParam (param_typ b') (param_marshal b') = Inr (param_filled b')"
      using parseParamType_marshal [of b' "[]"] buildParam_marshal [OF b [OF Some], of "[]"] by simp_all
    then show ?thesis
      unfolding m chunkReconfig_unmarshal_def hd [unfolded v] v using Some
      by (simp add: parseParamType_marshal buildParam_marshal [OF a] off sliceFrom_def Let_def)
  qed
qed


section \<open>Properties\<close>

text \<open>
  C18: an INIT or INIT ACK body comes back from the wire with all its fields and parameters, except
  that a last parameter without a value (Forward-TSN-Supported, ECN-Capable) is dropped: the loop
  over the parameters stops when four bytes are left, which is the size of such a parameter.
\<close>

theorem init_body_roundtrip:
  assumes "\<forall>p \<in> set (init_params i). param_ok p"
  shows "chunkInitCommon_unmarshal (chunkInitCommon_marshal i) =
    Inr (i\<lparr>init_params := map param_filled
             (if init_params i \<noteq> [] \<and> length (param_marshal (last (init_params i))) = 4
              then butlast (init_params i) else init_params i),
           unrecognizedParams := []\<rparr>)"
  using initCommon_seen [OF assms] by (simp add: params_seen_def)

definition exampleInit :: chunkInitCommon where
  "exampleInit = \<lparr>initiateTag = 7, init_arwnd = 65536, numOutboundStreams = 10, numInboundStreams = 20,
     initialTSN = 1, init_params = [StateCookie (wire_header 0 []) [1, 2, 3], ForwardTSNSupported (wire_header 0 [])],
     unrecognizedParams = []\<rparr>"

theorem init_body_roundtrip_witness:
  "\<exists>i. chunkInitCommon_unmarshal (chunkInitCommon_marshal exampleInit) = Inr i \<and>
     init_params i = [param_filled (StateCookie (wire_header 0 []) [1, 2, 3])]"
  using init_body_roundtrip [of exampleInit]
  by (simp add: exampleInit_def paramForwardTSNSupported_marshal_def)

end
