(* ===== verification/Packet.thy ===== *)
theory Packet
  imports ChunkFacts
begin

text \<open>
  SCTP packets: \<^verbatim>\<open>packet.go\<close>, with the CRC32c of \<^verbatim>\<open>hash/crc32\<close> it uses. The chunk
  loop keeps the offset of the code; every iteration advances it by at least four bytes.
\<close>

section \<open>CRC32c\<close>

definition castagnoli :: u32 where
  "castagnoli = 0x82f63b78"

definition crcBit :: "u32 \<Rightarrow> u32" where
  "crcBit c = (if c AND 1 = 1 then drop_bit 1 c XOR castagnoli else drop_bit 1 c)"

definition castagnoliTable :: "byte \<Rightarrow> u32" where
  "castagnoliTable i = (crcBit ^^ 8) (ucast i)"

definition crcByte :: "byte \<Rightarrow> u32 \<Rightarrow> u32" where
  "crcByte v crc = castagnoliTable (ucast crc XOR v) XOR drop_bit 8 crc"

definition crc32_Update :: "u32 \<Rightarrow> bytes \<Rightarrow> u32" where
  "crc32_Update crc p = NOT (fold crcByte p (NOT crc))"

section \<open>Packets\<close>

record packet =
  sourcePort :: u16
  destinationPort :: u16
  verificationTag :: u32
  chunks :: "chunk list"

text \<open>The checksum, with the checksum field itself taken as zero.\<close>

definition generatePacketChecksum :: "bytes \<Rightarrow> (sctp_error, u32) result" where
  "generatePacketChecksum raw =
     bindR (slice 0 8 raw) (\<lambda>hdr.
     bindR (sliceFrom 12 raw) (\<lambda>body.
     Inr (crc32_Update (crc32_Update (crc32_Update 0 hdr) [0, 0, 0, 0]) body)))"

text \<open>The switch over the chunk type. There is no case for HEARTBEAT ACK.\<close>

definition newChunk_unmarshal :: "chunkType \<Rightarrow> bytes \<Rightarrow> (sctp_error, chunk) result" where
  "newChunk_unmarshal ctype remaining =
     (if ctype = ctInit then chunkInit_unmarshal remaining
      else if ctype = ctInitAck then chunkInitAck_unmarshal remaining
      else if ctype = ctAbort then chunkAbort_unmarshal remaining
      else if ctype = ctCookieEcho then chunkCookieEcho_unmarshal remaining
      else if ctype = ctCookieAck then chunkCookieAck_unmarshal remaining
      else if ctype = ctHeartbeat then chunkHeartbeat_unmarshal remaining
      else if ctype = ctPayloadData then chunkPayloadData_unmarshal remaining
      else if ctype = ctIData then chunkPayloadData_unmarshal remaining
      else if ctype = ctSack then chunkSelectiveAck_unmarshal remaining
      else if ctype = ctReconfig then chunkReconfig_unmarshal remaining
      else if ctype = ctForwardTSN then chunkForwardTSN_unmarshal remaining
      else if ctype = ctIForwardTSN then chunkIForwardTSN_unmarshal remaining
      else if ctype = ctError then chunkError_unmarshal remaining
      else if ctype = ctShutdown then chunkShutdown_unmarshal remaining
      else if ctype = ctShutdownAck then chunkShutdownAck_unmarshal remaining
      else if ctype = ctShutdownComplete then chunkShutdownComplete_unmarshal remaining
      else Inl (Err ''ErrUnmarshalUnknownChunkType''))"

text \<open>The chunk loop; it returns the chunks and the final offset.\<close>

function unmarshalChunks :: "bytes \<Rightarrow> nat \<Rightarrow> (sctp_error, chunk list \<times> nat) result" where
  "unmarshalChunks raw offset =
     (if offset < length raw then
        let remaining = drop offset raw
        in if length remaining < 4 then Inl (Err ''ErrParseSCTPChunkNotEnoughData'')
           else bindR (index 0 remaining) (\<lambda>ctype.
                  bindR (newChunk_unmarshal ctype remaining) (\<lambda>c.
                  bindR (unmarshalChunks raw (offset + 4 + chunk_valueLength c + getPadding (chunk_valueLength c)))
                    (\<lambda>(cs, end). Inr (c # cs, end))))
      else Inr ([], offset))"
  by pat_completeness auto
termination
  by (relation "measure (\<lambda>(raw, offset). length raw - offset)") auto

declare unmarshalChunks.simps [simp del]

definition packet_unmarshal :: "bool \<Rightarrow> bytes \<Rightarrow> (sctp_error, packet) result" where
  "packet_unmarshal doChecksum raw =
     bindR (guardR (\<not> length raw < 12) (Err ''ErrPacketRawTooSmall'')) (\<lambda>_.
     bindR (if 12 + 4 \<le> length raw
            then bindR (index 12 raw) (\<lambda>t. Inr (if t = ctInit \<or> t = ctCookieEcho then True else doChecksum))
            else Inr doChecksum) (\<lambda>doChecksum'.
     bindR (bindR (sliceFrom 8 raw) LittleUint32) (\<lambda>theirChecksum.
     bindR (if theirChecksum \<noteq> 0 \<or> doChecksum'
            then bindR (generatePacketChecksum raw) (\<lambda>ourChecksum.
                   guardR (theirChecksum = ourChecksum) (Err ''ErrChecksumMismatch''))
            else Inr ()) (\<lambda>_.
     bindR (getU16 0 raw) (\<lambda>sp.
     bindR (getU16 2 raw) (\<lambda>dp.
     bindR (getU32 4 raw) (\<lambda>tag.
     bindR (unmarshalChunks raw 12) (\<lambda>(cs, offset).
     bindR (guardR (offset = length raw) (Err ''ErrParseSCTPChunkNotEnoughData'')) (\<lambda>_.
     Inr \<lparr>sourcePort = sp, destinationPort = dp, verificationTag = tag, chunks = cs\<rparr>)))))))))"

fun marshalChunks :: "bytes \<Rightarrow> chunk list \<Rightarrow> (sctp_error, bytes) result" where
  "marshalChunks raw [] = Inr raw"
| "marshalChunks raw (c # cs) =
     bindR (chunk_marshal c) (\<lambda>chunkRaw.
       let raw' = raw @ chunkRaw
       in marshalChunks (raw' @ replicate (getPadding (length raw')) 0) cs)"

definition packet_marshal :: "bool \<Rightarrow> packet \<Rightarrow> (sctp_error, bytes) result" where
  "packet_marshal doChecksum p =
     bindR (marshalChunks (PutUint16 (sourcePort p) @ PutUint16 (destinationPort p) @
              PutUint32 (verificationTag p) @ [0, 0, 0, 0]) (chunks p)) (\<lambda>raw.
       if doChecksum
       then bindR (generatePacketChecksum raw) (\<lambda>sum. Inr (take 8 raw @ PutLittleUint32 sum @ drop 12 raw))
       else Inr raw)"

definition TryMarshalUnmarshal :: "bytes \<Rightarrow> int" where
  "TryMarshalUnmarshal msg =
     (case packet_unmarshal False msg of
        Inl _ \<Rightarrow> 0
      | Inr p \<Rightarrow> (case packet_marshal False p of Inl _ \<Rightarrow> 0 | Inr _ \<Rightarrow> 1))"

section \<open>No panics\<close>

lemma newChunk_no_panic [simp]: "no_panic (newChunk_unmarshal t raw)"
  by (simp add: newChunk_unmarshal_def)

lemma unmarshalChunks_no_panic [simp]: "no_panic (unmarshalChunks raw offset)"
proof (induction raw offset rule: unmarshalChunks.induct)
  case (1 raw offset)
  show ?case
    by (subst unmarshalChunks.simps) (use 1 in \<open>auto simp: Let_def intro!: no_panic_bindR split: prod.splits\<close>)
qed

lemma generatePacketChecksum_no_panic: "12 \<le> length raw \<Longrightarrow> no_panic (generatePacketChecksum raw)"
  by (auto simp: generatePacketChecksum_def intro!: no_panic_bindR)

section \<open>Round trip\<close>

text \<open>What a chunk looks like after it went over the wire.\<close>

fun chunk_received :: "chunk \<Rightarrow> chunk" where
  "chunk_received (ChunkInit h i) =
     ChunkInit \<lparr>ch_typ = ctInit, ch_flags = 0, ch_raw = chunkInitCommon_marshal i\<rparr> (init_received i)"
| "chunk_received (ChunkInitAck h i) =
     ChunkInitAck \<lparr>ch_typ = ctInitAck, ch_flags = 0, ch_raw = chunkInitCommon_marshal i\<rparr> (init_received i)"
| "chunk_received (ChunkAbort h es) =
     ChunkAbort \<lparr>ch_typ = ctAbort, ch_flags = 0, ch_raw = concat (map cause_bytes es)\<rparr> (map cause_received es)"
| "chunk_received (ChunkError h es) =
     ChunkError \<lparr>ch_typ = ctError, ch_flags = 0, ch_raw = concat (map cause_bytes es)\<rparr> (map cause_received es)"
| "chunk_received (ChunkCookieEcho h c) =
     ChunkCookieEcho \<lparr>ch_typ = ctCookieEcho, ch_flags = ch_flags h, ch_raw = c\<rparr> c"
| "chunk_received (ChunkCookieAck h) =
     ChunkCookieAck \<lparr>ch_typ = ctCookieAck, ch_flags = ch_flags h, ch_raw = ch_raw h\<rparr>"
| "chunk_received (ChunkPayloadData p) = ChunkPayloadData (payload_received p)"
| "chunk_received (ChunkSelectiveAck s) = ChunkSelectiveAck (s\<lparr>ch_typ := ctSack, ch_raw := sack_value s\<rparr>)"
| "chunk_received (ChunkReconfig h a b) =
     ChunkReconfig \<lparr>ch_typ = ctReconfig, ch_flags = ch_flags h, ch_raw = reconfig_value a b\<rparr>
       (param_filled a) (map_option param_filled b)"
| "chunk_received (ChunkForwardTSN h c ss) =
     ChunkForwardTSN \<lparr>ch_typ = ctForwardTSN, ch_flags = ch_flags h,
       ch_raw = PutUint32 c @ concat (map chunkForwardTSNStream_marshal ss)\<rparr> c ss"
| "chunk_received (ChunkIForwardTSN h c ss) =
     ChunkIForwardTSN \<lparr>ch_typ = ctIForwardTSN, ch_flags = ch_flags h, ch_raw = PutUint32 c @
       concat (map chunkIForwardTSNStream_marshal (normalizeIForwardTSNStreams ss))\<rparr> c
       (normalizeIForwardTSNStreams ss)"
| "chunk_received (ChunkShutdown h t) =
     ChunkShutdown \<lparr>ch_typ = ctShutdown, ch_flags = ch_flags h, ch_raw = PutUint32 t\<rparr> t"
| "chunk_received (ChunkShutdownAck h) =
     ChunkShutdownAck \<lparr>ch_typ = ctShutdownAck, ch_flags = ch_flags h, ch_raw = ch_raw h\<rparr>"
| "chunk_received (ChunkShutdownComplete h) =
     ChunkShutdownComplete \<lparr>ch_typ = ctShutdownComplete, ch_flags = ch_flags h, ch_raw = ch_raw h\<rparr>"
| "chunk_received c = c"

text \<open>
  The chunks that survive the trip: the length field does not overflow, the parameters of an INIT
  do not end in an empty one, and the heartbeat chunks, which the code does not carry over the wire,
  are left out.
\<close>

fun chunk_ok :: "chunk \<Rightarrow> bool" where
  "chunk_ok (ChunkInit h i) \<longleftrightarrow>
     length (chunkInitCommon_marshal i) + 4 < 65536 \<and> params_ok (init_params i) \<and> ch_flags h = 0"
| "chunk_ok (ChunkInitAck h i) \<longleftrightarrow>
     length (chunkInitCommon_marshal i) + 4 < 65536 \<and> params_ok (init_params i) \<and> ch_flags h = 0"
| "chunk_ok (ChunkAbort h es) \<longleftrightarrow>
     (\<forall>e \<in> set es. cause_ok e) \<and> length (concat (map cause_bytes es)) + 4 < 65536"
| "chunk_ok (ChunkError h es) \<longleftrightarrow>
     (\<forall>e \<in> set es. cause_ok e) \<and> length (concat (map cause_bytes es)) + 4 < 65536"
| "chunk_ok (ChunkCookieEcho h c) \<longleftrightarrow> length c + 4 < 65536"
| "chunk_ok (ChunkCookieAck h) \<longleftrightarrow> length (ch_raw h) + 4 < 65536"
| "chunk_ok (ChunkHeartbeat h ps) \<longleftrightarrow> False"
| "chunk_ok (ChunkHeartbeatAck h ps) \<longleftrightarrow> False"
| "chunk_ok (ChunkPayloadData p) \<longleftrightarrow> length (payload_value p) + 4 < 65536"
| "chunk_ok (ChunkSelectiveAck s) \<longleftrightarrow> length (sack_value s) + 4 < 65536"
| "chunk_ok (ChunkReconfig h a b) \<longleftrightarrow>
     param_ok a \<and> (case b of None \<Rightarrow> True | Some b' \<Rightarrow> param_ok b') \<and> length (reconfig_value a b) + 4 < 65536"
| "chunk_ok (ChunkForwardTSN h c ss) \<longleftrightarrow> 4 * length ss + 8 < 65536"
| "chunk_ok (ChunkIForwardTSN h c ss) \<longleftrightarrow> length (normalizeIForwardTSNStreams ss) \<le> maxIForwardTSNStreams"
| "chunk_ok (ChunkShutdown h t) \<longleftrightarrow> True"
| "chunk_ok (ChunkShutdownAck h) \<longleftrightarrow> length (ch_raw h) + 4 < 65536"
| "chunk_ok (ChunkShutdownComplete h) \<longleftrightarrow> length (ch_raw h) + 4 < 65536"

text \<open>ABORT and ERROR read to the end of the packet, so they come last.\<close>

fun readsToEnd :: "chunk \<Rightarrow> bool" where
  "readsToEnd (ChunkAbort _ _) = True"
| "readsToEnd (ChunkError _ _) = True"
| "readsToEnd _ = False"

fun chunks_ok :: "chunk list \<Rightarrow> bool" where
  "chunks_ok [] = True"
| "chunks_ok (c # cs) \<longleftrightarrow> chunk_ok c \<and> (readsToEnd c \<longrightarrow> cs = []) \<and> chunks_ok cs"

lemma marshal_first_byte: "(chunkHeader_marshal c @ r) ! 0 = ch_typ c"
  by (simp add: chunkHeader_marshal_def)

lemma chunk_roundtrip:
  assumes ok: "chunk_ok c" and r: "rest_ok r" and last: "readsToEnd c \<Longrightarrow> length r < 4"
  shows "\<exists>b. chunk_marshal c = Inr b \<and> length b = 4 + chunk_valueLength (chunk_received c) \<and>
    newChunk_unmarshal ((b @ r) ! 0) (b @ r) = Inr (chunk_received c)"
proof (cases c)
  case (ChunkInit h i)
  then show ?thesis using ok r init_roundtrip(1) [of i r h]
    by (simp add: newChunk_unmarshal_def chunkInit_marshal_def marshal_first_byte chunk_valueLength_def
        chunkHeader_valueLength_def)
next
  case (ChunkInitAck h i)
  then show ?thesis using ok r init_roundtrip(2) [of i r h]
    by (simp add: newChunk_unmarshal_def chunkInitAck_marshal_def marshal_first_byte chunk_valueLength_def
        chunkHeader_valueLength_def)
next
  case (ChunkAbort h es)
  then show ?thesis using ok r last causes_roundtrip(1) [of es r]
    by (auto simp: newChunk_unmarshal_def chunkAbort_marshal_def marshalCauses_ok marshal_first_byte
        chunk_valueLength_def chunkHeader_valueLength_def)
next
  case (ChunkError h es)
  then show ?thesis using ok r last causes_roundtrip(2) [of es r]
    by (auto simp: newChunk_unmarshal_def chunkError_marshal_def marshalCauses_ok marshal_first_byte
        chunk_valueLength_def chunkHeader_valueLength_def)
next
  case (ChunkCookieEcho h v)
  then show ?thesis using ok small_roundtrips(1) [OF r, of v h]
    by (simp add: newChunk_unmarshal_def chunkCookieEcho_marshal_def marshal_first_byte
        chunk_valueLength_def chunkHeader_valueLength_def)
next
  case (ChunkCookieAck h)
  then show ?thesis using ok small_roundtrips(2) [OF r, of h]
    by (simp add: newChunk_unmarshal_def chunkCookieAck_marshal_def marshal_first_byte
        chunk_valueLength_def chunkHeader_valueLength_def)
next
  case (ChunkPayloadData p)
  have "chunkPayloadData_marshal p = chunkHeader_marshal \<lparr>ch_typ = (if isIData p then ctIData else ctPayloadData),
      ch_flags = payloadFlags p, ch_raw = payload_value p\<rparr>"
    by (simp add: chunkPayloadData_marshal_def payload_value_def)
  moreover have "ch_raw (payload_received p) = payload_value p"
    by (simp add: payload_received_def Let_def)
  ultimately show ?thesis using ChunkPayloadData ok payload_roundtrip [OF _ r, of p]
    by (cases "isIData p") (simp_all add: newChunk_unmarshal_def marshal_first_byte chunk_valueLength_def
        chunkHeader_valueLength_def theHeader_def)
next
  case (ChunkSelectiveAck s)
  then show ?thesis using ok sack_roundtrip [OF _ r, of s]
    by (simp add: newChunk_unmarshal_def chunkSelectiveAck_marshal_def marshal_first_byte chunk_valueLength_def
        chunkHeader_valueLength_def theHeader_def sack_value_def)
next
  case (ChunkReconfig h a b)
  have "chunkReconfig_marshal h a b = chunkHeader_marshal \<lparr>ch_typ = ctReconfig, ch_flags = ch_flags h,
      ch_raw = reconfig_value a b\<rparr>"
    by (simp add: chunkReconfig_marshal_def reconfig_value_def Let_def)
  then show ?thesis using ChunkReconfig ok reconfig_roundtrip [OF _ _ _ r, of a b h]
    by (simp add: newChunk_unmarshal_def marshal_first_byte chunk_valueLength_def
        chunkHeader_valueLength_def split: option.splits)
next
  case (ChunkForwardTSN h t ss)
  then show ?thesis using ok forward_roundtrip [OF _ r, of ss h t]
    by (simp add: newChunk_unmarshal_def chunkForwardTSN_marshal_def marshal_first_byte chunk_valueLength_def
        chunkHeader_valueLength_def)
next
  case (ChunkIForwardTSN h t ss)
  then show ?thesis using ok iforward_roundtrip [OF _ r, of ss h t]
    by (auto simp: newChunk_unmarshal_def chunkIForwardTSN_marshal_def chunkIForwardTSN_check_def
        marshal_first_byte chunk_valueLength_def chunkHeader_valueLength_def)
next
  case (ChunkShutdown h t)
  then show ?thesis using small_roundtrips(5) [OF r, of h t]
    by (simp add: newChunk_unmarshal_def chunkShutdown_marshal_def marshal_first_byte
        chunk_valueLength_def chunkHeader_valueLength_def)
next
  case (ChunkShutdownAck h)
  then show ?thesis using ok small_roundtrips(3) [OF r, of h]
    by (simp add: newChunk_unmarshal_def chunkShutdownAck_marshal_def marshal_first_byte
        chunk_valueLength_def chunkHeader_valueLength_def)
next
  case (ChunkShutdownComplete h)
  then show ?thesis using ok small_roundtrips(4) [OF r, of h]
    by (simp add: newChunk_unmarshal_def chunkShutdownComplete_marshal_def marshal_first_byte
        chunk_valueLength_def chunkHeader_valueLength_def)
qed (use ok in simp_all)

text \<open>The body of a packet, as marshalled behind a header of a multiple of four bytes.\<close>

lemma marshalChunks_roundtrip:
  assumes "chunks_ok cs" and "length raw mod 4 = 0"
  shows "\<exists>body. marshalChunks raw cs = Inr (raw @ body) \<and> length body mod 4 = 0 \<and>
    (\<forall>pre. unmarshalChunks (pre @ body) (length pre) =
       Inr (map chunk_received cs, length (pre @ body))) \<and>
    (cs \<noteq> [] \<longrightarrow> body \<noteq> [])"
  using assms
proof (induction cs arbitrary: raw)
  case Nil
  then show ?case by (simp add: unmarshalChunks.simps)
next
  case (Cons c cs)
  have ok: "chunk_ok c" "chunks_ok cs" "readsToEnd c \<Longrightarrow> cs = []" using Cons.prems by auto
  obtain b where b: "chunk_marshal c = Inr b" "length b = 4 + chunk_valueLength (chunk_received c)"
    using chunk_roundtrip [OF ok(1), of "[]"] by (auto simp: rest_ok_def)
  define pad :: bytes where "pad = replicate (getPadding (length b)) 0"
  have pl: "length pad = getPadding (chunk_valueLength (chunk_received c))" "length pad < 4" "allZero pad"
    using b(2) getPadding_lt by (simp_all add: pad_def)
  have pad: "replicate (getPadding (length (raw @ b))) 0 = pad"
    using Cons.prems(2) by (simp add: pad_def getPadding_def mod_add_left_eq [symmetric, of "length raw"])
  have dvd: "4 dvd length b + length pad"
    using getPadding_dvd [of "length b"] by (simp add: pad_def dvd_eq_mod_eq_0)
  then have "length (raw @ b @ pad) mod 4 = 0" using Cons.prems(2) by (simp flip: dvd_eq_mod_eq_0)
  from Cons.IH [OF ok(2) this] obtain body where
    body: "marshalChunks (raw @ b @ pad) cs = Inr ((raw @ b @ pad) @ body)"
    "length body mod 4 = 0" "cs \<noteq> [] \<Longrightarrow> body \<noteq> []"
    "\<And>pre. unmarshalChunks (pre @ body) (length pre) = Inr (map chunk_received cs, length (pre @ body))"
    by auto
  have nil: "cs = [] \<Longrightarrow> body = []" using body(1) by auto
  have "4 \<le> length body" if "body \<noteq> []"
    using that body(2) by (auto intro: dvd_imp_le simp flip: dvd_eq_mod_eq_0)
  then have r: "rest_ok (pad @ body)" using pl(3) by (cases "body = []") (auto simp: rest_ok_def)
  have last: "readsToEnd c \<Longrightarrow> length (pad @ body) < 4" using ok(3) nil pl(2) by simp
  have un: "newChunk_unmarshal ((b @ pad @ body) ! 0) (b @ pad @ body) = Inr (chunk_received c)"
    using chunk_roundtrip [OF ok(1) r last] b(1) by simp
  have "unmarshalChunks (pre @ b @ pad @ body) (length pre) =
      Inr (map chunk_received (c # cs), length (pre @ b @ pad @ body))" for pre
  proof -
    have "length pre + 4 + chunk_valueLength (chunk_received c) + getPadding (chunk_valueLength (chunk_received c))
        = length (pre @ b @ pad)"
      using b(2) pl(1) by simp
    then show ?thesis
      using body(4) [of "pre @ b @ pad"] un b(2)
      by (subst unmarshalChunks.simps) (simp add: index_def Let_def add.assoc)
  qed
  moreover have "length (b @ pad @ body) mod 4 = 0"
    using dvd body(2) by (simp add: add.assoc [symmetric] flip: dvd_eq_mod_eq_0)
  moreover have "marshalChunks raw (c # cs) = Inr (raw @ b @ pad @ body)"
    using b(1) pad body(1) by (simp add: Let_def)
  moreover have "b \<noteq> []" using b(2) by auto
  ultimately show ?case by auto
qed

definition packet_received :: "packet \<Rightarrow> packet" where
  "packet_received p = p\<lparr>chunks := map chunk_received (chunks p)\<rparr>"

lemma checksum_ignores_field:
  "\<lbrakk>length a = 8; length b = 4; length b' = 4\<rbrakk> \<Longrightarrow>
     generatePacketChecksum (a @ b @ d) = generatePacketChecksum (a @ b' @ d)"
  by (simp add: generatePacketChecksum_def slice_def sliceFrom_def)

lemma checksum_ok: "12 \<le> length raw \<Longrightarrow> \<exists>s. generatePacketChecksum raw = Inr s"
  by (simp add: generatePacketChecksum_def slice_def sliceFrom_def)

text \<open>
  Parsing a packet from its parts: ports and tag, checksum field, body. The first chunk forces the
  check if it is an INIT or a COOKIE ECHO.
\<close>

lemma packet_unmarshal_parts:
  assumes body: "unmarshalChunks (hdr @ cks @ body) 12 = Inr (cs, length (hdr @ cks @ body))"
    and hdr: "hdr = PutUint16 sp @ PutUint16 dp @ PutUint32 tag" and sum: "cks = PutLittleUint32 s"
    and ck: "generatePacketChecksum (hdr @ cks @ body) = Inr s \<or>
      s = 0 \<and> \<not> doChecksum \<and> (body \<noteq> [] \<longrightarrow> body ! 0 \<noteq> ctInit \<and> body ! 0 \<noteq> ctCookieEcho)"
  shows "packet_unmarshal doChecksum (hdr @ cks @ body) =
    Inr \<lparr>sourcePort = sp, destinationPort = dp, verificationTag = tag, chunks = cs\<rparr>"
proof -
  have len: "length (hdr @ cks @ body) = 12 + length body" by (simp add: hdr sum)
  have idx: "12 + 4 \<le> length (hdr @ cks @ body) \<Longrightarrow> index 12 (hdr @ cks @ body) = Inr (body ! 0)"
    by (auto simp: index_def hdr sum nth_append)
  have le: "bindR (sliceFrom 8 (hdr @ cks @ body)) LittleUint32 = Inr s"
    by (simp add: sliceFrom_def hdr sum)
  have get: "getU16 0 (hdr @ cks @ body) = Inr sp" "getU16 2 (hdr @ cks @ body) = Inr dp"
    "getU32 4 (hdr @ cks @ body) = Inr tag"
    by (simp_all add: hdr sum getU16_skip getU32_skip)
  show ?thesis
  proof (cases "generatePacketChecksum (hdr @ cks @ body) = Inr s")
    case True
    then show ?thesis
      unfolding packet_unmarshal_def le get body using len idx by simp
  next
    case False
    then have "s = 0" "\<not> doChecksum" "body \<noteq> [] \<longrightarrow> body ! 0 \<noteq> ctInit \<and> body ! 0 \<noteq> ctCookieEcho"
      using ck by auto
    then show ?thesis
      unfolding packet_unmarshal_def le get body using len idx by (cases body) simp_all
  qed
qed

section \<open>CRC32c detects a damaged byte\<close>

text \<open>The bit step is linear and has no kernel, because the polynomial has its top bit set.\<close>

lemma xor_cancel: "a XOR b = a XOR c \<longleftrightarrow> b = c" for a b c :: "'a::len word"
proof
  assume "a XOR b = a XOR c"
  then have "a XOR (a XOR b) = a XOR (a XOR c)" by simp
  then show "b = c" by (simp add: xor.assoc [symmetric])
qed simp

lemma and_one_iff: "c AND 1 = 1 \<longleftrightarrow> bit c 0" for c :: u32
  by (simp add: and_one_eq odd_iff_mod_2_eq_one bit_0)

lemma crcBit_xor: "crcBit (a XOR b) = crcBit a XOR crcBit b"
proof -
  have "drop_bit 1 (a XOR b) = drop_bit 1 a XOR drop_bit 1 b" by (simp add: drop_bit_xor)
  then show ?thesis
    by (auto simp: crcBit_def and_one_iff bit_xor_iff xor.assoc xor.commute xor.left_commute)
qed

lemma crcBit_zero:
  assumes z: "crcBit a = 0"
  shows "a = 0"
proof -
  have "\<not> bit (drop_bit 1 a) 31" by (auto simp: bit_simps dest: bit_imp_le_length)
  then have "bit (drop_bit 1 a XOR castagnoli) 31" by (simp add: bit_xor_iff castagnoli_def)
  then have "drop_bit 1 a XOR castagnoli \<noteq> 0" by auto
  with z have even: "\<not> bit a 0" and shift: "drop_bit 1 a = 0"
    by (auto simp: crcBit_def and_one_iff split: if_splits)
  have "\<not> bit a (Suc n)" for n
    using arg_cong [OF shift, of "\<lambda>w. bit w n"] by (simp add: bit_simps)
  with even show ?thesis by (intro bit_word_eqI) (metis bit_0_eq bot_apply bot_bool_def not0_implies_Suc)
qed

lemma crcBit_pow_xor: "(crcBit ^^ n) (a XOR b) = (crcBit ^^ n) a XOR (crcBit ^^ n) b"
  by (induction n) (simp_all add: crcBit_xor)

lemma crcBit_inj: "crcBit a = crcBit b \<longleftrightarrow> a = b"
proof
  assume "crcBit a = crcBit b"
  then have "crcBit (a XOR b) = 0" by (simp add: crcBit_xor)
  then have "a XOR b = a XOR a" by (simp add: crcBit_zero)
  then show "a = b" by (simp only: xor_cancel)
qed simp

lemma crcBit_pow_inj: "(crcBit ^^ n) a = (crcBit ^^ n) b \<longleftrightarrow> a = b"
  by (induction n) (simp_all add: crcBit_inj)

lemma crcBit_shift:
  assumes "\<And>i. 24 \<le> i \<Longrightarrow> \<not> bit y i" and "n \<le> 8"
  shows "(crcBit ^^ n) (push_bit 8 y) = push_bit (8 - n) y"
  using assms(2)
proof (induction n)
  case (Suc n)
  have "\<not> bit (push_bit (8 - n) y) 0" using Suc.prems by (simp add: bit_simps)
  then have "push_bit (8 - n) y AND 1 \<noteq> 1" by (simp add: and_one_iff)
  moreover have "drop_bit 1 (push_bit (8 - n) y) = push_bit (8 - Suc n) y"
  proof (rule bit_word_eqI)
    fix i assume i: "i < LENGTH(32)"
    obtain m where m: "8 - n = Suc m" "8 - Suc n = m" "m \<le> 7" using Suc.prems by (cases "8 - n") auto
    have "\<not> bit y (31 - m)" using m(3) assms(1) by simp
    then show "bit (drop_bit 1 (push_bit (8 - n) y)) i = bit (push_bit (8 - Suc n) y) i"
      unfolding m(1,2) using i by (cases "i = 31") (auto simp: bit_simps simp del: push_bit_Suc)
  qed
  ultimately show ?case using Suc by (simp add: crcBit_def)
qed simp

lemma crcByte_eq: "crcByte v c = (crcBit ^^ 8) (c XOR ucast v)"
proof -
  let ?x = "c XOR ucast v"
  have "?x = ucast (ucast ?x :: byte) XOR push_bit 8 (drop_bit 8 ?x)"
    by (rule bit_word_eqI) (auto simp: bit_simps)
  then have "(crcBit ^^ 8) ?x = (crcBit ^^ 8) (ucast (ucast ?x :: byte)) XOR (crcBit ^^ 8) (push_bit 8 (drop_bit 8 ?x))"
    by (subst (1) \<open>?x = _\<close>) (rule crcBit_pow_xor)
  also have "(crcBit ^^ 8) (push_bit 8 (drop_bit 8 ?x)) = drop_bit 8 ?x"
  proof -
    have "\<not> bit (drop_bit 8 x) i" if "24 \<le> i" for i and x :: u32
      using that by (auto simp: bit_drop_bit_eq dest: bit_imp_le_length)
    then have "(crcBit ^^ 8) (push_bit 8 (drop_bit 8 x)) = drop_bit 8 x" for x :: u32
      using crcBit_shift [of "drop_bit 8 x" 8] by simp
    then show ?thesis .
  qed
  also have "drop_bit 8 ?x = drop_bit 8 c"
    by (rule bit_word_eqI) (auto simp: bit_simps dest: bit_imp_le_length)
  also have "(ucast ?x :: byte) = ucast c XOR v" by (rule bit_word_eqI) (auto simp: bit_simps)
  finally show ?thesis by (simp add: crcByte_def castagnoliTable_def)
qed

lemma crcByte_inj_state: "crcByte v c = crcByte v d \<longleftrightarrow> c = d"
  unfolding crcByte_eq crcBit_pow_inj by (simp only: xor.commute [of _ "ucast v"] xor_cancel)

lemma crcByte_inj_byte: "crcByte v c = crcByte w c \<longleftrightarrow> v = w"
proof
  assume "crcByte v c = crcByte w c"
  then have "(ucast v :: u32) = ucast w"
    unfolding crcByte_eq crcBit_pow_inj by (simp only: xor_cancel)
  then have "(ucast (ucast v :: u32) :: byte) = ucast (ucast w :: u32)" by simp
  moreover have "(ucast (ucast u :: u32) :: byte) = u" for u :: byte
    by (rule bit_word_eqI) (auto simp: bit_simps)
  ultimately show "v = w" by simp
qed simp

lemma fold_crcByte_inj: "fold crcByte p c = fold crcByte p d \<longleftrightarrow> c = d"
  by (induction p arbitrary: c d) (simp_all add: crcByte_inj_state)

lemma fold_crcByte_damage:
  "i < length p \<Longrightarrow> v \<noteq> p ! i \<Longrightarrow> fold crcByte (p[i := v]) c \<noteq> fold crcByte p c"
proof (induction p arbitrary: i c)
  case (Cons b p)
  then show ?case
    by (cases i) (auto simp: fold_crcByte_inj crcByte_inj_byte)
qed simp

lemma Update_inj: "crc32_Update c p = crc32_Update d p \<longleftrightarrow> c = d"
  by (simp add: crc32_Update_def fold_crcByte_inj)

lemma Update_damage: "i < length p \<Longrightarrow> v \<noteq> p ! i \<Longrightarrow> crc32_Update c (p[i := v]) \<noteq> crc32_Update c p"
  by (simp add: crc32_Update_def fold_crcByte_damage)

lemma bit_byte_high: "8 \<le> n \<Longrightarrow> bit a n = False" for a :: byte
  by (auto dest: bit_imp_le_length)

lemma LittleUint32_bytes:
  assumes "LittleUint32 b = Inr w"
  shows "take 4 b = PutLittleUint32 w"
  using assms
  by (cases b rule: LittleUint32.cases)
    (auto simp: PutLittleUint32_def bit_simps bit_byte_high intro!: bit_word_eqI)

text \<open>The three parts of the checksum computation.\<close>

lemma generatePacketChecksum_eq:
  "12 \<le> length raw \<Longrightarrow> generatePacketChecksum raw =
     Inr (crc32_Update (crc32_Update (crc32_Update 0 (take 8 raw)) [0, 0, 0, 0]) (drop 12 raw))"
  by (simp add: generatePacketChecksum_def slice_def sliceFrom_def)

lemma checksum_damage:
  assumes "12 \<le> length raw" and "i < length raw" and "i < 8 \<or> 12 \<le> i" and "v \<noteq> raw ! i"
  shows "generatePacketChecksum (raw[i := v]) \<noteq> generatePacketChecksum raw"
proof (cases "i < 8")
  case True
  then have "take 8 (raw[i := v]) = (take 8 raw)[i := v]" "drop 12 (raw[i := v]) = drop 12 raw"
    by (simp_all add: take_update_swap)
  then show ?thesis
    using assms True Update_damage [of i "take 8 raw" v 0]
    by (simp add: generatePacketChecksum_eq Update_inj)
next
  case False
  then have "12 \<le> i" using assms by simp
  then have "take 8 (raw[i := v]) = take 8 raw" "drop 12 (raw[i := v]) = (drop 12 raw)[i - 12 := v]"
    by (simp_all add: drop_update_swap)
  then show ?thesis
    using assms \<open>12 \<le> i\<close> Update_damage [of "i - 12" "drop 12 raw" v]
    by (simp add: generatePacketChecksum_eq)
qed

text \<open>Whether the first chunk makes the receiver verify the checksum in any case.\<close>

fun demandsChecksum :: "chunk list \<Rightarrow> bool" where
  "demandsChecksum (ChunkInit h i # cs) = True"
| "demandsChecksum (ChunkCookieEcho h c # cs) = True"
| "demandsChecksum _ = False"

lemma first_chunk_type:
  assumes "unmarshalChunks raw n = Inr (cs, m)" and "n < length raw"
    and "raw ! n = ctInit \<or> raw ! n = ctCookieEcho"
  shows "demandsChecksum cs"
proof -
  have kinds: "chunkInit_unmarshal r = Inr c \<Longrightarrow> demandsChecksum (c # cs')"
    "chunkCookieEcho_unmarshal r = Inr c \<Longrightarrow> demandsChecksum (c # cs')" for r c cs'
    by (auto simp: chunkInit_unmarshal_def chunkCookieEcho_unmarshal_def bindR_Inr_iff)
  have types: "newChunk_unmarshal ctInit r = chunkInit_unmarshal r"
    "newChunk_unmarshal ctCookieEcho r = chunkCookieEcho_unmarshal r" for r
    by (simp_all add: newChunk_unmarshal_def)
  obtain c cs' where "newChunk_unmarshal (raw ! n) (drop n raw) = Inr c" "cs = c # cs'"
    using assms(1,2)
    by (subst (asm) unmarshalChunks.simps) (auto simp: Let_def bindR_Inr_iff index_def split: if_splits)
  then show ?thesis using assms(3) types kinds by auto
qed

lemma demandsChecksum_received: "demandsChecksum (map chunk_received cs) = demandsChecksum cs"
  by (cases cs rule: demandsChecksum.cases) simp_all

lemma packet_parts:
  assumes "chunks_ok (chunks p)"
  obtains hdr body s where
    "hdr = PutUint16 (sourcePort p) @ PutUint16 (destinationPort p) @ PutUint32 (verificationTag p)"
    "packet_marshal True p = Inr (hdr @ PutLittleUint32 s @ body)"
    "packet_marshal False p = Inr (hdr @ PutLittleUint32 0 @ body)"
    "\<And>t. generatePacketChecksum (hdr @ PutLittleUint32 t @ body) = Inr s"
    "\<And>t. unmarshalChunks (hdr @ PutLittleUint32 t @ body) 12 =
       Inr (map chunk_received (chunks p), length (hdr @ PutLittleUint32 t @ body))"
proof -
  define hdr where
    "hdr = PutUint16 (sourcePort p) @ PutUint16 (destinationPort p) @ PutUint32 (verificationTag p)"
  have l8: "length hdr = 8" by (simp add: hdr_def)
  have zero: "PutLittleUint32 0 = [0, 0, 0, 0]" by (simp add: PutLittleUint32_def)
  obtain body where
    m: "marshalChunks (hdr @ [0, 0, 0, 0]) (chunks p) = Inr ((hdr @ [0, 0, 0, 0]) @ body)"
    and u: "\<And>pre. unmarshalChunks (pre @ body) (length pre) =
      Inr (map chunk_received (chunks p), length (pre @ body))"
    using marshalChunks_roundtrip [OF assms, of "hdr @ [0, 0, 0, 0]"] l8 by auto
  obtain s where s: "generatePacketChecksum (hdr @ [0, 0, 0, 0] @ body) = Inr s"
    using checksum_ok [of "hdr @ [0, 0, 0, 0] @ body"] l8 by auto
  have ck: "generatePacketChecksum (hdr @ PutLittleUint32 t @ body) = Inr s" for t
    using s checksum_ignores_field [OF l8, of "[0, 0, 0, 0]" "PutLittleUint32 t" body] by simp
  have "packet_marshal True p = Inr (hdr @ PutLittleUint32 s @ body)"
    "packet_marshal False p = Inr (hdr @ PutLittleUint32 0 @ body)"
    using m s l8 by (simp_all add: packet_marshal_def hdr_def zero)
  with ck show ?thesis
    using u [of "hdr @ PutLittleUint32 _"] l8 by (intro that [OF hdr_def, of s body]) simp_all
qed

text \<open>What an accepted packet tells about the bytes: the checksum was verified.\<close>

lemma accepted_checksum:
  assumes "packet_unmarshal True raw = Inr p"
  shows "12 \<le> length raw" "\<exists>s. LittleUint32 (drop 8 raw) = Inr s \<and> generatePacketChecksum raw = Inr s"
  using assms by (auto simp: packet_unmarshal_def bindR_Inr_iff sliceFrom_def split: if_splits)

lemma mismatch_rejected:
  assumes "12 \<le> length raw" and "LittleUint32 (drop 8 raw) = Inr t"
    and "generatePacketChecksum raw = Inr s" and "s \<noteq> t"
  shows "packet_unmarshal True raw = Inl (Err ''ErrChecksumMismatch'')"
  using assms by (simp add: packet_unmarshal_def sliceFrom_def index_def)

lemma packet_carried:
  assumes ok: "chunks_ok (chunks p)"
    and ck: "doChecksum \<or> \<not> demand \<and> \<not> demandsChecksum (chunks p)"
  shows "\<exists>raw. packet_marshal doChecksum p = Inr raw \<and>
    packet_unmarshal demand raw = Inr (packet_received p)"
proof -
  obtain hdr body s where
    hdr: "hdr = PutUint16 (sourcePort p) @ PutUint16 (destinationPort p) @ PutUint32 (verificationTag p)"
    and m: "packet_marshal True p = Inr (hdr @ PutLittleUint32 s @ body)"
      "packet_marshal False p = Inr (hdr @ PutLittleUint32 0 @ body)"
    and g: "\<And>t. generatePacketChecksum (hdr @ PutLittleUint32 t @ body) = Inr s"
    and u: "\<And>t. unmarshalChunks (hdr @ PutLittleUint32 t @ body) 12 =
       Inr (map chunk_received (chunks p), length (hdr @ PutLittleUint32 t @ body))"
    by (rule packet_parts [OF ok]) (rule that)
  have l12: "length (hdr @ PutLittleUint32 0) = 12" by (simp add: hdr)
  have at: "(hdr @ PutLittleUint32 0 @ body) ! 12 = body ! 0"
    using nth_append_length_plus [of "hdr @ PutLittleUint32 0" body 0] unfolding l12 by simp
  have first: "body \<noteq> [] \<Longrightarrow> \<not> demandsChecksum (chunks p) \<Longrightarrow> body ! 0 \<noteq> ctInit \<and> body ! 0 \<noteq> ctCookieEcho"
    using first_chunk_type [OF u [of 0]] l12
    unfolding at demandsChecksum_received by auto
  show ?thesis
  proof (cases doChecksum)
    case True
    then show ?thesis
      using m packet_unmarshal_parts [OF u [of s] hdr refl disjI1 [OF g], of demand]
      by (simp add: packet_received_def)
  next
    case False
    then show ?thesis
      using m ck first packet_unmarshal_parts [OF u [of 0] hdr refl disjI2, of demand]
      by (simp add: packet_received_def)
  qed
qed

section \<open>Properties\<close>

text \<open>
  C17: parsing an arbitrary byte string as a packet never panics: every slice and every read of the
  packet, its chunks, their parameters and their error causes is within bounds, and the loops end.
\<close>

theorem packet_unmarshal_total: "packet_unmarshal doChecksum raw \<noteq> Inl Panic"
proof -
  have "no_panic (packet_unmarshal doChecksum raw)"
    unfolding packet_unmarshal_def
    by (auto intro!: no_panic_bindR simp: LittleUint32_no_panic sliceFrom_def generatePacketChecksum_no_panic
        Uint16_no_panic split: prod.splits)
  then show ?thesis by (simp add: no_panic_def)
qed

text \<open>
  C9: a packet of well-formed chunks can be marshalled, with or without checksum, and the bytes are
  parsed back to the same ports, tag and chunks, each chunk with the header fields a receiver fills
  in. Without checksum this needs a receiver that does not ask for one and a packet that does not
  start with an INIT or a COOKIE ECHO, for which the receiver always verifies the checksum.
\<close>

theorem packet_roundtrip:
  assumes "chunks_ok (chunks p)" and "doChecksum \<or> \<not> demand \<and> \<not> demandsChecksum (chunks p)"
  shows "\<exists>raw. packet_marshal doChecksum p = Inr raw \<and>
    packet_unmarshal demand raw = Inr (packet_received p)"
  using assms by (rule packet_carried)

text \<open>
  C10: a packet that a receiver asking for checksums accepted is rejected by it, with
  \<open>ErrChecksumMismatch\<close>, after any change of a single byte, wherever the byte lies: in the
  header, in the checksum field or in a chunk.
\<close>

theorem damaged_byte_rejected:
  assumes acc: "packet_unmarshal True raw = Inr p" and i: "i < length raw" and v: "v \<noteq> raw ! i"
  shows "packet_unmarshal True (raw[i := v]) = Inl (Err ''ErrChecksumMismatch'')"
proof -
  obtain s where len: "12 \<le> length raw" and s: "LittleUint32 (drop 8 raw) = Inr s"
    "generatePacketChecksum raw = Inr s"
    using accepted_checksum [OF acc] by blast
  obtain t where t: "LittleUint32 (drop 8 (raw[i := v])) = Inr t"
    using LittleUint32_ok [of "drop 8 (raw[i := v])"] len by force
  obtain u where u: "generatePacketChecksum (raw[i := v]) = Inr u"
    using checksum_ok [of "raw[i := v]"] len by auto
  have "u \<noteq> t"
  proof (cases "i < 8 \<or> 12 \<le> i")
    case True
    then have "take 4 (drop 8 (raw[i := v])) = take 4 (drop 8 raw)"
      by (auto simp: drop_update_swap)
    then have "t = s" using s(1) t LittleUint32_bytes LittleUint32_Put [of _ "[]"] by (metis append_Nil2 sum.inject(2))
    moreover have "u \<noteq> s" using checksum_damage [OF len i True v] u s(2) by simp
    ultimately show ?thesis by simp
  next
    case False
    then have "generatePacketChecksum (raw[i := v]) = generatePacketChecksum raw"
      using len by (simp add: generatePacketChecksum_eq)
    then have "u = s" using u s(2) by simp
    have "take 4 (drop 8 (raw[i := v])) ! (i - 8) \<noteq> take 4 (drop 8 raw) ! (i - 8)"
      using False i v by (subst (1 2) nth_take) auto
    then have "t \<noteq> s" using s(1) t LittleUint32_bytes by metis
    then show ?thesis using \<open>u = s\<close> by simp
  qed
  then show ?thesis using mismatch_rejected [OF _ t u] len by simp
qed


text \<open>Concrete packets: a SACK with a DATA chunk behind it, and a COOKIE ACK as bytes.\<close>

definition exampleData :: chunkPayloadData where
  "exampleData = zeroPayloadData\<lparr>beginningFragment := True, endingFragment := True, tsn := 9,
     streamIdentifier := 1, streamSequenceNumber := 4, userData := Some [104, 105, 33]\<rparr>"

definition examplePacket :: packet where
  "examplePacket = \<lparr>sourcePort = 5000, destinationPort = 5000, verificationTag = 1,
     chunks = [ChunkShutdown \<lparr>ch_typ = ctShutdown, ch_flags = 0, ch_raw = []\<rparr> 8, ChunkPayloadData exampleData]\<rparr>"

definition cookieAckBytes :: bytes where
  "cookieAckBytes = [19, 136, 19, 136, 0, 0, 0, 1, 200, 249, 200, 205, 11, 0, 0, 4]"

theorem packet_roundtrip_witness:
  "chunks_ok (chunks examplePacket) \<and> \<not> demandsChecksum (chunks examplePacket) \<and>
   (\<exists>raw. packet_marshal True examplePacket = Inr raw \<and>
     packet_unmarshal False raw = Inr (packet_received examplePacket))"
proof -
  have ok: "chunks_ok (chunks examplePacket)"
    by (simp add: examplePacket_def exampleData_def zeroPayloadData_def payload_value_def UserData_def isIData_def)
  show ?thesis using ok packet_roundtrip [OF ok, of True False] by (simp add: examplePacket_def)
qed

text \<open>Evaluation of the CRC on numerals.\<close>

lemma crcBit_numeral:
  "crcBit (numeral (num.Bit0 n)) = drop_bit 1 (numeral (num.Bit0 n))"
  "crcBit (numeral (num.Bit1 n)) = drop_bit 1 (numeral (num.Bit1 n)) XOR castagnoli"
  "crcBit 1 = castagnoli" "crcBit 0 = 0"
  by (simp_all add: crcBit_def and_one_iff)

lemma crcByte_eight:
  "crcByte v c = crcBit (crcBit (crcBit (crcBit (crcBit (crcBit (crcBit (crcBit (c XOR ucast v))))))))"
  by (simp add: crcByte_eq numeral_eq_Suc)

lemma crc32_Update_xor: "crc32_Update c p = 0xffffffff XOR fold crcByte p (0xffffffff XOR c)"
proof -
  have "NOT x = 0xffffffff XOR x" for x :: u32
  proof -
    have "(0xffffffff :: u32) = NOT 0" by simp
    then show ?thesis by (simp only: xor.left_neutral bit.xor_compl_left)
  qed
  then show ?thesis by (simp only: crc32_Update_def)
qed

lemmas crc_eval = crc32_Update_xor crcByte_eight crcBit_numeral castagnoli_def

lemma cookieAck_checksum: "generatePacketChecksum cookieAckBytes = Inr 0xcdc8f9c8"
  by (simp add: generatePacketChecksum_def slice_def sliceFrom_def cookieAckBytes_def crc_eval)

lemma cookieAck_chunks:
  "unmarshalChunks cookieAckBytes 12 = Inr ([ChunkCookieAck \<lparr>ch_typ = ctCookieAck, ch_flags = 0, ch_raw = []\<rparr>], 16)"
  by (simp add: unmarshalChunks.simps cookieAckBytes_def newChunk_unmarshal_def chunkCookieAck_unmarshal_def
      chunkHeader_unmarshal_def index_def getU16_skip chunkHeader_value_def chunk_valueLength_def
      chunkHeader_valueLength_def slice_def sliceFrom_def)

theorem damaged_byte_rejected_witness:
  "packet_unmarshal True (cookieAckBytes[13 := 1]) = Inl (Err ''ErrChecksumMismatch'')"
proof -
  have le: "bindR (sliceFrom 8 cookieAckBytes) LittleUint32 = Inr 0xcdc8f9c8"
    by (simp add: sliceFrom_def cookieAckBytes_def)
  obtain p where "packet_unmarshal True cookieAckBytes = Inr p"
    unfolding packet_unmarshal_def le cookieAck_checksum cookieAck_chunks
    by (simp add: cookieAckBytes_def index_def getU16_skip getU32_skip)
  from damaged_byte_rejected [OF this, of 13 1] show ?thesis by (simp add: cookieAckBytes_def)
qed


text \<open>Chunks are only appended behind what is there.\<close>

lemma marshalChunks_prefix: "marshalChunks raw cs = Inr raw' \<Longrightarrow> \<exists>t. raw' = raw @ t"
  by (induction raw cs rule: marshalChunks.induct) (fastforce simp: bindR_Inr_iff Let_def)+

lemma packet_marshal_first:
  assumes m: "packet_marshal doChecksum p = Inr raw" and cs: "chunks p = c # cs"
  obtains hdr s b t where
    "hdr = PutUint16 (sourcePort p) @ PutUint16 (destinationPort p) @ PutUint32 (verificationTag p)"
    "chunk_marshal c = Inr b" "raw = hdr @ PutLittleUint32 s @ b @ t"
    "doChecksum \<Longrightarrow> generatePacketChecksum raw = Inr s" "\<not> doChecksum \<Longrightarrow> s = 0"
proof -
  define hdr where
    "hdr = PutUint16 (sourcePort p) @ PutUint16 (destinationPort p) @ PutUint32 (verificationTag p)"
  have l8: "length hdr = 8" by (simp add: hdr_def)
  have zero: "PutLittleUint32 0 = [0, 0, 0, 0]" by (simp add: PutLittleUint32_def)
  obtain raw0 where raw0: "marshalChunks (hdr @ [0, 0, 0, 0]) (c # cs) = Inr raw0"
    "(if doChecksum then bindR (generatePacketChecksum raw0)
       (\<lambda>s. Inr (take 8 raw0 @ PutLittleUint32 s @ drop 12 raw0)) else Inr raw0) = Inr raw"
    using m by (auto simp: packet_marshal_def cs hdr_def bindR_Inr_iff simp del: marshalChunks.simps)
  obtain b t where b: "chunk_marshal c = Inr b" "raw0 = hdr @ [0, 0, 0, 0] @ b @ t"
    using raw0(1) marshalChunks_prefix by (fastforce simp: bindR_Inr_iff Let_def)
  show ?thesis
  proof (cases doChecksum)
    case False
    then show ?thesis using that [OF hdr_def b(1), of 0 t] raw0(2) b(2) zero by simp
  next
    case True
    then obtain s where s: "generatePacketChecksum raw0 = Inr s" "raw = hdr @ PutLittleUint32 s @ b @ t"
      using raw0(2) b(2) l8 by (auto simp: bindR_Inr_iff)
    have "generatePacketChecksum raw = Inr s"
      using s checksum_ignores_field [OF l8, of "[0, 0, 0, 0]" "PutLittleUint32 s" "b @ t"] b(2) by simp
    then show ?thesis using that [OF hdr_def b(1) s(2)] True by simp
  qed
qed

text \<open>The parser fails as the chunk loop does.\<close>

lemma packet_unmarshal_body_error:
  assumes "unmarshalChunks (hdr @ PutLittleUint32 s @ body) 12 = Inl e" and "length hdr = 8"
    and "generatePacketChecksum (hdr @ PutLittleUint32 s @ body) = Inr s \<or> s = 0 \<and> \<not> doChecksum"
    and "body ! 0 \<noteq> ctInit" and "body ! 0 \<noteq> ctCookieEcho"
  shows "packet_unmarshal doChecksum (hdr @ PutLittleUint32 s @ body) = Inl e"
proof -
  let ?r = "hdr @ PutLittleUint32 s @ body"
  have le: "bindR (sliceFrom 8 ?r) LittleUint32 = Inr s" using assms(2) by (simp add: sliceFrom_def)
  have l12: "length (hdr @ PutLittleUint32 s) = 12" using assms(2) by simp
  have at: "?r ! 12 = body ! 0"
    using nth_append_length_plus [of "hdr @ PutLittleUint32 s" body 0] unfolding l12 by simp
  have get: "\<exists>w. getU16 0 ?r = Inr w" "\<exists>w. getU16 2 ?r = Inr w" "\<exists>w. getU32 4 ?r = Inr w"
    using assms(2) by (auto simp: getU16_def getU32_def sliceFrom_def intro!: Uint16_ok Uint32_ok)
  show ?thesis
    unfolding packet_unmarshal_def le assms(1)
    using get assms(2-5) at by (auto simp: index_def)
qed

text \<open>
  C19: every HEARTBEAT ACK packet that can be marshalled is refused by the parser of the same code
  with \<open>ErrUnmarshalUnknownChunkType\<close>: the switch over the chunk types lacks that type.
\<close>

theorem heartbeat_ack_refused:
  assumes "packet_marshal doChecksum p = Inr raw" and "chunks p = ChunkHeartbeatAck h ps # cs"
    and "doChecksum \<or> \<not> demand"
  shows "packet_unmarshal demand raw = Inl (Err ''ErrUnmarshalUnknownChunkType'')"
proof -
  obtain hdr s b t where
    hdr: "hdr = PutUint16 (sourcePort p) @ PutUint16 (destinationPort p) @ PutUint32 (verificationTag p)"
    and b: "chunk_marshal (ChunkHeartbeatAck h ps) = Inr b" and raw: "raw = hdr @ PutLittleUint32 s @ b @ t"
    and s: "doChecksum \<Longrightarrow> generatePacketChecksum raw = Inr s" "\<not> doChecksum \<Longrightarrow> s = 0"
    by (rule packet_marshal_first [OF assms(1,2)]) (rule that)
  obtain h' where h': "b = chunkHeader_marshal h'" "ch_typ h' = ctHeartbeatAck"
    using b by (auto simp: chunkHeartbeatAck_marshal_def split: list.splits param.splits)
  have b0: "(b @ t) ! 0 = ctHeartbeatAck" "4 \<le> length b"
    using h' by (simp_all add: chunkHeader_marshal_def)
  have l8: "length hdr = 8" by (simp add: hdr)
  have "drop 12 raw = b @ t" "12 < length raw" using raw l8 b0(2) by auto
  moreover have "index 0 (b @ t) = Inr ctHeartbeatAck" using b0 by (auto simp: index_def)
  moreover have "newChunk_unmarshal ctHeartbeatAck (b @ t) = Inl (Err ''ErrUnmarshalUnknownChunkType'')"
    by (simp add: newChunk_unmarshal_def)
  ultimately have "unmarshalChunks raw 12 = Inl (Err ''ErrUnmarshalUnknownChunkType'')"
    using b0(2) by (subst unmarshalChunks.simps) (simp add: Let_def)
  then show ?thesis
    unfolding raw using assms(3) s b0(1) l8
    by (intro packet_unmarshal_body_error) (auto simp: raw)
qed

definition exampleHeartbeatAck :: packet where
  "exampleHeartbeatAck = \<lparr>sourcePort = 5000, destinationPort = 5000, verificationTag = 1,
     chunks = [ChunkHeartbeatAck \<lparr>ch_typ = ctHeartbeatAck, ch_flags = 0, ch_raw = []\<rparr>
       [HeartbeatInfo (wire_header 0 []) [1, 2, 3, 4, 5, 6, 7, 8]]]\<rparr>"

theorem heartbeat_ack_refused_witness:
  "\<exists>raw. packet_marshal False exampleHeartbeatAck = Inr raw \<and>
     packet_unmarshal False raw = Inl (Err ''ErrUnmarshalUnknownChunkType'')"
proof -
  obtain raw where "packet_marshal False exampleHeartbeatAck = Inr raw"
    by (simp add: packet_marshal_def exampleHeartbeatAck_def chunkHeartbeatAck_marshal_def Let_def)
  then show ?thesis
    using heartbeat_ack_refused [of False exampleHeartbeatAck raw _ _ _ False] by (simp add: exampleHeartbeatAck_def)
qed

text \<open>
  the HEARTBEAT that \<open>sendActiveHeartbeatLocked\<close> builds goes out as a bare chunk header. A
  receiver parses it as a HEARTBEAT without the Heartbeat Information parameter, whatever
  parameters the chunk was given.
\<close>

theorem heartbeat_info_lost:
  "\<exists>raw. packet_marshal True \<lparr>sourcePort = sp, destinationPort = dp, verificationTag = tag,
        chunks = [ChunkHeartbeat \<lparr>ch_typ = ctHeartbeat, ch_flags = 0, ch_raw = []\<rparr> [HeartbeatInfo ph info]]\<rparr> = Inr raw \<and>
     packet_unmarshal True raw = Inr \<lparr>sourcePort = sp, destinationPort = dp, verificationTag = tag,
        chunks = [ChunkHeartbeat \<lparr>ch_typ = ctHeartbeat, ch_flags = 0, ch_raw = []\<rparr> []]\<rparr>"
proof -
  let ?h = "\<lparr>ch_typ = ctHeartbeat, ch_flags = 0, ch_raw = []\<rparr> :: chunkHeader"
  define hdr where "hdr = PutUint16 sp @ PutUint16 dp @ PutUint32 tag"
  let ?b = "chunkHeader_marshal ?h"
  have l8: "length hdr = 8" by (simp add: hdr_def)
  have lb: "length ?b = 4" by (simp add: chunkHeader_marshal_def)
  obtain s where s: "generatePacketChecksum (hdr @ [0, 0, 0, 0] @ ?b) = Inr s"
    using checksum_ok [of "hdr @ [0, 0, 0, 0] @ ?b"] l8 by auto
  have g: "generatePacketChecksum (hdr @ PutLittleUint32 s @ ?b) = Inr s"
    using s checksum_ignores_field [OF l8, of "[0, 0, 0, 0]" "PutLittleUint32 s" ?b] by simp
  have "newChunk_unmarshal (?b ! 0) ?b = Inr (ChunkHeartbeat ?h [])"
    using chunkHeader_roundtrip [of ?h "[]"] marshal_first_byte [of ?h "[]"]
    by (simp add: newChunk_unmarshal_def chunkHeartbeat_unmarshal_def rest_ok_def allZero_def)
  then have "unmarshalChunks (hdr @ PutLittleUint32 s @ ?b) 12 =
      Inr ([ChunkHeartbeat ?h []], length (hdr @ PutLittleUint32 s @ ?b))"
    using l8 lb by (simp add: unmarshalChunks.simps index_def chunk_valueLength_def chunkHeader_valueLength_def)
  then have "packet_unmarshal True (hdr @ PutLittleUint32 s @ ?b) = Inr \<lparr>sourcePort = sp, destinationPort = dp,
      verificationTag = tag, chunks = [ChunkHeartbeat ?h []]\<rparr>"
    by (rule packet_unmarshal_parts [OF _ hdr_def refl]) (use g in simp)
  moreover have "packet_marshal True \<lparr>sourcePort = sp, destinationPort = dp, verificationTag = tag,
      chunks = [ChunkHeartbeat ?h [HeartbeatInfo ph info]]\<rparr> = Inr (hdr @ PutLittleUint32 s @ ?b)"
    using s l8 lb by (simp add: packet_marshal_def hdr_def chunkHeartbeat_marshal_def Let_def getPadding_def)
  ultimately show ?thesis by blast
qed

end
