(* ===== verification/Messages.thy ===== *)
theory Messages
  imports HandleRegistry
begin

text \<open>
  Protocol messages (\<^verbatim>\<open>types.go\<close>) and the dynamically typed values they carry, with the numeric
  conversions of \<^verbatim>\<open>handler.go\<close> and \<^verbatim>\<open>settings_engine.go\<close> and the once-only close
  notification of \<^verbatim>\<open>hooks.go\<close>.
\<close>

section \<open>Dynamic values\<close>

text \<open>
  A decoded \<open>interface{}\<close>. The signed integer types are kept as their 64-bit two's complement,
  the unsigned ones zero-extended. Go leaves the conversion of an out-of-range float to the
  implementation; a float is therefore represented by what it converts to, as \<open>int64\<close>,
  \<open>uint64\<close> and \<open>uint16\<close>. Maps are association lists; the first entry of a key counts.
\<close>

datatype gval =
    GNil
  | GBool bool
  | GInt u64
  | GUint u64
  | GFloat u64 u64 u16
  | GString string
  | GBytes bytes
  | GList "gval list"
  | GMap "(string \<times> gval) list"

type_synonym gmap = "(string \<times> gval) list"

text \<open>\<open>m[k]\<close> is nil for a missing key.\<close>

definition get :: "gmap \<Rightarrow> string \<Rightarrow> gval" where
  "get m k = (case map_of m k of Some v \<Rightarrow> v | None \<Rightarrow> GNil)"

text \<open>Type assertions with the comma-ok form.\<close>

fun asBool :: "gval \<Rightarrow> bool option" where
  "asBool (GBool b) = Some b"
| "asBool _ = None"

fun asString :: "gval \<Rightarrow> string option" where
  "asString (GString s) = Some s"
| "asString _ = None"

fun asMap :: "gval \<Rightarrow> gmap option" where
  "asMap (GMap m) = Some m"
| "asMap _ = None"

fun asList :: "gval \<Rightarrow> gval list option" where
  "asList (GList l) = Some l"
| "asList _ = None"

text \<open>The string of a failed assertion is empty.\<close>

definition stringOrEmpty :: "gval \<Rightarrow> string" where
  "stringOrEmpty v = (case asString v of Some s \<Rightarrow> s | None \<Rightarrow> [])"

section \<open>Numeric conversions\<close>

fun toUint64 :: "gval \<Rightarrow> u64 option" where
  "toUint64 (GInt n) = Some n"
| "toUint64 (GUint n) = Some n"
| "toUint64 (GFloat _ n _) = Some n"
| "toUint64 _ = None"

fun toUint16 :: "gval \<Rightarrow> u16 option" where
  "toUint16 (GInt n) = Some (ucast n)"
| "toUint16 (GUint n) = Some (ucast n)"
| "toUint16 (GFloat _ _ n) = Some n"
| "toUint16 _ = None"

text \<open>The \<open>int64\<close> result as a word; its value is \<open>sint\<close>.\<close>

fun toInt :: "gval \<Rightarrow> u64 option" where
  "toInt (GInt n) = Some n"
| "toInt (GUint n) = Some n"
| "toInt (GFloat n _ _) = Some n"
| "toInt _ = None"

text \<open>\<open>time.Duration(v) * time.Millisecond\<close>, in \<open>int64\<close> arithmetic.\<close>

definition millis :: "u64 \<Rightarrow> u64" where
  "millis v = v * 1000000"

section \<open>Messages\<close>

record Message =
  mType :: string
  mID :: int
  mHandle :: handle
  mData :: gmap

definition zeroMessage :: Message where
  "zeroMessage = \<lparr>mType = [], mID = 0, mHandle = [], mData = []\<rparr>"

definition ErrorResponse :: "int \<Rightarrow> string \<Rightarrow> string \<Rightarrow> bool \<Rightarrow> handle \<Rightarrow> Message" where
  "ErrorResponse i code message fatal h =
     \<lparr>mType = ''error'', mID = i, mHandle = [],
      mData = [(''code'', GString code), (''message'', GString message), (''fatal'', GBool fatal)] @
        (if h \<noteq> [] then [(''handle'', GString h)] else [])\<rparr>"

definition AckResponse :: "string \<Rightarrow> int \<Rightarrow> handle \<Rightarrow> gmap \<Rightarrow> Message" where
  "AckResponse reqType i h d = \<lparr>mType = reqType @ '':ack'', mID = i, mHandle = h, mData = d\<rparr>"

definition Event :: "string \<Rightarrow> handle \<Rightarrow> gmap \<Rightarrow> Message" where
  "Event eventType h d = \<lparr>mType = eventType, mID = 0, mHandle = h, mData = d\<rparr>"

definition errorCode :: "Message \<Rightarrow> string option" where
  "errorCode m = (if mType m = ''error'' then asString (get (mData m) ''code'') else None)"

lemma response_simps [simp]:
  "mType (ErrorResponse i c m f h) = ''error''" "mID (ErrorResponse i c m f h) = i"
  "mType (AckResponse t i h d) = t @ '':ack''" "mID (AckResponse t i h d) = i" "mHandle (AckResponse t i h d) = h"
  "mData (AckResponse t i h d) = d"
  "mType (Event t h d) = t" "mID (Event t h d) = 0" "mHandle (Event t h d) = h" "mData (Event t h d) = d"
  "mHandle (ErrorResponse i c m f h) = []"
  "mType zeroMessage = []" "mID zeroMessage = 0"
  by (simp_all add: ErrorResponse_def AckResponse_def Event_def zeroMessage_def)

lemma errorCode_ErrorResponse [simp]: "errorCode (ErrorResponse i c m f h) = Some c"
  by (simp add: errorCode_def ErrorResponse_def get_def)

lemma errorCode_Ack [simp]: "t \<noteq> [] \<Longrightarrow> errorCode (AckResponse t i h d) = None"
  by (auto simp: errorCode_def AckResponse_def append_eq_Cons_conv)

section \<open>The close notification\<close>

text \<open>
  \<open>closedOnce\<close> as a set and the calls of the installed hook as a list. \<open>installed\<close> says
  whether a hook is set at the time of the call.
\<close>

record closeHooks =
  closedOnce :: "handle set"
  closedCalls :: "handle list"

definition notifyPCClosed :: "bool \<Rightarrow> handle \<Rightarrow> closeHooks \<Rightarrow> closeHooks" where
  "notifyPCClosed installed h c =
     (if h \<in> closedOnce c then c
      else (let c' = c\<lparr>closedOnce := insert h (closedOnce c)\<rparr>
            in if installed then c'\<lparr>closedCalls := closedCalls c' @ [h]\<rparr> else c'))"

definition hooks_inv :: "closeHooks \<Rightarrow> bool" where
  "hooks_inv c \<longleftrightarrow> distinct (closedCalls c) \<and> set (closedCalls c) \<subseteq> closedOnce c"

lemma hooks_inv_notify [pres]: "hooks_inv c \<Longrightarrow> hooks_inv (notifyPCClosed b h c)"
  by (auto simp: hooks_inv_def notifyPCClosed_def Let_def)

section \<open>Properties\<close>

text \<open>
  however often and in whatever order the paths that close connections report them, the
  installed hook is called at most once per connection, and exactly for the reported ones when it
  was installed all along.
\<close>

theorem closed_notified_once:
  fixes reports :: "(bool \<times> handle) list"
  defines "c \<equiv> fold (\<lambda>(b, h). notifyPCClosed b h) reports \<lparr>closedOnce = {}, closedCalls = []\<rparr>"
  shows "distinct (closedCalls c) \<and> set (closedCalls c) \<subseteq> snd ` set reports \<and>
    (list_all fst reports \<longrightarrow> set (closedCalls c) = snd ` set reports)"
proof -
  have inv: "hooks_inv (fold (\<lambda>(b, h). notifyPCClosed b h) rs d)
      \<and> closedOnce (fold (\<lambda>(b, h). notifyPCClosed b h) rs d) = closedOnce d \<union> snd ` set rs
      \<and> (list_all fst rs \<longrightarrow> set (closedCalls d) = closedOnce d \<longrightarrow>
         set (closedCalls (fold (\<lambda>(b, h). notifyPCClosed b h) rs d)) = closedOnce d \<union> snd ` set rs)"
    if "hooks_inv d" for rs :: "(bool \<times> handle) list" and d
    using that
  proof (induction rs arbitrary: d)
    case (Cons r rs)
    obtain b h where r: "r = (b, h)" by (cases r)
    have "closedOnce (notifyPCClosed b h d) = insert h (closedOnce d)"
      "b \<Longrightarrow> set (closedCalls d) = closedOnce d \<Longrightarrow>
        set (closedCalls (notifyPCClosed b h d)) = insert h (closedOnce d)"
      by (auto simp: notifyPCClosed_def Let_def)
    then show ?case using Cons.IH [OF hooks_inv_notify [OF Cons.prems, of b h]] r by (cases b) simp_all
  qed simp
  show ?thesis
    using inv [of "\<lparr>closedOnce = {}, closedCalls = []\<rparr>" reports] by (auto simp: c_def hooks_inv_def)
qed

theorem closed_notified_once_witness:
  "closedCalls (fold (\<lambda>(b, h). notifyPCClosed b h) [(True, ''a''), (True, ''b''), (True, ''a'')]
     \<lparr>closedOnce = {}, closedCalls = []\<rparr>) = [''a'', ''b''] \<and>
   set (closedCalls (fold (\<lambda>(b, h). notifyPCClosed b h) [(True, ''a''), (True, ''b''), (True, ''a'')]
     \<lparr>closedOnce = {}, closedCalls = []\<rparr>)) = {''a'', ''b''}"
  using closed_notified_once [of "[(True, ''a''), (True, ''b''), (True, ''a'')]"]
  by (simp add: notifyPCClosed_def)

end
