(* ===== verification/DCSend.thy ===== *)
theory DCSend
  imports Messages "HOL-Library.Sublist"
begin

text \<open>
  The send queue of a DataChannel (\<^verbatim>\<open>dcsend.go\<close> and the sending half of
  \<^verbatim>\<open>handler.go\<close>): any number of \<open>handleDCSend\<close> calls push work, one sender goroutine
  takes it, and one call of \<open>closeState\<close> shuts the queue down. Every channel operation and
  every critical section of the condition variable is one step of \<open>dc_step\<close>; the rules of the
  goroutines are \<open>dc_int\<close>, those of the environment (new requests, pion's buffer, threshold
  changes) \<open>dc_env\<close>.
\<close>

section \<open>Data\<close>

text \<open>A connection stands for the \<open>sendEvent\<close> closure of the handler that issued the request.\<close>

type_synonym conn = nat

record dcSendWork =
  wData :: bytes
  wText :: string
  wIsText :: bool
  wMsgID :: int
  wHandle :: handle
  wAwaitDrain :: bool
  wSendEvent :: "conn option"

record DCConfig =
  BufferedAmountLowThreshold :: u64
  SendQueueDepth :: int

definition DefaultDCConfig :: DCConfig where
  "DefaultDCConfig = \<lparr>BufferedAmountLowThreshold = 512 * 1024, SendQueueDepth = 32\<rparr>"

text \<open>
  The channel \<open>work\<close> is its contents and capacity, \<open>done\<close> the fact that it was closed, and
  \<open>raw\<close> the identity of the detached channel.
\<close>

record DCSendState =
  dsWork :: "dcSendWork list"
  dsCap :: nat
  dsDone :: bool
  dsThreshold :: u64
  dsDetach :: bool
  dsRaw :: "nat option"

definition newDCSendState :: "DCConfig \<Rightarrow> bool \<Rightarrow> DCSendState" where
  "newDCSendState cfg detach = \<lparr>dsWork = [], dsCap = nat (SendQueueDepth cfg), dsDone = False,
     dsThreshold = BufferedAmountLowThreshold cfg, dsDetach = detach, dsRaw = None\<rparr>"

definition setDetached :: "nat \<Rightarrow> DCSendState \<Rightarrow> DCSendState" where
  "setDetached raw s = s\<lparr>dsRaw := Some raw\<rparr>"

text \<open>The payload switch of \<open>handleDCSend\<close>: a work item or the immediate error response.\<close>

definition dcSendWorkOf :: "conn \<Rightarrow> Message \<Rightarrow> (Message, dcSendWork) result" where
  "dcSendWorkOf c msg =
     (case get (mData msg) ''data'' of
        GBytes payload \<Rightarrow>
          Inr \<lparr>wData = payload, wText = [], wIsText = False, wMsgID = mID msg, wHandle = mHandle msg,
               wAwaitDrain = (case asBool (get (mData msg) ''await_drain'') of Some v \<Rightarrow> v | None \<Rightarrow> True),
               wSendEvent = Some c\<rparr>
      | GString payload \<Rightarrow>
          Inr \<lparr>wData = [], wText = payload, wIsText = True, wMsgID = mID msg, wHandle = mHandle msg,
               wAwaitDrain = False, wSendEvent = Some c\<rparr>
      | _ \<Rightarrow> Inl (ErrorResponse (mID msg) ''INVALID_REQUEST'' ''data must be string or binary'' False (mHandle msg)))"

text \<open>\<open>doSend\<close>; \<open>call\<close> is pion's answer to the chosen send call (its error, if any).\<close>

datatype pionSend = WriteText nat string | WriteBinary nat bytes | SendText string | Send bytes

definition doSend :: "(pionSend \<Rightarrow> string option) \<Rightarrow> DCSendState \<Rightarrow> dcSendWork \<Rightarrow> string option" where
  "doSend call s w =
     (if dsDetach s then
        (case dsRaw s of
           None \<Rightarrow> Some ''data channel is not open''
         | Some raw \<Rightarrow> if wIsText w then call (WriteText raw (wText w)) else call (WriteBinary raw (wData w)))
      else if wIsText w then call (SendText (wText w)) else call (Send (wData w)))"

section \<open>Responses\<close>

definition emitTo :: "conn option \<Rightarrow> Message list \<Rightarrow> (conn \<times> Message) list" where
  "emitTo c ms = (case c of None \<Rightarrow> [] | Some c' \<Rightarrow> map (Pair c') ms)"

definition closedBefore :: "dcSendWork \<Rightarrow> (conn \<times> Message) list" where
  "closedBefore w = emitTo (wSendEvent w)
     [ErrorResponse (wMsgID w) ''DC_CLOSED'' ''data channel closed before send'' False (wHandle w)]"

definition closedDuring :: "handle \<Rightarrow> dcSendWork \<Rightarrow> (conn \<times> Message) list" where
  "closedDuring dcHandle w = emitTo (wSendEvent w)
     [ErrorResponse (wMsgID w) ''DC_CLOSED'' ''data channel closed during send'' False dcHandle]"

definition sendFailed :: "handle \<Rightarrow> string \<Rightarrow> dcSendWork \<Rightarrow> (conn \<times> Message) list" where
  "sendFailed dcHandle err w = emitTo (wSendEvent w)
     [ErrorResponse (wMsgID w) ''DC_SEND_ERROR'' err False dcHandle,
      Event ''event:dc:error'' dcHandle [(''error'', GString err)]]"

definition sendAck :: "handle \<Rightarrow> dcSendWork \<Rightarrow> (conn \<times> Message) list" where
  "sendAck dcHandle w = emitTo (wSendEvent w) [AckResponse ''dc:send'' (wMsgID w) dcHandle []]"

section \<open>Goroutines\<close>

text \<open>
  The sender: at its \<open>select\<close>; in \<open>doSend\<close>; in the loop of \<open>waitForBuffer\<close> with the
  mutex held, before the buffer test, before the test of \<open>done\<close>, before \<open>cond.Wait\<close>; parked
  on the condition variable; woken and about to take the mutex; gone.
\<close>

datatype sender =
    AtSelect | Sending dcSendWork | TestBuffer dcSendWork | TestDone dcSendWork | BeforeWait dcSendWork
  | Parked dcSendWork | Woken dcSendWork | Exited

text \<open>\<open>closeState\<close>: not called, \<open>done\<close> closed, broadcast made and draining, returned.\<close>

datatype closer = NotClosing | Broadcasting | Draining | Returned

text \<open>\<open>handleDCSend\<close>: at its \<open>select\<close>, behind the enqueue, in the reclaiming receive.\<close>

datatype call = Selecting dcSendWork | Rechecking | Reclaiming

text \<open>
  Besides the goroutines the system records what was sent to the connections (\<open>sy_out\<close>), the
  work handed to \<open>doSend\<close> (\<open>sy_sent\<close>), the work in the order of its enqueueing
  (\<open>sy_queued\<close>) and the work of all requests (\<open>sy_issued\<close>).
\<close>

record dcsys =
  sy_handle :: handle
  sy_state :: DCSendState
  sy_sender :: sender
  sy_closer :: closer
  sy_calls :: "call multiset"
  sy_buffered :: u64
  sy_out :: "(conn \<times> Message) list"
  sy_sent :: "dcSendWork list"
  sy_queued :: "dcSendWork list"
  sy_issued :: "dcSendWork list"

definition startDCSend :: "DCConfig \<Rightarrow> bool \<Rightarrow> handle \<Rightarrow> dcsys" where
  "startDCSend cfg detach h = \<lparr>sy_handle = h, sy_state = newDCSendState cfg detach, sy_sender = AtSelect,
     sy_closer = NotClosing, sy_calls = {#}, sy_buffered = 0, sy_out = [], sy_sent = [], sy_queued = [],
     sy_issued = []\<rparr>"

fun lockHeld :: "sender \<Rightarrow> bool" where
  "lockHeld (TestBuffer _) = True"
| "lockHeld (TestDone _) = True"
| "lockHeld (BeforeWait _) = True"
| "lockHeld _ = False"

fun broadcast :: "sender \<Rightarrow> sender" where
  "broadcast (Parked w) = Woken w"
| "broadcast s = s"

definition emit :: "(conn \<times> Message) list \<Rightarrow> dcsys \<Rightarrow> dcsys" where
  "emit ms y = y\<lparr>sy_out := sy_out y @ ms\<rparr>"

definition setWork :: "dcSendWork list \<Rightarrow> dcsys \<Rightarrow> dcsys" where
  "setWork ws y = y\<lparr>sy_state := (sy_state y)\<lparr>dsWork := ws\<rparr>\<rparr>"

definition endCall :: "call \<Rightarrow> dcsys \<Rightarrow> dcsys" where
  "endCall c y = y\<lparr>sy_calls := sy_calls y - {#c#}\<rparr>"

text \<open>What the sender does when \<open>doSend\<close> returned.\<close>

definition afterSend :: "string option \<Rightarrow> dcSendWork \<Rightarrow> dcsys \<Rightarrow> dcsys" where
  "afterSend res w y =
     (let y' = y\<lparr>sy_sent := sy_sent y @ [w]\<rparr>
      in case res of
           Some err \<Rightarrow> (emit (sendFailed (sy_handle y) err w) y')\<lparr>sy_sender := AtSelect\<rparr>
         | None \<Rightarrow> if wAwaitDrain w then y'\<lparr>sy_sender := TestBuffer w\<rparr>
                   else (emit (sendAck (sy_handle y) w) y')\<lparr>sy_sender := AtSelect\<rparr>)"

text \<open>The \<open>select\<close> of \<open>handleDCSend\<close> and the test behind the enqueue.\<close>

inductive handleDCSend_step :: "dcsys \<Rightarrow> dcsys \<Rightarrow> bool" where
  enqueue: "\<lbrakk>Selecting w \<in># sy_calls y; length (dsWork (sy_state y)) < dsCap (sy_state y)\<rbrakk> \<Longrightarrow>
    handleDCSend_step y ((setWork (dsWork (sy_state y) @ [w]) (endCall (Selecting w) y))
      \<lparr>sy_calls := sy_calls y - {#Selecting w#} + {#Rechecking#}, sy_queued := sy_queued y @ [w]\<rparr>)"
| enqueue_closed: "\<lbrakk>Selecting w \<in># sy_calls y; dsDone (sy_state y)\<rbrakk> \<Longrightarrow>
    handleDCSend_step y (emit (closedBefore w) (endCall (Selecting w) y))"
| recheck_open: "\<lbrakk>Rechecking \<in># sy_calls y; \<not> dsDone (sy_state y)\<rbrakk> \<Longrightarrow> handleDCSend_step y (endCall Rechecking y)"
| recheck_closed: "\<lbrakk>Rechecking \<in># sy_calls y; dsDone (sy_state y)\<rbrakk> \<Longrightarrow>
    handleDCSend_step y (y\<lparr>sy_calls := sy_calls y - {#Rechecking#} + {#Reclaiming#}\<rparr>)"
| reclaim: "\<lbrakk>Reclaiming \<in># sy_calls y; dsWork (sy_state y) = w # ws\<rbrakk> \<Longrightarrow>
    handleDCSend_step y (emit (closedBefore w) (setWork ws (endCall Reclaiming y)))"
| reclaim_none: "\<lbrakk>Reclaiming \<in># sy_calls y; dsWork (sy_state y) = []\<rbrakk> \<Longrightarrow> handleDCSend_step y (endCall Reclaiming y)"

text \<open>The loop of the sender goroutine; \<open>send\<close> is the call of \<open>runDCSend\<close> up to the wait for the buffer.\<close>

inductive sendLoop_step :: "dcsys \<Rightarrow> dcsys \<Rightarrow> bool" where
  take: "\<lbrakk>sy_sender y = AtSelect; dsWork (sy_state y) = w # ws\<rbrakk> \<Longrightarrow>
    sendLoop_step y ((setWork ws y)\<lparr>sy_sender := Sending w\<rparr>)"
| exit: "\<lbrakk>sy_sender y = AtSelect; dsDone (sy_state y)\<rbrakk> \<Longrightarrow> sendLoop_step y (y\<lparr>sy_sender := Exited\<rparr>)"
| send: "\<lbrakk>sy_sender y = Sending w; doSend f (sy_state y) w = res\<rbrakk> \<Longrightarrow> sendLoop_step y (afterSend res w y)"

text \<open>\<open>waitForBuffer\<close>, with the answer \<open>runDCSend\<close> gives to its result.\<close>

inductive waitForBuffer_step :: "dcsys \<Rightarrow> dcsys \<Rightarrow> bool" where
  drained: "\<lbrakk>sy_sender y = TestBuffer w; sy_buffered y \<le> dsThreshold (sy_state y)\<rbrakk> \<Longrightarrow>
    waitForBuffer_step y ((emit (sendAck (sy_handle y) w) y)\<lparr>sy_sender := AtSelect\<rparr>)"
| above: "\<lbrakk>sy_sender y = TestBuffer w; \<not> sy_buffered y \<le> dsThreshold (sy_state y)\<rbrakk> \<Longrightarrow>
    waitForBuffer_step y (y\<lparr>sy_sender := TestDone w\<rparr>)"
| wait_closed: "\<lbrakk>sy_sender y = TestDone w; dsDone (sy_state y)\<rbrakk> \<Longrightarrow>
    waitForBuffer_step y ((emit (closedDuring (sy_handle y) w) y)\<lparr>sy_sender := AtSelect\<rparr>)"
| wait_open: "\<lbrakk>sy_sender y = TestDone w; \<not> dsDone (sy_state y)\<rbrakk> \<Longrightarrow> waitForBuffer_step y (y\<lparr>sy_sender := BeforeWait w\<rparr>)"
| park: "sy_sender y = BeforeWait w \<Longrightarrow> waitForBuffer_step y (y\<lparr>sy_sender := Parked w\<rparr>)"
| relock: "sy_sender y = Woken w \<Longrightarrow> waitForBuffer_step y (y\<lparr>sy_sender := TestBuffer w\<rparr>)"

text \<open>\<open>closeState\<close> behind the closing of \<open>done\<close>.\<close>

inductive closeState_step :: "dcsys \<Rightarrow> dcsys \<Rightarrow> bool" where
  close_broadcast: "\<lbrakk>sy_closer y = Broadcasting; \<not> lockHeld (sy_sender y)\<rbrakk> \<Longrightarrow>
    closeState_step y (y\<lparr>sy_sender := broadcast (sy_sender y), sy_closer := Draining\<rparr>)"
| drain: "\<lbrakk>sy_closer y = Draining; dsWork (sy_state y) = w # ws\<rbrakk> \<Longrightarrow>
    closeState_step y (emit (closedBefore w) (setWork ws y))"
| drain_end: "\<lbrakk>sy_closer y = Draining; dsWork (sy_state y) = []\<rbrakk> \<Longrightarrow> closeState_step y (y\<lparr>sy_closer := Returned\<rparr>)"

definition dc_int :: "dcsys \<Rightarrow> dcsys \<Rightarrow> bool" where
  "dc_int y z \<longleftrightarrow> handleDCSend_step y z \<or> sendLoop_step y z \<or> waitForBuffer_step y z \<or> closeState_step y z"

inductive dc_env :: "dcsys \<Rightarrow> dcsys \<Rightarrow> bool" where
  request: "dcSendWorkOf c msg = Inr w \<Longrightarrow>
    dc_env y (y\<lparr>sy_calls := sy_calls y + {#Selecting w#}, sy_issued := sy_issued y @ [w]\<rparr>)"
| close: "sy_closer y = NotClosing \<Longrightarrow>
    dc_env y (y\<lparr>sy_state := (sy_state y)\<lparr>dsDone := True\<rparr>, sy_closer := Broadcasting\<rparr>)"
| signalLow: "\<not> lockHeld (sy_sender y) \<Longrightarrow> dc_env y (y\<lparr>sy_sender := broadcast (sy_sender y)\<rparr>)"
| setThreshold: "\<not> lockHeld (sy_sender y) \<Longrightarrow>
    dc_env y (y\<lparr>sy_state := (sy_state y)\<lparr>dsThreshold := t\<rparr>, sy_sender := broadcast (sy_sender y)\<rparr>)"
| opened: "dc_env y (y\<lparr>sy_state := setDetached raw (sy_state y)\<rparr>)"
| buffer: "dc_env y (y\<lparr>sy_buffered := b\<rparr>)"

definition dc_step :: "dcsys \<Rightarrow> dcsys \<Rightarrow> bool" where
  "dc_step y z \<longleftrightarrow> dc_int y z \<or> dc_env y z"


lemma dc_intI:
  "handleDCSend_step y z \<Longrightarrow> dc_int y z" "sendLoop_step y z \<Longrightarrow> dc_int y z"
  "waitForBuffer_step y z \<Longrightarrow> dc_int y z" "closeState_step y z \<Longrightarrow> dc_int y z"
  by (simp_all add: dc_int_def)

lemmas dc_int_intros = handleDCSend_step.intros [THEN dc_intI(1)] sendLoop_step.intros [THEN dc_intI(2)]
  waitForBuffer_step.intros [THEN dc_intI(3)] closeState_step.intros [THEN dc_intI(4)]

lemma dc_int_cases [consumes 1]:
  assumes "dc_int y z"
  obtains (enqueue) w where "z = ((setWork (dsWork (sy_state y) @ [w]) (endCall (Selecting w) y)) \<lparr>sy_calls := sy_calls y - {#Selecting w#} + {#Rechecking#}, sy_queued := sy_queued y @ [w]\<rparr>)" "Selecting w \<in># sy_calls y" "length (dsWork (sy_state y)) < dsCap (sy_state y)"
  | (enqueue_closed) w where "z = (emit (closedBefore w) (endCall (Selecting w) y))" "Selecting w \<in># sy_calls y" "dsDone (sy_state y)"
  | (recheck_open) "z = (endCall Rechecking y)" "Rechecking \<in># sy_calls y" "\<not> dsDone (sy_state y)"
  | (recheck_closed) "z = (y\<lparr>sy_calls := sy_calls y - {#Rechecking#} + {#Reclaiming#}\<rparr>)" "Rechecking \<in># sy_calls y" "dsDone (sy_state y)"
  | (reclaim) w ws where "z = (emit (closedBefore w) (setWork ws (endCall Reclaiming y)))" "Reclaiming \<in># sy_calls y" "dsWork (sy_state y) = w # ws"
  | (reclaim_none) "z = (endCall Reclaiming y)" "Reclaiming \<in># sy_calls y" "dsWork (sy_state y) = []"
  | (take) w ws where "z = ((setWork ws y)\<lparr>sy_sender := Sending w\<rparr>)" "sy_sender y = AtSelect" "dsWork (sy_state y) = w # ws"
  | (exit) "z = (y\<lparr>sy_sender := Exited\<rparr>)" "sy_sender y = AtSelect" "dsDone (sy_state y)"
  | (send) w f res where "z = (afterSend res w y)" "sy_sender y = Sending w" "doSend f (sy_state y) w = res"
  | (drained) w where "z = ((emit (sendAck (sy_handle y) w) y)\<lparr>sy_sender := AtSelect\<rparr>)" "sy_sender y = TestBuffer w" "sy_buffered y \<le> dsThreshold (sy_state y)"
  | (above) w where "z = (y\<lparr>sy_sender := TestDone w\<rparr>)" "sy_sender y = TestBuffer w" "\<not> sy_buffered y \<le> dsThreshold (sy_state y)"
  | (wait_closed) w where "z = ((emit (closedDuring (sy_handle y) w) y)\<lparr>sy_sender := AtSelect\<rparr>)" "sy_sender y = TestDone w" "dsDone (sy_state y)"
  | (wait_open) w where "z = (y\<lparr>sy_sender := BeforeWait w\<rparr>)" "sy_sender y = TestDone w" "\<not> dsDone (sy_state y)"
  | (park) w where "z = (y\<lparr>sy_sender := Parked w\<rparr>)" "sy_sender y = BeforeWait w"
  | (relock) w where "z = (y\<lparr>sy_sender := TestBuffer w\<rparr>)" "sy_sender y = Woken w"
  | (close_broadcast) "z = (y\<lparr>sy_sender := broadcast (sy_sender y), sy_closer := Draining\<rparr>)" "sy_closer y = Broadcasting" "\<not> lockHeld (sy_sender y)"
  | (drain) w ws where "z = (emit (closedBefore w) (setWork ws y))" "sy_closer y = Draining" "dsWork (sy_state y) = w # ws"
  | (drain_end) "z = (y\<lparr>sy_closer := Returned\<rparr>)" "sy_closer y = Draining" "dsWork (sy_state y) = []"
  using assms unfolding dc_int_def
proof (elim disjE)
  assume "handleDCSend_step y z"
  then show thesis by cases (rule that; assumption)+
next
  assume "sendLoop_step y z"
  then show thesis by cases (rule that; assumption)+
next
  assume "waitForBuffer_step y z"
  then show thesis by cases (rule that; assumption)+
next
  assume "closeState_step y z"
  then show thesis by cases (rule that; assumption)+
qed

section \<open>Invariants\<close>

lemmas sys_defs = emit_def setWork_def endCall_def afterSend_def Let_def

text \<open>The work a goroutine holds, and the part of it not yet handed to \<open>doSend\<close>.\<close>

fun held :: "sender \<Rightarrow> dcSendWork list" where
  "held (Sending w) = [w]"
| "held (TestBuffer w) = [w]"
| "held (TestDone w) = [w]"
| "held (BeforeWait w) = [w]"
| "held (Parked w) = [w]"
| "held (Woken w) = [w]"
| "held _ = []"

fun unsent :: "sender \<Rightarrow> dcSendWork list" where
  "unsent (Sending w) = [w]"
| "unsent _ = []"

fun callWork :: "call \<Rightarrow> dcSendWork multiset" where
  "callWork (Selecting w) = {#w#}"
| "callWork _ = {#}"

definition pending :: "dcsys \<Rightarrow> dcSendWork multiset" where
  "pending y = mset (held (sy_sender y)) + mset (dsWork (sy_state y)) + (\<Sum>c\<in>#sy_calls y. callWork c)"

definition work_key :: "dcSendWork \<Rightarrow> conn \<times> int" where
  "work_key w = (the (wSendEvent w), wMsgID w)"

text \<open>The requests a log of outgoing messages answers: all of it but the error events.\<close>

definition answered :: "(conn \<times> Message) list \<Rightarrow> (conn \<times> int) multiset" where
  "answered out = mset (map (\<lambda>(c, m). (c, mID m)) (filter (\<lambda>(c, m). mType m \<noteq> ''event:dc:error'') out))"

lemma answered_append [simp]: "answered (a @ b) = answered a + answered b"
  by (simp add: answered_def)

lemma answered_responses [simp]:
  assumes "wSendEvent w \<noteq> None"
  shows "answered (closedBefore w) = {#work_key w#}" "answered (closedDuring h w) = {#work_key w#}"
    "answered (sendFailed h e w) = {#work_key w#}" "answered (sendAck h w) = {#work_key w#}"
  using assms
  by (auto simp: answered_def closedBefore_def closedDuring_def sendFailed_def sendAck_def emitTo_def work_key_def)

lemma sum_calls_remove:
  "c \<in># A \<Longrightarrow> (\<Sum>x\<in>#A. callWork x) = callWork c + (\<Sum>x\<in>#A - {#c#}. callWork x)"
  by (auto dest: multi_member_split)

lemma held_broadcast [simp]: "held (broadcast s) = held s" "unsent (broadcast s) = unsent s"
  by (cases s; simp)+

definition inv_answers :: "dcsys \<Rightarrow> bool" where
  "inv_answers y \<longleftrightarrow>
     answered (sy_out y) + image_mset work_key (pending y) = image_mset work_key (mset (sy_issued y)) \<and>
     (\<forall>w \<in># pending y. wSendEvent w \<noteq> None)"

text \<open>The log and the pending work after a step, when one pending item \<open>w\<close> is answered.\<close>

lemma inv_answersI:
  assumes "inv_answers y" and "pending y = add_mset w (pending z)"
    and "sy_out z = sy_out y @ ms" and "wSendEvent w \<noteq> None \<Longrightarrow> answered ms = {#work_key w#}"
    and "sy_issued z = sy_issued y"
  shows "inv_answers z"
  using assms by (auto simp: inv_answers_def add_ac)

lemma inv_answers_same:
  "\<lbrakk>inv_answers y; pending z = pending y; sy_out z = sy_out y; sy_issued z = sy_issued y\<rbrakk> \<Longrightarrow> inv_answers z"
  by (simp add: inv_answers_def)

lemma inv_answers_int:
  assumes "dc_int y z" and "inv_answers y"
  shows "inv_answers z"
  using assms
proof (cases rule: dc_int_cases)
  case (send w f res)
  show ?thesis
  proof (cases "res = None \<and> wAwaitDrain w")
    case True
    then show ?thesis using assms(2) send
      by (simp add: inv_answers_same [OF assms(2)] sys_defs pending_def)
  next
    case False
    then show ?thesis using assms(2) send
      by (intro inv_answersI [of y w z "case res of Some e \<Rightarrow> sendFailed (sy_handle y) e w | None \<Rightarrow> sendAck (sy_handle y) w"])
        (auto simp: sys_defs pending_def split: option.splits)
  qed
next
  case (enqueue_closed w)
  then show ?thesis using assms(2)
    by (intro inv_answersI [of y w z "closedBefore w"]) (simp_all add: sys_defs pending_def sum_calls_remove)
next
  case (reclaim w ws)
  then show ?thesis using assms(2)
    by (intro inv_answersI [of y w z "closedBefore w"]) (simp_all add: sys_defs pending_def sum_calls_remove)
next
  case (drained w)
  then show ?thesis using assms(2)
    by (intro inv_answersI [of y w z "sendAck (sy_handle y) w"]) (simp_all add: sys_defs pending_def)
next
  case (wait_closed w)
  then show ?thesis using assms(2)
    by (intro inv_answersI [of y w z "closedDuring (sy_handle y) w"]) (simp_all add: sys_defs pending_def)
next
  case (drain w ws)
  then show ?thesis using assms(2)
    by (intro inv_answersI [of y w z "closedBefore w"]) (simp_all add: sys_defs pending_def)
qed (rule inv_answers_same [OF assms(2)], simp_all add: sys_defs pending_def sum_calls_remove)+

lemma inv_answers_env:
  assumes "dc_env y z" and "inv_answers y"
  shows "inv_answers z"
  using assms
proof (cases rule: dc_env.cases)
  case (request c msg w)
  then have "wSendEvent w \<noteq> None" by (auto simp: dcSendWorkOf_def split: gval.splits)
  then show ?thesis using assms(2) request by (auto simp: inv_answers_def pending_def)
qed (rule inv_answers_same [OF assms(2)], simp_all add: pending_def setDetached_def)+


text \<open>
  Control: \<open>done\<close> is closed first; the broadcast that follows reaches a sender that parked before
  it, and none parks later; once the drain ended, every item left in the queue has a call behind
  its enqueue that will reclaim one.
\<close>

fun beforePark :: "sender \<Rightarrow> bool" where
  "beforePark (BeforeWait _) = True"
| "beforePark (Parked _) = True"
| "beforePark _ = False"

definition posted :: "call multiset \<Rightarrow> nat" where
  "posted cs = count cs Rechecking + count cs Reclaiming"

definition inv_control :: "dcsys \<Rightarrow> bool" where
  "inv_control y \<longleftrightarrow>
     (dsDone (sy_state y) \<longleftrightarrow> sy_closer y \<noteq> NotClosing) \<and>
     (sy_closer y \<in> {Draining, Returned} \<longrightarrow> \<not> beforePark (sy_sender y)) \<and>
     (sy_closer y = Returned \<longrightarrow> length (dsWork (sy_state y)) \<le> posted (sy_calls y)) \<and>
     (Reclaiming \<in># sy_calls y \<longrightarrow> dsDone (sy_state y))"

lemma posted_pos: "Rechecking \<in># cs \<Longrightarrow> 0 < posted cs" "Reclaiming \<in># cs \<Longrightarrow> 0 < posted cs"
  by (auto simp: posted_def)

lemma not_locked_broadcast: "\<not> lockHeld s \<Longrightarrow> \<not> beforePark (broadcast s)"
  by (cases s) auto

lemma beforePark_broadcast: "\<not> beforePark s \<Longrightarrow> \<not> beforePark (broadcast s)"
  by (cases s) auto

lemma inv_control_int:
  assumes "dc_int y z" and "inv_control y"
  shows "inv_control z"
  using assms
proof (cases rule: dc_int_cases)
  case (recheck_closed)
  then show ?thesis using assms(2)
    by (auto simp: inv_control_def posted_def)
qed (auto simp: inv_control_def sys_defs posted_def not_locked_broadcast in_diff_count
      split: option.splits if_splits)

lemma inv_control_env:
  assumes "dc_env y z" and "inv_control y"
  shows "inv_control z"
  using assms
  by (cases rule: dc_env.cases) (auto simp: inv_control_def posted_def setDetached_def beforePark_broadcast)

text \<open>Order: what was or will be handed to \<open>doSend\<close> keeps the order of the enqueueing.\<close>

definition inv_fifo :: "dcsys \<Rightarrow> bool" where
  "inv_fifo y \<longleftrightarrow>
     subseq (sy_sent y @ unsent (sy_sender y) @ dsWork (sy_state y)) (sy_queued y) \<and>
     (\<not> dsDone (sy_state y) \<longrightarrow>
        sy_sent y @ unsent (sy_sender y) @ dsWork (sy_state y) = sy_queued y)"

lemma subseq_drop_middle:
  assumes "subseq (a @ x # b) c"
  shows "subseq (a @ b) c"
proof -
  have "subseq (a @ b) (a @ x # b)" by (rule list_emb_append_mono) auto
  then show ?thesis using assms by (rule subseq_order.trans)
qed

lemma subseq_snoc: "subseq a b \<Longrightarrow> subseq (a @ [x]) (b @ [x])"
  by (simp add: list_emb_append_mono)

lemma inv_fifo_int:
  assumes "dc_int y z" and "inv_fifo y" and "inv_control y"
  shows "inv_fifo z"
  using assms(1)
proof (cases rule: dc_int_cases)
  case (enqueue w)
  then show ?thesis using assms(2) subseq_snoc [of "sy_sent y @ unsent (sy_sender y) @ dsWork (sy_state y)" "sy_queued y" w]
    by (simp add: inv_fifo_def sys_defs)
next
  case (reclaim w ws)
  then have "dsDone (sy_state y)" using assms(3) by (auto simp: inv_control_def)
  then show ?thesis using assms(2) reclaim subseq_drop_middle [of "sy_sent y @ unsent (sy_sender y)" w ws]
    by (simp add: inv_fifo_def sys_defs)
next
  case (drain w ws)
  then have "dsDone (sy_state y)" using assms(3) by (auto simp: inv_control_def)
  then show ?thesis using assms(2) drain subseq_drop_middle [of "sy_sent y @ unsent (sy_sender y)" w ws]
    by (simp add: inv_fifo_def sys_defs)
qed (use assms(2) in \<open>auto simp: inv_fifo_def sys_defs split: option.splits\<close>)

lemma inv_fifo_env:
  assumes "dc_env y z" and "inv_fifo y"
  shows "inv_fifo z"
  using assms by (cases rule: dc_env.cases) (auto simp: inv_fifo_def setDetached_def)

section \<open>Reachable states\<close>

definition dc_reachable :: "dcsys \<Rightarrow> bool" where
  "dc_reachable y \<longleftrightarrow> (\<exists>cfg detach h. dc_step\<^sup>*\<^sup>* (startDCSend cfg detach h) y)"

lemma dc_reachable_inv:
  assumes "dc_reachable y"
  shows "inv_answers y \<and> inv_control y \<and> inv_fifo y"
proof -
  obtain cfg detach h where "dc_step\<^sup>*\<^sup>* (startDCSend cfg detach h) y"
    using assms by (auto simp: dc_reachable_def)
  then show ?thesis
  proof (induction rule: rtranclp_induct)
    case base
    show ?case
      by (auto simp: startDCSend_def newDCSendState_def inv_answers_def inv_control_def inv_fifo_def
          pending_def answered_def)
  next
    case (step y z)
    then show ?case
      by (auto simp: dc_step_def intro: inv_answers_int inv_answers_env inv_control_int inv_control_env
          inv_fifo_int inv_fifo_env)
  qed
qed


section \<open>Progress after the close\<close>

fun senderRank :: "sender \<Rightarrow> nat" where
  "senderRank Exited = 0"
| "senderRank AtSelect = 1"
| "senderRank (TestDone _) = 2"
| "senderRank (TestBuffer _) = 3"
| "senderRank (Woken _) = 4"
| "senderRank (Parked _) = 5"
| "senderRank (BeforeWait _) = 6"
| "senderRank (Sending _) = 7"

fun closerRank :: "closer \<Rightarrow> nat" where
  "closerRank NotClosing = 3"
| "closerRank Broadcasting = 2"
| "closerRank Draining = 1"
| "closerRank Returned = 0"

fun callRank :: "call \<Rightarrow> nat" where
  "callRank Reclaiming = 1"
| "callRank Rechecking = 2"
| "callRank (Selecting _) = 13"

definition dc_rank :: "dcsys \<Rightarrow> nat" where
  "dc_rank y = senderRank (sy_sender y) + closerRank (sy_closer y) + (\<Sum>c\<in>#sy_calls y. callRank c) +
     10 * length (dsWork (sy_state y))"

lemma broadcast_rank: "senderRank (broadcast s) \<le> senderRank s"
  by (cases s) auto

lemma dc_rank_decreases:
  assumes "dc_int y z" and "dsDone (sy_state y)"
  shows "dc_rank z < dc_rank y"
  using assms
proof (cases rule: dc_int_cases)
  case close_broadcast
  then show ?thesis using broadcast_rank [of "sy_sender y"] by (simp add: dc_rank_def)
qed (auto simp: dc_rank_def sys_defs dest!: multi_member_split split: option.splits)

lemma dc_int_done: "dc_int y z \<Longrightarrow> dsDone (sy_state z) = dsDone (sy_state y)"
  by (cases rule: dc_int_cases) (auto simp: sys_defs split: option.splits if_splits)

lemma no_infinite_run:
  assumes "dsDone (sy_state (f 0))" and "\<And>n. dc_int (f n) (f (Suc n))"
  shows False
proof -
  have closed: "dsDone (sy_state (f n))" for n
    by (induction n) (use assms dc_int_done in auto)
  have "dc_rank (f n) + n \<le> dc_rank (f 0)" for n
  proof (induction n)
    case (Suc n)
    then show ?case using dc_rank_decreases [OF assms(2) closed, of n] by simp
  qed simp
  from this [of "Suc (dc_rank (f 0))"] show False by simp
qed

lemma calls_step:
  assumes "dsDone (sy_state y)" and "c \<in># sy_calls y"
  shows "\<exists>z. dc_int y z"
  using assms
proof (cases c)
  case Reclaiming
  then show ?thesis using assms reclaim reclaim_none dc_intI(1) by (cases "dsWork (sy_state y)") blast+
qed (use assms in \<open>auto intro: dc_int_intros\<close>)

lemma sender_step:
  assumes "dsDone (sy_state y)" and "\<forall>w. sy_sender y \<noteq> Parked w" and "sy_sender y \<noteq> Exited"
  shows "\<exists>z. dc_int y z"
  using assms
proof (cases "sy_sender y")
  case (TestBuffer w)
  then show ?thesis using drained above dc_intI(3) by blast
next
  case (Sending w)
  then show ?thesis using send [OF Sending refl] dc_intI(2) by blast
qed (auto intro: dc_int_intros)

lemma closer_step:
  assumes "inv_control y" and "dsDone (sy_state y)" and "sy_closer y \<noteq> Returned" and "\<not> lockHeld (sy_sender y)"
  shows "\<exists>z. dc_int y z"
  using assms
proof (cases "sy_closer y")
  case Draining
  then show ?thesis using drain drain_end dc_intI(4) by (cases "dsWork (sy_state y)") blast+
qed (auto simp: inv_control_def intro: dc_int_intros)

lemma stuck_is_final:
  assumes inv: "inv_control y" and closed: "dsDone (sy_state y)" and stuck: "\<nexists>z. dc_int y z"
  shows "pending y = {#}"
proof -
  have calls: "sy_calls y = {#}" using calls_step [OF closed] stuck by (metis multiset_nonemptyE)
  have s: "(\<exists>w. sy_sender y = Parked w) \<or> sy_sender y = Exited" using sender_step [OF closed] stuck by blast
  then have "\<not> lockHeld (sy_sender y)" by auto
  then have ret: "sy_closer y = Returned" using closer_step [OF inv closed] stuck by blast
  then have "dsWork (sy_state y) = []" using inv calls by (simp add: inv_control_def posted_def)
  moreover have "sy_sender y = Exited" using s ret inv by (auto simp: inv_control_def)
  ultimately show ?thesis using calls by (simp add: pending_def)
qed

section \<open>Properties\<close>

text \<open>
  C2: every accepted \<open>dc:send\<close> is answered exactly once. At any moment each request has either
  one response, on the connection that issued it and with its id, or is still pending; once the
  channel is closed the goroutines cannot run forever without new requests, and when none of them
  can take a step, nothing is pending and the responses are exactly the requests.
\<close>

theorem dc_send_answered_once:
  assumes "dc_reachable y"
  shows "answered (sy_out y) + image_mset work_key (pending y) = image_mset work_key (mset (sy_issued y))
    \<and> (dsDone (sy_state y) \<longrightarrow>
        (\<nexists>f. f 0 = y \<and> (\<forall>n. dc_int (f n) (f (Suc n)))) \<and>
        ((\<nexists>z. dc_int y z) \<longrightarrow> answered (sy_out y) = image_mset work_key (mset (sy_issued y))))"
proof -
  have inv: "inv_answers y" "inv_control y" using dc_reachable_inv [OF assms] by simp_all
  have "pending y = {#}" if "dsDone (sy_state y)" "\<nexists>z. dc_int y z"
    using stuck_is_final [OF inv(2) that] .
  moreover have "\<nexists>f. f 0 = y \<and> (\<forall>n. dc_int (f n) (f (Suc n)))" if "dsDone (sy_state y)"
    using no_infinite_run that by metis
  ultimately show ?thesis using inv(1) by (auto simp: inv_answers_def)
qed

text \<open>
  C21: sends of one channel, text and binary alike, are handed to pion in the order in which they
  were enqueued; until the channel is closed none of them is lost or overtaken.
\<close>

theorem dc_send_fifo:
  assumes "dc_reachable y"
  shows "subseq (sy_sent y) (sy_queued y) \<and>
    (\<not> dsDone (sy_state y) \<longrightarrow> sy_sent y @ unsent (sy_sender y) @ dsWork (sy_state y) = sy_queued y)"
proof -
  have "inv_fifo y" using dc_reachable_inv [OF assms] by simp
  then show ?thesis
    unfolding inv_fifo_def by (meson list_emb_append2 subseq_order.trans prefix_imp_subseq prefixI)
qed

text \<open>
  no wake-up is lost. Once \<open>closeState\<close> made its broadcast, the sender is neither parked on
  the condition variable nor about to park, whatever order the buffer test, the test of
  \<open>done\<close>, the close and the broadcast happened in.
\<close>

theorem close_wakes_sender:
  assumes "dc_reachable y" and "sy_closer y \<in> {Draining, Returned}"
  shows "\<forall>w. sy_sender y \<noteq> Parked w \<and> sy_sender y \<noteq> BeforeWait w"
  using dc_reachable_inv [OF assms(1)] assms(2) by (auto simp: inv_control_def)

text \<open>
  an acknowledgement of a send answers the work the sender holds, and when that work asked to
  wait for the drain, it is only sent at a moment when pion's buffered amount is at or below the
  threshold in force.
\<close>

theorem ack_after_drain:
  assumes "dc_int y z" and "(c, m) \<in> set (drop (length (sy_out y)) (sy_out z))"
    and "mType m = ''dc:send:ack''"
  shows "\<exists>w. held (sy_sender y) = [w] \<and> wSendEvent w = Some c \<and> mID m = wMsgID w \<and>
    (wAwaitDrain w \<longrightarrow> sy_buffered y \<le> dsThreshold (sy_state y))"
  using assms(1)
  by (cases rule: dc_int_cases)
    (use assms(2,3) in \<open>auto simp: sys_defs closedBefore_def closedDuring_def sendFailed_def sendAck_def emitTo_def
      split: option.splits if_splits\<close>)

text \<open>A channel on which one binary send is waiting for the drain.\<close>

definition exampleWork :: dcSendWork where
  "exampleWork = \<lparr>wData = [1, 2, 3], wText = [], wIsText = False, wMsgID = 7, wHandle = ''dc'',
     wAwaitDrain = True, wSendEvent = Some 1\<rparr>"

definition exampleRequest :: Message where
  "exampleRequest = \<lparr>mType = ''dc:send'', mID = 7, mHandle = ''dc'', mData = [(''data'', GBytes [1, 2, 3])]\<rparr>"

definition exampleDC :: dcsys where
  "exampleDC = (startDCSend DefaultDCConfig False ''dc'')
     \<lparr>sy_calls := {#Selecting exampleWork#}, sy_issued := [exampleWork]\<rparr>"

definition exampleClosed :: dcsys where
  "exampleClosed = exampleDC\<lparr>sy_state := (sy_state exampleDC)\<lparr>dsDone := True\<rparr>, sy_closer := Broadcasting\<rparr>"

definition exampleDrained :: dcsys where
  "exampleDrained = exampleClosed\<lparr>sy_closer := Returned\<rparr>"

definition exampleHeld :: dcsys where
  "exampleHeld = (startDCSend DefaultDCConfig False ''dc'')\<lparr>sy_sender := TestBuffer exampleWork\<rparr>"

lemma exampleDC_reachable: "dc_reachable exampleDC"
proof -
  have "dcSendWorkOf 1 exampleRequest = Inr exampleWork"
    by (simp add: dcSendWorkOf_def exampleRequest_def exampleWork_def get_def)
  from request [OF this, of "startDCSend DefaultDCConfig False ''dc''"]
  have "dc_step (startDCSend DefaultDCConfig False ''dc'') exampleDC"
    by (simp add: dc_step_def exampleDC_def startDCSend_def)
  then show ?thesis unfolding dc_reachable_def by blast
qed

lemma dc_reachable_step: "dc_reachable y \<Longrightarrow> dc_step y z \<Longrightarrow> dc_reachable z"
  by (auto simp: dc_reachable_def intro: rtranclp.rtrancl_into_rtrancl)

lemma exampleClosed_reachable: "dc_reachable exampleClosed"
proof -
  have "dc_env exampleDC exampleClosed"
    unfolding exampleClosed_def by (rule close) (simp add: exampleDC_def startDCSend_def)
  then show ?thesis using dc_reachable_step [OF exampleDC_reachable] by (simp add: dc_step_def)
qed

lemma exampleDrained_reachable: "dc_reachable exampleDrained"
proof -
  define mid where "mid = exampleClosed\<lparr>sy_closer := Draining\<rparr>"
  have "dc_int exampleClosed mid"
    using dc_intI(4) [OF close_broadcast, of exampleClosed]
    by (simp add: mid_def exampleClosed_def exampleDC_def startDCSend_def)
  moreover have "dc_int mid exampleDrained"
    using dc_intI(4) [OF drain_end, of mid]
    by (simp add: mid_def exampleDrained_def exampleClosed_def exampleDC_def startDCSend_def newDCSendState_def)
  ultimately show ?thesis
    using dc_reachable_step exampleClosed_reachable by (auto simp: dc_step_def)
qed

theorem dc_send_answered_once_witness:
  "dsDone (sy_state exampleClosed) \<and> \<not> (\<exists>f. f 0 = exampleClosed \<and> (\<forall>n. dc_int (f n) (f (Suc n)))) \<and>
   image_mset work_key (pending exampleClosed) = {#(1, 7)#}"
proof -
  have "dsDone (sy_state exampleClosed)" by (simp add: exampleClosed_def)
  then show ?thesis
    using dc_send_answered_once [OF exampleClosed_reachable]
    by (simp add: answered_def exampleClosed_def exampleDC_def startDCSend_def work_key_def exampleWork_def)
qed

theorem dc_send_fifo_witness:
  "sy_sent exampleDC @ unsent (sy_sender exampleDC) @ dsWork (sy_state exampleDC) = sy_queued exampleDC"
  using dc_send_fifo [OF exampleDC_reachable] by (simp add: exampleDC_def startDCSend_def newDCSendState_def)

theorem close_wakes_sender_witness:
  "\<forall>w. sy_sender exampleDrained \<noteq> Parked w \<and> sy_sender exampleDrained \<noteq> BeforeWait w"
  by (rule close_wakes_sender [OF exampleDrained_reachable]) (simp add: exampleDrained_def)

theorem ack_after_drain_witness:
  "sy_buffered exampleHeld \<le> dsThreshold (sy_state exampleHeld)"
proof -
  have "dc_int exampleHeld ((emit (sendAck (sy_handle exampleHeld) exampleWork) exampleHeld)\<lparr>sy_sender := AtSelect\<rparr>)"
    by (rule dc_intI(3), rule drained) (simp_all add: exampleHeld_def startDCSend_def)
  from ack_after_drain [OF this, of 1 "AckResponse ''dc:send'' 7 ''dc'' []"] show ?thesis
    by (simp add: exampleHeld_def startDCSend_def emit_def sendAck_def emitTo_def exampleWork_def)
qed

end
