(* ===== verification/Session.thy ===== *)
theory Session
  imports Prelude "HOL-Library.Sublist"
begin

text \<open>
  One protocol session: the outbound queue \<open>connWriter\<close> of \<^verbatim>\<open>server.go\<close> and the
  in-process \<open>FrameSession\<close> of \<^verbatim>\<open>frame_session.go\<close> with its reader and writer goroutines,
  any number of producers (\<open>enqueue\<close>) and pushers (\<open>Push\<close>), and \<open>Close\<close>. Frames are
  byte strings; serialisation happens before a frame reaches the queue.
\<close>

section \<open>State\<close>

text \<open>A Go channel with a capacity, and a channel that is only ever closed.\<close>

record connWriter =
  cwCh :: "bytes list"
  cwCap :: nat
  cwDone :: bool

definition newConnWriter :: "nat \<Rightarrow> connWriter" where
  "newConnWriter n = \<lparr>cwCh = [], cwCap = n, cwDone = False\<rparr>"

definition cw_close :: "connWriter \<Rightarrow> connWriter" where
  "cw_close w = w\<lparr>cwDone := True\<rparr>"

definition writeChanSize :: nat where
  "writeChanSize = 8192"

text \<open>
  The writer: at its \<open>select\<close>, with a frame before the second test of \<open>done\<close>, in
  \<open>deliver\<close>, gone. The reader: at its \<open>select\<close>, gone. A producer or pusher: before the first
  test of \<open>done\<close> or at the blocking \<open>select\<close>. \<open>Close\<close>: not called, \<open>fs.done\<close>
  closed, the writer's queue closed as well.
\<close>

datatype writer = WSelect | WRecheck bytes | WDeliver bytes | WExited

datatype reader = RSelect | RExited

datatype producer = PTest bytes | PSelect bytes

datatype closing = Open | DoneClosed | AllClosed

text \<open>
  The logs: frames handed to \<open>deliver\<close>, frames accepted for output, frames accepted for input,
  frames processed, pushes refused; and whether some \<open>Close\<close> has returned.
\<close>

record session =
  fsIn :: "bytes list"
  fsCap :: nat
  fsDone :: bool
  fsCw :: connWriter
  fsWriter :: writer
  fsReader :: reader
  fsClosing :: closing
  fsClosed :: bool
  producers :: "producer multiset"
  pushers :: "producer multiset"
  delivered :: "bytes list"
  accepted :: "bytes list"
  pushed :: "bytes list"
  processed :: "bytes list"
  refused :: "bytes list"

definition NewFrameSession :: session where
  "NewFrameSession = \<lparr>fsIn = [], fsCap = writeChanSize, fsDone = False, fsCw = newConnWriter writeChanSize,
     fsWriter = WSelect, fsReader = RSelect, fsClosing = Open, fsClosed = False, producers = {#},
     pushers = {#}, delivered = [], accepted = [], pushed = [], processed = [], refused = []\<rparr>"

section \<open>Steps\<close>

text \<open>\<open>connWriter.enqueue\<close>, behind the serialisation.\<close>

inductive enqueue_step :: "session \<Rightarrow> session \<Rightarrow> bool" where
  enqueue_call: "enqueue_step s (s\<lparr>producers := add_mset (PTest f) (producers s)\<rparr>)"
| enqueue_refused: "\<lbrakk>PTest f \<in># producers s; cwDone (fsCw s)\<rbrakk> \<Longrightarrow>
    enqueue_step s (s\<lparr>producers := producers s - {#PTest f#}\<rparr>)"
| enqueue_test: "\<lbrakk>PTest f \<in># producers s; \<not> cwDone (fsCw s)\<rbrakk> \<Longrightarrow>
    enqueue_step s (s\<lparr>producers := add_mset (PSelect f) (producers s - {#PTest f#})\<rparr>)"
| enqueue_ok: "\<lbrakk>PSelect f \<in># producers s; length (cwCh (fsCw s)) < cwCap (fsCw s)\<rbrakk> \<Longrightarrow>
    enqueue_step s (s\<lparr>producers := producers s - {#PSelect f#},
      fsCw := (fsCw s)\<lparr>cwCh := cwCh (fsCw s) @ [f]\<rparr>, accepted := accepted s @ [f]\<rparr>)"
| enqueue_closed: "\<lbrakk>PSelect f \<in># producers s; cwDone (fsCw s)\<rbrakk> \<Longrightarrow>
    enqueue_step s (s\<lparr>producers := producers s - {#PSelect f#}\<rparr>)"

text \<open>The writer goroutine.\<close>

inductive writer_step :: "session \<Rightarrow> session \<Rightarrow> bool" where
  writer_exit: "\<lbrakk>fsWriter s = WSelect; cwDone (fsCw s)\<rbrakk> \<Longrightarrow> writer_step s (s\<lparr>fsWriter := WExited\<rparr>)"
| writer_take: "\<lbrakk>fsWriter s = WSelect; cwCh (fsCw s) = f # fs\<rbrakk> \<Longrightarrow>
    writer_step s (s\<lparr>fsWriter := WRecheck f, fsCw := (fsCw s)\<lparr>cwCh := fs\<rparr>\<rparr>)"
| writer_drop: "\<lbrakk>fsWriter s = WRecheck f; cwDone (fsCw s)\<rbrakk> \<Longrightarrow> writer_step s (s\<lparr>fsWriter := WExited\<rparr>)"
| writer_go: "\<lbrakk>fsWriter s = WRecheck f; \<not> cwDone (fsCw s)\<rbrakk> \<Longrightarrow> writer_step s (s\<lparr>fsWriter := WDeliver f\<rparr>)"
| writer_deliver: "fsWriter s = WDeliver f \<Longrightarrow>
    writer_step s (s\<lparr>fsWriter := WSelect, delivered := delivered s @ [f]\<rparr>)"

text \<open>The reader goroutine; processing a frame is one step.\<close>

inductive reader_step :: "session \<Rightarrow> session \<Rightarrow> bool" where
  reader_exit: "\<lbrakk>fsReader s = RSelect; fsDone s\<rbrakk> \<Longrightarrow> reader_step s (s\<lparr>fsReader := RExited\<rparr>)"
| reader_take: "\<lbrakk>fsReader s = RSelect; fsIn s = f # fs\<rbrakk> \<Longrightarrow>
    reader_step s (s\<lparr>fsIn := fs, processed := processed s @ [f]\<rparr>)"

text \<open>\<open>Push\<close>.\<close>

inductive Push_step :: "session \<Rightarrow> session \<Rightarrow> bool" where
  push_call: "Push_step s (s\<lparr>pushers := add_mset (PTest f) (pushers s)\<rparr>)"
| push_refused: "\<lbrakk>PTest f \<in># pushers s; fsDone s\<rbrakk> \<Longrightarrow>
    Push_step s (s\<lparr>pushers := pushers s - {#PTest f#}, refused := refused s @ [f]\<rparr>)"
| push_test: "\<lbrakk>PTest f \<in># pushers s; \<not> fsDone s\<rbrakk> \<Longrightarrow>
    Push_step s (s\<lparr>pushers := add_mset (PSelect f) (pushers s - {#PTest f#})\<rparr>)"
| push_ok: "\<lbrakk>PSelect f \<in># pushers s; length (fsIn s) < fsCap s\<rbrakk> \<Longrightarrow>
    Push_step s (s\<lparr>pushers := pushers s - {#PSelect f#}, fsIn := fsIn s @ [f], pushed := pushed s @ [f]\<rparr>)"
| push_closed: "\<lbrakk>PSelect f \<in># pushers s; fsDone s\<rbrakk> \<Longrightarrow>
    Push_step s (s\<lparr>pushers := pushers s - {#PSelect f#}, refused := refused s @ [f]\<rparr>)"

text \<open>\<open>Close\<close>: the once-only part, and the wait for the writer.\<close>

inductive Close_step :: "session \<Rightarrow> session \<Rightarrow> bool" where
  close_done: "fsClosing s = Open \<Longrightarrow> Close_step s (s\<lparr>fsDone := True, fsClosing := DoneClosed\<rparr>)"
| close_writer: "fsClosing s = DoneClosed \<Longrightarrow>
    Close_step s (s\<lparr>fsCw := cw_close (fsCw s), fsClosing := AllClosed\<rparr>)"
| close_return: "\<lbrakk>fsClosing s = AllClosed; fsWriter s = WExited\<rbrakk> \<Longrightarrow> Close_step s (s\<lparr>fsClosed := True\<rparr>)"

definition fs_step :: "session \<Rightarrow> session \<Rightarrow> bool" where
  "fs_step s t \<longleftrightarrow> enqueue_step s t \<or> writer_step s t \<or> reader_step s t \<or> Push_step s t \<or> Close_step s t"

lemma fs_stepI:
  "enqueue_step s t \<Longrightarrow> fs_step s t"
  "writer_step s t \<Longrightarrow> fs_step s t"
  "reader_step s t \<Longrightarrow> fs_step s t"
  "Push_step s t \<Longrightarrow> fs_step s t"
  "Close_step s t \<Longrightarrow> fs_step s t"
  by (simp_all add: fs_step_def)

lemma fs_step_cases [consumes 1]:
  assumes "fs_step s t"
  obtains (enqueue_call) f where "t = (s\<lparr>producers := add_mset (PTest f) (producers s)\<rparr>)"
  | (enqueue_refused) f where "t = (s\<lparr>producers := producers s - {#PTest f#}\<rparr>)" "PTest f \<in># producers s" "cwDone (fsCw s)"
  | (enqueue_test) f where "t = (s\<lparr>producers := add_mset (PSelect f) (producers s - {#PTest f#})\<rparr>)" "PTest f \<in># producers s" "\<not> cwDone (fsCw s)"
  | (enqueue_ok) f where "t = (s\<lparr>producers := producers s - {#PSelect f#}, fsCw := (fsCw s)\<lparr>cwCh := cwCh (fsCw s) @ [f]\<rparr>, accepted := accepted s @ [f]\<rparr>)" "PSelect f \<in># producers s" "length (cwCh (fsCw s)) < cwCap (fsCw s)"
  | (enqueue_closed) f where "t = (s\<lparr>producers := producers s - {#PSelect f#}\<rparr>)" "PSelect f \<in># producers s" "cwDone (fsCw s)"
  | (writer_exit) "t = (s\<lparr>fsWriter := WExited\<rparr>)" "fsWriter s = WSelect" "cwDone (fsCw s)"
  | (writer_take) f fs where "t = (s\<lparr>fsWriter := WRecheck f, fsCw := (fsCw s)\<lparr>cwCh := fs\<rparr>\<rparr>)" "fsWriter s = WSelect" "cwCh (fsCw s) = f # fs"
  | (writer_drop) f where "t = (s\<lparr>fsWriter := WExited\<rparr>)" "fsWriter s = WRecheck f" "cwDone (fsCw s)"
  | (writer_go) f where "t = (s\<lparr>fsWriter := WDeliver f\<rparr>)" "fsWriter s = WRecheck f" "\<not> cwDone (fsCw s)"
  | (writer_deliver) f where "t = (s\<lparr>fsWriter := WSelect, delivered := delivered s @ [f]\<rparr>)" "fsWriter s = WDeliver f"
  | (reader_exit) "t = (s\<lparr>fsReader := RExited\<rparr>)" "fsReader s = RSelect" "fsDone s"
  | (reader_take) f fs where "t = (s\<lparr>fsIn := fs, processed := processed s @ [f]\<rparr>)" "fsReader s = RSelect" "fsIn s = f # fs"
  | (push_call) f where "t = (s\<lparr>pushers := add_mset (PTest f) (pushers s)\<rparr>)"
  | (push_refused) f where "t = (s\<lparr>pushers := pushers s - {#PTest f#}, refused := refused s @ [f]\<rparr>)" "PTest f \<in># pushers s" "fsDone s"
  | (push_test) f where "t = (s\<lparr>pushers := add_mset (PSelect f) (pushers s - {#PTest f#})\<rparr>)" "PTest f \<in># pushers s" "\<not> fsDone s"
  | (push_ok) f where "t = (s\<lparr>pushers := pushers s - {#PSelect f#}, fsIn := fsIn s @ [f], pushed := pushed s @ [f]\<rparr>)" "PSelect f \<in># pushers s" "length (fsIn s) < fsCap s"
  | (push_closed) f where "t = (s\<lparr>pushers := pushers s - {#PSelect f#}, refused := refused s @ [f]\<rparr>)" "PSelect f \<in># pushers s" "fsDone s"
  | (close_done) "t = (s\<lparr>fsDone := True, fsClosing := DoneClosed\<rparr>)" "fsClosing s = Open"
  | (close_writer) "t = (s\<lparr>fsCw := cw_close (fsCw s), fsClosing := AllClosed\<rparr>)" "fsClosing s = DoneClosed"
  | (close_return) "t = (s\<lparr>fsClosed := True\<rparr>)" "fsClosing s = AllClosed" "fsWriter s = WExited"
  using assms unfolding fs_step_def
proof (elim disjE)
  assume "enqueue_step s t"
  then show thesis by cases (rule that; assumption)+
next
  assume "writer_step s t"
  then show thesis by cases (rule that; assumption)+
next
  assume "reader_step s t"
  then show thesis by cases (rule that; assumption)+
next
  assume "Push_step s t"
  then show thesis by cases (rule that; assumption)+
next
  assume "Close_step s t"
  then show thesis by cases (rule that; assumption)+
qed

definition fs_reachable :: "session \<Rightarrow> bool" where
  "fs_reachable s \<longleftrightarrow> fs_step\<^sup>*\<^sup>* NewFrameSession s"

section \<open>Invariant\<close>

fun writerHolds :: "writer \<Rightarrow> bytes list" where
  "writerHolds (WRecheck f) = [f]"
| "writerHolds (WDeliver f) = [f]"
| "writerHolds _ = []"

definition fs_inv :: "session \<Rightarrow> bool" where
  "fs_inv s \<longleftrightarrow>
     (fsClosed s \<longrightarrow> fsWriter s = WExited) \<and>
     (cwDone (fsCw s) \<longleftrightarrow> fsClosing s = AllClosed) \<and>
     (fsWriter s = WExited \<longrightarrow> cwDone (fsCw s) \<and> prefix (delivered s) (accepted s)) \<and>
     (fsWriter s \<noteq> WExited \<longrightarrow> delivered s @ writerHolds (fsWriter s) @ cwCh (fsCw s) = accepted s) \<and>
     processed s @ fsIn s = pushed s \<and> length (fsIn s) \<le> fsCap s \<and> length (cwCh (fsCw s)) \<le> cwCap (fsCw s)"

lemma prefix_longer: "a @ b = c \<Longrightarrow> prefix a c"
  by auto

lemma fs_inv_step:
  assumes "fs_step s t" and "fs_inv s"
  shows "fs_inv t"
  using assms(1)
  by (cases rule: fs_step_cases)
    (use assms(2) in \<open>auto simp: fs_inv_def cw_close_def intro: prefix_longer\<close>)

lemma fs_reachable_inv: "fs_reachable s \<Longrightarrow> fs_inv s"
  unfolding fs_reachable_def
proof (induction rule: rtranclp_induct)
  case base
  show ?case by (simp add: fs_inv_def NewFrameSession_def newConnWriter_def)
qed (rule fs_inv_step)

lemma closed_stable:
  assumes "fs_step\<^sup>*\<^sup>* s t" and "fs_inv s" and "fsClosed s"
  shows "fs_inv t \<and> fsClosed t \<and> delivered t = delivered s"
  using assms
proof (induction rule: rtranclp_induct)
  case (step t u)
  then have t: "fs_inv t" "fsClosed t" "delivered t = delivered s" by auto
  then have "fsWriter t = WExited" by (simp add: fs_inv_def)
  with step.hyps(2) t have "fsClosed u \<and> delivered u = delivered s"
    by (cases rule: fs_step_cases) auto
  then show ?case using fs_inv_step [OF step.hyps(2) t(1)] by simp
qed simp

text \<open>The writer's way out once its queue is closed; \<open>deliver\<close> is assumed to return.\<close>

lemma writer_exits:
  assumes "cwDone (fsCw s)"
  shows "\<exists>t. fs_step\<^sup>*\<^sup>* s t \<and> fsWriter t = WExited \<and> fsClosing t = fsClosing s"
proof (cases "fsWriter s")
  case (WDeliver f)
  define u where "u = s\<lparr>fsWriter := WSelect, delivered := delivered s @ [f]\<rparr>"
  have "fs_step s u" unfolding u_def by (rule fs_stepI(2) [OF writer_deliver [OF WDeliver]])
  moreover have "fs_step u (u\<lparr>fsWriter := WExited\<rparr>)"
    by (rule fs_stepI(2), rule writer_exit) (use assms in \<open>simp_all add: u_def\<close>)
  ultimately have "fs_step\<^sup>*\<^sup>* s (u\<lparr>fsWriter := WExited\<rparr>)" by simp
  then show ?thesis by (intro exI [of _ "u\<lparr>fsWriter := WExited\<rparr>"]) (simp add: u_def)
next
  case WSelect
  then show ?thesis using fs_stepI(2) [OF writer_exit [OF WSelect assms]]
    by (intro exI [of _ "s\<lparr>fsWriter := WExited\<rparr>"]) auto
next
  case (WRecheck f)
  then show ?thesis using fs_stepI(2) [OF writer_drop [OF WRecheck assms]]
    by (intro exI [of _ "s\<lparr>fsWriter := WExited\<rparr>"]) auto
qed auto

lemma push_refused_stable:
  assumes "fs_step\<^sup>*\<^sup>* s t" and "fsDone s" and "\<And>f. PSelect f \<notin># pushers s"
  shows "fsDone t \<and> (\<forall>f. PSelect f \<notin># pushers t) \<and> pushed t = pushed s"
  using assms
proof (induction rule: rtranclp_induct)
  case (step t u)
  then have t: "fsDone t" "\<forall>f. PSelect f \<notin># pushers t" "pushed t = pushed s" by auto
  from step.hyps(2) t show ?case
    by (cases rule: fs_step_cases) (auto dest: in_diffD)
qed simp

section \<open>Properties\<close>

text \<open>
  C11: outbound frames are delivered in the order in which they were accepted, without loss in
  between: what was delivered is always a prefix of what was accepted. Once \<open>Close\<close> returned,
  \<open>deliver\<close> is never called again, whatever producers, pushers and goroutines still do.
\<close>

theorem deliver_order_and_close:
  assumes "fs_reachable s"
  shows "prefix (delivered s) (accepted s) \<and>
    (\<forall>t. fsClosed s \<longrightarrow> fs_step\<^sup>*\<^sup>* s t \<longrightarrow> delivered t = delivered s)"
proof -
  have inv: "fs_inv s" using assms by (rule fs_reachable_inv)
  then have "prefix (delivered s) (accepted s)"
    by (cases "fsWriter s = WExited") (auto simp: fs_inv_def intro: prefix_longer)
  then show ?thesis using closed_stable [OF _ inv] by blast
qed

text \<open>
  inbound frames are processed one by one in the order in which they were pushed, and none of
  them is lost before the reader stops. Once \<open>Close\<close> started, no \<open>Push\<close> called afterwards is
  accepted.
\<close>

theorem push_order:
  assumes "fs_reachable s"
  shows "processed s @ fsIn s = pushed s \<and>
    (\<forall>t. fsDone s \<and> (\<forall>f. PSelect f \<notin># pushers s) \<and> fs_step\<^sup>*\<^sup>* s t \<longrightarrow> pushed t = pushed s)"
proof -
  have "processed s @ fsIn s = pushed s" using fs_reachable_inv [OF assms] by (simp add: fs_inv_def)
  then show ?thesis using push_refused_stable by blast
qed

text \<open>
  C22: a \<open>Close\<close> that was started can always return: from every state the remaining steps of
  \<open>Close\<close> and of the writer, at most four, lead to its return, even if the queues are full and
  producers are blocked on them.
\<close>

theorem close_can_return:
  assumes "fs_reachable s" and "fsClosing s \<noteq> Open"
  shows "\<exists>t. fs_step\<^sup>*\<^sup>* s t \<and> fsClosed t"
proof -
  obtain u where u: "fs_step\<^sup>*\<^sup>* s u" "fsClosing u = AllClosed" "cwDone (fsCw u)"
  proof (cases "fsClosing s = AllClosed")
    case True
    then show ?thesis using that fs_reachable_inv [OF assms(1)] by (auto simp: fs_inv_def)
  next
    case False
    then have "fsClosing s = DoneClosed" using assms(2) by (cases "fsClosing s") auto
    from fs_stepI(5) [OF close_writer [OF this]] show ?thesis
      by (intro that [of "s\<lparr>fsCw := cw_close (fsCw s), fsClosing := AllClosed\<rparr>"]) (auto simp: cw_close_def)
  qed
  obtain v where v: "fs_step\<^sup>*\<^sup>* u v" "fsWriter v = WExited" "fsClosing v = AllClosed"
    using writer_exits [OF u(3)] u(2) by auto
  have "fs_step\<^sup>*\<^sup>* s (v\<lparr>fsClosed := True\<rparr>)"
    using u(1) v(1) fs_stepI(5) [OF close_return [OF v(3,2)]] by (meson rtranclp.rtrancl_into_rtrancl rtranclp_trans)
  then show ?thesis by (intro exI [of _ "v\<lparr>fsClosed := True\<rparr>"]) simp
qed

text \<open>A session that is closed at once.\<close>

definition exampleClosing :: session where
  "exampleClosing = NewFrameSession\<lparr>fsDone := True, fsClosing := DoneClosed\<rparr>"

lemma exampleClosing_reachable: "fs_reachable exampleClosing"
  unfolding fs_reachable_def exampleClosing_def
  by (rule r_into_rtranclp, rule fs_stepI(5), rule close_done) (simp add: NewFrameSession_def)

theorem deliver_order_and_close_witness:
  "\<exists>s t. fs_reachable s \<and> fsClosed s \<and> fs_step s t \<and> delivered t = delivered s"
proof -
  define u where "u = exampleClosing\<lparr>fsCw := cw_close (fsCw exampleClosing), fsClosing := AllClosed\<rparr>"
  define v where "v = u\<lparr>fsWriter := WExited\<rparr>"
  have "fs_step exampleClosing u" unfolding u_def by (rule fs_stepI(5), rule close_writer) (simp add: exampleClosing_def)
  moreover have "fs_step u v" unfolding v_def
    by (rule fs_stepI(2), rule writer_exit) (simp_all add: u_def exampleClosing_def NewFrameSession_def cw_close_def)
  moreover have "fs_step v (v\<lparr>fsClosed := True\<rparr>)"
    by (rule fs_stepI(5), rule close_return) (simp_all add: v_def u_def)
  ultimately have "fs_reachable (v\<lparr>fsClosed := True\<rparr>)"
    using exampleClosing_reachable unfolding fs_reachable_def by (meson rtranclp.rtrancl_into_rtrancl)
  moreover obtain t where "fs_step (v\<lparr>fsClosed := True\<rparr>) t"
    using fs_stepI(1) [OF enqueue_call] by blast
  moreover have "fsClosed (v\<lparr>fsClosed := True\<rparr>)" by simp
  ultimately show ?thesis using deliver_order_and_close by blast
qed

theorem push_order_witness:
  "fs_step\<^sup>*\<^sup>* exampleClosing (exampleClosing\<lparr>pushers := {#PTest [1]#}\<rparr>) \<and>
   pushed (exampleClosing\<lparr>pushers := {#PTest [1]#}\<rparr>) = pushed exampleClosing"
proof -
  have "fs_step exampleClosing (exampleClosing\<lparr>pushers := {#PTest [1]#}\<rparr>)"
    using fs_stepI(4) [OF push_call, of exampleClosing "[1]"] by (simp add: exampleClosing_def NewFrameSession_def)
  then have r: "fs_step\<^sup>*\<^sup>* exampleClosing (exampleClosing\<lparr>pushers := {#PTest [1]#}\<rparr>)" by (rule r_into_rtranclp)
  have "fsDone exampleClosing \<and> (\<forall>f. PSelect f \<notin># pushers exampleClosing)"
    by (simp add: exampleClosing_def NewFrameSession_def)
  then show ?thesis using push_order [OF exampleClosing_reachable] r by blast
qed

theorem close_can_return_witness: "\<exists>t. fs_step\<^sup>*\<^sup>* exampleClosing t \<and> fsClosed t"
  by (rule close_can_return [OF exampleClosing_reachable]) (simp add: exampleClosing_def)

end
