(* ===== verification/Settings.thy ===== *)
theory Settings
  imports Messages
begin

text \<open>
  The configuration payloads of \<open>init\<close> and \<open>pc:create\<close>: \<^verbatim>\<open>settings_engine.go\<close> and
  \<^verbatim>\<open>media_engine.go\<close>. pion's \<open>SettingEngine\<close>, \<open>MediaEngine\<close> and interceptor registry are
  represented by the calls made on them; the calls of pion that can fail enter as functions that
  give the error, if any. An engine that was only partly configured when an error occurred is
  dropped by the caller, so the error alone is returned.
\<close>

section \<open>Settings\<close>

datatype setting =
    DisableActiveTCP bool
  | DisableCertificateFingerprintVerification bool
  | DisableCloseByDTLS bool
  | DisableSRTCPReplayProtection bool
  | DisableSRTPReplayProtection bool
  | DetachDataChannels
  | EnableDataChannelBlockWrite bool
  | EnableSCTPZeroChecksum bool
  | SetSCTPMaxReceiveBufferSize u32
  | SetSCTPMaxMessageSize u32
  | SetSCTPMinCwnd u32
  | SetSCTPCwndCAStep u32
  | SetReceiveMTU u64
  | SetICEMaxBindingRequests u16
  | SetDTLSReplayProtectionWindow u64
  | SetSRTCPReplayProtectionWindow u64
  | SetSRTPReplayProtectionWindow u64
  | SetEphemeralUDPPortRange u16 u16
  | SetICETimeouts u64 u64 u64
  | SetAcceptanceMinWait string u64
  | SetICERenomination "u64 option"
  | SetDTLSRetransmissionInterval u64
  | SetSCTPRTOMax u64
  | SetSTUNGatherTimeout u64
  | SetMulticastDNSHostName string
  | SetIncludeLoopbackCandidate bool
  | SetInterfaceFilter "string list"

datatype settings_error =
    InvalidPortRange u64 u64 string
  | PortPairIncomplete
  | ICETimeoutsIncomplete
  | RenominationFailed string
  | WhitelistEntryNotString gval

record pionSettings =
  portRangeErr :: "u16 \<Rightarrow> u16 \<Rightarrow> string option"
  renominationErr :: "u64 option \<Rightarrow> string option"

definition boolKey :: "gmap \<Rightarrow> string \<Rightarrow> (bool \<Rightarrow> setting) \<Rightarrow> setting list" where
  "boolKey cfg k f = (case asBool (get cfg k) of Some v \<Rightarrow> [f v] | None \<Rightarrow> [])"

definition intKey :: "gmap \<Rightarrow> string \<Rightarrow> (u64 \<Rightarrow> setting) \<Rightarrow> setting list" where
  "intKey cfg k f = (case toInt (get cfg k) of Some v \<Rightarrow> [f v] | None \<Rightarrow> [])"

definition portRange :: "pionSettings \<Rightarrow> gmap \<Rightarrow> (settings_error, setting list) result" where
  "portRange P cfg =
     (case (toInt (get cfg ''ephemeral_udp_port_min''), toInt (get cfg ''ephemeral_udp_port_max'')) of
        (Some lo, Some hi) \<Rightarrow>
          (case portRangeErr P (ucast lo) (ucast hi) of
             Some err \<Rightarrow> Inl (InvalidPortRange lo hi err)
           | None \<Rightarrow> Inr [SetEphemeralUDPPortRange (ucast lo) (ucast hi)])
      | (None, None) \<Rightarrow> Inr []
      | _ \<Rightarrow> Inl PortPairIncomplete)"

definition iceTimeouts :: "gmap \<Rightarrow> (settings_error, setting list) result" where
  "iceTimeouts cfg =
     (case (toInt (get cfg ''ice_disconnected_timeout_ms''), toInt (get cfg ''ice_failed_timeout_ms''),
            toInt (get cfg ''ice_keepalive_ms'')) of
        (Some disc, Some fail, Some keep) \<Rightarrow> Inr [SetICETimeouts (millis disc) (millis fail) (millis keep)]
      | (None, None, None) \<Rightarrow> Inr []
      | _ \<Rightarrow> Inl ICETimeoutsIncomplete)"

definition renomination :: "pionSettings \<Rightarrow> gmap \<Rightarrow> (settings_error, setting list) result" where
  "renomination P cfg =
     (if asBool (get cfg ''ice_renomination'') = Some True then
        (let interval = map_option millis (toInt (get cfg ''ice_renomination_interval_ms''))
         in case renominationErr P interval of
              Some err \<Rightarrow> Inl (RenominationFailed err)
            | None \<Rightarrow> Inr [SetICERenomination interval])
      else Inr [])"

fun whitelistNames :: "gval list \<Rightarrow> (settings_error, string list) result" where
  "whitelistNames [] = Inr []"
| "whitelistNames (item # rest) =
     (case asString item of
        None \<Rightarrow> Inl (WhitelistEntryNotString item)
      | Some name \<Rightarrow> bindR (whitelistNames rest) (\<lambda>ns. Inr (name # ns)))"

definition interfaceWhitelist :: "gmap \<Rightarrow> (settings_error, setting list) result" where
  "interfaceWhitelist cfg =
     (case asList (get cfg ''interface_whitelist'') of
        None \<Rightarrow> Inr []
      | Some raw \<Rightarrow> bindR (whitelistNames raw) (\<lambda>allowed. Inr [SetInterfaceFilter allowed]))"

definition applySettingsEngine :: "pionSettings \<Rightarrow> gmap \<Rightarrow> (settings_error, setting list) result" where
  "applySettingsEngine P cfg =
     bindR (portRange P cfg) (\<lambda>ports.
     bindR (iceTimeouts cfg) (\<lambda>timeouts.
     bindR (renomination P cfg) (\<lambda>renom.
     bindR (interfaceWhitelist cfg) (\<lambda>whitelist.
     Inr (boolKey cfg ''disable_active_tcp'' DisableActiveTCP
        @ boolKey cfg ''disable_certificate_fingerprint_verification'' DisableCertificateFingerprintVerification
        @ boolKey cfg ''disable_close_by_dtls'' DisableCloseByDTLS
        @ boolKey cfg ''disable_srtcp_replay_protection'' DisableSRTCPReplayProtection
        @ boolKey cfg ''disable_srtp_replay_protection'' DisableSRTPReplayProtection
        @ (if asBool (get cfg ''detach_data_channels'') = Some True then [DetachDataChannels] else [])
        @ boolKey cfg ''enable_data_channel_block_write'' EnableDataChannelBlockWrite
        @ boolKey cfg ''enable_sctp_zero_checksum'' EnableSCTPZeroChecksum
        @ intKey cfg ''sctp_max_receive_buffer_size'' (\<lambda>v. SetSCTPMaxReceiveBufferSize (ucast v))
        @ intKey cfg ''sctp_max_message_size'' (\<lambda>v. SetSCTPMaxMessageSize (ucast v))
        @ intKey cfg ''sctp_min_cwnd'' (\<lambda>v. SetSCTPMinCwnd (ucast v))
        @ intKey cfg ''sctp_cwnd_ca_step'' (\<lambda>v. SetSCTPCwndCAStep (ucast v))
        @ intKey cfg ''receive_mtu'' SetReceiveMTU
        @ intKey cfg ''ice_max_binding_requests'' (\<lambda>v. SetICEMaxBindingRequests (ucast v))
        @ intKey cfg ''dtls_replay_protection_window'' SetDTLSReplayProtectionWindow
        @ intKey cfg ''srtcp_replay_protection_window'' SetSRTCPReplayProtectionWindow
        @ intKey cfg ''srtp_replay_protection_window'' SetSRTPReplayProtectionWindow
        @ ports @ timeouts
        @ intKey cfg ''host_acceptance_min_wait_ms'' (\<lambda>v. SetAcceptanceMinWait ''host'' (millis v))
        @ intKey cfg ''srflx_acceptance_min_wait_ms'' (\<lambda>v. SetAcceptanceMinWait ''srflx'' (millis v))
        @ intKey cfg ''prflx_acceptance_min_wait_ms'' (\<lambda>v. SetAcceptanceMinWait ''prflx'' (millis v))
        @ intKey cfg ''relay_acceptance_min_wait_ms'' (\<lambda>v. SetAcceptanceMinWait ''relay'' (millis v))
        @ renom
        @ intKey cfg ''dtls_retransmission_interval_ms'' (\<lambda>v. SetDTLSRetransmissionInterval (millis v))
        @ intKey cfg ''sctp_rto_max_ms'' (\<lambda>v. SetSCTPRTOMax (millis v))
        @ intKey cfg ''stun_gather_timeout_ms'' (\<lambda>v. SetSTUNGatherTimeout (millis v))
        @ (case asString (get cfg ''multicast_dns_host_name'') of
             Some v \<Rightarrow> if v \<noteq> [] then [SetMulticastDNSHostName v] else []
           | None \<Rightarrow> [])
        @ boolKey cfg ''include_loopback_candidate'' SetIncludeLoopbackCandidate
        @ whitelist)))))"

section \<open>Media engine\<close>

datatype codec = VideoCodec string nat string | RtxCodec nat nat | Opus

datatype media_error =
    NotAStringList string
  | UnknownVideoCodec string
  | UnknownAudioCodec string
  | RegisterCodecFailed string
  | NackIntervalNotPositive
  | InterceptorsFailed string

record pionMedia =
  RegisterCodec :: "codec \<Rightarrow> string option"
  RegisterInterceptors :: "u64 option \<Rightarrow> string option"

definition upperChar :: "char \<Rightarrow> char" where
  "upperChar c = (let n = (of_char c :: nat) in if 97 \<le> n \<and> n \<le> 122 then char_of (n - 32) else c)"

text \<open>
  \<open>strings.ToUpper\<close>, for the comparison with the ASCII names of the codecs: no other letter has one
  of the letters of these names as its upper case.
\<close>

definition toUpper :: "string \<Rightarrow> string" where
  "toUpper s = map upperChar s"

text \<open>
  \<open>strings.EqualFold(name, "opus")\<close>: besides the ASCII spellings, the long s (U+017F, two bytes
  in UTF-8) folds to s.
\<close>

definition isOpus :: "string \<Rightarrow> bool" where
  "isOpus name \<longleftrightarrow> toUpper name = ''OPUS'' \<or>
     (toUpper (take 3 name) = ''OPU'' \<and> drop 3 name = [char_of (0xC5 :: nat), char_of (0xBF :: nat)])"

definition videoCodecDefs :: "string \<Rightarrow> (string \<times> nat \<times> nat \<times> string) option" where
  "videoCodecDefs name =
     (if name = ''VP8'' then Some (''video/VP8'', 96, 97, [])
      else if name = ''VP9'' then Some (''video/VP9'', 98, 99, ''profile-id=0'')
      else if name = ''AV1'' then Some (''video/AV1'', 45, 46, [])
      else None)"

fun stringItems :: "gval list \<Rightarrow> string list option" where
  "stringItems [] = Some []"
| "stringItems (it # items) =
     (case asString it of
        None \<Rightarrow> None
      | Some s \<Rightarrow> map_option (\<lambda>out. s # out) (stringItems items))"

definition stringList :: "gval \<Rightarrow> string list option" where
  "stringList v = (if v = GNil then Some [] else case asList v of None \<Rightarrow> None | Some items \<Rightarrow> stringItems items)"

definition register :: "pionMedia \<Rightarrow> codec \<Rightarrow> (media_error, codec list) result" where
  "register P c = (case RegisterCodec P c of Some err \<Rightarrow> Inl (RegisterCodecFailed err) | None \<Rightarrow> Inr [c])"

fun registerVideo :: "pionMedia \<Rightarrow> string list \<Rightarrow> (media_error, codec list) result" where
  "registerVideo P [] = Inr []"
| "registerVideo P (name # rest) =
     (case videoCodecDefs (toUpper name) of
        None \<Rightarrow> Inl (UnknownVideoCodec name)
      | Some (mime, pt, rtx, fmtp) \<Rightarrow>
          bindR (register P (VideoCodec mime pt fmtp)) (\<lambda>a.
          bindR (register P (RtxCodec rtx pt)) (\<lambda>b.
          bindR (registerVideo P rest) (\<lambda>cs. Inr (a @ b @ cs)))))"

fun registerAudio :: "pionMedia \<Rightarrow> string list \<Rightarrow> (media_error, codec list) result" where
  "registerAudio P [] = Inr []"
| "registerAudio P (name # rest) =
     (if \<not> isOpus name then Inl (UnknownAudioCodec name)
      else bindR (register P Opus) (\<lambda>a. bindR (registerAudio P rest) (\<lambda>cs. Inr (a @ cs))))"

definition nackInterval :: "gmap \<Rightarrow> (media_error, u64 option) result" where
  "nackInterval cfg =
     (case toInt (get cfg ''nack_interval_ms'') of
        None \<Rightarrow> Inr None
      | Some ms \<Rightarrow> if sint ms \<le> 0 then Inl NackIntervalNotPositive else Inr (Some (millis ms)))"

text \<open>The result: the codecs in the order of their registration and the NACK interval.\<close>

definition buildMediaEngine :: "pionMedia \<Rightarrow> gmap \<Rightarrow> (media_error, codec list \<times> u64 option) result" where
  "buildMediaEngine P cfg =
     (case stringList (get cfg ''video_codecs'') of
        None \<Rightarrow> Inl (NotAStringList ''video_codecs'')
      | Some video \<Rightarrow>
          bindR (registerVideo P video) (\<lambda>vs.
          case stringList (get cfg ''audio_codecs'') of
            None \<Rightarrow> Inl (NotAStringList ''audio_codecs'')
          | Some audio \<Rightarrow>
              bindR (registerAudio P audio) (\<lambda>as.
              bindR (nackInterval cfg) (\<lambda>ms.
              case RegisterInterceptors P ms of
                Some err \<Rightarrow> Inl (InterceptorsFailed err)
              | None \<Rightarrow> Inr (vs @ as, ms)))))"


section \<open>Lemmas\<close>

abbreviation has :: "gmap \<Rightarrow> string \<Rightarrow> bool" where
  "has cfg k \<equiv> toInt (get cfg k) \<noteq> None"

lemma whitelistNames_error: "(\<exists>e. whitelistNames raw = Inl e) \<longleftrightarrow> (\<exists>v. v \<in> set raw \<and> asString v = None)"
  by (induction raw) (auto simp: bindR_Inl_iff split: option.splits)

lemma portRange_error:
  "(\<exists>e. portRange P cfg = Inl e) \<longleftrightarrow>
     has cfg ''ephemeral_udp_port_min'' \<noteq> has cfg ''ephemeral_udp_port_max'' \<or>
     (\<exists>lo hi. toInt (get cfg ''ephemeral_udp_port_min'') = Some lo \<and>
        toInt (get cfg ''ephemeral_udp_port_max'') = Some hi \<and> portRangeErr P (ucast lo) (ucast hi) \<noteq> None)"
  by (auto simp: portRange_def split: option.splits)

lemma iceTimeouts_error:
  "(\<exists>e. iceTimeouts cfg = Inl e) \<longleftrightarrow>
     has cfg ''ice_disconnected_timeout_ms'' \<noteq> has cfg ''ice_failed_timeout_ms'' \<or>
     has cfg ''ice_disconnected_timeout_ms'' \<noteq> has cfg ''ice_keepalive_ms''"
  by (auto simp: iceTimeouts_def split: option.splits)

lemma renomination_error:
  "(\<exists>e. renomination P cfg = Inl e) \<longleftrightarrow>
     asBool (get cfg ''ice_renomination'') = Some True \<and>
     renominationErr P (map_option millis (toInt (get cfg ''ice_renomination_interval_ms''))) \<noteq> None"
  by (auto simp: renomination_def Let_def split: option.splits)

lemma interfaceWhitelist_error:
  "(\<exists>e. interfaceWhitelist cfg = Inl e) \<longleftrightarrow>
     (\<exists>raw v. asList (get cfg ''interface_whitelist'') = Some raw \<and> v \<in> set raw \<and> asString v = None)"
  using whitelistNames_error by (auto simp: interfaceWhitelist_def bindR_Inl_iff split: option.splits)

lemma register_Inr: "register P c = Inr cs \<Longrightarrow> cs = [c]"
  by (auto simp: register_def split: option.splits)

definition videoEntry :: "string \<Rightarrow> codec list" where
  "videoEntry name = (case videoCodecDefs (toUpper name) of
     None \<Rightarrow> [] | Some (mime, pt, rtx, fmtp) \<Rightarrow> [VideoCodec mime pt fmtp, RtxCodec rtx pt])"

lemma registerVideo_Inr:
  "registerVideo P names = Inr cs \<Longrightarrow>
     cs = concat (map videoEntry names) \<and> list_all (\<lambda>n. videoCodecDefs (toUpper n) \<noteq> None) names"
proof (induction names arbitrary: cs)
  case (Cons n names)
  then show ?case
    by (auto simp: bindR_Inr_iff videoEntry_def dest!: register_Inr split: option.splits prod.splits)
qed simp

lemma registerAudio_Inr:
  "registerAudio P names = Inr cs \<Longrightarrow> cs = replicate (length names) Opus \<and> list_all isOpus names"
proof (induction names arbitrary: cs)
  case (Cons n names)
  then show ?case
    by (auto simp: bindR_Inr_iff dest!: register_Inr split: if_splits)
qed simp

section \<open>Properties\<close>

text \<open>
  C23: a settings payload is refused exactly in these cases: one port bound without the other, a port
  range pion refuses, some but not all of the three ICE timeouts, a renomination pion refuses, or a
  whitelist entry that is no string. Unknown keys and values of other types never cause an error.
\<close>

theorem settings_refused_iff:
  "(\<exists>e. applySettingsEngine P cfg = Inl e) \<longleftrightarrow>
     has cfg ''ephemeral_udp_port_min'' \<noteq> has cfg ''ephemeral_udp_port_max'' \<or>
     (\<exists>lo hi. toInt (get cfg ''ephemeral_udp_port_min'') = Some lo \<and>
        toInt (get cfg ''ephemeral_udp_port_max'') = Some hi \<and> portRangeErr P (ucast lo) (ucast hi) \<noteq> None) \<or>
     has cfg ''ice_disconnected_timeout_ms'' \<noteq> has cfg ''ice_failed_timeout_ms'' \<or>
     has cfg ''ice_disconnected_timeout_ms'' \<noteq> has cfg ''ice_keepalive_ms'' \<or>
     (asBool (get cfg ''ice_renomination'') = Some True \<and>
        renominationErr P (map_option millis (toInt (get cfg ''ice_renomination_interval_ms''))) \<noteq> None) \<or>
     (\<exists>raw v. asList (get cfg ''interface_whitelist'') = Some raw \<and> v \<in> set raw \<and> asString v = None)"
proof -
  have "(\<exists>e. applySettingsEngine P cfg = Inl e) \<longleftrightarrow>
      (\<exists>e. portRange P cfg = Inl e) \<or> (\<exists>e. iceTimeouts cfg = Inl e) \<or>
      (\<exists>e. renomination P cfg = Inl e) \<or> (\<exists>e. interfaceWhitelist cfg = Inl e)"
    unfolding applySettingsEngine_def
    by (cases "portRange P cfg"; cases "iceTimeouts cfg"; cases "renomination P cfg"; cases "interfaceWhitelist cfg") simp_all
  then show ?thesis
    unfolding portRange_error iceTimeouts_error renomination_error interfaceWhitelist_error by (simp only: disj_assoc)
qed

text \<open>
  an accepted media payload registers exactly the named codecs in the order given, each video
  codec followed by its retransmission companion that points to its payload type, and opus for
  every audio entry; the NACK interval, if given, is positive.
\<close>

theorem media_codecs_in_order:
  assumes "buildMediaEngine P cfg = Inr (cs, interval)"
  shows "\<exists>video audio. stringList (get cfg ''video_codecs'') = Some video \<and>
    stringList (get cfg ''audio_codecs'') = Some audio \<and>
    cs = concat (map videoEntry video) @ replicate (length audio) Opus \<and>
    list_all (\<lambda>n. toUpper n \<in> {''VP8'', ''VP9'', ''AV1''}) video \<and> list_all isOpus audio \<and>
    interval = map_option millis (toInt (get cfg ''nack_interval_ms'')) \<and>
    (\<forall>ms. toInt (get cfg ''nack_interval_ms'') = Some ms \<longrightarrow> 0 < sint ms)"
proof -
  have known: "videoCodecDefs n \<noteq> None \<longleftrightarrow> n \<in> {''VP8'', ''VP9'', ''AV1''}" for n
    by (simp add: videoCodecDefs_def)
  from assms obtain video audio vs as where
    "stringList (get cfg ''video_codecs'') = Some video" "stringList (get cfg ''audio_codecs'') = Some audio"
    "registerVideo P video = Inr vs" "registerAudio P audio = Inr as" "nackInterval cfg = Inr interval"
    "cs = vs @ as"
    by (auto simp: buildMediaEngine_def bindR_Inr_iff split: option.splits)
  then show ?thesis
    using registerVideo_Inr [of P video vs] registerAudio_Inr [of P audio as] unfolding known
    by (auto simp: nackInterval_def split: option.splits if_splits)
qed

theorem settings_refused_iff_witness:
  "(\<exists>e. applySettingsEngine \<lparr>portRangeErr = (\<lambda>_ _. None), renominationErr = (\<lambda>_. None)\<rparr>
      [(''ephemeral_udp_port_min'', GInt 5000)] = Inl e) \<and>
   (\<nexists>e. applySettingsEngine \<lparr>portRangeErr = (\<lambda>_ _. None), renominationErr = (\<lambda>_. None)\<rparr>
      [(''ephemeral_udp_port_min'', GInt 5000), (''ephemeral_udp_port_max'', GInt 6000)] = Inl e)"
  unfolding settings_refused_iff by (simp add: get_def)

definition acceptingMedia :: pionMedia where
  "acceptingMedia = \<lparr>RegisterCodec = (\<lambda>_. None), RegisterInterceptors = (\<lambda>_. None)\<rparr>"

definition exampleMedia :: gmap where
  "exampleMedia = [(''video_codecs'', GList [GString ''av1'', GString ''VP8'']),
     (''audio_codecs'', GList [GString ''Opus'']), (''nack_interval_ms'', GInt 20)]"

theorem media_codecs_in_order_witness:
  "buildMediaEngine acceptingMedia exampleMedia = Inr ([VideoCodec ''video/AV1'' 45 [], RtxCodec 46 45,
     VideoCodec ''video/VP8'' 96 [], RtxCodec 97 96, Opus], Some 20000000) \<and> 0 < sint (20 :: u64)"
proof -
  have e: "buildMediaEngine acceptingMedia exampleMedia = Inr ([VideoCodec ''video/AV1'' 45 [], RtxCodec 46 45,
     VideoCodec ''video/VP8'' 96 [], RtxCodec 97 96, Opus], Some 20000000)"
    by code_simp
  have "toInt (get exampleMedia ''nack_interval_ms'') = Some 20"
    by (simp add: exampleMedia_def get_def)
  then show ?thesis using e media_codecs_in_order [OF e] by blast
qed

end
