(* ===== verification/Handler.thy ===== *)
theory Handler
  imports DCSend Settings
begin

text \<open>
  The request handlers of \<^verbatim>\<open>handler.go\<close>. The state \<open>bridge\<close> holds the shared registry, the
  trace, the close hook, the send states (by reference), the messages handed to connections, the
  state of pion, and the fields of the \<open>Handler\<close> of one connection. pion, the JSON encoder and the
  texts of Go errors are parameters (\<open>pion\<close>); the clock reading and the string of a new UUID are
  arguments. A request is handled in one piece; the interleavings of the send queue are the subject
  of theory \<open>DCSend\<close>. \<open>None\<close> stands for a call that does not return.
\<close>

section \<open>State\<close>

record api =
  apiSettings :: "setting list"
  apiMedia :: "(codec list \<times> u64 option) option"

record apiProfile =
  p_api :: api
  p_detach :: bool
  p_maxMessageSize :: u64

record ICEServer =
  URLs :: "string list"
  Username :: string
  Credential :: "string option"

datatype BundlePolicy = BundleUnset | Balanced | MaxCompat | MaxBundle
datatype RTCPMuxPolicy = MuxUnset | Negotiate | Require
datatype ICETransportPolicy = All | Relay
datatype SDPType = Offer | Pranswer | Answer | Rollback

record Configuration =
  ICEServers :: "ICEServer list"
  cfgBundle :: BundlePolicy
  cfgMux :: RTCPMuxPolicy
  cfgTransport :: ICETransportPolicy

record DataChannelInit =
  dcOrdered :: "bool option"
  dcMaxRetransmits :: "u16 option"
  dcMaxPacketLifeTime :: "u16 option"

record ICECandidateInit =
  icCandidate :: string
  icSDPMid :: "string option"
  icSDPMLineIndex :: "u16 option"

text \<open>
  The calls into pion, each on the identity of the object and pion's state. A missing error is
  \<open>None\<close>. \<open>sprint\<close> is \<open>fmt.Sprint\<close>, \<open>jsonKey\<close> the marshalled pair of payloads.
\<close>

record 'p pion =
  NewPeerConnection :: "api \<Rightarrow> Configuration \<Rightarrow> 'p \<Rightarrow> (string, nat) result \<times> 'p"
  CreateOffer :: "nat \<Rightarrow> 'p \<Rightarrow> (string, string) result \<times> 'p"
  CreateAnswer :: "nat \<Rightarrow> 'p \<Rightarrow> (string, string) result \<times> 'p"
  SetLocalDescription :: "nat \<Rightarrow> SDPType \<Rightarrow> string \<Rightarrow> 'p \<Rightarrow> string option \<times> 'p"
  SetRemoteDescription :: "nat \<Rightarrow> SDPType \<Rightarrow> string \<Rightarrow> 'p \<Rightarrow> string option \<times> 'p"
  SignalingState :: "nat \<Rightarrow> 'p \<Rightarrow> string"
  AddICECandidate :: "nat \<Rightarrow> ICECandidateInit \<Rightarrow> 'p \<Rightarrow> string option \<times> 'p"
  ClosePC :: "nat \<Rightarrow> 'p \<Rightarrow> string option \<times> 'p"
  CreateDataChannel :: "nat \<Rightarrow> string \<Rightarrow> DataChannelInit \<Rightarrow> 'p \<Rightarrow> (string, nat) result \<times> 'p"
  dcLabel :: "nat \<Rightarrow> 'p \<Rightarrow> string"
  SetBufferedAmountLowThreshold :: "nat \<Rightarrow> u64 \<Rightarrow> 'p \<Rightarrow> 'p"
  CloseDC :: "nat \<Rightarrow> 'p \<Rightarrow> string option \<times> 'p"
  CloseOther :: "nat \<Rightarrow> 'p \<Rightarrow> 'p"
  AddTransceiverFromKind :: "nat \<Rightarrow> string \<Rightarrow> string \<Rightarrow> 'p \<Rightarrow> string option \<times> 'p"
  transceivers :: "nat \<Rightarrow> 'p \<Rightarrow> nat"
  pSettings :: pionSettings
  pMedia :: pionMedia
  jsonKey :: "gmap option \<Rightarrow> gmap option \<Rightarrow> (string, string) result"
  settingsText :: "settings_error \<Rightarrow> string"
  mediaText :: "media_error \<Rightarrow> string"
  sprint :: "gval \<Rightarrow> string"
  NewRTPCodecType :: "string \<Rightarrow> string option"
  NewRTPTransceiverDirection :: "string \<Rightarrow> string option"

record 'p bridge =
  b_registry :: Registry
  b_trace :: PionTrace
  b_hooks :: closeHooks
  b_hookInstalled :: bool
  b_states :: "sendref \<Rightarrow> DCSendState"
  b_nextRef :: sendref
  b_out :: "(conn \<times> Message) list"
  b_pion :: 'p
  h_conn :: conn
  h_dcConfig :: DCConfig
  h_defaultProfile :: apiProfile
  h_defaultSE :: "gmap option"
  h_defaultME :: "gmap option"
  h_profiles :: "string \<rightharpoonup> apiProfile"
  h_pcProfiles :: "handle \<rightharpoonup> apiProfile"

type_synonym 'p outcome = "(Message \<times> 'p bridge) option"

definition zeroApi :: api where
  "zeroApi = \<lparr>apiSettings = [], apiMedia = None\<rparr>"

text \<open>\<open>NewHandlerWithConfig\<close> on the shared state \<open>b\<close>.\<close>

definition NewHandlerWithConfig :: "conn \<Rightarrow> DCConfig \<Rightarrow> 'p bridge \<Rightarrow> 'p bridge" where
  "NewHandlerWithConfig c cfg b = b\<lparr>h_conn := c, h_dcConfig := cfg,
     h_defaultProfile := \<lparr>p_api = zeroApi, p_detach = False, p_maxMessageSize = 0\<rparr>,
     h_defaultSE := None, h_defaultME := None, h_profiles := Map.empty, h_pcProfiles := Map.empty\<rparr>"

text \<open>
  \<open>h.sendEvent\<close> of the handlers, each for its own connection: events count as activity of their
  handle in the shared registry.
\<close>

fun sendAll :: "int \<Rightarrow> (conn \<times> Message) list \<Rightarrow> 'p bridge \<Rightarrow> 'p bridge option" where
  "sendAll now [] b = Some b"
| "sendAll now ((c, m) # ms) b =
     (if mHandle m \<noteq> [] then Touch now (mHandle m) (b_registry b) else Some (b_registry b)) \<bind> (\<lambda>r.
       sendAll now ms (b\<lparr>b_registry := r, b_out := b_out b @ [(c, m)]\<rparr>))"

definition sendEvent :: "int \<Rightarrow> Message \<Rightarrow> 'p bridge \<Rightarrow> 'p bridge option" where
  "sendEvent now m b = sendAll now [(h_conn b, m)] b"

section \<open>Profiles\<close>

datatype profile_error = SettingsError settings_error | MediaError media_error | JsonError string

definition buildProfile ::
  "'p pion \<Rightarrow> gmap option \<Rightarrow> gmap option \<Rightarrow> (profile_error, apiProfile) result" where
  "buildProfile P cfg media =
     bindR (case cfg of None \<Rightarrow> Inr []
            | Some c \<Rightarrow> (case applySettingsEngine (pSettings P) c of
                           Inl e \<Rightarrow> Inl (SettingsError e) | Inr se \<Rightarrow> Inr se)) (\<lambda>se.
     bindR (case media of None \<Rightarrow> Inr None
            | Some m \<Rightarrow> (case buildMediaEngine (pMedia P) m of
                           Inl e \<Rightarrow> Inl (MediaError e) | Inr me \<Rightarrow> Inr (Some me))) (\<lambda>me.
     Inr \<lparr>p_api = \<lparr>apiSettings = se, apiMedia = me\<rparr>,
          p_detach = (case cfg of None \<Rightarrow> False | Some c \<Rightarrow> asBool (get c ''detach_data_channels'') = Some True),
          p_maxMessageSize = (case cfg of None \<Rightarrow> 0
            | Some c \<Rightarrow> (case toInt (get c ''sctp_max_message_size'') of Some v \<Rightarrow> v | None \<Rightarrow> 0))\<rparr>))"

fun profileErrorCode :: "profile_error \<Rightarrow> string" where
  "profileErrorCode (MediaError _) = ''INVALID_MEDIA_ENGINE''"
| "profileErrorCode _ = ''INVALID_REQUEST''"

fun profileErrorText :: "'p pion \<Rightarrow> profile_error \<Rightarrow> string" where
  "profileErrorText P (SettingsError e) = settingsText P e"
| "profileErrorText P (MediaError e) = ''media_engine: '' @ mediaText P e"
| "profileErrorText P (JsonError s) = s"

definition profileFor ::
  "'p pion \<Rightarrow> gmap option \<Rightarrow> gmap option \<Rightarrow> 'p bridge \<Rightarrow> (profile_error, apiProfile \<times> 'p bridge) result" where
  "profileFor P cfg media b =
     (case jsonKey P cfg media of
        Inl err \<Rightarrow> Inl (JsonError err)
      | Inr key \<Rightarrow>
          (case h_profiles b key of
             Some p \<Rightarrow> Inr (p, b)
           | None \<Rightarrow>
               bindR (buildProfile P cfg media) (\<lambda>p.
               Inr (p, b\<lparr>h_profiles := (h_profiles b)(key \<mapsto> p)\<rparr>))))"

definition setPCProfile :: "handle \<Rightarrow> apiProfile \<Rightarrow> 'p bridge \<Rightarrow> 'p bridge" where
  "setPCProfile h p b = b\<lparr>h_pcProfiles := (h_pcProfiles b)(h \<mapsto> p)\<rparr>"

definition forgetPCProfile :: "handle \<Rightarrow> 'p bridge \<Rightarrow> 'p bridge" where
  "forgetPCProfile h b = b\<lparr>h_pcProfiles := (h_pcProfiles b)(h := None)\<rparr>"

definition pcProfile :: "handle \<Rightarrow> 'p bridge \<Rightarrow> apiProfile" where
  "pcProfile h b = (case h_pcProfiles b h of Some p \<Rightarrow> p | None \<Rightarrow> h_defaultProfile b)"

section \<open>Send goroutines\<close>

text \<open>
  \<open>startDCSendGoroutine\<close>: a new send state, its registration, and the threshold at pion. A second
  registration of the handle is only logged.
\<close>

definition startDCSendGoroutine :: "'p pion \<Rightarrow> nat \<Rightarrow> handle \<Rightarrow> apiProfile \<Rightarrow> 'p bridge \<Rightarrow> 'p bridge" where
  "startDCSendGoroutine P dc dcHandle profile b =
     (let state = newDCSendState (h_dcConfig b) (p_detach profile);
          (ok, r) = RegisterDCSendState dcHandle (b_nextRef b) (b_registry b)
      in if \<not> ok then b
         else b\<lparr>b_registry := r, b_states := (b_states b)(b_nextRef b := state), b_nextRef := b_nextRef b + 1,
                b_pion := SetBufferedAmountLowThreshold P dc (dsThreshold state) (b_pion b)\<rparr>)"

text \<open>\<open>closeState\<close> run to its end: \<open>done\<close> is closed and the queued work is failed.\<close>

definition closeState :: "int \<Rightarrow> sendref \<Rightarrow> 'p bridge \<Rightarrow> 'p bridge option" where
  "closeState now ref b =
     (let s = b_states b ref
      in if dsDone s then Some b
         else sendAll now (concat (map closedBefore (dsWork s)))
                (b\<lparr>b_states := (b_states b)(ref := s\<lparr>dsDone := True, dsWork := []\<rparr>)\<rparr>))"

definition stopDCSendGoroutine :: "int \<Rightarrow> handle \<Rightarrow> 'p bridge \<Rightarrow> 'p bridge option" where
  "stopDCSendGoroutine now dcHandle b =
     (let (st, r) = RemoveDCSendState dcHandle (b_registry b); b1 = b\<lparr>b_registry := r\<rparr>
      in (case st of None \<Rightarrow> Some b1 | Some ref \<Rightarrow> closeState now ref b1) \<bind> (\<lambda>b2.
         Some (b2\<lparr>b_trace := ReleaseDC dcHandle (b_trace b2)\<rparr>)))"

section \<open>Lookups\<close>

definition lookupPC :: "int \<Rightarrow> Message \<Rightarrow> 'p bridge \<Rightarrow> (Message, nat) result \<times> 'p bridge" where
  "lookupPC now msg b =
     (if mHandle msg = [] then (Inl (ErrorResponse (mID msg) ''INVALID_REQUEST'' ''missing handle'' False []), b)
      else
        (let (res, r) = Lookup now (mHandle msg) (b_registry b); b' = b\<lparr>b_registry := r\<rparr>
         in case res of
              None \<Rightarrow> (Inl (ErrorResponse (mID msg) ''NOT_FOUND'' (''handle not found: '' @ mHandle msg) False (mHandle msg)), b')
            | Some (PeerConnection pc) \<Rightarrow> (Inr pc, b')
            | Some _ \<Rightarrow> (Inl (ErrorResponse (mID msg) ''INVALID_REQUEST'' ''handle is not a PeerConnection'' False (mHandle msg)), b')))"

definition lookupDC :: "int \<Rightarrow> Message \<Rightarrow> 'p bridge \<Rightarrow> (Message, nat) result \<times> 'p bridge" where
  "lookupDC now msg b =
     (if mHandle msg = [] then (Inl (ErrorResponse (mID msg) ''INVALID_REQUEST'' ''missing handle'' False []), b)
      else
        (let (res, r) = Lookup now (mHandle msg) (b_registry b); b' = b\<lparr>b_registry := r\<rparr>
         in case res of
              None \<Rightarrow> (Inl (ErrorResponse (mID msg) ''NOT_FOUND'' (''handle not found: '' @ mHandle msg) False (mHandle msg)), b')
            | Some (DataChannel dc) \<Rightarrow> (Inr dc, b')
            | Some _ \<Rightarrow> (Inl (ErrorResponse (mID msg) ''INVALID_REQUEST'' ''handle is not a DataChannel'' False (mHandle msg)), b')))"

text \<open>The common shape: look the PeerConnection up and go on with it, or answer the error.\<close>

definition withPC :: "int \<Rightarrow> Message \<Rightarrow> 'p bridge \<Rightarrow> (nat \<Rightarrow> 'p bridge \<Rightarrow> 'p outcome) \<Rightarrow> 'p outcome" where
  "withPC now msg b k = (case lookupPC now msg b of (Inl err, b') \<Rightarrow> Some (err, b') | (Inr pc, b') \<Rightarrow> k pc b')"

definition withDC :: "int \<Rightarrow> Message \<Rightarrow> 'p bridge \<Rightarrow> (nat \<Rightarrow> 'p bridge \<Rightarrow> 'p outcome) \<Rightarrow> 'p outcome" where
  "withDC now msg b k = (case lookupDC now msg b of (Inl err, b') \<Rightarrow> Some (err, b') | (Inr dc, b') \<Rightarrow> k dc b')"

definition internalError :: "Message \<Rightarrow> string \<Rightarrow> Message" where
  "internalError msg err = ErrorResponse (mID msg) ''INTERNAL_ERROR'' err False (mHandle msg)"

definition invalidRequest :: "Message \<Rightarrow> string \<Rightarrow> Message" where
  "invalidRequest msg text = ErrorResponse (mID msg) ''INVALID_REQUEST'' text False (mHandle msg)"

section \<open>Session requests\<close>

definition cfgOrNil :: "gval \<Rightarrow> gmap option" where
  "cfgOrNil v = asMap v"

definition initDCConfig :: "gmap \<Rightarrow> DCConfig \<Rightarrow> DCConfig" where
  "initDCConfig dc cfg =
     (let cfg1 = (case toUint64 (get dc ''buffered_amount_low_threshold'') of
                    Some v \<Rightarrow> cfg\<lparr>BufferedAmountLowThreshold := v\<rparr> | None \<Rightarrow> cfg)
      in case toInt (get dc ''send_queue_depth'') of
           Some v \<Rightarrow> if 1 \<le> sint v then cfg1\<lparr>SendQueueDepth := sint v\<rparr> else cfg1
         | None \<Rightarrow> cfg1)"

definition handleInit :: "'p pion \<Rightarrow> Message \<Rightarrow> 'p bridge \<Rightarrow> 'p outcome" where
  "handleInit P msg b =
     (let b1 = (case asMap (get (mData msg) ''settings_engine'') of
                  Some cfg \<Rightarrow> if asBool (get cfg ''enable_tracing'') = Some True
                              then b\<lparr>b_trace := snd (StartTracing (b_trace b))\<rparr> else b
                | None \<Rightarrow> b);
          b2 = (case asMap (get (mData msg) ''dc_config'') of
                  Some dc \<Rightarrow> b1\<lparr>h_dcConfig := initDCConfig dc (h_dcConfig b1)\<rparr>
                | None \<Rightarrow> b1);
          se = cfgOrNil (get (mData msg) ''settings_engine'');
          me = cfgOrNil (get (mData msg) ''media_engine'')
      in case buildProfile P se me of
           Inl e \<Rightarrow> Some (ErrorResponse (mID msg) (profileErrorCode e) (profileErrorText P e) False [], b2)
         | Inr p \<Rightarrow> Some (AckResponse ''init'' (mID msg) [] [(''version'', GString ''1.0.0'')],
                         b2\<lparr>h_defaultProfile := p, h_defaultSE := se, h_defaultME := me\<rparr>))"

fun stringsOf :: "gval list \<Rightarrow> string list" where
  "stringsOf [] = []"
| "stringsOf (u # us) = (case asString u of Some s \<Rightarrow> s # stringsOf us | None \<Rightarrow> stringsOf us)"

definition iceServer :: "gmap \<Rightarrow> ICEServer" where
  "iceServer srv = \<lparr>URLs = (case get srv ''urls'' of GList v \<Rightarrow> stringsOf v | GString v \<Rightarrow> [v] | _ \<Rightarrow> []),
     Username = stringOrEmpty (get srv ''username''),
     Credential = asString (get srv ''credential'')\<rparr>"

fun iceServers :: "gval list \<Rightarrow> ICEServer list" where
  "iceServers [] = []"
| "iceServers (s # ss) = (case asMap s of Some srv \<Rightarrow> iceServer srv # iceServers ss | None \<Rightarrow> iceServers ss)"

definition bundlePolicy :: "gval \<Rightarrow> BundlePolicy" where
  "bundlePolicy v = (if v = GString ''balanced'' then Balanced
     else if v = GString ''max-compat'' then MaxCompat
     else if v = GString ''max-bundle'' then MaxBundle else BundleUnset)"

definition rtcpMuxPolicy :: "gval \<Rightarrow> RTCPMuxPolicy" where
  "rtcpMuxPolicy v = (if v = GString ''negotiate'' then Negotiate
     else if v = GString ''require'' then Require else MuxUnset)"

definition iceTransportPolicy :: "gval \<Rightarrow> ICETransportPolicy" where
  "iceTransportPolicy v = (if v = GString ''relay'' then Relay else All)"

definition pcConfiguration :: "gmap \<Rightarrow> Configuration" where
  "pcConfiguration d = \<lparr>ICEServers = (case asList (get d ''ice_servers'') of Some l \<Rightarrow> iceServers l | None \<Rightarrow> []),
     cfgBundle = bundlePolicy (get d ''bundle_policy''), cfgMux = rtcpMuxPolicy (get d ''rtcp_mux_policy''),
     cfgTransport = iceTransportPolicy (get d ''ice_transport_policy'')\<rparr>"

text \<open>The profile of a new connection: its own payloads, each defaulting to the one of \<open>init\<close>.\<close>

definition chooseProfile :: "'p pion \<Rightarrow> gmap \<Rightarrow> 'p bridge \<Rightarrow> (profile_error, apiProfile \<times> 'p bridge) result" where
  "chooseProfile P d b =
     (let pcSE = cfgOrNil (get d ''settings_engine''); pcME = cfgOrNil (get d ''media_engine'')
      in if pcSE \<noteq> None \<or> pcME \<noteq> None
         then profileFor P (if pcSE \<noteq> None then pcSE else h_defaultSE b) (if pcME \<noteq> None then pcME else h_defaultME b) b
         else Inr (h_defaultProfile b, b))"

definition handlePCCreate :: "'p pion \<Rightarrow> int \<Rightarrow> string \<Rightarrow> Message \<Rightarrow> 'p bridge \<Rightarrow> 'p outcome" where
  "handlePCCreate P now uuid msg b =
     (case chooseProfile P (mData msg) b of
        Inl e \<Rightarrow> Some (ErrorResponse (mID msg) (profileErrorCode e) (profileErrorText P e) False [], b)
      | Inr (profile, b1) \<Rightarrow>
          (case NewPeerConnection P (p_api profile) (pcConfiguration (mData msg)) (b_pion b1) of
             (Inl err, p) \<Rightarrow> Some (ErrorResponse (mID msg) ''INTERNAL_ERROR'' err False [], b1\<lparr>b_pion := p\<rparr>)
           | (Inr pc, p) \<Rightarrow>
               (let (h, r) = Register uuid now (PeerConnection pc) (b_registry b1)
                in Some (AckResponse ''pc:create'' (mID msg) h [(''handle'', GString h), (''state'', GString ''new'')],
                         setPCProfile h profile (b1\<lparr>b_pion := p, b_registry := r\<rparr>)))))"

section \<open>PeerConnection requests\<close>

fun parseSdpType :: "string \<Rightarrow> SDPType" where
  "parseSdpType t = (if t = ''offer'' then Offer else if t = ''pranswer'' then Pranswer
     else if t = ''answer'' then Answer else if t = ''rollback'' then Rollback else Offer)"

definition handlePCOffer :: "'p pion \<Rightarrow> int \<Rightarrow> Message \<Rightarrow> 'p bridge \<Rightarrow> 'p outcome" where
  "handlePCOffer P now msg b = withPC now msg b (\<lambda>pc b1.
     case CreateOffer P pc (b_pion b1) of
       (Inl err, p) \<Rightarrow> Some (internalError msg err, b1\<lparr>b_pion := p\<rparr>)
     | (Inr sdp, p) \<Rightarrow> Some (AckResponse ''pc:offer'' (mID msg) (mHandle msg) [(''sdp'', GString sdp)], b1\<lparr>b_pion := p\<rparr>))"

definition handlePCAnswer :: "'p pion \<Rightarrow> int \<Rightarrow> Message \<Rightarrow> 'p bridge \<Rightarrow> 'p outcome" where
  "handlePCAnswer P now msg b = withPC now msg b (\<lambda>pc b1.
     case CreateAnswer P pc (b_pion b1) of
       (Inl err, p) \<Rightarrow> Some (internalError msg err, b1\<lparr>b_pion := p\<rparr>)
     | (Inr sdp, p) \<Rightarrow> Some (AckResponse ''pc:answer'' (mID msg) (mHandle msg) [(''sdp'', GString sdp)], b1\<lparr>b_pion := p\<rparr>))"

definition handlePCSetLocalDesc :: "'p pion \<Rightarrow> int \<Rightarrow> Message \<Rightarrow> 'p bridge \<Rightarrow> 'p outcome" where
  "handlePCSetLocalDesc P now msg b = withPC now msg b (\<lambda>pc b1.
     let sdp = stringOrEmpty (get (mData msg) ''sdp''); sdpType = stringOrEmpty (get (mData msg) ''type'')
     in if sdp = [] \<or> sdpType = [] then Some (invalidRequest msg ''missing sdp or type'', b1)
        else (case SetLocalDescription P pc (parseSdpType sdpType) sdp (b_pion b1) of
                (Some err, p) \<Rightarrow> Some (internalError msg err, b1\<lparr>b_pion := p\<rparr>)
              | (None, p) \<Rightarrow> Some (AckResponse ''pc:setLocalDesc'' (mID msg) (mHandle msg)
                  [(''state'', GString (SignalingState P pc p))], b1\<lparr>b_pion := p\<rparr>)))"

definition handlePCSetRemoteDesc :: "'p pion \<Rightarrow> int \<Rightarrow> Message \<Rightarrow> 'p bridge \<Rightarrow> 'p outcome" where
  "handlePCSetRemoteDesc P now msg b = withPC now msg b (\<lambda>pc b1.
     let sdp = stringOrEmpty (get (mData msg) ''sdp''); sdpType = stringOrEmpty (get (mData msg) ''type'')
     in if sdp = [] \<or> sdpType = [] then Some (invalidRequest msg ''missing sdp or type'', b1)
        else (case SetRemoteDescription P pc (parseSdpType sdpType) sdp (b_pion b1) of
                (Some err, p) \<Rightarrow> Some (internalError msg err, b1\<lparr>b_pion := p\<rparr>)
              | (None, p) \<Rightarrow> Some (AckResponse ''pc:setRemoteDesc'' (mID msg) (mHandle msg)
                  [(''state'', GString (SignalingState P pc p))], b1\<lparr>b_pion := p\<rparr>)))"

definition handlePCAddIce :: "'p pion \<Rightarrow> int \<Rightarrow> Message \<Rightarrow> 'p bridge \<Rightarrow> 'p outcome" where
  "handlePCAddIce P now msg b = withPC now msg b (\<lambda>pc b1.
     let candidate = stringOrEmpty (get (mData msg) ''candidate'')
     in if candidate = [] then Some (invalidRequest msg ''missing candidate'', b1)
        else (case AddICECandidate P pc \<lparr>icCandidate = candidate, icSDPMid = asString (get (mData msg) ''sdp_mid''),
                     icSDPMLineIndex = toUint16 (get (mData msg) ''sdp_mline_index'')\<rparr> (b_pion b1) of
                (Some err, p) \<Rightarrow> Some (internalError msg err, b1\<lparr>b_pion := p\<rparr>)
              | (None, p) \<Rightarrow> Some (AckResponse ''pc:addIce'' (mID msg) (mHandle msg) [], b1\<lparr>b_pion := p\<rparr>)))"

definition notifyClosed :: "handle \<Rightarrow> 'p bridge \<Rightarrow> 'p bridge" where
  "notifyClosed h b = b\<lparr>b_hooks := notifyPCClosed (b_hookInstalled b) h (b_hooks b)\<rparr>"

definition handlePCClose :: "'p pion \<Rightarrow> int \<Rightarrow> Message \<Rightarrow> 'p bridge \<Rightarrow> 'p outcome" where
  "handlePCClose P now msg b = withPC now msg b (\<lambda>pc b1.
     let b2 = forgetPCProfile (mHandle msg) b1
     in case ClosePC P pc (b_pion b2) of
          (Some err, p) \<Rightarrow> Some (internalError msg err, notifyClosed (mHandle msg) (b2\<lparr>b_pion := p\<rparr>))
        | (None, p) \<Rightarrow> Some (AckResponse ''pc:close'' (mID msg) (mHandle msg) [],
                            notifyClosed (mHandle msg) (b2\<lparr>b_pion := p\<rparr>)))"

definition dcInitOf :: "gmap \<Rightarrow> DataChannelInit" where
  "dcInitOf d =
     (case asMap (get d ''options'') of
        None \<Rightarrow> \<lparr>dcOrdered = None, dcMaxRetransmits = None, dcMaxPacketLifeTime = None\<rparr>
      | Some opts \<Rightarrow> \<lparr>dcOrdered = asBool (get opts ''ordered''),
          dcMaxRetransmits = toUint16 (get opts ''max_retransmits''),
          dcMaxPacketLifeTime = toUint16 (get opts ''max_packet_lifetime_ms'')\<rparr>)"

definition handlePCCreateDc :: "'p pion \<Rightarrow> int \<Rightarrow> string \<Rightarrow> Message \<Rightarrow> 'p bridge \<Rightarrow> 'p outcome" where
  "handlePCCreateDc P now uuid msg b = withPC now msg b (\<lambda>pc b1.
     let label = stringOrEmpty (get (mData msg) ''label'')
     in if label = [] then Some (invalidRequest msg ''missing label'', b1)
        else (case CreateDataChannel P pc label (dcInitOf (mData msg)) (b_pion b1) of
                (Inl err, p) \<Rightarrow> Some (internalError msg err, b1\<lparr>b_pion := p\<rparr>)
              | (Inr dc, p) \<Rightarrow>
                  (let (dcHandle, r) = RegisterChild uuid now (DataChannel dc) (mHandle msg) (b_registry b1);
                       b2 = b1\<lparr>b_pion := p, b_registry := r\<rparr>;
                       b3 = startDCSendGoroutine P dc dcHandle (pcProfile (mHandle msg) b2) b2
                   in Some (AckResponse ''pc:createDc'' (mID msg) (mHandle msg)
                        [(''dc_handle'', GString dcHandle), (''label'', GString (dcLabel P dc (b_pion b3))),
                         (''state'', GString ''connecting'')], b3))))"

text \<open>An unknown kind or direction is \<open>None\<close>.\<close>

definition handlePCAddTransceiver :: "'p pion \<Rightarrow> int \<Rightarrow> Message \<Rightarrow> 'p bridge \<Rightarrow> 'p outcome" where
  "handlePCAddTransceiver P now msg b = withPC now msg b (\<lambda>pc b1.
     case NewRTPCodecType P (sprint P (get (mData msg) ''kind'')) of
       None \<Rightarrow> Some (invalidRequest msg ''kind must be video or audio'', b1)
     | Some kind \<Rightarrow>
         (case NewRTPTransceiverDirection P (sprint P (get (mData msg) ''direction'')) of
            None \<Rightarrow> Some (invalidRequest msg ''direction must be sendrecv, sendonly, recvonly or inactive'', b1)
          | Some direction \<Rightarrow>
              (case AddTransceiverFromKind P pc kind direction (b_pion b1) of
                 (Some err, p) \<Rightarrow> Some (internalError msg err, b1\<lparr>b_pion := p\<rparr>)
               | (None, p) \<Rightarrow> Some (AckResponse ''pc:addTransceiver'' (mID msg) (mHandle msg)
                   [(''index'', GInt (of_nat (transceivers P pc p) - 1))], b1\<lparr>b_pion := p\<rparr>))))"

section \<open>DataChannel requests\<close>

text \<open>The queue-depth counter of the trace.\<close>

definition traceDepth :: "handle \<Rightarrow> DCSendState \<Rightarrow> PionTrace \<Rightarrow> PionTrace" where
  "traceDepth h s t =
     (if Enabled t then
        (let (idx, t1) = DCIdx h t; depth = of_nat (length (dsWork s)) :: u64
         in if sint (DCQDepth t1 ! idx) < sint depth then t1\<lparr>DCQDepth := (DCQDepth t1)[idx := depth]\<rparr> else t1)
      else t)"

text \<open>
  The \<open>select\<close>: the queue has room, or the channel is closed; when both hold, Go chooses
  (\<open>pick\<close>). With neither the call blocks. Behind the enqueue on a closed channel one item is
  reclaimed and failed.
\<close>

definition enqueueWork :: "bool \<Rightarrow> int \<Rightarrow> sendref \<Rightarrow> dcSendWork \<Rightarrow> 'p bridge \<Rightarrow> 'p bridge option" where
  "enqueueWork pick now ref w b =
     (let s = b_states b ref
      in if length (dsWork s) < dsCap s \<and> (\<not> dsDone s \<or> pick) then
           (if \<not> dsDone s then Some (b\<lparr>b_states := (b_states b)(ref := s\<lparr>dsWork := dsWork s @ [w]\<rparr>)\<rparr>)
            else sendAll now (closedBefore (hd (dsWork s @ [w])))
                   (b\<lparr>b_states := (b_states b)(ref := s\<lparr>dsWork := tl (dsWork s @ [w])\<rparr>)\<rparr>))
         else if dsDone s then
           sendEvent now (ErrorResponse (wMsgID w) ''DC_CLOSED'' ''data channel closed before send'' False (wHandle w)) b
         else None)"

definition handleDCSend :: "bool \<Rightarrow> int \<Rightarrow> Message \<Rightarrow> 'p bridge \<Rightarrow> 'p outcome" where
  "handleDCSend pick now msg b =
     (case LookupDCSendState (mHandle msg) (b_registry b) of
        None \<Rightarrow> Some (ErrorResponse (mID msg) ''NOT_FOUND'' (''dc:send on unknown handle: '' @ mHandle msg) False (mHandle msg), b)
      | Some ref \<Rightarrow>
          (case dcSendWorkOf (h_conn b) msg of
             Inl err \<Rightarrow> Some (err, b)
           | Inr w \<Rightarrow>
               enqueueWork pick now ref w (b\<lparr>b_trace := traceDepth (mHandle msg) (b_states b ref) (b_trace b)\<rparr>)
               \<bind> (\<lambda>b'. Some (zeroMessage, b'))))"

definition handleDCSetBufferedAmountLowThreshold :: "'p pion \<Rightarrow> int \<Rightarrow> Message \<Rightarrow> 'p bridge \<Rightarrow> 'p outcome" where
  "handleDCSetBufferedAmountLowThreshold P now msg b = withDC now msg b (\<lambda>dc b1.
     case toUint64 (get (mData msg) ''threshold'') of
       None \<Rightarrow> Some (invalidRequest msg ''missing or invalid threshold'', b1)
     | Some t \<Rightarrow>
         (let b2 = b1\<lparr>b_pion := SetBufferedAmountLowThreshold P dc t (b_pion b1)\<rparr>;
              b3 = (case LookupDCSendState (mHandle msg) (b_registry b2) of
                      None \<Rightarrow> b2
                    | Some ref \<Rightarrow> b2\<lparr>b_states := (b_states b2)(ref := (b_states b2 ref)\<lparr>dsThreshold := t\<rparr>)\<rparr>)
          in Some (AckResponse ''dc:setBufferedAmountLowThreshold'' (mID msg) (mHandle msg) [], b3)))"

definition handleDCClose :: "'p pion \<Rightarrow> int \<Rightarrow> Message \<Rightarrow> 'p bridge \<Rightarrow> 'p outcome" where
  "handleDCClose P now msg b = withDC now msg b (\<lambda>dc b1.
     stopDCSendGoroutine now (mHandle msg) b1 \<bind> (\<lambda>b2.
       case CloseDC P dc (b_pion b2) of
         (Some err, p) \<Rightarrow> Some (internalError msg err, b2\<lparr>b_pion := p\<rparr>)
       | (None, p) \<Rightarrow> Some (AckResponse ''dc:close'' (mID msg) (mHandle msg) [], b2\<lparr>b_pion := p\<rparr>)))"

section \<open>Deletion and dispatch\<close>

text \<open>The effects of \<open>closeCollected\<close>; errors of the close calls are only logged.\<close>

fun shutdownStep :: "'p pion \<Rightarrow> int \<Rightarrow> shutdown \<Rightarrow> 'p bridge \<Rightarrow> 'p bridge option" where
  "shutdownStep P now (CloseState ref) b = closeState now ref b"
| "shutdownStep P now (CloseResource (PeerConnection pc)) b = Some (b\<lparr>b_pion := snd (ClosePC P pc (b_pion b))\<rparr>)"
| "shutdownStep P now (CloseResource (DataChannel dc)) b = Some (b\<lparr>b_pion := snd (CloseDC P dc (b_pion b))\<rparr>)"
| "shutdownStep P now (CloseResource (OtherCloser n)) b = Some (b\<lparr>b_pion := CloseOther P n (b_pion b)\<rparr>)"
| "shutdownStep P now (CloseResource (Opaque n)) b = Some b"

fun shutdownAll :: "'p pion \<Rightarrow> int \<Rightarrow> shutdown list \<Rightarrow> 'p bridge \<Rightarrow> 'p bridge option" where
  "shutdownAll P now [] b = Some b"
| "shutdownAll P now (s # log) b = shutdownStep P now s b \<bind> shutdownAll P now log"

definition handleResourceDelete :: "'p pion \<Rightarrow> int \<Rightarrow> Message \<Rightarrow> 'p bridge \<Rightarrow> 'p outcome" where
  "handleResourceDelete P now msg b =
     (if mHandle msg = [] then Some (ErrorResponse (mID msg) ''INVALID_REQUEST'' ''missing handle'' False [], b)
      else
        (let (res, r) = Lookup now (mHandle msg) (b_registry b);
             isPC = (case res of Some (PeerConnection _) \<Rightarrow> True | _ \<Rightarrow> False);
             b1 = forgetPCProfile (mHandle msg) (b\<lparr>b_registry := r\<rparr>);
             finish = (\<lambda>b. if isPC then notifyClosed (mHandle msg) b else b)
         in Delete (mHandle msg) (b_trace b1) (b_registry b1) \<bind> (\<lambda>out.
              case out of
                Inl (HandleNotFound h) \<Rightarrow>
                  Some (ErrorResponse (mID msg) ''NOT_FOUND'' (''handle not found: '' @ h) False (mHandle msg), finish b1)
              | Inr (log, r', t') \<Rightarrow>
                  shutdownAll P now log (b1\<lparr>b_registry := r', b_trace := t'\<rparr>) \<bind> (\<lambda>b2.
                  Some (AckResponse ''resource:delete'' (mID msg) (mHandle msg) [], finish b2)))))"

definition HandleMessage :: "'p pion \<Rightarrow> bool \<Rightarrow> int \<Rightarrow> string \<Rightarrow> Message \<Rightarrow> 'p bridge \<Rightarrow> 'p outcome" where
  "HandleMessage P pick now uuid msg b =
     (let t = mType msg in
      if t = ''init'' then handleInit P msg b
      else if t = ''pc:create'' then handlePCCreate P now uuid msg b
      else if t = ''pc:offer'' then handlePCOffer P now msg b
      else if t = ''pc:answer'' then handlePCAnswer P now msg b
      else if t = ''pc:setLocalDesc'' then handlePCSetLocalDesc P now msg b
      else if t = ''pc:setRemoteDesc'' then handlePCSetRemoteDesc P now msg b
      else if t = ''pc:addIce'' then handlePCAddIce P now msg b
      else if t = ''pc:close'' then handlePCClose P now msg b
      else if t = ''pc:addTransceiver'' then handlePCAddTransceiver P now msg b
      else if t = ''pc:createDc'' then handlePCCreateDc P now uuid msg b
      else if t = ''dc:send'' then handleDCSend pick now msg b
      else if t = ''dc:setBufferedAmountLowThreshold'' then handleDCSetBufferedAmountLowThreshold P now msg b
      else if t = ''dc:close'' then handleDCClose P now msg b
      else if t = ''resource:delete'' then handleResourceDelete P now msg b
      else Some (ErrorResponse (mID msg) ''INVALID_REQUEST'' (''unknown message type: '' @ t) False [], b))"

section \<open>Callbacks of pion\<close>

text \<open>The closures of \<open>setupPCCallbacks\<close>, each for the handle it was installed with.\<close>

datatype pcEvent =
    OnICECandidate "ICECandidateInit option"
  | OnConnectionStateChange string bool
  | OnTrack bool string string string string
  | OnDataChannel nat string bool

definition onPCEvent :: "'p pion \<Rightarrow> int \<Rightarrow> string \<Rightarrow> handle \<Rightarrow> pcEvent \<Rightarrow> 'p bridge \<Rightarrow> 'p bridge option" where
  "onPCEvent P now uuid h ev b =
     (case ev of
        OnICECandidate None \<Rightarrow> sendEvent now (Event ''event:iceGatheringComplete'' h []) b
      | OnICECandidate (Some i) \<Rightarrow>
          sendEvent now (Event ''event:iceCandidate'' h
            [(''type'', GString ''iceCandidate''), (''candidate'', GString (icCandidate i)),
             (''sdp_mid'', GString (case icSDPMid i of Some m \<Rightarrow> m | None \<Rightarrow> [])),
             (''sdp_mline_index'', (case icSDPMLineIndex i of Some n \<Rightarrow> GUint (ucast n) | None \<Rightarrow> GInt 0))]) b
      | OnConnectionStateChange state closed \<Rightarrow>
          sendEvent now (Event ''event:connectionStateChange'' h
            [(''type'', GString ''connectionStateChange''), (''state'', GString state)]) b
          \<bind> (\<lambda>b'. Some (if closed then notifyClosed h b' else b'))
      | OnTrack hooked kind trackID streamID codec \<Rightarrow>
          sendEvent now (Event ''event:track'' h
            [(''type'', GString ''track''), (''kind'', GString kind), (''track_id'', GString trackID),
             (''stream_id'', GString streamID), (''codec'', GString codec)]) b
      | OnDataChannel dc label ordered \<Rightarrow>
          (let profile = pcProfile h b;
               (dcHandle, r) = RegisterChild uuid now (DataChannel dc) h (b_registry b);
               b1 = startDCSendGoroutine P dc dcHandle profile (b\<lparr>b_registry := r\<rparr>)
           in sendEvent now (Event ''event:dataChannel'' h
                [(''type'', GString ''dataChannel''), (''dc_handle'', GString dcHandle),
                 (''label'', GString label), (''ordered'', GBool ordered)]) b1))"

text \<open>
  The closures of \<open>setupDCCallbacks\<close>; \<open>closed\<close> is the state of \<open>closeOnce\<close>. On a detached
  channel \<open>OnOpen\<close> carries the result of \<open>Detach\<close>, and messages are read by
  \<open>readDetached\<close> instead of \<open>OnMessage\<close>.
\<close>

datatype dcEvent = OnOpen "(string, nat) result" | OnClose | OnMessageText string | OnMessageBinary bytes

definition messageEvent :: "handle \<Rightarrow> gval \<Rightarrow> bool \<Rightarrow> Message" where
  "messageEvent h d binary = Event ''event:dataChannelMessage'' h
     [(''type'', GString ''message''), (''is_binary'', GBool binary), (''data'', d)]"

definition emitClose :: "int \<Rightarrow> handle \<Rightarrow> bool \<times> 'p bridge \<Rightarrow> (bool \<times> 'p bridge) option" where
  "emitClose now h c =
     (if fst c then Some c
      else sendEvent now (Event ''event:dataChannelClose'' h [(''type'', GString ''close'')]) (snd c)
           \<bind> (\<lambda>b. Some (True, b)))"

definition openEvent :: "handle \<Rightarrow> Message" where
  "openEvent h = Event ''event:dataChannelOpen'' h [(''type'', GString ''open'')]"

definition onDCEvent :: "int \<Rightarrow> handle \<Rightarrow> apiProfile \<Rightarrow> dcEvent \<Rightarrow> bool \<times> 'p bridge \<Rightarrow> (bool \<times> 'p bridge) option" where
  "onDCEvent now h profile ev c =
     (let closed = fst c; b = snd c in
      case ev of
        OnOpen res \<Rightarrow>
          (if p_detach profile then
             (case res of
                Inl err \<Rightarrow> sendEvent now (Event ''event:dc:error'' h [(''error'', GString (''detach: '' @ err))]) b
                           \<bind> (\<lambda>b'. Some (closed, b'))
              | Inr raw \<Rightarrow>
                  (let b1 = (case LookupDCSendState h (b_registry b) of
                               None \<Rightarrow> b
                             | Some ref \<Rightarrow> b\<lparr>b_states := (b_states b)(ref := setDetached raw (b_states b ref))\<rparr>)
                   in sendEvent now (openEvent h) b1 \<bind> (\<lambda>b'. Some (closed, b'))))
           else sendEvent now (openEvent h) b \<bind> (\<lambda>b'. Some (closed, b')))
      | OnClose \<Rightarrow> emitClose now h c
      | OnMessageText s \<Rightarrow>
          (if p_detach profile then Some c
           else sendEvent now (messageEvent h (GString s) False) b \<bind> (\<lambda>b'. Some (closed, b')))
      | OnMessageBinary d \<Rightarrow>
          (if p_detach profile then Some c
           else sendEvent now (messageEvent h (GBytes d) True) b \<bind> (\<lambda>b'. Some (closed, b'))))"

text \<open>
  \<open>readDetached\<close>: the results of the successive reads are a list. A read of a message that is
  longer than the buffer fails with \<open>ErrShortBuffer\<close> and leaves the message queued, so it is tried
  again with a doubled buffer up to the limit. The loop ends at the first other error.
\<close>

datatype readResult = ReadMessage gval bool nat | ReadError

definition readLimit :: "u64 \<Rightarrow> int" where
  "readLimit maxMessageSize = (if sint maxMessageSize \<le> 0 then 1073741823 else sint maxMessageSize)"

function growBuffer :: "int \<Rightarrow> int \<Rightarrow> int \<Rightarrow> int option" where
  "growBuffer limit need buf =
     (if need \<le> buf then Some buf
      else if buf < limit \<and> 0 < buf then growBuffer limit need (min limit (2 * buf))
      else None)"
  by pat_completeness auto
termination
  by (relation "measure (\<lambda>(limit, need, buf). nat (limit - buf))") auto

declare growBuffer.simps [simp del]

fun readDetached :: "int \<Rightarrow> handle \<Rightarrow> int \<Rightarrow> int \<Rightarrow> readResult list \<Rightarrow> bool \<times> 'p bridge \<Rightarrow> (bool \<times> 'p bridge) option" where
  "readDetached now h limit buf [] c = Some c"
| "readDetached now h limit buf (ReadError # rs) c = emitClose now h c"
| "readDetached now h limit buf (ReadMessage d binary n # rs) c =
     (case growBuffer limit (int n) buf of
        None \<Rightarrow> emitClose now h c
      | Some buf' \<Rightarrow>
          sendEvent now (messageEvent h d binary) (snd c)
          \<bind> (\<lambda>b'. readDetached now h limit buf' rs (fst c, b')))"

end
