(* ===== verification/HandlerFacts.thy ===== *)
theory HandlerFacts
  imports Handler
begin

text \<open>
  What the request handlers guarantee: every reply answers its request, the invariants of registry,
  trace, hooks and send states are kept, lookups report the right errors, and the life cycle of a
  DataChannel from its creation to the deletion of its connection.
\<close>

section \<open>Replies\<close>

definition reply_ok :: "Message \<Rightarrow> Message \<Rightarrow> bool" where
  "reply_ok msg resp \<longleftrightarrow> (\<exists>h d. resp = AckResponse (mType msg) (mID msg) h d) \<or>
     (\<exists>c m f h. resp = ErrorResponse (mID msg) c m f h \<and> c \<in> {''INVALID_REQUEST'', ''NOT_FOUND'', ''INTERNAL_ERROR'', ''INVALID_MEDIA_ENGINE''})"

named_theorems handlers \<open>definitions of the request handlers\<close>

lemmas handler_defs [handlers] = handlePCOffer_def handlePCAnswer_def handlePCSetLocalDesc_def
  handlePCSetRemoteDesc_def handlePCAddIce_def handlePCClose_def handlePCAddTransceiver_def
  handlePCCreateDc_def handleDCSetBufferedAmountLowThreshold_def handleDCClose_def

lemma reply_ok_error [simp]:
  "c \<in> {''INVALID_REQUEST'', ''NOT_FOUND'', ''INTERNAL_ERROR'', ''INVALID_MEDIA_ENGINE''} \<Longrightarrow>
     reply_ok msg (ErrorResponse (mID msg) c m f h)"
  unfolding reply_ok_def by blast

lemma reply_ok_helpers [simp]: "reply_ok msg (internalError msg e)" "reply_ok msg (invalidRequest msg e)"
  by (simp_all add: internalError_def invalidRequest_def)

lemma reply_ok_ack [simp]: "mType msg = t \<Longrightarrow> reply_ok msg (AckResponse t (mID msg) h d)"
  unfolding reply_ok_def by blast

lemma reply_ok_profile [simp]: "reply_ok msg (ErrorResponse (mID msg) (profileErrorCode e) m f h)"
  by (cases e) simp_all

lemma lookup_replies:
  "lookupPC now msg b = (Inl err, b') \<Longrightarrow> reply_ok msg err"
  "lookupDC now msg b = (Inl err, b') \<Longrightarrow> reply_ok msg err"
  by (auto simp: lookupPC_def lookupDC_def Let_def split: if_splits prod.splits option.splits resource.splits)

lemma withPC_cases:
  assumes "withPC now msg b k = Some (resp, b')"
  obtains "reply_ok msg resp" "lookupPC now msg b = (Inl resp, b')"
  | pc b1 where "lookupPC now msg b = (Inr pc, b1)" "k pc b1 = Some (resp, b')"
  using assms lookup_replies(1) [of now msg b resp b'] by (auto simp: withPC_def split: prod.splits sum.splits)

lemma withDC_cases:
  assumes "withDC now msg b k = Some (resp, b')"
  obtains "reply_ok msg resp" "lookupDC now msg b = (Inl resp, b')"
  | dc b1 where "lookupDC now msg b = (Inr dc, b1)" "k dc b1 = Some (resp, b')"
  using assms lookup_replies(2) [of now msg b resp b'] by (auto simp: withDC_def split: prod.splits sum.splits)

lemma reply_pc:
  "handlePCOffer P now msg b = Some (resp, b') \<Longrightarrow> mType msg = ''pc:offer'' \<Longrightarrow> reply_ok msg resp"
  "handlePCAnswer P now msg b = Some (resp, b') \<Longrightarrow> mType msg = ''pc:answer'' \<Longrightarrow> reply_ok msg resp"
  "handlePCSetLocalDesc P now msg b = Some (resp, b') \<Longrightarrow> mType msg = ''pc:setLocalDesc'' \<Longrightarrow> reply_ok msg resp"
  "handlePCSetRemoteDesc P now msg b = Some (resp, b') \<Longrightarrow> mType msg = ''pc:setRemoteDesc'' \<Longrightarrow> reply_ok msg resp"
  "handlePCAddIce P now msg b = Some (resp, b') \<Longrightarrow> mType msg = ''pc:addIce'' \<Longrightarrow> reply_ok msg resp"
  "handlePCClose P now msg b = Some (resp, b') \<Longrightarrow> mType msg = ''pc:close'' \<Longrightarrow> reply_ok msg resp"
  "handlePCAddTransceiver P now msg b = Some (resp, b') \<Longrightarrow> mType msg = ''pc:addTransceiver'' \<Longrightarrow> reply_ok msg resp"
  "handlePCCreateDc P now uuid msg b = Some (resp, b') \<Longrightarrow> mType msg = ''pc:createDc'' \<Longrightarrow> reply_ok msg resp"
  unfolding handlers
  by (erule withPC_cases; auto simp: Let_def split: prod.splits sum.splits option.splits if_splits)+

lemma reply_dc:
  "handleDCSetBufferedAmountLowThreshold P now msg b = Some (resp, b') \<Longrightarrow>
     mType msg = ''dc:setBufferedAmountLowThreshold'' \<Longrightarrow> reply_ok msg resp"
  "handleDCClose P now msg b = Some (resp, b') \<Longrightarrow> mType msg = ''dc:close'' \<Longrightarrow> reply_ok msg resp"
  unfolding handlers
  by (erule withDC_cases; auto simp: Let_def split: prod.splits option.splits bind_splits)+

lemma reply_session:
  "handleInit P msg b = Some (resp, b') \<Longrightarrow> mType msg = ''init'' \<Longrightarrow> reply_ok msg resp"
  "handlePCCreate P now uuid msg b = Some (resp, b') \<Longrightarrow> mType msg = ''pc:create'' \<Longrightarrow> reply_ok msg resp"
  by (auto simp: handleInit_def handlePCCreate_def Let_def split: sum.splits prod.splits)

lemma reply_delete:
  "handleResourceDelete P now msg b = Some (resp, b') \<Longrightarrow> mType msg = ''resource:delete'' \<Longrightarrow> reply_ok msg resp"
  by (auto simp: handleResourceDelete_def Let_def split: if_splits bind_splits sum.splits registry_error.splits prod.splits)

lemma reply_send:
  "handleDCSend pick now msg b = Some (resp, b') \<Longrightarrow> reply_ok msg resp \<or> resp = zeroMessage"
  by (auto simp: handleDCSend_def dcSendWorkOf_def split: option.splits sum.splits bind_splits gval.splits)


lemma if_eqE: "\<lbrakk>(if c then x else y) = z; \<lbrakk>c; x = z\<rbrakk> \<Longrightarrow> R; y = z \<Longrightarrow> R\<rbrakk> \<Longrightarrow> R"
  by (cases c) simp_all

lemma HandleMessage_cases:
  assumes "HandleMessage P pick now uuid msg b = Some (resp, b')"
  obtains "handleInit P msg b = Some (resp, b')" "mType msg = ''init''"
  | "handlePCCreate P now uuid msg b = Some (resp, b')" "mType msg = ''pc:create''"
  | "handlePCOffer P now msg b = Some (resp, b')" "mType msg = ''pc:offer''"
  | "handlePCAnswer P now msg b = Some (resp, b')" "mType msg = ''pc:answer''"
  | "handlePCSetLocalDesc P now msg b = Some (resp, b')" "mType msg = ''pc:setLocalDesc''"
  | "handlePCSetRemoteDesc P now msg b = Some (resp, b')" "mType msg = ''pc:setRemoteDesc''"
  | "handlePCAddIce P now msg b = Some (resp, b')" "mType msg = ''pc:addIce''"
  | "handlePCClose P now msg b = Some (resp, b')" "mType msg = ''pc:close''"
  | "handlePCAddTransceiver P now msg b = Some (resp, b')" "mType msg = ''pc:addTransceiver''"
  | "handlePCCreateDc P now uuid msg b = Some (resp, b')" "mType msg = ''pc:createDc''"
  | "handleDCSend pick now msg b = Some (resp, b')" "mType msg = ''dc:send''"
  | "handleDCSetBufferedAmountLowThreshold P now msg b = Some (resp, b')" "mType msg = ''dc:setBufferedAmountLowThreshold''"
  | "handleDCClose P now msg b = Some (resp, b')" "mType msg = ''dc:close''"
  | "handleResourceDelete P now msg b = Some (resp, b')" "mType msg = ''resource:delete''"
  | "resp = ErrorResponse (mID msg) ''INVALID_REQUEST'' (''unknown message type: '' @ mType msg) False []" "b' = b"
  using assms unfolding HandleMessage_def Let_def
  by (elim if_eqE) ((rule that; assumption)+, auto intro: that(15))


section \<open>Invariant\<close>

text \<open>
  The registry invariant, the trace and hook invariants, and the link between registry and send
  states: every reference points to an allocated state, no two handles share one, and every state
  has room for at least one item.
\<close>

definition states_ok :: "Registry \<Rightarrow> (sendref \<Rightarrow> DCSendState) \<Rightarrow> sendref \<Rightarrow> bool" where
  "states_ok r f n \<longleftrightarrow>
     (\<forall>h ref. dcSendStates r h = Some ref \<longrightarrow> ref < n \<and> 1 \<le> dsCap (f ref) \<and> \<not> dsDone (f ref)) \<and>
     (\<forall>h h' ref. dcSendStates r h = Some ref \<longrightarrow> dcSendStates r h' = Some ref \<longrightarrow> h = h')"

definition bridge_inv :: "'p bridge \<Rightarrow> bool" where
  "bridge_inv b \<longleftrightarrow> reg_inv (b_registry b) \<and> trace_inv (b_trace b) \<and> hooks_inv (b_hooks b) \<and>
     states_ok (b_registry b) (b_states b) (b_nextRef b) \<and> 1 \<le> SendQueueDepth (h_dcConfig b)"

lemma states_ok_cong:
  "dcSendStates r = dcSendStates r' \<Longrightarrow> states_ok r f n = states_ok r' f n"
  by (simp add: states_ok_def)

lemma touchAt_dcSendStates [simp]: "dcSendStates (touchAt now h r) = dcSendStates r"
  by (simp add: touchAt_def)

lemma Lookup_dcSendStates [simp]: "dcSendStates (snd (Lookup now h r)) = dcSendStates r"
  by (simp add: Lookup_def)

lemma bridge_inv_upd [simp]:
  "bridge_inv (b\<lparr>b_pion := p\<rparr>) = bridge_inv b" "bridge_inv (b\<lparr>b_out := out\<rparr>) = bridge_inv b"
  "bridge_inv (b\<lparr>h_profiles := pr\<rparr>) = bridge_inv b"
  "bridge_inv (b\<lparr>h_defaultProfile := dp, h_defaultSE := se, h_defaultME := me\<rparr>) = bridge_inv b"
  "bridge_inv (setPCProfile h q b) = bridge_inv b" "bridge_inv (forgetPCProfile h b) = bridge_inv b"
  by (simp_all add: bridge_inv_def setPCProfile_def forgetPCProfile_def)

lemma bridge_inv_notify [pres]: "bridge_inv b \<Longrightarrow> bridge_inv (notifyClosed h b)"
  by (simp add: bridge_inv_def notifyClosed_def hooks_inv_notify)

text \<open>Sent messages only touch stamps and extend the output.\<close>

definition sent :: "int \<Rightarrow> handle list \<Rightarrow> (conn \<times> Message) list \<Rightarrow> 'p bridge \<Rightarrow> 'p bridge" where
  "sent now hs ms b = b\<lparr>b_registry := fold (touchAt now) hs (b_registry b), b_out := b_out b @ ms\<rparr>"

lemma sent_simps [simp]:
  "b_states (sent now hs ms b) = b_states b" "b_out (sent now hs ms b) = b_out b @ ms"
  "h_conn (sent now hs ms b) = h_conn b" "b_registry (sent now hs ms b) = fold (touchAt now) hs (b_registry b)"
  "bridge_inv (sent now hs ms b) = bridge_inv b"
proof -
  have "reg_inv (fold (touchAt now) hs r) = reg_inv r" for r
    by (simp add: reg_inv_def reg_core_cong [of "fold (touchAt now) hs r" r])
  moreover have "states_ok (fold (touchAt now) hs r) f n = states_ok r f n" for r f n
    by (rule states_ok_cong) simp
  ultimately show "bridge_inv (sent now hs ms b) = bridge_inv b" by (simp add: bridge_inv_def sent_def)
qed (simp_all add: sent_def)

lemma touch_handle:
  assumes "bridge_inv b"
  shows "\<exists>hs. (if h \<noteq> [] then Touch now h (b_registry b) else Some (b_registry b)) = Some (fold (touchAt now) hs (b_registry b))"
proof (cases "h = []")
  case True
  then show ?thesis by (intro exI [of _ "[]"]) simp
next
  case False
  obtain r' where "Touch now h (b_registry b) = Some r'"
    using Touch_eq [of "b_registry b" now h] assms by (auto simp: bridge_inv_def)
  with False show ?thesis by (auto elim: Touch_Some)
qed

lemma sendAll_sent: "bridge_inv b \<Longrightarrow> \<exists>hs. sendAll now ms b = Some (sent now hs ms b)"
proof (induction ms arbitrary: b)
  case Nil
  then show ?case by (intro exI [of _ "[]"]) (simp add: sent_def)
next
  case (Cons x ms)
  obtain c m where x: "x = (c, m)" by (cases x)
  have "\<exists>hs. (if mHandle m \<noteq> [] then Touch now (mHandle m) (b_registry b) else Some (b_registry b)) =
      Some (fold (touchAt now) hs (b_registry b))"
    using Cons.prems by (rule touch_handle)
  then obtain hs where "sendAll now (x # ms) b = sendAll now ms (sent now hs [x] b)"
    by (auto simp: x sent_def)
  moreover obtain hs' where "sendAll now ms (sent now hs [x] b) = Some (sent now hs' ms (sent now hs [x] b))"
    using Cons.IH [of "sent now hs [x] b"] Cons.prems by auto
  ultimately show ?case by (intro exI [of _ "hs @ hs'"]) (simp add: sent_def)
qed

lemma sendEvent_sent:
  assumes "bridge_inv b"
  obtains hs where "sendEvent now m b = Some (sent now hs [(h_conn b, m)] b)"
  using sendAll_sent [OF assms] unfolding sendEvent_def by blast

lemma sendEvent_inv [pres]:
  assumes "sendEvent now m b = Some b'" and "bridge_inv b"
  shows "bridge_inv b'"
  using sendEvent_sent [OF assms(2), of now m] assms by (metis option.inject sent_simps(5))

lemma lookup_inv [pres]:
  "lookupPC now msg b = (x, b') \<Longrightarrow> bridge_inv b \<Longrightarrow> bridge_inv b'"
  "lookupDC now msg b = (x, b') \<Longrightarrow> bridge_inv b \<Longrightarrow> bridge_inv b'"
proof -
  have "bridge_inv (b\<lparr>b_registry := snd (Lookup now (mHandle msg) (b_registry b))\<rparr>)" if "bridge_inv b"
    using that states_ok_cong [OF Lookup_dcSendStates] by (simp add: bridge_inv_def reg_inv_Lookup)
  then show "lookupPC now msg b = (x, b') \<Longrightarrow> bridge_inv b \<Longrightarrow> bridge_inv b'"
    "lookupDC now msg b = (x, b') \<Longrightarrow> bridge_inv b \<Longrightarrow> bridge_inv b'"
    by (auto simp: lookupPC_def lookupDC_def Let_def split: if_splits prod.splits option.splits resource.splits)
qed

lemma initDCConfig_depth: "1 \<le> SendQueueDepth cfg \<Longrightarrow> 1 \<le> SendQueueDepth (initDCConfig dc cfg)"
  by (auto simp: initDCConfig_def Let_def split: option.splits)

lemma trace_inv_Start [pres]: "trace_inv t \<Longrightarrow> trace_inv (snd (StartTracing t))"
  by (simp add: StartTracing_def trace_inv_def)

lemma bridge_inv_config:
  "bridge_inv b \<Longrightarrow> bridge_inv (b\<lparr>b_trace := snd (StartTracing (b_trace b))\<rparr>)"
  "bridge_inv b \<Longrightarrow> bridge_inv (b\<lparr>h_dcConfig := initDCConfig dc (h_dcConfig b)\<rparr>)"
  by (simp_all add: bridge_inv_def trace_inv_Start initDCConfig_depth)

lemma handleInit_inv [pres]:
  assumes "handleInit P msg b = Some (resp, b')" and "bridge_inv b"
  shows "bridge_inv b'"
proof -
  define b1 where "b1 = (case asMap (get (mData msg) ''settings_engine'') of
      Some cfg \<Rightarrow> if asBool (get cfg ''enable_tracing'') = Some True
                  then b\<lparr>b_trace := snd (StartTracing (b_trace b))\<rparr> else b | None \<Rightarrow> b)"
  have "bridge_inv b1" using assms(2) by (simp add: b1_def bridge_inv_config(1) split: option.splits)
  then have "bridge_inv (case asMap (get (mData msg) ''dc_config'') of
      Some dc \<Rightarrow> b1\<lparr>h_dcConfig := initDCConfig dc (h_dcConfig b1)\<rparr> | None \<Rightarrow> b1)"
    by (simp add: bridge_inv_config(2) split: option.splits)
  then show ?thesis using assms(1) unfolding handleInit_def Let_def b1_def by (auto split: sum.splits)
qed

lemma states_ok_del: "states_ok r f n \<Longrightarrow> states_ok (r\<lparr>dcSendStates := (dcSendStates r)(h := None)\<rparr>) f n"
  by (auto simp: states_ok_def)

lemma chooseProfile_inv: "chooseProfile P d b = Inr (p, b') \<Longrightarrow> bridge_inv b \<Longrightarrow> bridge_inv b' \<and> b_registry b' = b_registry b"
  by (auto simp: chooseProfile_def profileFor_def Let_def bindR_Inr_iff bridge_inv_def
      split: if_splits sum.splits option.splits)


lemma Register_simps:
  "fst (Register uuid now res r) = generateHandle uuid"
  "fst (RegisterChild uuid now res p r) = generateHandle uuid"
  "dcSendStates (snd (Register uuid now res r)) = dcSendStates r"
  "dcSendStates (snd (RegisterChild uuid now res p r)) = dcSendStates r"
  by (simp_all add: Register_def RegisterChild_def Let_def newStampLocked_def)

lemma handlePCCreate_inv [pres]:
  assumes "handlePCCreate P now uuid msg b = Some (resp, b')" and "bridge_inv b"
    and "fresh (generateHandle uuid) (b_registry b)"
  shows "bridge_inv b'"
proof (cases "chooseProfile P (mData msg) b")
  case (Inl e)
  then show ?thesis using assms by (simp add: handlePCCreate_def)
next
  case (Inr x)
  obtain profile b1 where x: "x = (profile, b1)" by (cases x)
  have inv: "bridge_inv b1" "b_registry b1 = b_registry b" using chooseProfile_inv Inr x assms(2) by blast+
  have "bridge_inv (b1\<lparr>b_pion := p, b_registry := snd (Register uuid now res (b_registry b1))\<rparr>)" for p res
    using inv assms(3) states_ok_cong [OF Register_simps(3)]
    by (simp add: bridge_inv_def reg_inv_Register)
  then show ?thesis using assms(1) Inr x inv
    unfolding handlePCCreate_def by (auto simp: Let_def case_prod_unfold split: sum.splits)
qed

lemma states_ok_new:
  assumes "states_ok r f n" and "dcSendStates r h = None" and "1 \<le> dsCap s" and "\<not> dsDone s"
  shows "states_ok (r\<lparr>dcSendStates := (dcSendStates r)(h \<mapsto> n)\<rparr>) (f(n := s)) (n + 1)"
  using assms by (auto simp: states_ok_def less_Suc_eq)

lemma startDC_inv [pres]:
  assumes "bridge_inv b"
  shows "bridge_inv (startDCSendGoroutine P dc h profile b)"
proof (cases "dcSendStates (b_registry b) h")
  case None
  have "states_ok ((b_registry b)\<lparr>dcSendStates := (dcSendStates (b_registry b))(h \<mapsto> b_nextRef b)\<rparr>)
      ((b_states b)(b_nextRef b := newDCSendState (h_dcConfig b) (p_detach profile))) (b_nextRef b + 1)"
    using assms None by (intro states_ok_new) (auto simp: bridge_inv_def newDCSendState_def)
  moreover have "reg_inv ((b_registry b)\<lparr>dcSendStates := (dcSendStates (b_registry b))(h \<mapsto> b_nextRef b)\<rparr>)"
    using assms None reg_inv_dcSendStates(1) [of "b_registry b" h "b_nextRef b"]
    by (simp add: bridge_inv_def RegisterDCSendState_def)
  ultimately show ?thesis using assms None
    by (simp add: bridge_inv_def startDCSendGoroutine_def RegisterDCSendState_def Let_def)
next
  case (Some ref)
  then show ?thesis using assms by (simp add: startDCSendGoroutine_def RegisterDCSendState_def)
qed

lemma registerChild_inv [pres]:
  assumes "bridge_inv b" and "fresh (generateHandle uuid) (b_registry b)" and "h \<noteq> generateHandle uuid"
  shows "bridge_inv (b\<lparr>b_pion := p, b_registry := snd (RegisterChild uuid now res h (b_registry b))\<rparr>)"
  using assms states_ok_cong [OF Register_simps(4)] by (simp add: bridge_inv_def reg_inv_RegisterChild)

lemma fresh_Lookup: "fresh k (snd (Lookup now h r)) = fresh k r"
  by (auto simp: fresh_def Lookup_def touchAt_def)


lemma lookupPC_Inr:
  assumes "lookupPC now msg b = (Inr pc, b1)"
  shows "resources (b_registry b) (mHandle msg) = Some (PeerConnection pc)"
    "b1 = b\<lparr>b_registry := snd (Lookup now (mHandle msg) (b_registry b))\<rparr>" "mHandle msg \<noteq> []"
  using assms
  by (auto simp: lookupPC_def Let_def Lookup_def split: if_splits option.splits resource.splits)

lemma lookupDC_Inr:
  assumes "lookupDC now msg b = (Inr dc, b1)"
  shows "resources (b_registry b) (mHandle msg) = Some (DataChannel dc)"
    "b1 = b\<lparr>b_registry := snd (Lookup now (mHandle msg) (b_registry b))\<rparr>" "mHandle msg \<noteq> []"
  using assms
  by (auto simp: lookupDC_def Let_def Lookup_def split: if_splits option.splits resource.splits)

lemma pc_requests_inv [pres]:
  "handlePCOffer P now msg b = Some (resp, b') \<Longrightarrow> bridge_inv b \<Longrightarrow> bridge_inv b'"
  "handlePCAnswer P now msg b = Some (resp, b') \<Longrightarrow> bridge_inv b \<Longrightarrow> bridge_inv b'"
  "handlePCSetLocalDesc P now msg b = Some (resp, b') \<Longrightarrow> bridge_inv b \<Longrightarrow> bridge_inv b'"
  "handlePCSetRemoteDesc P now msg b = Some (resp, b') \<Longrightarrow> bridge_inv b \<Longrightarrow> bridge_inv b'"
  "handlePCAddIce P now msg b = Some (resp, b') \<Longrightarrow> bridge_inv b \<Longrightarrow> bridge_inv b'"
  "handlePCClose P now msg b = Some (resp, b') \<Longrightarrow> bridge_inv b \<Longrightarrow> bridge_inv b'"
  "handlePCAddTransceiver P now msg b = Some (resp, b') \<Longrightarrow> bridge_inv b \<Longrightarrow> bridge_inv b'"
  unfolding handlers
  by (erule withPC_cases; drule (1) lookup_inv(1);
      auto simp: Let_def bridge_inv_notify split: prod.splits sum.splits option.splits if_splits)+

lemma handlePCCreateDc_inv [pres]:
  assumes "handlePCCreateDc P now uuid msg b = Some (resp, b')" and "bridge_inv b"
    and fresh: "fresh (generateHandle uuid) (b_registry b)"
  shows "bridge_inv b'"
  using assms(1) unfolding handlePCCreateDc_def
proof (cases rule: withPC_cases)
  case 1
  then show ?thesis using lookup_inv(1) assms(2) by blast
next
  case (2 pc b1)
  have b1: "bridge_inv b1" using 2(1) assms(2) by (rule lookup_inv(1))
  note found = lookupPC_Inr [OF 2(1)]
  have "fresh (generateHandle uuid) (b_registry b1)" using fresh found(2) by (simp add: fresh_Lookup)
  moreover have "mHandle msg \<noteq> generateHandle uuid" using fresh found(1) by (auto simp: fresh_def)
  ultimately have "bridge_inv (startDCSendGoroutine P dc h profile
      (b1\<lparr>b_pion := p, b_registry := snd (RegisterChild uuid now res (mHandle msg) (b_registry b1))\<rparr>))"
    for dc h profile p res
    using b1 by (intro startDC_inv registerChild_inv)
  then show ?thesis using 2(2) b1
    by (auto simp: Let_def case_prod_unfold split: sum.splits if_splits)
qed

definition unlinked :: "sendref \<Rightarrow> 'p bridge \<Rightarrow> bool" where
  "unlinked ref b \<longleftrightarrow> (\<forall>h. dcSendStates (b_registry b) h \<noteq> Some ref)"

lemma closeState_sent:
  assumes "bridge_inv b" and "unlinked ref b"
  obtains b' where "closeState now ref b = Some b'" "bridge_inv b'"
    "resources (b_registry b') = resources (b_registry b)" "dcSendStates (b_registry b') = dcSendStates (b_registry b)"
    "\<And>k. k \<noteq> ref \<Longrightarrow> b_states b' k = b_states b k"
    "\<not> dsDone (b_states b ref) \<Longrightarrow> b_out b' = b_out b @ concat (map closedBefore (dsWork (b_states b ref)))"
proof (cases "dsDone (b_states b ref)")
  case True
  then show ?thesis using that [of b] assms by (simp add: closeState_def)
next
  case False
  let ?b = "b\<lparr>b_states := (b_states b)(ref := (b_states b ref)\<lparr>dsDone := True, dsWork := []\<rparr>)\<rparr>"
  have inv: "bridge_inv ?b" using assms by (auto simp: bridge_inv_def states_ok_def unlinked_def)
  then obtain hs where "closeState now ref b = Some (sent now hs (concat (map closedBefore (dsWork (b_states b ref)))) ?b)"
    using sendAll_sent [OF inv] False by (fastforce simp: closeState_def Let_def)
  then show ?thesis using that inv by simp
qed

lemma stopDC_inv:
  assumes "bridge_inv b"
  obtains b' where "stopDCSendGoroutine now h b = Some b'" "bridge_inv b'"
proof -
  let ?r = "(b_registry b)\<lparr>dcSendStates := (dcSendStates (b_registry b))(h := None)\<rparr>"
  have "reg_inv ?r" using assms reg_inv_dcSendStates(2) [of "b_registry b" h]
    by (simp add: bridge_inv_def RemoveDCSendState_def removeDCSendStateLocked_def)
  then have b1: "bridge_inv (b\<lparr>b_registry := ?r\<rparr>)" using assms by (simp add: bridge_inv_def states_ok_del)
  have "\<exists>b2. closeState now ref (b\<lparr>b_registry := ?r\<rparr>) = Some b2 \<and> bridge_inv b2"
    if "dcSendStates (b_registry b) h = Some ref" for ref
  proof -
    have "unlinked ref (b\<lparr>b_registry := ?r\<rparr>)"
      using assms that by (auto simp: bridge_inv_def states_ok_def unlinked_def)
    from closeState_sent [OF b1 this, of now] show ?thesis by blast
  qed
  then obtain b2 where "(case dcSendStates (b_registry b) h of None \<Rightarrow> Some (b\<lparr>b_registry := ?r\<rparr>)
      | Some ref \<Rightarrow> closeState now ref (b\<lparr>b_registry := ?r\<rparr>)) = Some b2" "bridge_inv b2"
    using b1 by (cases "dcSendStates (b_registry b) h") auto
  then show ?thesis
    by (intro that [of "b2\<lparr>b_trace := ReleaseDC h (b_trace b2)\<rparr>"])
      (simp_all add: stopDCSendGoroutine_def RemoveDCSendState_def removeDCSendStateLocked_def Let_def
        bridge_inv_def trace_inv_ReleaseDC)
qed


lemma dc_requests_inv [pres]:
  "handleDCSetBufferedAmountLowThreshold P now msg b = Some (resp, b') \<Longrightarrow> bridge_inv b \<Longrightarrow> bridge_inv b'"
  "handleDCClose P now msg b = Some (resp, b') \<Longrightarrow> bridge_inv b \<Longrightarrow> bridge_inv b'"
proof -
  have thr: "bridge_inv (b\<lparr>b_pion := p, b_states := (b_states b)(ref := (b_states b ref)\<lparr>dsThreshold := t\<rparr>)\<rparr>)"
    if "bridge_inv b" for b :: "'a bridge" and p ref t
    using that by (auto simp: bridge_inv_def states_ok_def)
  show "handleDCSetBufferedAmountLowThreshold P now msg b = Some (resp, b') \<Longrightarrow> bridge_inv b \<Longrightarrow> bridge_inv b'"
    unfolding handlers
    by (erule withDC_cases; drule (1) lookup_inv(2); auto simp: Let_def thr split: option.splits)
  have stop: "bridge_inv b2" if "stopDCSendGoroutine now h b = Some b2" "bridge_inv b" for b :: "'a bridge" and h b2
    by (rule stopDC_inv [OF that(2), of now h]) (use that(1) in simp)
  show "handleDCClose P now msg b = Some (resp, b') \<Longrightarrow> bridge_inv b \<Longrightarrow> bridge_inv b'"
    unfolding handlers
    by (erule withDC_cases; drule (1) lookup_inv(2); auto split: prod.splits option.splits bind_splits dest: stop)
qed

lemma trace_inv_depth [pres]: "trace_inv t \<Longrightarrow> trace_inv (traceDepth h s t)"
proof -
  have "trace_inv (t\<lparr>DCQDepth := d\<rparr>) = trace_inv t" for t d by (simp add: trace_inv_def)
  then show "trace_inv t \<Longrightarrow> trace_inv (traceDepth h s t)"
    using trace_inv_DCIdx by (auto simp: traceDepth_def Let_def case_prod_unfold)
qed

lemma sendAll_inv:
  assumes "sendAll now ms b = Some b'" and "bridge_inv b"
  shows "bridge_inv b'"
  using sendAll_sent [OF assms(2), of now ms] assms by auto

lemma enqueue_inv:
  assumes "enqueueWork pick now ref w b = Some b'" and "bridge_inv b"
  shows "bridge_inv b'"
proof -
  have "bridge_inv (b\<lparr>b_states := (b_states b)(ref := (b_states b ref)\<lparr>dsWork := ws\<rparr>)\<rparr>)" for ws
    using assms(2) by (auto simp: bridge_inv_def states_ok_def)
  then show ?thesis
    using assms sendEvent_inv sendAll_inv by (fastforce simp: enqueueWork_def Let_def split: if_splits)
qed

lemma handleDCSend_inv [pres]:
  assumes "handleDCSend pick now msg b = Some (resp, b')" and "bridge_inv b"
  shows "bridge_inv b'"
proof -
  have "bridge_inv (b\<lparr>b_trace := traceDepth h s (b_trace b)\<rparr>)" for h s
    using assms(2) by (simp add: bridge_inv_def trace_inv_depth)
  then show ?thesis using assms enqueue_inv
    by (fastforce simp: handleDCSend_def split: option.splits sum.splits bind_splits)
qed

section \<open>Deletion and the send queues\<close>

definition queuedOn :: "'p bridge \<Rightarrow> handle \<Rightarrow> dcSendWork list" where
  "queuedOn b h = (case dcSendStates (b_registry b) h of None \<Rightarrow> [] | Some ref \<Rightarrow> dsWork (b_states b ref))"

text \<open>The shutdown log of a delete closes send states that are no longer registered.\<close>

lemma shutdown_step:
  assumes "bridge_inv b" and "\<And>ref. s = CloseState ref \<Longrightarrow> unlinked ref b"
  obtains b' where "shutdownStep P now s b = Some b'" "bridge_inv b'"
    "resources (b_registry b') = resources (b_registry b)" "dcSendStates (b_registry b') = dcSendStates (b_registry b)"
    "\<And>k. s \<noteq> CloseState k \<Longrightarrow> b_states b' k = b_states b k"
    "b_out b' = b_out b @ (case s of CloseState ref \<Rightarrow> if dsDone (b_states b ref) then [] else concat (map closedBefore (dsWork (b_states b ref)))
       | CloseResource _ \<Rightarrow> [])"
proof (cases s)
  case (CloseState ref)
  show ?thesis
  proof (cases "dsDone (b_states b ref)")
    case True
    then show ?thesis using that [of b] assms(1) CloseState by (simp add: closeState_def)
  next
    case False
    obtain b' where "closeState now ref b = Some b'" "bridge_inv b'"
      "resources (b_registry b') = resources (b_registry b)" "dcSendStates (b_registry b') = dcSendStates (b_registry b)"
      "\<And>k. k \<noteq> ref \<Longrightarrow> b_states b' k = b_states b k"
      "b_out b' = b_out b @ concat (map closedBefore (dsWork (b_states b ref)))"
      by (rule closeState_sent [OF assms(1) assms(2) [OF CloseState], of now]) (rule that, use False in simp_all)
    then show ?thesis using that [of b'] CloseState False by simp
  qed
next
  case (CloseResource res)
  then show ?thesis using that assms(1) by (cases res) simp_all
qed

fun closedRefs :: "shutdown list \<Rightarrow> sendref list" where
  "closedRefs [] = []"
| "closedRefs (CloseState ref # log) = ref # closedRefs log"
| "closedRefs (CloseResource _ # log) = closedRefs log"

lemma shutdown_run:
  assumes "bridge_inv b" and "distinct (closedRefs log)"
    and "\<And>ref. ref \<in> set (closedRefs log) \<Longrightarrow> unlinked ref b \<and> \<not> dsDone (b_states b ref)"
  obtains b' where "shutdownAll P now log b = Some b'" "bridge_inv b'"
    "resources (b_registry b') = resources (b_registry b)" "dcSendStates (b_registry b') = dcSendStates (b_registry b)"
    "b_out b' = b_out b @ concat (map closedBefore (concat (map (\<lambda>ref. dsWork (b_states b ref)) (closedRefs log))))"
  using assms
proof (induction log arbitrary: b thesis)
  case Nil
  then show ?case by simp
next
  case (Cons s log)
  have un: "unlinked ref b" if "s = CloseState ref" for ref using Cons.prems(4) that by simp
  obtain b1 where b1: "shutdownStep P now s b = Some b1" "bridge_inv b1"
    "resources (b_registry b1) = resources (b_registry b)" "dcSendStates (b_registry b1) = dcSendStates (b_registry b)"
    "\<And>k. s \<noteq> CloseState k \<Longrightarrow> b_states b1 k = b_states b k"
    "b_out b1 = b_out b @ (case s of CloseState ref \<Rightarrow> if dsDone (b_states b ref) then [] else concat (map closedBefore (dsWork (b_states b ref)))
       | CloseResource _ \<Rightarrow> [])"
    by (rule shutdown_step [where s = s and P = P and now = now, OF Cons.prems(2) un]) (assumption, rule that)
  have old: "b_states b1 ref = b_states b ref" if "ref \<in> set (closedRefs log)" for ref
    using that Cons.prems(3) b1(5) [of ref] by (cases s) auto
  have un1: "unlinked ref b1 \<and> \<not> dsDone (b_states b1 ref)" if "ref \<in> set (closedRefs log)" for ref
    using that old [OF that] Cons.prems(4) [of ref] b1(4) by (cases s) (auto simp: unlinked_def)
  have dis: "distinct (closedRefs log)" using Cons.prems(3) by (cases s) simp_all
  obtain b' where b': "shutdownAll P now log b1 = Some b'" "bridge_inv b'"
    "resources (b_registry b') = resources (b_registry b1)" "dcSendStates (b_registry b') = dcSendStates (b_registry b1)"
    "b_out b' = b_out b1 @ concat (map closedBefore (concat (map (\<lambda>ref. dsWork (b_states b1 ref)) (closedRefs log))))"
    by (rule Cons.IH [OF _ b1(2) dis un1])
  have same: "map (\<lambda>ref. dsWork (b_states b1 ref)) (closedRefs log) = map (\<lambda>ref. dsWork (b_states b ref)) (closedRefs log)"
    using old by simp
  have "b_out b' = b_out b @ concat (map closedBefore (concat (map (\<lambda>ref. dsWork (b_states b ref)) (closedRefs (s # log)))))"
    unfolding b'(5) b1(6) same using Cons.prems(4) by (cases s) simp_all
  then show ?case using Cons.prems(1) b1 b' by simp
qed

lemma prune_states_ok:
  assumes "states_ok r f n"
  shows "states_ok (prune D r) f n"
    "CloseState ref \<in> set (closeOrder r ds) \<Longrightarrow> set ds = D \<Longrightarrow> dcSendStates (prune D r) h \<noteq> Some ref"
proof -
  show "states_ok (prune D r) f n"
    using assms by (auto simp: states_ok_def prune_def split: if_splits)
  assume "CloseState ref \<in> set (closeOrder r ds)" and "set ds = D"
  then obtain x where "x \<in> D" "dcSendStates r x = Some ref"
    by (auto simp: closeOrder_def map_filter_def)
  then show "dcSendStates (prune D r) h \<noteq> Some ref"
    using assms unfolding states_ok_def prune_def by (auto simp: restrict_map_def) metis
qed

lemma closedRefs_closeOrder: "closedRefs (closeOrder r ds) = List.map_filter (dcSendStates r) ds"
proof -
  have "closedRefs (map CloseResource rs) = []" for rs by (induction rs) simp_all
  then have "closedRefs (map CloseState refs @ map CloseResource rs) = refs" for refs rs by (induction refs) simp_all
  then show ?thesis by (simp add: closeOrder_def)
qed

lemma refs_distinct:
  assumes "states_ok r f n" and "distinct ds"
  shows "distinct (List.map_filter (dcSendStates r) ds)"
  using assms(2)
proof (induction ds)
  case (Cons h ds)
  then show ?case using assms(1)
    by (auto simp: map_filter_simps states_ok_def split: option.splits) (auto simp: map_filter_def; metis)
qed (simp add: map_filter_simps)

lemma shutdown_order:
  assumes r: "states_ok r (b_states b) n" and inv: "bridge_inv b" and ds: "distinct ds"
    and b: "b_registry b = prune (set ds) r"
  obtains b' where "shutdownAll P now (closeOrder r ds) b = Some b'" "bridge_inv b'"
    "resources (b_registry b') = resources (prune (set ds) r)" "dcSendStates (b_registry b') = dcSendStates (prune (set ds) r)"
    "b_out b' = b_out b @ concat (map closedBefore
      (concat (map (\<lambda>h. case dcSendStates r h of None \<Rightarrow> [] | Some ref \<Rightarrow> dsWork (b_states b ref)) ds)))"
proof -
  let ?refs = "List.map_filter (dcSendStates r) ds"
  have "unlinked ref b \<and> \<not> dsDone (b_states b ref)" if "ref \<in> set ?refs" for ref
  proof
    have "CloseState ref \<in> set (closeOrder r ds)" using that by (simp add: closeOrder_def)
    then show "unlinked ref b" using prune_states_ok(2) [OF r] by (simp add: unlinked_def b)
    show "\<not> dsDone (b_states b ref)" using that r by (auto simp: map_filter_def states_ok_def)
  qed
  note good = this
  obtain b' where "shutdownAll P now (closeOrder r ds) b = Some b'" "bridge_inv b'"
    "resources (b_registry b') = resources (b_registry b)" "dcSendStates (b_registry b') = dcSendStates (b_registry b)"
    "b_out b' = b_out b @ concat (map closedBefore (concat (map (\<lambda>ref. dsWork (b_states b ref)) ?refs)))"
    by (rule shutdown_run [OF inv, of "closeOrder r ds" P now, unfolded closedRefs_closeOrder, OF refs_distinct [OF r ds] good])
  moreover have "concat (map (\<lambda>ref. dsWork (b_states b ref)) ?refs) =
      concat (map (\<lambda>h. case dcSendStates r h of None \<Rightarrow> [] | Some ref \<Rightarrow> dsWork (b_states b ref)) ds)"
    by (induction ds) (simp_all add: map_filter_simps split: option.splits)
  ultimately show ?thesis using that b by simp
qed

lemma handleResourceDelete_ok:
  assumes inv: "bridge_inv b" and res: "resources (b_registry b) (mHandle msg) \<noteq> None" and ne: "mHandle msg \<noteq> []"
  obtains ds b' where
    "handleResourceDelete P now msg b = Some (AckResponse ''resource:delete'' (mID msg) (mHandle msg) [], b')"
    "bridge_inv b'" "postorder (parent (b_registry b)) ds" "set ds = desc (parent (b_registry b)) (mHandle msg)"
    "resources (b_registry b') = resources (b_registry b) |` (- set ds)"
    "dcSendStates (b_registry b') = dcSendStates (b_registry b) |` (- set ds)"
    "b_out b' = b_out b @ concat (map closedBefore (concat (map (queuedOn b) ds)))"
proof -
  let ?r = "snd (Lookup now (mHandle msg) (b_registry b))"
  let ?b1 = "forgetPCProfile (mHandle msg) (b\<lparr>b_registry := ?r\<rparr>)"
  have same: "resources ?r = resources (b_registry b)" "parent ?r = parent (b_registry b)"
    by (simp_all add: Lookup_def)
  have r: "reg_inv ?r" "resources ?r (mHandle msg) \<noteq> None"
    using inv res by (simp_all add: bridge_inv_def reg_inv_Lookup same)
  from Delete_eq [OF r, of "b_trace b"] obtain ds where
    ds: "Delete (mHandle msg) (b_trace b) ?r = Some (Inr (closeOrder ?r ds, prune (set ds) ?r, fold ReleaseDC ds (b_trace b)))"
      "postorder (parent ?r) ds" "set ds = desc (parent ?r) (mHandle msg)" by blast
  let ?b2 = "?b1\<lparr>b_registry := prune (set ds) ?r, b_trace := fold ReleaseDC ds (b_trace b)\<rparr>"
  have ok: "states_ok ?r (b_states ?b2) (b_nextRef b)"
    using inv states_ok_cong [OF Lookup_dcSendStates] by (simp add: bridge_inv_def forgetPCProfile_def)
  have b2: "bridge_inv ?b2"
    using inv reg_inv_Delete [OF r(1) ds(1)] prune_states_ok(1) [OF ok] trace_inv_fold_ReleaseDC
    by (simp add: bridge_inv_def forgetPCProfile_def)
  obtain b3 where b3: "shutdownAll P now (closeOrder ?r ds) ?b2 = Some b3" "bridge_inv b3"
    "resources (b_registry b3) = resources (prune (set ds) ?r)" "dcSendStates (b_registry b3) = dcSendStates (prune (set ds) ?r)"
    "b_out b3 = b_out ?b2 @ concat (map closedBefore
      (concat (map (\<lambda>h. case dcSendStates ?r h of None \<Rightarrow> [] | Some ref \<Rightarrow> dsWork (b_states ?b2 ref)) ds)))"
    by (rule shutdown_order [OF ok b2 postorder_distinct [OF ds(2)], where P = P and now = now]) simp
  have frame: "b_states ?b2 = b_states b" "b_out ?b2 = b_out b" by (simp_all add: forgetPCProfile_def)
  have "b_out b3 = b_out b @ concat (map closedBefore (concat (map (queuedOn b) ds)))"
    unfolding b3(5) frame by (simp add: queuedOn_def [abs_def])
  moreover have "\<exists>b'. handleResourceDelete P now msg b = Some (AckResponse ''resource:delete'' (mID msg) (mHandle msg) [], b') \<and>
      b_out b' = b_out b3 \<and> b_registry b' = b_registry b3 \<and> bridge_inv b'"
    using ne ds(1) b3(1,2) bridge_inv_notify [OF b3(2)]
    by (auto simp: handleResourceDelete_def Let_def case_prod_unfold forgetPCProfile_def notifyClosed_def)
  ultimately show ?thesis using b3(3,4) ds(2,3) same that by (auto simp: prune_def)
qed

lemma handleResourceDelete_cases:
  assumes inv: "bridge_inv b"
  obtains resp b' where "handleResourceDelete P now msg b = Some (resp, b')" "bridge_inv b'"
proof (cases "mHandle msg = [] \<or> resources (b_registry b) (mHandle msg) = None")
  case True
  let ?b1 = "forgetPCProfile (mHandle msg) (b\<lparr>b_registry := snd (Lookup now (mHandle msg) (b_registry b))\<rparr>)"
  have b1: "bridge_inv ?b1"
    using inv states_ok_cong [OF Lookup_dcSendStates]
    by (simp add: bridge_inv_def forgetPCProfile_def reg_inv_Lookup)
  show ?thesis
  proof (cases "mHandle msg = []")
    case True
    then have "handleResourceDelete P now msg b =
        Some (ErrorResponse (mID msg) ''INVALID_REQUEST'' ''missing handle'' False [], b)"
      by (simp add: handleResourceDelete_def)
    then show ?thesis by (rule that) (rule inv)
  next
    case False
    with True have "handleResourceDelete P now msg b =
        Some (ErrorResponse (mID msg) ''NOT_FOUND'' (''handle not found: '' @ mHandle msg) False (mHandle msg), ?b1)"
      by (simp add: handleResourceDelete_def Lookup_def Delete_def forgetPCProfile_def)
    then show ?thesis by (rule that) (rule b1)
  qed
next
  case False
  then have res: "resources (b_registry b) (mHandle msg) \<noteq> None" "mHandle msg \<noteq> []" by simp_all
  show ?thesis by (rule handleResourceDelete_ok [OF inv res, of P now]) (rule that)
qed

lemma handleResourceDelete_inv [pres]:
  assumes "handleResourceDelete P now msg b = Some (resp, b')" and "bridge_inv b"
  shows "bridge_inv b'"
  by (rule handleResourceDelete_cases [OF assms(2), of P now msg]) (use assms(1) in simp)

lemma delete_total: "bridge_inv b \<Longrightarrow> \<exists>y. handleResourceDelete P now msg b = Some y"
  by (erule handleResourceDelete_cases [of b P now msg]) blast

section \<open>Calls that do not return\<close>

lemma lookups_total:
  "(\<And>pc b1. \<exists>y. k pc b1 = Some y) \<Longrightarrow> \<exists>y. withPC now msg b k = Some y"
  "(\<And>pc b1. \<exists>y. k pc b1 = Some y) \<Longrightarrow> \<exists>y. withDC now msg b k = Some y"
  by (simp_all add: withPC_def withDC_def split: prod.splits sum.splits)

lemma pc_total:
  "\<exists>y. handlePCOffer P now msg b = Some y" "\<exists>y. handlePCAnswer P now msg b = Some y"
  "\<exists>y. handlePCSetLocalDesc P now msg b = Some y" "\<exists>y. handlePCSetRemoteDesc P now msg b = Some y"
  "\<exists>y. handlePCAddIce P now msg b = Some y" "\<exists>y. handlePCClose P now msg b = Some y"
  "\<exists>y. handlePCAddTransceiver P now msg b = Some y" "\<exists>y. handlePCCreateDc P now uuid msg b = Some y"
  unfolding handlers handlePCCreateDc_def
  by (rule lookups_total(1), simp add: Let_def case_prod_unfold split: prod.splits sum.splits option.splits)+

lemma dc_total:
  assumes "bridge_inv b"
  shows "\<exists>y. handleDCSetBufferedAmountLowThreshold P now msg b = Some y" "\<exists>y. handleDCClose P now msg b = Some y"
proof -
  show "\<exists>y. handleDCSetBufferedAmountLowThreshold P now msg b = Some y"
    unfolding handlers by (rule lookups_total(2)) (simp add: Let_def split: option.splits)
  have stop: "\<exists>b2. stopDCSendGoroutine now (mHandle msg) b1 = Some b2" if "lookupDC now msg b = (x, b1)" for x b1
    by (rule stopDC_inv [OF lookup_inv(2) [OF that assms], of now "mHandle msg"]) blast
  obtain x b1 where "lookupDC now msg b = (x, b1)" by fastforce
  with stop [OF this] show "\<exists>y. handleDCClose P now msg b = Some y"
    by (cases x) (auto simp: handleDCClose_def withDC_def split: prod.splits option.splits)
qed

lemma session_total:
  "\<exists>y. handleInit P msg b = Some y" "\<exists>y. handlePCCreate P now uuid msg b = Some y"
  by (simp_all add: handleInit_def handlePCCreate_def Let_def case_prod_unfold split: prod.splits sum.splits)

lemma HandleMessage_total:
  assumes "bridge_inv b" and "mType msg \<noteq> ''dc:send''"
  shows "HandleMessage P pick now uuid msg b \<noteq> None"
  using assms pc_total dc_total [OF assms(1)] session_total delete_total [OF assms(1)]
  unfolding HandleMessage_def Let_def by (simp only: option.distinct(1) not_None_eq if_splits simp_thms) auto

lemma dc_send_None:
  assumes "bridge_inv b"
  shows "handleDCSend pick now msg b = None \<longleftrightarrow>
    (\<exists>ref w. dcSendStates (b_registry b) (mHandle msg) = Some ref \<and> dcSendWorkOf (h_conn b) msg = Inr w \<and>
       dsCap (b_states b ref) \<le> length (dsWork (b_states b ref)))"
proof -
  have "\<not> dsDone (b_states b ref)" if "dcSendStates (b_registry b) (mHandle msg) = Some ref" for ref
    using assms that by (auto simp: bridge_inv_def states_ok_def)
  then show ?thesis
    by (auto simp: handleDCSend_def LookupDCSendState_def enqueueWork_def Let_def
        split: option.splits sum.splits)
qed

end
