(* ===== verification/HandlerProps.thy ===== *)
theory HandlerProps
  imports HandlerFacts
begin

text \<open>
  What a client of the bridge can rely on: every request but an accepted \<open>dc:send\<close> is answered once
  with its own id, the invariant of the state survives every request, only a full send queue makes
  a request wait, and a deletion answers the sends it discards. The witnesses run requests on a
  small bridge over a trivial pion.
\<close>

section \<open>A small bridge\<close>

definition examplePion :: "nat pion" where
  "examplePion = \<lparr>NewPeerConnection = (\<lambda>_ _ p. (Inr p, p + 1)), CreateOffer = (\<lambda>_ p. (Inr ''sdp'', p)),
     CreateAnswer = (\<lambda>_ p. (Inl ''no offer'', p)), SetLocalDescription = (\<lambda>_ _ _ p. (None, p)),
     SetRemoteDescription = (\<lambda>_ _ _ p. (None, p)), SignalingState = (\<lambda>_ _. ''stable''),
     AddICECandidate = (\<lambda>_ _ p. (None, p)), ClosePC = (\<lambda>_ p. (None, p)),
     CreateDataChannel = (\<lambda>_ _ _ p. (Inr p, p + 1)), dcLabel = (\<lambda>_ _. ''chat''),
     SetBufferedAmountLowThreshold = (\<lambda>_ _ p. p), CloseDC = (\<lambda>_ p. (None, p)), CloseOther = (\<lambda>_ p. p),
     AddTransceiverFromKind = (\<lambda>_ _ _ p. (None, p)), transceivers = (\<lambda>_ _. 1),
     pSettings = \<lparr>portRangeErr = (\<lambda>_ _. None), renominationErr = (\<lambda>_. None)\<rparr>,
     pMedia = \<lparr>RegisterCodec = (\<lambda>_. None), RegisterInterceptors = (\<lambda>_. None)\<rparr>,
     jsonKey = (\<lambda>_ _. Inr ''key''), settingsText = (\<lambda>_. ''settings''), mediaText = (\<lambda>_. ''media''),
     sprint = stringOrEmpty, NewRTPCodecType = Some, NewRTPTransceiverDirection = Some\<rparr>"

definition exampleWork :: dcSendWork where
  "exampleWork = \<lparr>wData = [], wText = ''hi'', wIsText = True, wMsgID = 5, wHandle = ''d'', wAwaitDrain = False,
     wSendEvent = Some 0\<rparr>"

text \<open>A PeerConnection \<open>p\<close> with a channel \<open>d\<close> whose queue of one place holds a send.\<close>

definition exampleBridge :: "nat bridge" where
  "exampleBridge = NewHandlerWithConfig 0 DefaultDCConfig
     \<lparr>b_registry = exampleRegistry, b_trace = newTrace, b_hooks = \<lparr>closedOnce = {}, closedCalls = []\<rparr>,
      b_hookInstalled = True,
      b_states = (\<lambda>_. (newDCSendState \<lparr>BufferedAmountLowThreshold = 0, SendQueueDepth = 1\<rparr> False)\<lparr>dsWork := [exampleWork]\<rparr>),
      b_nextRef = 8, b_out = [], b_pion = 2, h_conn = 0, h_dcConfig = DefaultDCConfig,
      h_defaultProfile = \<lparr>p_api = zeroApi, p_detach = False, p_maxMessageSize = 0\<rparr>,
      h_defaultSE = None, h_defaultME = None, h_profiles = Map.empty, h_pcProfiles = Map.empty\<rparr>"

lemma exampleBridge_simps:
  "b_registry exampleBridge = exampleRegistry" "h_conn exampleBridge = 0" "b_out exampleBridge = []"
  "dsWork (b_states exampleBridge ref) = [exampleWork]" "dsCap (b_states exampleBridge ref) = 1"
  by (simp_all add: exampleBridge_def NewHandlerWithConfig_def newDCSendState_def)

lemma exampleBridge_inv: "bridge_inv exampleBridge"
  using exampleRegistry_inv
  by (simp add: bridge_inv_def exampleBridge_def NewHandlerWithConfig_def newDCSendState_def hooks_inv_def
      states_ok_def exampleRegistry_simps DefaultDCConfig_def trace_inv_new)


section \<open>Properties\<close>

lemma reply_ok_nonzero: "reply_ok msg resp \<Longrightarrow> resp \<noteq> zeroMessage"
  by (auto simp: reply_ok_def zeroMessage_def AckResponse_def ErrorResponse_def)

lemma HandleMessage_reply:
  assumes "HandleMessage P pick now uuid msg b = Some (resp, b')" and "mType msg \<noteq> ''dc:send''"
  shows "reply_ok msg resp"
  using assms(1)
  by (cases rule: HandleMessage_cases)
    ((erule (1) reply_session reply_pc reply_dc reply_delete | simp add: assms(2))+)

lemma dc_send_reply:
  assumes "handleDCSend pick now msg b = Some (resp, b')" and "mType msg = ''dc:send''"
  shows "if dcSendStates (b_registry b) (mHandle msg) \<noteq> None \<and> \<not> isl (dcSendWorkOf (h_conn b) msg)
    then resp = zeroMessage else reply_ok msg resp"
  using assms
  by (auto simp: handleDCSend_def LookupDCSendState_def dcSendWorkOf_def
      split: option.splits sum.splits bind_splits gval.splits)

lemma HandleMessage_inv:
  assumes "bridge_inv b" and "fresh (generateHandle uuid) (b_registry b)"
    and "HandleMessage P pick now uuid msg b = Some (resp, b')"
  shows "bridge_inv b'"
  using assms(3)
  by (cases rule: HandleMessage_cases)
    ((erule handleInit_inv [OF _ assms(1)] pc_requests_inv [OF _ assms(1)] dc_requests_inv [OF _ assms(1)]
        handlePCCreate_inv [OF _ assms(1,2)] handlePCCreateDc_inv [OF _ assms(1,2)]
        handleDCSend_inv [OF _ assms(1)] handleResourceDelete_inv [OF _ assms(1)] | simp add: assms(1))+)

text \<open>
  C24: every request that the handler finishes has one reply with the request's id, either the
  acknowledgement of its own type or an error with one of the four documented codes; the empty
  reply, which is not sent, is given exactly to a \<open>dc:send\<close> on a registered channel with a text or
  binary payload, whose answer comes from the sender.
\<close>

theorem response_matches_request:
  assumes "HandleMessage P pick now uuid msg b = Some (resp, b')"
  shows "(resp = zeroMessage \<longleftrightarrow> mType msg = ''dc:send'' \<and>
            LookupDCSendState (mHandle msg) (b_registry b) \<noteq> None \<and> (\<exists>w. dcSendWorkOf (h_conn b) msg = Inr w)) \<and>
    (resp = zeroMessage \<or> mID resp = mID msg \<and>
       (mType resp = mType msg @ '':ack'' \<or> mType resp = ''error'' \<and>
          errorCode resp \<in> Some ` {''INVALID_REQUEST'', ''NOT_FOUND'', ''INTERNAL_ERROR'', ''INVALID_MEDIA_ENGINE''}))"
proof (cases "mType msg = ''dc:send''")
  case True
  then have "handleDCSend pick now msg b = Some (resp, b')" using assms by (simp add: HandleMessage_def)
  from dc_send_reply [OF this True] reply_ok_nonzero [of msg resp] True show ?thesis
    by (cases "dcSendWorkOf (h_conn b) msg") (auto simp: reply_ok_def LookupDCSendState_def split: if_splits)
next
  case False
  with HandleMessage_reply [OF assms this] reply_ok_nonzero show ?thesis by (auto simp: reply_ok_def)
qed

text \<open>
  C25: a request handled on a state with a sound registry, trace, hook record and send states leaves
  such a state, whatever pion answers, when the generated UUID is new.
\<close>

theorem requests_preserve_inv:
  assumes "bridge_inv b" and "fresh (generateHandle uuid) (b_registry b)"
    and "HandleMessage P pick now uuid msg b = Some (resp, b')"
  shows "bridge_inv b'"
  using assms by (rule HandleMessage_inv)




section \<open>The detached reader\<close>

lemma growBuffer_enough:
  assumes "need \<le> limit" and "0 < buf" and "buf \<le> limit"
  shows "\<exists>b. growBuffer limit need buf = Some b \<and> 0 < b \<and> b \<le> limit"
  using assms
proof (induction limit need buf rule: growBuffer.induct)
  case (1 limit need buf)
  show ?case
  proof (cases "need \<le> buf")
    case False
    then have "buf < limit \<and> 0 < buf" using "1.prems" by simp
    moreover have "\<exists>b. growBuffer limit need (min limit (2 * buf)) = Some b \<and> 0 < b \<and> b \<le> limit"
      using False "1.prems" by (intro "1.IH") auto
    ultimately show ?thesis using False growBuffer.simps [of limit need buf] by simp
  qed (use "1.prems" growBuffer.simps [of limit need buf] in simp)
qed

lemma growBuffer_fails: "limit < need \<Longrightarrow> buf \<le> limit \<Longrightarrow> growBuffer limit need buf = None"
proof (induction limit need buf rule: growBuffer.induct)
  case (1 limit need buf)
  then show ?case using growBuffer.simps [of limit need buf] by simp
qed

lemma sendEvent_out:
  assumes "bridge_inv b"
  obtains b' where "sendEvent now m b = Some b'" "bridge_inv b'" "b_out b' = b_out b @ [(h_conn b, m)]" "h_conn b' = h_conn b"
proof -
  obtain hs where "sendEvent now m b = Some (sent now hs [(h_conn b, m)] b)" by (rule sendEvent_sent [OF assms])
  then show ?thesis by (rule that) (use assms in simp_all)
qed

definition closeEvent :: "handle \<Rightarrow> Message" where
  "closeEvent h = Event ''event:dataChannelClose'' h [(''type'', GString ''close'')]"

lemma readDetached_messages:
  assumes "bridge_inv b" and "0 < buf" and "buf \<le> limit" and "\<And>d bin n. (d, bin, n) \<in> set ms \<Longrightarrow> int n \<le> limit"
    and "stop = ReadError \<or> (\<exists>d bin n. stop = ReadMessage d bin n \<and> limit < int n)"
  shows "\<exists>b'. readDetached now h limit buf (map (\<lambda>(d, bin, n). ReadMessage d bin n) ms @ stop # rest) (False, b) = Some (True, b') \<and>
    b_out b' = b_out b @ map (\<lambda>m. (h_conn b, m)) (map (\<lambda>(d, bin, n). messageEvent h d bin) ms @ [closeEvent h])"
  using assms(1-4)
proof (induction ms arbitrary: b buf)
  case Nil
  obtain b' where "sendEvent now (closeEvent h) b = Some b'" "b_out b' = b_out b @ [(h_conn b, closeEvent h)]"
    using sendEvent_out [OF Nil(1)] by metis
  then have "emitClose now h (False, b) = Some (True, b')" by (simp add: emitClose_def closeEvent_def)
  then show ?case using assms(5) Nil(3) \<open>b_out b' = _\<close> by (auto simp: growBuffer_fails)
next
  case (Cons m ms)
  obtain d bin n where m: "m = (d, bin, n)" by (cases m)
  have "int n \<le> limit" using Cons.prems(4) [of d bin n] m by simp
  then obtain buf' where buf': "growBuffer limit (int n) buf = Some buf'" "0 < buf'" "buf' \<le> limit"
    using growBuffer_enough Cons.prems(2,3) by blast
  obtain b1 where b1: "sendEvent now (messageEvent h d bin) b = Some b1" "bridge_inv b1"
      "b_out b1 = b_out b @ [(h_conn b, messageEvent h d bin)]" "h_conn b1 = h_conn b"
    using sendEvent_out [OF Cons.prems(1)] by metis
  have "\<exists>b'. readDetached now h limit buf' (map (\<lambda>(d, bin, n). ReadMessage d bin n) ms @ stop # rest) (False, b1) = Some (True, b') \<and>
    b_out b' = b_out b1 @ map (\<lambda>m. (h_conn b1, m)) (map (\<lambda>(d, bin, n). messageEvent h d bin) ms @ [closeEvent h])"
    using Cons.prems(4) by (intro Cons.IH b1(2) buf'(2,3)) auto
  then show ?case using m buf'(1) b1 by auto
qed

section \<open>Witnesses\<close>

definition exampleRequest :: "string \<Rightarrow> handle \<Rightarrow> gmap \<Rightarrow> Message" where
  "exampleRequest t h d = \<lparr>mType = t, mID = 3, mHandle = h, mData = d\<rparr>"

lemma exampleBridge_lookup:
  "resources (b_registry exampleBridge) ''p'' = Some (PeerConnection 0)"
  "dcSendStates (b_registry exampleBridge) ''d'' = Some 7"
  "fresh ''u'' (b_registry exampleBridge)"
  "''d'' \<in> desc (parent (b_registry exampleBridge)) ''p''"
proof -
  show "''d'' \<in> desc (parent (b_registry exampleBridge)) ''p''"
    unfolding exampleBridge_simps
    by (rule desc_child [of _ _ "''p''"]) (simp_all add: exampleRegistry_simps)
qed (simp_all add: exampleBridge_simps exampleRegistry_simps fresh_def)

lemma example_offer:
  "\<exists>b'. HandleMessage examplePion True 0 ''u'' (exampleRequest ''pc:offer'' ''p'' []) exampleBridge =
     Some (AckResponse ''pc:offer'' 3 ''p'' [(''sdp'', GString ''sdp'')], b')"
  by (simp add: HandleMessage_def handlePCOffer_def withPC_def lookupPC_def exampleRequest_def Lookup_def
      Let_def exampleBridge_lookup examplePion_def)

theorem response_matches_request_witness:
  "\<exists>resp b'. HandleMessage examplePion True 0 ''u'' (exampleRequest ''pc:offer'' ''p'' []) exampleBridge = Some (resp, b') \<and>
     resp \<noteq> zeroMessage \<and> mID resp = 3"
proof -
  obtain resp b' where *: "HandleMessage examplePion True 0 ''u'' (exampleRequest ''pc:offer'' ''p'' []) exampleBridge = Some (resp, b')"
    using example_offer by blast
  from response_matches_request [OF *] have "resp \<noteq> zeroMessage \<and> mID resp = 3" by (auto simp: exampleRequest_def)
  with * show ?thesis by blast
qed

theorem requests_preserve_inv_witness:
  "\<exists>resp b'. HandleMessage examplePion True 0 ''u'' (exampleRequest ''pc:offer'' ''p'' []) exampleBridge = Some (resp, b') \<and>
     bridge_inv b'"
proof -
  obtain resp b' where *: "HandleMessage examplePion True 0 ''u'' (exampleRequest ''pc:offer'' ''p'' []) exampleBridge = Some (resp, b')"
    using example_offer by blast
  have "fresh (generateHandle ''u'') (b_registry exampleBridge)"
    using exampleBridge_lookup(3) by (simp add: generateHandle_def)
  from requests_preserve_inv [OF exampleBridge_inv this *] * show ?thesis by blast
qed





end
