(* ===== verification/Server.thy ===== *)
theory Server
  imports HandlerProps "HOL-Library.Sublist"
begin

text \<open>
  The connection loop of \<^verbatim>\<open>server.go\<close>: the message pool, the processing of one frame, and the
  WebSocket read loop with its token check. \<open>msgpack.Unmarshal\<close> is the parameter \<open>decode\<close>, which
  decodes into the message it is given; \<open>panics\<close> tells whether handling a message panics, with the
  text and the state it leaves. What \<open>sync.Pool\<close>, the clock, the UUID generator and \<open>select\<close> choose
  for a frame is in its \<open>frameEnv\<close>. The queue between these replies and the socket is the subject
  of theory \<open>Session\<close>.
\<close>

section \<open>Message pool\<close>

definition newMessage :: Message where
  "newMessage = \<lparr>mType = [], mID = 0, mHandle = [], mData = []\<rparr>"

text \<open>The pool hands out any of its messages (\<open>i\<close>) or a new one.\<close>

definition getMessage :: "nat \<Rightarrow> Message list \<Rightarrow> Message \<times> Message list" where
  "getMessage i pool = (if i < length pool then (pool ! i, take i pool @ drop (Suc i) pool) else (newMessage, pool))"

definition putMessage :: "Message \<Rightarrow> Message list \<Rightarrow> Message list" where
  "putMessage m pool = m\<lparr>mType := [], mID := 0, mHandle := [], mData := []\<rparr> # pool"

section \<open>Frames\<close>

record Server =
  srvToken :: string

definition NewServer :: "string \<Rightarrow> Server" where
  "NewServer token = \<lparr>srvToken = token\<rparr>"

record frameEnv =
  fe_pool :: nat
  fe_pick :: bool
  fe_now :: int
  fe_uuid :: string

type_synonym decoder = "bytes \<Rightarrow> Message \<Rightarrow> string option \<times> Message"
type_synonym 'p panics = "Message \<Rightarrow> 'p bridge \<Rightarrow> (string \<times> 'p bridge) option"

text \<open>\<open>cw.enqueue\<close> of a reply to the handler's own connection.\<close>

definition enqueueReply :: "Message \<Rightarrow> 'p bridge \<Rightarrow> 'p bridge" where
  "enqueueReply m b = b\<lparr>b_out := b_out b @ [(h_conn b, m)]\<rparr>"

text \<open>The part of \<open>processFrame\<close> behind a successful decoding.\<close>

definition dispatch :: "'p pion \<Rightarrow> 'p panics \<Rightarrow> frameEnv \<Rightarrow> Message \<Rightarrow> 'p bridge \<Rightarrow> 'p bridge option" where
  "dispatch P panics env msg b =
     (if mHandle msg \<noteq> [] then Touch (fe_now env) (mHandle msg) (b_registry b) else Some (b_registry b)) \<bind> (\<lambda>r.
       let b1 = b\<lparr>b_registry := r\<rparr>
       in case panics msg b1 of
            Some (text, b2) \<Rightarrow> Some (enqueueReply (ErrorResponse 0 ''FATAL_PANIC'' text True []) b2)
          | None \<Rightarrow>
              HandleMessage P (fe_pick env) (fe_now env) (fe_uuid env) msg b1 \<bind> (\<lambda>(response, b2).
                Some (if mType response \<noteq> [] then enqueueReply response b2 else b2)))"

definition processFrame ::
  "decoder \<Rightarrow> 'p pion \<Rightarrow> 'p panics \<Rightarrow> frameEnv \<Rightarrow> bytes \<Rightarrow> Message list \<times> 'p bridge \<Rightarrow> (Message list \<times> 'p bridge) option" where
  "processFrame decode P panics env data st =
     (let (msg, pool) = getMessage (fe_pool env) (fst st); (err, msg') = decode data msg
      in case err of
           Some e \<Rightarrow> Some (putMessage msg' pool,
             enqueueReply (ErrorResponse 0 ''INVALID_REQUEST'' (''invalid msgpack: '' @ e) False []) (snd st))
         | None \<Rightarrow> dispatch P panics env msg' (snd st) \<bind> (\<lambda>b. Some (putMessage msg' pool, b)))"

text \<open>One round of the read loop; the frame is binary or not. The trace counts frames and bytes.\<close>

definition countRead :: "bytes \<Rightarrow> 'p bridge \<Rightarrow> 'p bridge" where
  "countRead data b =
     (if Enabled (b_trace b)
      then b\<lparr>b_trace := (b_trace b)\<lparr>ReadFrames := ReadFrames (b_trace b) + 1,
               ReadBytes := ReadBytes (b_trace b) + of_nat (length data)\<rparr>\<rparr>
      else b)"

definition readFrame ::
  "decoder \<Rightarrow> 'p pion \<Rightarrow> 'p panics \<Rightarrow> frameEnv \<times> bool \<times> bytes \<Rightarrow> Message list \<times> 'p bridge \<Rightarrow> (Message list \<times> 'p bridge) option" where
  "readFrame decode P panics f st =
     (case f of (env, binary, data) \<Rightarrow>
        let b = countRead data (snd st)
        in if \<not> binary
           then Some (fst st, enqueueReply (ErrorResponse 0 ''INVALID_REQUEST'' ''expected binary message'' False []) b)
           else processFrame decode P panics env data (fst st, b))"

text \<open>The loop ends with the first read error, here the end of the list.\<close>

fun readLoop ::
  "decoder \<Rightarrow> 'p pion \<Rightarrow> 'p panics \<Rightarrow> (frameEnv \<times> bool \<times> bytes) list \<Rightarrow> Message list \<times> 'p bridge \<Rightarrow> (Message list \<times> 'p bridge) option" where
  "readLoop decode P panics [] st = Some st"
| "readLoop decode P panics (f # fs) st = readFrame decode P panics f st \<bind> readLoop decode P panics fs"

datatype wsResult = Unauthorized | UpgradeError | Served

definition handleWebSocket ::
  "Server \<Rightarrow> decoder \<Rightarrow> 'p pion \<Rightarrow> 'p panics \<Rightarrow> string \<Rightarrow> bool \<Rightarrow> conn \<Rightarrow> (frameEnv \<times> bool \<times> bytes) list \<Rightarrow>
   Message list \<times> 'p bridge \<Rightarrow> (wsResult \<times> Message list \<times> 'p bridge) option" where
  "handleWebSocket s decode P panics token upgraded c frames st =
     (if token \<noteq> srvToken s then Some (Unauthorized, st)
      else if \<not> upgraded then Some (UpgradeError, st)
      else readLoop decode P panics frames (fst st, NewHandlerWithConfig c DefaultDCConfig (snd st))
           \<bind> (\<lambda>st'. Some (Served, st')))"

section \<open>The pool does not leak\<close>

definition pool_clean :: "Message list \<Rightarrow> bool" where
  "pool_clean pool \<longleftrightarrow> (\<forall>m \<in> set pool. m = newMessage)"

lemma getMessage_clean:
  assumes "pool_clean pool"
  obtains pool' where "getMessage i pool = (newMessage, pool')" "pool_clean pool'"
proof (cases "i < length pool")
  case True
  with assms have "getMessage i pool = (newMessage, take i pool @ drop (Suc i) pool)"
    by (auto simp: getMessage_def pool_clean_def)
  moreover have "pool_clean (take i pool @ drop (Suc i) pool)"
    using assms by (auto simp: pool_clean_def dest: in_set_takeD in_set_dropD)
  ultimately show ?thesis by (rule that)
next
  case False
  then show ?thesis using that [of pool] assms by (simp add: getMessage_def)
qed

lemma putMessage_clean: "pool_clean pool \<Longrightarrow> pool_clean (putMessage m pool)"
  by (simp add: pool_clean_def putMessage_def newMessage_def)

text \<open>The same loop without the pool: every frame is decoded into a new message.\<close>

fun readFresh ::
  "decoder \<Rightarrow> 'p pion \<Rightarrow> 'p panics \<Rightarrow> (frameEnv \<times> bool \<times> bytes) list \<Rightarrow> 'p bridge \<Rightarrow> 'p bridge option" where
  "readFresh decode P panics [] b = Some b"
| "readFresh decode P panics ((env, binary, data) # fs) b =
     (let b1 = countRead data b
      in (if \<not> binary then Some (enqueueReply (ErrorResponse 0 ''INVALID_REQUEST'' ''expected binary message'' False []) b1)
          else (case decode data newMessage of
                  (Some e, _) \<Rightarrow> Some (enqueueReply (ErrorResponse 0 ''INVALID_REQUEST'' (''invalid msgpack: '' @ e) False []) b1)
                | (None, msg) \<Rightarrow> dispatch P panics env msg b1)) \<bind> readFresh decode P panics fs)"

lemma readFrame_fresh:
  assumes "pool_clean pool"
  shows "\<exists>pool'. pool_clean pool' \<and>
    readFrame decode P panics (env, binary, data) (pool, b) =
      map_option (Pair pool') (readFresh decode P panics [(env, binary, data)] b)"
proof (cases binary)
  case True
  obtain pool1 where pool1: "getMessage (fe_pool env) pool = (newMessage, pool1)" "pool_clean pool1"
    by (rule getMessage_clean [OF assms])
  obtain err msg where d: "decode data newMessage = (err, msg)" by (cases "decode data newMessage")
  have "readFrame decode P panics (env, binary, data) (pool, b) =
      map_option (Pair (putMessage msg pool1)) (readFresh decode P panics [(env, binary, data)] b)"
    using True pool1(1) d
    by (cases "dispatch P panics env msg (countRead data b)")
      (simp_all add: readFrame_def processFrame_def Let_def split: option.splits)
  then show ?thesis using putMessage_clean [OF pool1(2)] by blast
qed (use assms in \<open>auto simp: readFrame_def Let_def\<close>)


section \<open>Replies in order\<close>

text \<open>No send waits in the queue of a channel.\<close>

definition quiet :: "'p bridge \<Rightarrow> bool" where
  "quiet b \<longleftrightarrow> (\<forall>ref. dsWork (b_states b ref) = [])"

lemma quiet_simps [simp]:
  "quiet (b\<lparr>b_registry := r\<rparr>) = quiet b" "quiet (b\<lparr>b_trace := t\<rparr>) = quiet b" "quiet (b\<lparr>b_hooks := k\<rparr>) = quiet b"
  "quiet (b\<lparr>b_out := ms\<rparr>) = quiet b" "quiet (b\<lparr>b_pion := p\<rparr>) = quiet b" "quiet (b\<lparr>h_dcConfig := c\<rparr>) = quiet b"
  "quiet (b\<lparr>h_defaultProfile := q\<rparr>) = quiet b" "quiet (b\<lparr>h_defaultSE := d\<rparr>) = quiet b" "quiet (b\<lparr>h_defaultME := d\<rparr>) = quiet b"
  "quiet (b\<lparr>h_profiles := f\<rparr>) = quiet b" "quiet (b\<lparr>h_pcProfiles := g\<rparr>) = quiet b"
  by (simp_all add: quiet_def)

text \<open>A request only appends to the output, nothing if no send is queued, and stays on its connection.\<close>

definition grows :: "'p bridge \<Rightarrow> 'p bridge \<Rightarrow> bool" where
  "grows b b' \<longleftrightarrow> h_conn b' = h_conn b \<and> (\<exists>ms. b_out b' = b_out b @ ms \<and> (quiet b \<longrightarrow> ms = [] \<and> quiet b'))"

lemma grows_simps [simp]:
  "grows b b" "grows b (b'\<lparr>b_pion := p\<rparr>) = grows b b'" "grows b (b'\<lparr>b_registry := r\<rparr>) = grows b b'"
  "grows b (b'\<lparr>b_trace := t\<rparr>) = grows b b'"
  "grows b (b'\<lparr>b_registry := r, b_trace := t\<rparr>) = grows b b'"
  "grows b (setPCProfile h q b') = grows b b'" "grows b (forgetPCProfile h b') = grows b b'"
  "grows b (notifyClosed h b') = grows b b'"
  by (auto simp: grows_def quiet_def setPCProfile_def forgetPCProfile_def notifyClosed_def Let_def split: prod.splits)

lemma grows_trans: "grows a b \<Longrightarrow> grows b c \<Longrightarrow> grows a c"
  by (auto simp: grows_def)

lemma grows_threshold: "grows b b' \<Longrightarrow> grows b (b'\<lparr>b_pion := p, b_states := (b_states b')(ref := b_states b' ref\<lparr>dsThreshold := n\<rparr>)\<rparr>)"
  by (auto simp: grows_def quiet_def)

lemma grows_start: "grows b b' \<Longrightarrow> grows b (startDCSendGoroutine P dc h q b')"
  by (auto simp: grows_def quiet_def startDCSendGoroutine_def newDCSendState_def Let_def split: prod.splits)

lemma sendAll_out: "sendAll now ms b = Some b' \<Longrightarrow> h_conn b' = h_conn b \<and> b_out b' = b_out b @ ms \<and> b_states b' = b_states b"
proof (induction ms arbitrary: b)
  case (Cons x ms)
  obtain c m where x: "x = (c, m)" by (cases x)
  from Cons.prems obtain r where "sendAll now ms (b\<lparr>b_registry := r, b_out := b_out b @ [(c, m)]\<rparr>) = Some b'"
    by (auto simp: x split: bind_splits if_splits)
  from Cons.IH [OF this] show ?case by (simp add: x)
qed simp

lemma closeState_grows: "closeState now ref b = Some b' \<Longrightarrow> grows b b'"
  using sendAll_out by (fastforce simp: closeState_def Let_def grows_def quiet_def split: if_splits)

lemma stopDC_grows: "stopDCSendGoroutine now h b = Some b' \<Longrightarrow> grows b b'"
  by (auto simp: stopDCSendGoroutine_def Let_def grows_def split: bind_splits option.splits prod.splits
      dest!: closeState_grows)

lemma shutdown_grows: "shutdownAll P now log b = Some b' \<Longrightarrow> grows b b'"
proof (induction log arbitrary: b)
  case (Cons s log)
  from Cons.prems obtain b1 where b1: "shutdownStep P now s b = Some b1" "shutdownAll P now log b1 = Some b'"
    by (auto split: bind_splits)
  have "grows b b1" using b1(1) closeState_grows
    by (cases "(P, now, s, b)" rule: shutdownStep.cases) auto
  then show ?case using Cons.IH [OF b1(2)] grows_trans by blast
qed simp

lemma lookup_grows:
  "lookupPC now msg b = (x, b') \<Longrightarrow> grows b b'" "lookupDC now msg b = (x, b') \<Longrightarrow> grows b b'"
  by (auto simp: lookupPC_def lookupDC_def Let_def split: if_splits prod.splits option.splits resource.splits)

lemma pc_grows:
  "handlePCOffer P now msg b = Some (resp, b') \<Longrightarrow> grows b b'"
  "handlePCAnswer P now msg b = Some (resp, b') \<Longrightarrow> grows b b'"
  "handlePCSetLocalDesc P now msg b = Some (resp, b') \<Longrightarrow> grows b b'"
  "handlePCSetRemoteDesc P now msg b = Some (resp, b') \<Longrightarrow> grows b b'"
  "handlePCAddIce P now msg b = Some (resp, b') \<Longrightarrow> grows b b'"
  "handlePCClose P now msg b = Some (resp, b') \<Longrightarrow> grows b b'"
  "handlePCAddTransceiver P now msg b = Some (resp, b') \<Longrightarrow> grows b b'"
  "handlePCCreateDc P now uuid msg b = Some (resp, b') \<Longrightarrow> grows b b'"
  unfolding handlers handlePCCreateDc_def
  by (erule withPC_cases; drule lookup_grows(1);
      auto simp: Let_def intro: grows_start split: prod.splits sum.splits option.splits if_splits)+

lemma dc_grows:
  "handleDCSetBufferedAmountLowThreshold P now msg b = Some (resp, b') \<Longrightarrow> grows b b'"
  "handleDCClose P now msg b = Some (resp, b') \<Longrightarrow> grows b b'"
  unfolding handlers
  by (erule withDC_cases; drule lookup_grows(2);
      auto simp: Let_def intro: grows_threshold split: prod.splits option.splits bind_splits dest: stopDC_grows grows_trans)+

lemma session_grows:
  "handleInit P msg b = Some (resp, b') \<Longrightarrow> grows b b'"
  "handlePCCreate P now uuid msg b = Some (resp, b') \<Longrightarrow> grows b b'"
proof -
  have "grows b b1" if "chooseProfile P d b = Inr (p, b1)" for d p b1
    using that by (auto simp: chooseProfile_def profileFor_def grows_def Let_def bindR_def split: if_splits sum.splits option.splits)
  then show "handlePCCreate P now uuid msg b = Some (resp, b') \<Longrightarrow> grows b b'"
    by (fastforce simp: handlePCCreate_def Let_def split: sum.splits prod.splits)
  show "handleInit P msg b = Some (resp, b') \<Longrightarrow> grows b b'"
    by (auto simp: handleInit_def Let_def grows_def split: sum.splits option.splits if_splits)
qed

lemma delete_grows: "handleResourceDelete P now msg b = Some (resp, b') \<Longrightarrow> grows b b'"
  by (auto simp: handleResourceDelete_def Let_def case_prod_unfold
      split: if_splits bind_splits sum.splits registry_error.splits dest!: shutdown_grows) (auto simp: grows_def forgetPCProfile_def)

lemma HandleMessage_grows:
  assumes "HandleMessage P pick now uuid msg b = Some (resp, b')" and "mType msg \<noteq> ''dc:send''"
  shows "grows b b'"
  using assms(1)
  by (cases rule: HandleMessage_cases)
    ((erule session_grows pc_grows dc_grows delete_grows | simp add: assms(2))+)


lemma countRead_simps [simp]:
  "b_registry (countRead data b) = b_registry b" "h_conn (countRead data b) = h_conn b" "b_out (countRead data b) = b_out b"
  "bridge_inv (countRead data b) = bridge_inv b" "quiet (countRead data b) = quiet b"
  by (simp_all add: countRead_def bridge_inv_def trace_inv_def)

lemma dispatch_reply:
  assumes inv: "bridge_inv b" and fresh: "fresh (generateHandle (fe_uuid env)) (b_registry b)"
    and type: "mType msg \<noteq> ''dc:send''"
  shows "\<exists>resp ms b'. dispatch P (\<lambda>_ _. None) env msg b = Some b' \<and> bridge_inv b' \<and> reply_ok msg resp \<and>
    h_conn b' = h_conn b \<and> b_out b' = b_out b @ ms @ [(h_conn b, resp)] \<and> (quiet b \<longrightarrow> ms = [] \<and> quiet b')"
proof -
  obtain hs where hs: "(if mHandle msg \<noteq> [] then Touch (fe_now env) (mHandle msg) (b_registry b) else Some (b_registry b)) =
      Some (fold (touchAt (fe_now env)) hs (b_registry b))"
    using touch_handle [OF inv] by blast
  let ?b1 = "sent (fe_now env) hs [] b"
  have b1: "b\<lparr>b_registry := fold (touchAt (fe_now env)) hs (b_registry b)\<rparr> = ?b1" by (simp add: sent_def)
  have inv1: "bridge_inv ?b1" using inv by simp
  have fresh1: "fresh (generateHandle (fe_uuid env)) (b_registry ?b1)" using fresh by (simp add: fresh_def)
  obtain resp b2 where b2: "HandleMessage P (fe_pick env) (fe_now env) (fe_uuid env) msg ?b1 = Some (resp, b2)"
    using HandleMessage_total [OF inv1 type] by fastforce
  have r: "reply_ok msg resp" by (rule HandleMessage_reply [OF b2 type])
  then have "mType resp \<noteq> []" by (auto simp: reply_ok_def)
  then have "dispatch P (\<lambda>_ _. None) env msg b = Some (enqueueReply resp b2)"
    using hs b2 by (simp add: dispatch_def b1)
  moreover obtain ms where "h_conn b2 = h_conn b" "b_out b2 = b_out b @ ms" "quiet b \<longrightarrow> ms = [] \<and> quiet b2"
    using HandleMessage_grows [OF b2 type] by (auto simp: grows_def sent_def)
  moreover have "bridge_inv b2" by (rule HandleMessage_inv [OF inv1 fresh1 b2])
  ultimately show ?thesis using r by (auto simp: enqueueReply_def)
qed

lemma readFrame_reply:
  assumes "bridge_inv b" and "pool_clean pool" and "decode data newMessage = (None, msg)"
    and "mType msg \<noteq> ''dc:send''" and "fresh (generateHandle (fe_uuid env)) (b_registry b)"
  shows "\<exists>resp ms pool' b'. readFrame decode P (\<lambda>_ _. None) (env, True, data) (pool, b) = Some (pool', b') \<and>
    bridge_inv b' \<and> pool_clean pool' \<and> reply_ok msg resp \<and> h_conn b' = h_conn b \<and>
    b_out b' = b_out b @ ms @ [(h_conn b, resp)] \<and> (quiet b \<longrightarrow> ms = [] \<and> quiet b')"
proof -
  obtain pool' where "pool_clean pool'" "readFrame decode P (\<lambda>_ _. None) (env, True, data) (pool, b) =
      map_option (Pair pool') (readFresh decode P (\<lambda>_ _. None) [(env, True, data)] b)"
    using readFrame_fresh [OF assms(2)] by blast
  moreover obtain resp ms b' where "dispatch P (\<lambda>_ _. None) env msg (countRead data b) = Some b'" "bridge_inv b'"
      "reply_ok msg resp" "h_conn b' = h_conn b" "b_out b' = b_out b @ ms @ [(h_conn b, resp)]" "quiet b \<longrightarrow> ms = [] \<and> quiet b'"
    using dispatch_reply [of "countRead data b" env msg P] assms(1,4,5) by auto
  ultimately show ?thesis using assms(3) by auto
qed


text \<open>What the UUID generator provides: the string drawn for a frame is unused when the frame is handled.\<close>

definition uuids_fresh :: "decoder \<Rightarrow> 'p pion \<Rightarrow> (frameEnv \<times> bool \<times> bytes) list \<Rightarrow> Message list \<times> 'p bridge \<Rightarrow> bool" where
  "uuids_fresh decode P fs st \<longleftrightarrow> (\<forall>k pool' b'. k < length fs \<longrightarrow>
     readLoop decode P (\<lambda>_ _. None) (take k fs) st = Some (pool', b') \<longrightarrow>
     fresh (generateHandle (fe_uuid (fst (fs ! k)))) (b_registry b'))"

lemma uuids_fresh_Cons:
  assumes "uuids_fresh decode P (f # fs) st"
  shows "fresh (generateHandle (fe_uuid (fst f))) (b_registry (snd st))"
    "readFrame decode P (\<lambda>_ _. None) f st = Some st' \<Longrightarrow> uuids_fresh decode P fs st'"
proof -
  note fresh = assms [unfolded uuids_fresh_def, rule_format]
  show "fresh (generateHandle (fe_uuid (fst f))) (b_registry (snd st))"
    using fresh [of 0 "fst st" "snd st"] by simp
  show "readFrame decode P (\<lambda>_ _. None) f st = Some st' \<Longrightarrow> uuids_fresh decode P fs st'"
    unfolding uuids_fresh_def using fresh [of "Suc _"] by simp
qed

lemma readLoop_replies:
  assumes "bridge_inv b" and "pool_clean pool"
    and "list_all2 (\<lambda>(env, binary, data) msg. binary \<and> decode data newMessage = (None, msg) \<and> mType msg \<noteq> ''dc:send'') fs msgs"
    and "uuids_fresh decode P fs (pool, b)"
  shows "\<exists>pool' b' replies out. readLoop decode P (\<lambda>_ _. None) fs (pool, b) = Some (pool', b') \<and> bridge_inv b' \<and>
    list_all2 reply_ok msgs replies \<and> b_out b' = b_out b @ out \<and> subseq (map (Pair (h_conn b)) replies) out \<and>
    (quiet b \<longrightarrow> out = map (Pair (h_conn b)) replies)"
  using assms(3,1,2,4)
proof (induction fs msgs arbitrary: pool b rule: list_all2_induct)
  case Nil
  then show ?case by auto
next
  case (Cons f fs msg msgs)
  obtain env data where f: "f = (env, True, data)" "decode data newMessage = (None, msg)" "mType msg \<noteq> ''dc:send''"
    using Cons.hyps(1) by (cases f) auto
  have "fresh (generateHandle (fe_uuid env)) (b_registry b)" using uuids_fresh_Cons(1) [OF Cons.prems(3)] f(1) by simp
  from readFrame_reply [of b pool decode data msg env P, OF Cons.prems(1,2) f(2,3) this] obtain resp ms pool1 b1 where
    1: "readFrame decode P (\<lambda>_ _. None) f (pool, b) = Some (pool1, b1)" "bridge_inv b1" "pool_clean pool1"
      "reply_ok msg resp" "h_conn b1 = h_conn b" "b_out b1 = b_out b @ ms @ [(h_conn b, resp)]" "quiet b \<longrightarrow> ms = [] \<and> quiet b1"
    unfolding f(1) by blast
  have "uuids_fresh decode P fs (pool1, b1)" by (rule uuids_fresh_Cons(2) [OF Cons.prems(3) 1(1)])
  from Cons.IH [OF 1(2,3) this] obtain pool' b' replies out where
    "readLoop decode P (\<lambda>_ _. None) fs (pool1, b1) = Some (pool', b')" "bridge_inv b'" "list_all2 reply_ok msgs replies"
      "b_out b' = b_out b1 @ out" "subseq (map (Pair (h_conn b1)) replies) out" "quiet b1 \<longrightarrow> out = map (Pair (h_conn b1)) replies"
    by blast
  then show ?case using 1
    by (intro exI [of _ pool'] exI [of _ b'] exI [of _ "resp # replies"] exI [of _ "ms @ (h_conn b, resp) # out"])
      (simp add: list_emb_append2)
qed

section \<open>Properties\<close>

text \<open>
  C15: recycling messages through the pool is invisible: with any pool of cleared messages and any
  choice of the recycled ones, a connection behaves as if every frame were decoded into a new
  message, and the pool stays cleared. No field of one request leaks into another.
\<close>

theorem pool_invisible:
  assumes "pool_clean pool"
  shows "\<exists>pool'. pool_clean pool' \<and>
    readLoop decode P panics frames (pool, b) = map_option (Pair pool') (readFresh decode P panics frames b)"
  using assms
proof (induction frames arbitrary: pool b)
  case Nil
  then show ?case by auto
next
  case (Cons f fs)
  obtain env binary data where f: "f = (env, binary, data)" by (cases f)
  obtain pool1 where 1: "pool_clean pool1" "readFrame decode P panics f (pool, b) =
      map_option (Pair pool1) (readFresh decode P panics [f] b)"
    using readFrame_fresh [OF Cons.prems] unfolding f by blast
  have split: "readFresh decode P panics (f # fs) b = readFresh decode P panics [f] b \<bind> readFresh decode P panics fs"
    by (cases f) (simp add: Let_def)
  show ?case
  proof (cases "readFresh decode P panics [f] b")
    case None
    then show ?thesis unfolding split using 1 by (intro exI [of _ pool1]) simp
  next
    case (Some b1)
    obtain pool' where "pool_clean pool'" "readLoop decode P panics fs (pool1, b1) =
        map_option (Pair pool') (readFresh decode P panics fs b1)"
      using Cons.IH [OF 1(1)] by blast
    then show ?thesis unfolding split using 1 Some by (intro exI [of _ pool']) simp
  qed
qed

text \<open>
  a connection that sends well-formed requests other than \<open>dc:send\<close> is served to the end: every
  request gets its reply, an acknowledgement of its type or an error, under its own id, on this
  connection, and the replies come in the order of the requests. New UUIDs are assumed to be unused.
\<close>

theorem requests_answered_in_order:
  assumes "bridge_inv b" and "pool_clean pool"
    and "list_all2 (\<lambda>(env, binary, data) msg. binary \<and> decode data newMessage = (None, msg) \<and> mType msg \<noteq> ''dc:send'') frames msgs"
    and "uuids_fresh decode P frames (pool, b)"
  shows "\<exists>pool' b' replies out. readLoop decode P (\<lambda>_ _. None) frames (pool, b) = Some (pool', b') \<and> bridge_inv b' \<and>
    list_all2 (\<lambda>msg resp. mID resp = mID msg \<and> (mType resp = mType msg @ '':ack'' \<or> mType resp = ''error'')) msgs replies \<and>
    b_out b' = b_out b @ out \<and> subseq (map (Pair (h_conn b)) replies) out"
proof -
  obtain pool' b' replies out where
    "readLoop decode P (\<lambda>_ _. None) frames (pool, b) = Some (pool', b')" "bridge_inv b'" "list_all2 reply_ok msgs replies"
      "b_out b' = b_out b @ out" "subseq (map (Pair (h_conn b)) replies) out"
    using readLoop_replies [of b pool decode frames msgs P, OF assms] by blast
  moreover from this(3) have
    "list_all2 (\<lambda>msg resp. mID resp = mID msg \<and> (mType resp = mType msg @ '':ack'' \<or> mType resp = ''error'')) msgs replies"
    by (rule list_all2_mono) (auto simp: reply_ok_def)
  ultimately show ?thesis by blast
qed


section \<open>Witnesses\<close>

definition exampleDecode :: decoder where
  "exampleDecode data m = (if data = [] then (Some ''EOF'', m) else (None, exampleRequest ''pc:offer'' ''p'' []))"

definition exampleFrames :: "(frameEnv \<times> bool \<times> bytes) list" where
  "exampleFrames = [(\<lparr>fe_pool = 0, fe_pick = True, fe_now = 0, fe_uuid = ''u''\<rparr>, True, [1])]"

theorem pool_invisible_witness:
  "\<exists>pool'. pool_clean pool' \<and> readLoop exampleDecode examplePion (\<lambda>_ _. None) exampleFrames ([newMessage], exampleBridge) =
     map_option (Pair pool') (readFresh exampleDecode examplePion (\<lambda>_ _. None) exampleFrames exampleBridge)"
proof -
  have "pool_clean [newMessage]" by (simp add: pool_clean_def)
  then show ?thesis by (rule pool_invisible)
qed

theorem requests_answered_in_order_witness:
  "\<exists>pool' b' resp out. readLoop exampleDecode examplePion (\<lambda>_ _. None) exampleFrames ([], exampleBridge) = Some (pool', b') \<and>
     mID resp = 3 \<and> (mType resp = ''pc:offer:ack'' \<or> mType resp = ''error'') \<and>
     b_out b' = out \<and> subseq [(0, resp)] out"
proof -
  have frames: "list_all2 (\<lambda>(env, binary, data) msg. binary \<and> exampleDecode data newMessage = (None, msg) \<and> mType msg \<noteq> ''dc:send'')
      exampleFrames [exampleRequest ''pc:offer'' ''p'' []]"
    by (simp add: exampleFrames_def exampleDecode_def exampleRequest_def)
  have "uuids_fresh exampleDecode examplePion exampleFrames ([], exampleBridge)"
    using exampleBridge_lookup(3) by (simp add: uuids_fresh_def exampleFrames_def generateHandle_def)
  from requests_answered_in_order [OF exampleBridge_inv _ frames this] show ?thesis
    by (fastforce simp: pool_clean_def list_all2_Cons1 exampleRequest_def exampleBridge_simps)
qed

end
