(* ===== verification/WindowedMin.thy ===== *)
theory WindowedMin
  imports Prelude
begin

text \<open>
  The sliding minimum of RTT samples, \<^verbatim>\<open>windowedmin.go\<close>: a deque of samples with increasing
  values, from which old samples are cut by binary search. Times and durations are \<open>int\<close>
  nanoseconds. The deque is compared with the list of all samples pushed.
\<close>

section \<open>Operations\<close>

record sample =
  s_t :: int
  s_v :: int

record windowedMin =
  rackMinRTTWnd :: int
  deque :: "sample list"

definition newWindowedMin :: "int \<Rightarrow> windowedMin" where
  "newWindowedMin window = \<lparr>rackMinRTTWnd = (if window \<le> 0 then 30000000000 else window), deque = []\<rparr>"

text \<open>\<open>sort.Search\<close>: the bisection of \<open>[i, j)\<close>.\<close>

function search :: "(nat \<Rightarrow> bool) \<Rightarrow> nat \<Rightarrow> nat \<Rightarrow> nat" where
  "search f i j = (if i < j then (let h = (i + j) div 2 in if \<not> f h then search f (h + 1) j else search f i h) else i)"
  by pat_completeness auto
termination
  by (relation "measure (\<lambda>(f, i, j). j - i)") auto

declare search.simps [simp del]

definition sortSearch :: "nat \<Rightarrow> (nat \<Rightarrow> bool) \<Rightarrow> nat" where
  "sortSearch n f = search f 0 n"

definition prune_wm :: "int \<Rightarrow> windowedMin \<Rightarrow> windowedMin" where
  "prune_wm now w =
     (if deque w = [] then w
      else (let cutoff = now - rackMinRTTWnd w;
                first = sortSearch (length (deque w)) (\<lambda>i. \<not> s_t (deque w ! i) < cutoff)
            in if first > 0 then w\<lparr>deque := drop first (deque w)\<rparr> else w))"

text \<open>The loop of \<open>Push\<close> that drops the entries at the end that are not smaller.\<close>

function dropLarger :: "int \<Rightarrow> sample list \<Rightarrow> sample list" where
  "dropLarger v d = (if d \<noteq> [] \<and> v \<le> s_v (last d) then dropLarger v (butlast d) else d)"
  by pat_completeness auto
termination
  by (relation "measure (\<lambda>(v, d). length d)") auto

declare dropLarger.simps [simp del]

definition Push_wm :: "int \<Rightarrow> int \<Rightarrow> windowedMin \<Rightarrow> windowedMin" where
  "Push_wm now v w = (let w1 = prune_wm now w in w1\<lparr>deque := dropLarger v (deque w1) @ [\<lparr>s_t = now, s_v = v\<rparr>]\<rparr>)"

definition Min_wm :: "int \<Rightarrow> windowedMin \<Rightarrow> int \<times> windowedMin" where
  "Min_wm now w = (let w1 = prune_wm now w in (if deque w1 = [] then 0 else s_v (hd (deque w1)), w1))"

definition Len_wm :: "windowedMin \<Rightarrow> nat" where
  "Len_wm w = length (deque w)"

section \<open>Bisection\<close>

definition splits_at :: "(nat \<Rightarrow> bool) \<Rightarrow> nat \<Rightarrow> nat \<Rightarrow> bool" where
  "splits_at f n k \<longleftrightarrow> k \<le> n \<and> (\<forall>a < k. \<not> f a) \<and> (\<forall>a. k \<le> a \<longrightarrow> a < n \<longrightarrow> f a)"

lemma search_splits:
  assumes "i \<le> j" and "j \<le> n" and "\<And>a b. a \<le> b \<Longrightarrow> b < n \<Longrightarrow> f a \<Longrightarrow> f b"
    and "\<And>a. a < i \<Longrightarrow> \<not> f a" and "\<And>a. j \<le> a \<Longrightarrow> a < n \<Longrightarrow> f a"
  shows "splits_at f n (search f i j)"
  using assms
proof (induction f i j rule: search.induct)
  case (1 f i j)
  show ?case
  proof (cases "i < j")
    case True
    let ?h = "(i + j) div 2"
    have h: "i \<le> ?h" "?h < j" using True by auto
    show ?thesis
    proof (cases "f ?h")
      case True
      have "splits_at f n (search f i ?h)"
        using True h "1.prems" by (intro "1.IH"(2) [OF \<open>i < j\<close> refl]) auto
      then show ?thesis using True \<open>i < j\<close> search.simps [of f i j] by (simp add: Let_def)
    next
      case False
      have "\<not> f a" if "a < ?h + 1" for a using False "1.prems"(2) "1.prems"(3) [of a ?h] h that by auto
      then have "splits_at f n (search f (?h + 1) j)"
        using False h "1.prems" by (intro "1.IH"(1) [OF \<open>i < j\<close> refl]) auto
      then show ?thesis using False \<open>i < j\<close> search.simps [of f i j] by (simp add: Let_def)
    qed
  next
    case False
    then show ?thesis using "1.prems" search.simps [of f i j] by (auto simp: splits_at_def)
  qed
qed

text \<open>On a list along which the predicate stays true once it is, the search cuts the list at the filter.\<close>

lemma drop_sortSearch:
  assumes "\<And>a b. a \<le> b \<Longrightarrow> b < length xs \<Longrightarrow> P (xs ! a) \<Longrightarrow> P (xs ! b)"
  shows "drop (sortSearch (length xs) (\<lambda>i. P (xs ! i))) xs = filter P xs"
proof -
  define k where "k = sortSearch (length xs) (\<lambda>i. P (xs ! i))"
  have k: "splits_at (\<lambda>i. P (xs ! i)) (length xs) k"
    unfolding k_def sortSearch_def using assms by (intro search_splits) simp_all
  have "\<not> P x" if x: "x \<in> set (take k xs)" for x
  proof -
    from x obtain i where "i < k" "x = xs ! i" by (metis in_set_conv_nth length_take min_less_iff_conj nth_take)
    then show ?thesis using k by (simp add: splits_at_def)
  qed
  moreover have "P x" if x: "x \<in> set (drop k xs)" for x
  proof -
    from x obtain i where "i < length xs - k" "x = xs ! (k + i)"
      by (metis in_set_conv_nth length_drop nth_drop k splits_at_def)
    then show ?thesis using k by (simp add: splits_at_def)
  qed
  ultimately have "filter P (take k xs) = []" "filter P (drop k xs) = drop k xs"
    by (simp_all add: filter_empty_conv filter_id_conv)
  then have "filter P (take k xs @ drop k xs) = drop k xs" by (simp only: filter_append append_Nil)
  then show ?thesis by (simp add: k_def)
qed

section \<open>The window\<close>

text \<open>Times do not decrease and values increase along the deque.\<close>

definition wm_sorted :: "sample list \<Rightarrow> bool" where
  "wm_sorted d \<longleftrightarrow> sorted_wrt (\<lambda>a b. s_t a \<le> s_t b \<and> s_v a < s_v b) d"

lemma prune_filter:
  assumes "wm_sorted (deque w)"
  shows "prune_wm now w = w\<lparr>deque := filter (\<lambda>e. now - rackMinRTTWnd w \<le> s_t e) (deque w)\<rparr>"
proof -
  have "now - rackMinRTTWnd w \<le> s_t (deque w ! b)"
    if "a \<le> b" "b < length (deque w)" "now - rackMinRTTWnd w \<le> s_t (deque w ! a)" for a b
    using that sorted_wrt_nth_less [OF assms [unfolded wm_sorted_def], of a b] by (cases "a = b") auto
  from drop_sortSearch [of "deque w" "\<lambda>e. now - rackMinRTTWnd w \<le> s_t e", OF this]
  show ?thesis by (cases "deque w") (auto simp: prune_wm_def Let_def not_less)
qed

lemma dropLarger_filter:
  assumes "wm_sorted d"
  shows "dropLarger v d = filter (\<lambda>e. s_v e < v) d"
  using assms
proof (induction d rule: rev_induct)
  case Nil
  then show ?case by (simp add: dropLarger.simps)
next
  case (snoc e d)
  have d: "wm_sorted d" "\<forall>x \<in> set d. s_v x < s_v e" using snoc.prems by (auto simp: wm_sorted_def sorted_wrt_append)
  show ?case
  proof (cases "v \<le> s_v e")
    case True
    then show ?thesis using snoc.IH [OF d(1)] by (simp add: dropLarger.simps [of v "d @ [e]"])
  next
    case False
    then have "filter (\<lambda>e. s_v e < v) d = d" using d(2) by (auto simp: filter_id_conv)
    then show ?thesis using False by (simp add: dropLarger.simps [of v "d @ [e]"])
  qed
qed

text \<open>
  The abstraction: \<open>hist\<close> lists all samples in the order of their push. An entry of the deque is a
  sample after which only larger ones were pushed, and samples that old samples can hide are old.
\<close>

fun suffixMinima :: "sample list \<Rightarrow> sample list" where
  "suffixMinima [] = []"
| "suffixMinima (e # es) = (if \<exists>x \<in> set es. s_v x \<le> s_v e then suffixMinima es else e # suffixMinima es)"

lemma suffixMinima_snoc:
  "suffixMinima (es @ [x]) = filter (\<lambda>e. s_v e < s_v x) (suffixMinima es) @ [x]"
  by (induction es) auto

lemma suffixMinima_set: "set (suffixMinima es) \<subseteq> set es"
  by (induction es) auto

lemma suffixMinima_sorted:
  assumes "sorted_wrt (\<lambda>a b. s_t a \<le> s_t b) es"
  shows "wm_sorted (suffixMinima es)"
  using assms
proof (induction es)
  case (Cons e es)
  then show ?case using suffixMinima_set [of es] by (auto simp: wm_sorted_def not_le)
qed (simp add: wm_sorted_def)

lemma suffixMinima_filter:
  assumes "sorted_wrt (\<lambda>a b. s_t a \<le> s_t b) es"
  shows "filter (\<lambda>e. c \<le> s_t e) (suffixMinima es) = suffixMinima (filter (\<lambda>e. c \<le> s_t e) es)"
  using assms
proof (induction es)
  case (Cons e es)
  show ?case
  proof (cases "c \<le> s_t e")
    case True
    then have "filter (\<lambda>e. c \<le> s_t e) es = es" using Cons.prems by (auto simp: filter_id_conv)
    then show ?thesis using True Cons by auto
  qed (use Cons in auto)
qed simp

lemma suffixMinima_hd:
  assumes "es \<noteq> []"
  shows "suffixMinima es \<noteq> [] \<and> s_v (hd (suffixMinima es)) = Min (s_v ` set es)"
  using assms
proof (induction es)
  case (Cons e es)
  show ?case
  proof (cases "es = []")
    case False
    then have IH: "suffixMinima es \<noteq> []" "s_v (hd (suffixMinima es)) = Min (s_v ` set es)" using Cons.IH by simp_all
    have "(\<exists>x \<in> set es. s_v x \<le> s_v e) \<longleftrightarrow> Min (s_v ` set es) \<le> s_v e"
      using False by (simp add: Min_le_iff)
    moreover have "Min (s_v ` set (e # es)) = min (s_v e) (Min (s_v ` set es))" using False by simp
    ultimately show ?thesis using IH by (simp add: min_def)
  qed simp
qed simp

definition wm_models :: "int \<Rightarrow> windowedMin \<Rightarrow> sample list \<Rightarrow> bool" where
  "wm_models now w hist \<longleftrightarrow> 0 < rackMinRTTWnd w \<and> sorted_wrt (\<lambda>a b. s_t a \<le> s_t b) hist \<and> (\<forall>e \<in> set hist. s_t e \<le> now) \<and>
     (\<exists>c \<le> now - rackMinRTTWnd w. deque w = suffixMinima (filter (\<lambda>e. c \<le> s_t e) hist))"

lemma prune_models:
  assumes "wm_models now w hist" and "now \<le> now'"
  shows "prune_wm now' w = w\<lparr>deque := suffixMinima (filter (\<lambda>e. now' - rackMinRTTWnd w \<le> s_t e) hist)\<rparr>"
proof -
  obtain c where c: "c \<le> now - rackMinRTTWnd w" "deque w = suffixMinima (filter (\<lambda>e. c \<le> s_t e) hist)"
    "sorted_wrt (\<lambda>a b. s_t a \<le> s_t b) hist"
    using assms(1) by (auto simp: wm_models_def)
  have "wm_sorted (deque w)" unfolding c(2) by (rule suffixMinima_sorted) (rule sorted_wrt_filter [OF c(3)])
  moreover have "filter (\<lambda>e. c \<le> s_t e \<and> now' - rackMinRTTWnd w \<le> s_t e) hist =
      filter (\<lambda>e. now' - rackMinRTTWnd w \<le> s_t e) hist"
    using c(1) assms(2) by (intro filter_cong) auto
  ultimately show ?thesis
    by (simp add: prune_filter c(2) suffixMinima_filter [OF sorted_wrt_filter [OF c(3)]])
qed

lemma Push_models:
  assumes "wm_models now w hist" and "now \<le> now'"
  shows "wm_models now' (Push_wm now' v w) (hist @ [\<lparr>s_t = now', s_v = v\<rparr>])" "rackMinRTTWnd (Push_wm now' v w) = rackMinRTTWnd w"
proof -
  note old = assms(1) [unfolded wm_models_def]
  let ?hs = "filter (\<lambda>e. now' - rackMinRTTWnd w \<le> s_t e) hist"
  have "wm_sorted (suffixMinima ?hs)" using old by (intro suffixMinima_sorted sorted_wrt_filter) simp
  then have "Push_wm now' v w = w\<lparr>deque := suffixMinima (?hs @ [\<lparr>s_t = now', s_v = v\<rparr>])\<rparr>"
    by (simp add: Push_wm_def prune_models [OF assms] dropLarger_filter suffixMinima_snoc)
  then show "wm_models now' (Push_wm now' v w) (hist @ [\<lparr>s_t = now', s_v = v\<rparr>])"
    "rackMinRTTWnd (Push_wm now' v w) = rackMinRTTWnd w"
    using old assms(2)
    by (auto simp: wm_models_def sorted_wrt_append intro!: exI [of _ "now' - rackMinRTTWnd w"])
qed

section \<open>Property\<close>

text \<open>A use of the window: samples pushed and minima asked for, with the times of the calls.\<close>

datatype wmCall = CallPush int int | CallMin int

fun callTime :: "wmCall \<Rightarrow> int" where
  "callTime (CallPush t v) = t"
| "callTime (CallMin t) = t"

fun answers :: "wmCall list \<Rightarrow> windowedMin \<Rightarrow> int list" where
  "answers [] w = []"
| "answers (CallPush t v # cs) w = answers cs (Push_wm t v w)"
| "answers (CallMin t # cs) w = (let (m, w1) = Min_wm t w in m # answers cs w1)"

text \<open>The reference keeps all samples and takes the minimum of those in the window.\<close>

definition windowMinimum :: "int \<Rightarrow> int \<Rightarrow> sample list \<Rightarrow> int" where
  "windowMinimum wnd now hist =
     (let vs = [s_v e. e \<leftarrow> hist, now - wnd \<le> s_t e] in if vs = [] then 0 else Min (set vs))"

fun expected :: "int \<Rightarrow> wmCall list \<Rightarrow> sample list \<Rightarrow> int list" where
  "expected wnd [] hist = []"
| "expected wnd (CallPush t v # cs) hist = expected wnd cs (hist @ [\<lparr>s_t = t, s_v = v\<rparr>])"
| "expected wnd (CallMin t # cs) hist = windowMinimum wnd t hist # expected wnd cs hist"

lemma Min_models:
  assumes "wm_models now w hist" and "now \<le> now'"
  shows "fst (Min_wm now' w) = windowMinimum (rackMinRTTWnd w) now' hist" "wm_models now' (snd (Min_wm now' w)) hist"
    "rackMinRTTWnd (snd (Min_wm now' w)) = rackMinRTTWnd w"
proof -
  let ?hs = "filter (\<lambda>e. now' - rackMinRTTWnd w \<le> s_t e) hist"
  have vs: "[s_v e. e \<leftarrow> hist, now' - rackMinRTTWnd w \<le> s_t e] = map s_v ?hs" by (induction hist) simp_all
  show "fst (Min_wm now' w) = windowMinimum (rackMinRTTWnd w) now' hist"
    using suffixMinima_hd [of ?hs]
    by (cases "?hs = []") (simp_all add: Min_wm_def prune_models [OF assms] windowMinimum_def vs Let_def)
  show "wm_models now' (snd (Min_wm now' w)) hist" "rackMinRTTWnd (snd (Min_wm now' w)) = rackMinRTTWnd w"
    using assms by (auto simp: Min_wm_def Let_def prune_models [OF assms] wm_models_def)
qed

lemma answers_models:
  assumes "wm_models now w hist" and "sorted (now # map callTime cs)"
  shows "answers cs w = expected (rackMinRTTWnd w) cs hist"
  using assms
proof (induction cs w arbitrary: now hist rule: answers.induct)
  case (2 t v cs w)
  then show ?case using Push_models [OF "2.prems"(1), of t v] by simp
next
  case (3 t cs w)
  then show ?case using Min_models [OF "3.prems"(1), of t] by (cases "Min_wm t w") simp
qed simp

text \<open>
  C29: the pruned monotonic deque answers every query with the minimum of all samples of the window
  (0 when there is none), exactly as if all samples had been kept, for any calls in the order of
  their times.
\<close>

theorem windowed_min_correct:
  assumes "sorted (map callTime cs)"
  shows "answers cs (newWindowedMin window) = expected (if window \<le> 0 then 30000000000 else window) cs []"
proof -
  let ?t = "if cs = [] then 0 else callTime (hd cs)"
  have "wm_models ?t (newWindowedMin window) []" by (auto simp: wm_models_def newWindowedMin_def intro: exI)
  moreover have "sorted (?t # map callTime cs)" using assms by (cases cs) auto
  ultimately show ?thesis using answers_models [of ?t "newWindowedMin window" "[]" cs] by (simp add: newWindowedMin_def)
qed

theorem windowed_min_correct_witness:
  "answers [CallPush 0 5, CallPush 3 7, CallMin 4, CallMin 9, CallMin 20] (newWindowedMin 8) = [5, 7, 0]"
proof -
  have "sorted (map callTime [CallPush 0 5, CallPush 3 7, CallMin 4, CallMin 9, CallMin 20])" by simp
  from windowed_min_correct [OF this, of 8] show ?thesis by (simp add: windowMinimum_def)
qed

end
