(* ===== verification/PayloadQueue.thy ===== *)
theory PayloadQueue
  imports RingQueue Chunks
begin

text \<open>
  The queue of chunks in flight, \<^verbatim>\<open>payload_queue.go\<close>, and the flags that fragments share through
  the link to their first fragment (\<^verbatim>\<open>chunk_payload_data.go\<close>). Chunks are objects on a heap; the
  queue is a ring of references. The invariant is the one the association keeps: the TSNs of the
  queued chunks are consecutive.
\<close>

section \<open>Chunks on the heap\<close>

type_synonym cref = nat
type_synonym cheap = "cref \<Rightarrow> chunkPayloadData"

definition abandoned :: "cheap \<Rightarrow> cref \<Rightarrow> bool" where
  "abandoned hp p =
     (case headRef (hp p) of
        Some f \<Rightarrow> abandonedFlag (hp f) \<and> allInflight (hp f)
      | None \<Rightarrow> abandonedFlag (hp p) \<and> allInflight (hp p))"

definition setAbandoned :: "bool \<Rightarrow> cref \<Rightarrow> cheap \<Rightarrow> cheap" where
  "setAbandoned v p hp =
     (case headRef (hp p) of
        Some f \<Rightarrow> hp(f := (hp f)\<lparr>abandonedFlag := v\<rparr>)
      | None \<Rightarrow> hp(p := (hp p)\<lparr>abandonedFlag := v\<rparr>))"

definition setAllInflight :: "cref \<Rightarrow> cheap \<Rightarrow> cheap" where
  "setAllInflight p hp =
     (if endingFragment (hp p)
      then (case headRef (hp p) of
              Some f \<Rightarrow> hp(f := (hp f)\<lparr>allInflight := True\<rparr>)
            | None \<Rightarrow> hp(p := (hp p)\<lparr>allInflight := True\<rparr>))
      else hp)"

section \<open>The queue\<close>

record payloadQueue =
  pq_chunks :: "cref ring"
  pq_nBytes :: int

definition newPayloadQueue :: payloadQueue where
  "newPayloadQueue = \<lparr>pq_chunks = newQueue 0 128, pq_nBytes = 0\<rparr>"

definition pushNoCheck :: "cheap \<Rightarrow> cref \<Rightarrow> payloadQueue \<Rightarrow> payloadQueue" where
  "pushNoCheck hp p q = \<lparr>pq_chunks = PushBack 0 p (pq_chunks q), pq_nBytes = pq_nBytes q + int (length (UserData (hp p)))\<rparr>"

definition pq_pop :: "cheap \<Rightarrow> u32 \<Rightarrow> payloadQueue \<Rightarrow> (sctp_error, cref option \<times> payloadQueue) result" where
  "pq_pop hp t q =
     (if 0 < Len (pq_chunks q)
      then bindR (Front (pq_chunks q)) (\<lambda>f.
           if t = tsn (hp f)
           then bindR (PopFront 0 (pq_chunks q)) (\<lambda>(c, chunks).
                Inr (Some c, \<lparr>pq_chunks = chunks, pq_nBytes = pq_nBytes q - int (length (UserData (hp c)))\<rparr>))
           else Inr (None, q))
      else Inr (None, q))"

definition pq_get :: "cheap \<Rightarrow> u32 \<Rightarrow> payloadQueue \<Rightarrow> (sctp_error, cref option) result" where
  "pq_get hp t q =
     (let len = Len (pq_chunks q)
      in if len = 0 then Inr None
         else bindR (Front (pq_chunks q)) (\<lambda>f.
              let first = tsn (hp f)
              in if t < first \<or> int (unat (t - first)) \<ge> len then Inr None
                 else bindR (At (unat (t - first)) (pq_chunks q)) (\<lambda>c. Inr (Some c))))"

definition markAsAcked :: "u32 \<Rightarrow> cheap \<Rightarrow> payloadQueue \<Rightarrow> (sctp_error, int \<times> cheap \<times> payloadQueue) result" where
  "markAsAcked t hp q =
     bindR (pq_get hp t q) (\<lambda>found.
       case found of
         None \<Rightarrow> Inr (0, hp, q)
       | Some c \<Rightarrow>
           (let n = int (length (UserData (hp c)))
            in Inr (n, hp(c := (hp c)\<lparr>acked := True, retransmit := False, userData := Some []\<rparr>), q\<lparr>pq_nBytes := pq_nBytes q - n\<rparr>)))"

text \<open>The loop of \<open>markAllToRetrasmit\<close> from index \<open>i\<close> with \<open>n\<close> rounds to go.\<close>

fun markLoop :: "nat \<Rightarrow> nat \<Rightarrow> cref ring \<Rightarrow> cheap \<Rightarrow> (sctp_error, cheap) result" where
  "markLoop 0 i chunks hp = Inr hp"
| "markLoop (Suc n) i chunks hp =
     bindR (At i chunks) (\<lambda>c.
       markLoop n (Suc i) chunks (if acked (hp c) \<or> abandoned hp c then hp else hp(c := (hp c)\<lparr>retransmit := True\<rparr>)))"

definition markAllToRetrasmit :: "cheap \<Rightarrow> payloadQueue \<Rightarrow> (sctp_error, cheap) result" where
  "markAllToRetrasmit hp q = markLoop (nat (Len (pq_chunks q))) 0 (pq_chunks q) hp"

definition pq_getNumBytes :: "payloadQueue \<Rightarrow> int" where
  "pq_getNumBytes q = pq_nBytes q"

definition pq_size :: "payloadQueue \<Rightarrow> int" where
  "pq_size q = Len (pq_chunks q)"

section \<open>Invariant\<close>

definition queued :: "payloadQueue \<Rightarrow> cref list" where
  "queued q = items (pq_chunks q)"

definition pq_inv :: "cheap \<Rightarrow> payloadQueue \<Rightarrow> bool" where
  "pq_inv hp q \<longleftrightarrow> ring_inv (pq_chunks q) \<and> distinct (queued q) \<and> length (queued q) \<le> 2 ^ 32 \<and>
     (\<forall>i < length (queued q). tsn (hp (queued q ! i)) = tsn (hp (hd (queued q))) + of_nat i) \<and>
     pq_nBytes q = (\<Sum>c \<leftarrow> queued q. int (length (UserData (hp c))))"

lemma Len_items: "ring_inv r \<Longrightarrow> Len r = int (length (items r))"
  by (simp add: Len_def ring_inv_def)

lemma pq_inv_new: "pq_inv hp newPayloadQueue" "queued newPayloadQueue = []"
  by (simp_all add: pq_inv_def queued_def newPayloadQueue_def ring_inv_new)

lemma pushNoCheck_spec:
  assumes "pq_inv hp q" and "p \<notin> set (queued q)" and "length (queued q) < 2 ^ 32"
    and "queued q \<noteq> [] \<Longrightarrow> tsn (hp p) = tsn (hp (last (queued q))) + 1"
  shows "pq_inv hp (pushNoCheck hp p q)" "queued (pushNoCheck hp p q) = queued q @ [p]"
proof -
  have ring: "ring_inv (pq_chunks q)" using assms(1) by (simp add: pq_inv_def)
  show q: "queued (pushNoCheck hp p q) = queued q @ [p]"
    by (simp add: queued_def pushNoCheck_def PushBack_spec [OF ring])
  have "tsn (hp p) = tsn (hp (hd (queued q))) + of_nat (length (queued q))" if "queued q \<noteq> []"
    using assms(1) assms(4) that
    by (cases "length (queued q)") (auto simp: pq_inv_def last_conv_nth)
  then have "tsn (hp ((queued q @ [p]) ! i)) = tsn (hp (hd (queued q @ [p]))) + of_nat i"
    if "i < length (queued q @ [p])" for i
    using that assms(1) by (cases "queued q = []") (auto simp: pq_inv_def nth_append less_Suc_eq)
  moreover have "ring_inv (pq_chunks (pushNoCheck hp p q))"
    by (simp add: pushNoCheck_def PushBack_spec [OF ring])
  ultimately show "pq_inv hp (pushNoCheck hp p q)"
    using assms(1-3) unfolding pq_inv_def q by (simp add: pushNoCheck_def)
qed

lemma pq_pop_spec:
  assumes inv: "pq_inv hp q"
  shows "queued q = c # cs \<Longrightarrow> t = tsn (hp c) \<Longrightarrow> \<exists>q'. pq_pop hp t q = Inr (Some c, q') \<and> pq_inv hp q' \<and> queued q' = cs"
    "queued q = [] \<or> t \<noteq> tsn (hp (hd (queued q))) \<Longrightarrow> pq_pop hp t q = Inr (None, q)"
proof -
  have ring: "ring_inv (pq_chunks q)" using inv by (simp add: pq_inv_def)
  show "pq_pop hp t q = Inr (None, q)" if "queued q = [] \<or> t \<noteq> tsn (hp (hd (queued q)))"
    using that Front_Back_At_spec(1) [OF ring]
    by (cases "queued q = []") (simp_all add: pq_pop_def Len_items [OF ring] queued_def)
  assume q: "queued q = c # cs" and t: "t = tsn (hp c)"
  obtain r where r: "PopFront 0 (pq_chunks q) = Inr (c, r)" "ring_inv r" "items r = cs"
    using PopFront_spec [OF ring] q by (auto simp: queued_def)
  let ?q = "\<lparr>pq_chunks = r, pq_nBytes = pq_nBytes q - int (length (UserData (hp c)))\<rparr>"
  have pop: "pq_pop hp t q = Inr (Some c, ?q)"
    using r Front_Back_At_spec(1) [OF ring] q t by (simp add: pq_pop_def Len_items [OF ring] queued_def)
  have "tsn (hp (cs ! i)) = tsn (hp (hd cs)) + of_nat i" if "i < length cs" for i
  proof -
    have all: "\<forall>j < Suc (length cs). tsn (hp ((c # cs) ! j)) = tsn (hp c) + of_nat j"
      using inv q by (simp add: pq_inv_def)
    have "tsn (hp (cs ! i)) = tsn (hp c) + of_nat (Suc i)" using all [rule_format, of "Suc i"] that by simp
    moreover have "tsn (hp (hd cs)) = tsn (hp c) + 1" using all [rule_format, of 1] that by (cases cs) auto
    ultimately show ?thesis by simp
  qed
  moreover have "length (queued q) = Suc (length cs)" using q by simp
  ultimately have "pq_inv hp ?q" using inv q r by (simp add: pq_inv_def queued_def del: length_items)
  with pop show "\<exists>q'. pq_pop hp t q = Inr (Some c, q') \<and> pq_inv hp q' \<and> queued q' = cs"
    using r(3) by (auto simp: queued_def)
qed

section \<open>Looking chunks up by TSN\<close>

lemma pq_get_spec:
  assumes inv: "pq_inv hp q" and i: "i < length (queued q)"
  shows "pq_get hp (tsn (hp (queued q ! i))) q =
    Inr (if unat (tsn (hp (hd (queued q)))) + i < 2 ^ 32 then Some (queued q ! i) else None)"
proof -
  let ?f = "tsn (hp (hd (queued q)))"
  have ring: "ring_inv (pq_chunks q)" and len: "length (queued q) \<le> 2 ^ 32"
    and t: "tsn (hp (queued q ! i)) = ?f + of_nat i"
    using inv i by (simp_all add: pq_inv_def)
  have i32: "i < 2 ^ 32" using i len by simp
  then have off: "unat (?f + of_nat i - ?f) = i" "int (unat (?f + of_nat i - ?f)) = int i" by (simp_all add: unat_of_nat)
  have "unat (?f + of_nat i) = (unat ?f + i) mod 2 ^ 32" using i32 by (simp add: unat_word_ariths unat_of_nat)
  moreover have "unat ?f < 2 ^ 32" using unsigned_less [of ?f] by simp
  ultimately have wrap: "?f + of_nat i < ?f \<longleftrightarrow> \<not> unat ?f + i < 2 ^ 32"
    using i32 by (auto simp: word_less_nat_alt mod_if)
  have ne: "items (pq_chunks q) \<noteq> []" using i by (auto simp: queued_def simp del: length_items)
  note at = Front_Back_At_spec [OF ring ne]
  show ?thesis
    unfolding t pq_get_def Let_def Len_items [OF ring] using at(1) at(3) [of i] i off wrap ne
    by (simp add: queued_def del: length_items of_nat_unat)
qed

lemma pq_get_None:
  assumes inv: "pq_inv hp q" and t: "\<And>c. c \<in> set (queued q) \<Longrightarrow> tsn (hp c) \<noteq> t"
  shows "pq_get hp t q = Inr None"
proof (cases "queued q = []")
  case False
  let ?f = "tsn (hp (hd (queued q)))"
  have ring: "ring_inv (pq_chunks q)" using inv by (simp add: pq_inv_def)
  have "length (queued q) \<le> unat (t - ?f)"
  proof (rule ccontr)
    assume n: "\<not> length (queued q) \<le> unat (t - ?f)"
    then have "tsn (hp (queued q ! unat (t - ?f))) = ?f + of_nat (unat (t - ?f))" using inv by (simp add: pq_inv_def)
    then show False using t [of "queued q ! unat (t - ?f)"] n by simp
  qed
  then show ?thesis
    using Front_Back_At_spec(1) [OF ring] False
    by (simp add: pq_get_def Let_def Len_items [OF ring] queued_def del: length_items of_nat_unat)
next
  case True
  then show ?thesis using inv by (simp add: pq_get_def Len_items pq_inv_def queued_def del: length_items)
qed

lemma markAsAcked_inv:
  assumes inv: "pq_inv hp q" and i: "i < length (queued q)" and nowrap: "unat (tsn (hp (hd (queued q)))) + i < 2 ^ 32"
  shows "\<exists>hp' q'. markAsAcked (tsn (hp (queued q ! i))) hp q = Inr (int (length (UserData (hp (queued q ! i)))), hp', q') \<and>
    pq_inv hp' q' \<and> queued q' = queued q \<and> acked (hp' (queued q ! i)) \<and>
    pq_nBytes q' = pq_nBytes q - int (length (UserData (hp (queued q ! i))))"
proof -
  let ?c = "queued q ! i"
  let ?hp = "hp(?c := (hp ?c)\<lparr>acked := True, retransmit := False, userData := Some []\<rparr>)"
  let ?q = "q\<lparr>pq_nBytes := pq_nBytes q - int (length (UserData (hp ?c)))\<rparr>"
  have tsn: "tsn (?hp c) = tsn (hp c)" for c by simp
  have "distinct (queued q)" using inv by (simp add: pq_inv_def)
  moreover have "(\<Sum>c \<leftarrow> cs. int (length (UserData (?hp c)))) =
      (\<Sum>c \<leftarrow> cs. int (length (UserData (hp c)))) - (if ?c \<in> set cs then int (length (UserData (hp ?c))) else 0)"
    if "distinct cs" for cs
    using that by (induction cs) (auto simp: UserData_def)
  ultimately have "(\<Sum>c \<leftarrow> queued q. int (length (UserData (?hp c)))) =
      (\<Sum>c \<leftarrow> queued q. int (length (UserData (hp c)))) - int (length (UserData (hp ?c)))"
    using i by simp
  moreover have "queued ?q = queued q" by (simp add: queued_def)
  ultimately have "pq_inv ?hp ?q" using inv unfolding pq_inv_def tsn by simp
  then show ?thesis
    using pq_get_spec [OF inv i] nowrap by (simp add: markAsAcked_def Let_def queued_def)
qed

lemma markLoop_spec:
  assumes "ring_inv r" and "n + i = length (items r)" and "distinct (items r)"
  shows "markLoop n i r hp = Inr (\<lambda>c. if c \<in> set (drop i (items r)) \<and> \<not> acked (hp c) \<and> \<not> abandoned hp c
    then (hp c)\<lparr>retransmit := True\<rparr> else hp c)"
  using assms
proof (induction n arbitrary: i hp)
  case (Suc n)
  let ?c = "items r ! i"
  have i: "i < length (items r)" "items r \<noteq> []" using Suc.prems(2) by (auto simp del: length_items)
  have dr: "drop i (items r) = ?c # drop (Suc i) (items r)" using i by (simp add: Cons_nth_drop_Suc)
  then have new: "?c \<notin> set (drop (Suc i) (items r))" using Suc.prems(3) distinct_drop [of "items r" i] by (metis distinct.simps(2))
  let ?hp = "if acked (hp ?c) \<or> abandoned hp ?c then hp else hp(?c := (hp ?c)\<lparr>retransmit := True\<rparr>)"
  have same: "acked (?hp c) = acked (hp c)" "abandoned ?hp c = abandoned hp c" for c
    by (auto simp: abandoned_def split: option.splits)
  have "markLoop (Suc n) i r hp = markLoop n (Suc i) r ?hp"
    using Front_Back_At_spec(3) [OF Suc.prems(1) i(2) i(1)] by simp
  also have "\<dots> = Inr (\<lambda>c. if c \<in> set (drop (Suc i) (items r)) \<and> \<not> acked (?hp c) \<and> \<not> abandoned ?hp c
      then (?hp c)\<lparr>retransmit := True\<rparr> else ?hp c)"
    using Suc.prems by (intro Suc.IH) (simp_all del: length_items)
  finally show ?case unfolding same dr using new by (auto simp: fun_eq_iff)
qed simp

lemma markAllToRetrasmit_spec:
  assumes "pq_inv hp q"
  shows "markAllToRetrasmit hp q = Inr (\<lambda>c. if c \<in> set (queued q) \<and> \<not> acked (hp c) \<and> \<not> abandoned hp c
    then (hp c)\<lparr>retransmit := True\<rparr> else hp c)"
  using markLoop_spec [of "pq_chunks q" "length (items (pq_chunks q))" 0 hp] assms
  by (simp add: markAllToRetrasmit_def pq_inv_def queued_def Len_items del: length_items)

text \<open>
  C30: the lookup by TSN in the queue of chunks in flight finds the chunk at a position exactly when
  the TSNs from the oldest chunk up to it do not wrap around; a chunk behind the wrap is not found
  although it is queued, and an acknowledgement of it acknowledges nothing. A TSN that is not in
  flight is never found.
\<close>

theorem inflight_get_until_wrap:
  assumes "pq_inv hp q" and "i < length (queued q)"
  shows "pq_get hp (tsn (hp (queued q ! i))) q =
      Inr (if unat (tsn (hp (hd (queued q)))) + i < 2 ^ 32 then Some (queued q ! i) else None) \<and>
    (2 ^ 32 \<le> unat (tsn (hp (hd (queued q)))) + i \<longrightarrow>
      markAsAcked (tsn (hp (queued q ! i))) hp q = Inr (0, hp, q)) \<and>
    (t \<notin> (tsn \<circ> hp) ` set (queued q) \<longrightarrow> pq_get hp t q = Inr None)"
  using pq_get_spec [OF assms] pq_get_None [OF assms(1), of t] by (auto simp: markAsAcked_def image_iff)

lemma wrap32: "(4294967296 :: u32) = 0"
  by code_simp

definition exampleHeap :: cheap where
  "exampleHeap c = zeroPayloadData\<lparr>tsn := 4294967295 + of_nat c, userData := Some [7]\<rparr>"

definition exampleInflight :: payloadQueue where
  "exampleInflight = pushNoCheck exampleHeap 1 (pushNoCheck exampleHeap 0 newPayloadQueue)"

lemma exampleInflight_inv: "pq_inv exampleHeap exampleInflight" "queued exampleInflight = [0, 1]"
proof -
  let ?q = "pushNoCheck exampleHeap 0 newPayloadQueue"
  have q: "pq_inv exampleHeap ?q" "queued ?q = [0]"
    using pushNoCheck_spec [OF pq_inv_new(1), of 0] by (simp_all add: pq_inv_new)
  show "pq_inv exampleHeap exampleInflight" "queued exampleInflight = [0, 1]"
    unfolding exampleInflight_def using pushNoCheck_spec [OF q(1), of 1]
    by (simp_all add: q(2) exampleHeap_def)
qed

theorem inflight_get_until_wrap_witness:
  "pq_get exampleHeap 4294967295 exampleInflight = Inr (Some 0) \<and>
   pq_get exampleHeap 0 exampleInflight = Inr None \<and> 0 = tsn (exampleHeap 1) \<and>
   markAsAcked 0 exampleHeap exampleInflight = Inr (0, exampleHeap, exampleInflight)"
  using inflight_get_until_wrap [OF exampleInflight_inv(1), of 0 5] inflight_get_until_wrap [OF exampleInflight_inv(1), of 1 5]
  by (simp add: exampleInflight_inv(2) exampleHeap_def zeroPayloadData_def wrap32)

end
