(* ===== verification/PendingQueue.thy ===== *)
theory PendingQueue
  imports PayloadQueue Complex_Main "HOL-Library.Log_Nat"
begin

text \<open>
  The queue of chunks that wait to be sent, \<^verbatim>\<open>pending_queue.go\<close>: the message policy, which sends
  unordered messages first and never splits a message, and the round robin and weighted fair
  schedulers of \<^verbatim>\<open>association_interleaving_options.go\<close>, which send from one stream after another.
  Their common contract is the locale \<open>pending_contract\<close> of theory \<open>PendingFacts\<close>. A scheduler the user supplies is a
  parameter, a record of its four operations. The chunks on the heap do not change while they wait.
\<close>

section \<open>Queues of one class\<close>

record pendingBaseQueue =
  bq_queue :: "cref list"

definition newPendingBaseQueue :: pendingBaseQueue where
  "newPendingBaseQueue = \<lparr>bq_queue = []\<rparr>"

definition bq_push :: "cref \<Rightarrow> pendingBaseQueue \<Rightarrow> pendingBaseQueue" where
  "bq_push c q = q\<lparr>bq_queue := bq_queue q @ [c]\<rparr>"

definition bq_pop :: "pendingBaseQueue \<Rightarrow> cref option \<times> pendingBaseQueue" where
  "bq_pop q = (case bq_queue q of [] \<Rightarrow> (None, q) | c # cs \<Rightarrow> (Some c, q\<lparr>bq_queue := cs\<rparr>))"

definition bq_get :: "int \<Rightarrow> pendingBaseQueue \<Rightarrow> cref option" where
  "bq_get i q = (if bq_queue q = [] \<or> i < 0 \<or> i \<ge> int (length (bq_queue q)) then None else Some (bq_queue q ! nat i))"

definition bq_size :: "pendingBaseQueue \<Rightarrow> int" where
  "bq_size q = int (length (bq_queue q))"

section \<open>The message policy\<close>

record messagePolicy =
  unorderedQueue :: pendingBaseQueue
  orderedQueue :: pendingBaseQueue
  selected :: bool
  unorderedIsSelected :: bool

definition ErrUnexpectedChunkPoppedUnordered :: string where
  "ErrUnexpectedChunkPoppedUnordered = ''unexpected chunk popped (unordered)''"

definition ErrUnexpectedChunkPoppedOrdered :: string where
  "ErrUnexpectedChunkPoppedOrdered = ''unexpected chunk popped (ordered)''"

definition ErrUnexpectedChunkPoppedStream :: string where
  "ErrUnexpectedChunkPoppedStream = ''unexpected chunk popped (stream)''"

definition ErrUnexpectedQState :: string where
  "ErrUnexpectedQState = ''unexpected q state (should've been selected)''"

definition ErrPendingQueueModeChangeNonEmpty :: string where
  "ErrPendingQueueModeChangeNonEmpty = ''cannot change pending queue interleaving mode while queue is not empty''"

definition newMessagePolicy :: messagePolicy where
  "newMessagePolicy = \<lparr>unorderedQueue = newPendingBaseQueue, orderedQueue = newPendingBaseQueue,
     selected = False, unorderedIsSelected = False\<rparr>"

definition mp_push :: "cheap \<Rightarrow> cref \<Rightarrow> messagePolicy \<Rightarrow> messagePolicy" where
  "mp_push hp c q =
     (if unordered (hp c) then q\<lparr>unorderedQueue := bq_push c (unorderedQueue q)\<rparr>
      else q\<lparr>orderedQueue := bq_push c (orderedQueue q)\<rparr>)"

definition mp_peek :: "messagePolicy \<Rightarrow> cref option" where
  "mp_peek q =
     (if selected q then (if unorderedIsSelected q then bq_get 0 (unorderedQueue q) else bq_get 0 (orderedQueue q))
      else case bq_get 0 (unorderedQueue q) of Some c \<Rightarrow> Some c | None \<Rightarrow> bq_get 0 (orderedQueue q))"

text \<open>A failing \<open>pop\<close> has already removed a chunk, so the state is returned with the error.\<close>

definition popSelected :: "cheap \<Rightarrow> cref \<Rightarrow> messagePolicy \<Rightarrow> string option \<times> messagePolicy" where
  "popSelected hp c q =
     (let (popped, q1, err) =
        (if unorderedIsSelected q
         then (case bq_pop (unorderedQueue q) of (p, b) \<Rightarrow> (p, q\<lparr>unorderedQueue := b\<rparr>, ErrUnexpectedChunkPoppedUnordered))
         else (case bq_pop (orderedQueue q) of (p, b) \<Rightarrow> (p, q\<lparr>orderedQueue := b\<rparr>, ErrUnexpectedChunkPoppedOrdered)))
      in if popped \<noteq> Some c then (Some err, q1)
         else if endingFragment (hp c) then (None, q1\<lparr>selected := False\<rparr>) else (None, q1))"

definition popNewSelection :: "cheap \<Rightarrow> cref \<Rightarrow> messagePolicy \<Rightarrow> string option \<times> messagePolicy" where
  "popNewSelection hp c q =
     (let (popped, q1, err, isSelected) =
        (if unordered (hp c)
         then (case bq_pop (unorderedQueue q) of (p, b) \<Rightarrow> (p, q\<lparr>unorderedQueue := b\<rparr>, ErrUnexpectedChunkPoppedUnordered, True))
         else (case bq_pop (orderedQueue q) of (p, b) \<Rightarrow> (p, q\<lparr>orderedQueue := b\<rparr>, ErrUnexpectedChunkPoppedOrdered, False)))
      in if popped \<noteq> Some c then (Some err, q1)
         else if \<not> endingFragment (hp c) then (None, q1\<lparr>selected := True, unorderedIsSelected := isSelected\<rparr>)
         else (None, q1))"

definition mp_pop :: "cheap \<Rightarrow> cref \<Rightarrow> messagePolicy \<Rightarrow> string option \<times> messagePolicy" where
  "mp_pop hp c q =
     (if selected q then popSelected hp c q
      else if \<not> beginningFragment (hp c) then (Some ErrUnexpectedQState, q)
      else popNewSelection hp c q)"

section \<open>The interface of schedulers\<close>

text \<open>
  \<open>Peek\<close> may change the scheduler and, on a missing queue, panics. \<open>Pop\<close> returns its error with the
  state it leaves.
\<close>

record 's scheduler =
  ResetS :: "'s \<Rightarrow> 's"
  PushS :: "cheap \<Rightarrow> cref \<Rightarrow> 's \<Rightarrow> 's"
  PeekS :: "'s \<Rightarrow> (sctp_error, cref option \<times> 's) result"
  PopS :: "cheap \<Rightarrow> cref \<Rightarrow> 's \<Rightarrow> string option \<times> 's"

section \<open>Round robin\<close>

record roundRobin =
  rr_streamQueues :: "u16 \<rightharpoonup> pendingBaseQueue"
  rr_streamOrder :: "u16 list"
  rr_streamSelected :: bool
  rr_selectedStream :: u16

definition rr_Reset :: "roundRobin \<Rightarrow> roundRobin" where
  "rr_Reset q = q\<lparr>rr_streamQueues := Map.empty, rr_streamOrder := [], rr_streamSelected := False, rr_selectedStream := 0\<rparr>"

definition newRoundRobin :: roundRobin where
  "newRoundRobin = rr_Reset \<lparr>rr_streamQueues = Map.empty, rr_streamOrder = [], rr_streamSelected = False, rr_selectedStream = 0\<rparr>"

definition rr_Push :: "cheap \<Rightarrow> cref \<Rightarrow> roundRobin \<Rightarrow> roundRobin" where
  "rr_Push hp c q =
     (let sid = streamIdentifier (hp c); sq = rr_streamQueues q sid;
          wasEmpty = (case sq of None \<Rightarrow> True | Some b \<Rightarrow> bq_size b = 0);
          b = (case sq of None \<Rightarrow> newPendingBaseQueue | Some b \<Rightarrow> b)
      in q\<lparr>rr_streamQueues := (rr_streamQueues q)(sid \<mapsto> bq_push c b),
           rr_streamOrder := rr_streamOrder q @ (if wasEmpty then [sid] else [])\<rparr>)"

definition rr_Peek :: "roundRobin \<Rightarrow> (sctp_error, cref option \<times> roundRobin) result" where
  "rr_Peek q =
     (if rr_streamSelected q
      then (case rr_streamQueues q (rr_selectedStream q) of None \<Rightarrow> Inl Panic | Some b \<Rightarrow> Inr (bq_get 0 b, q))
      else case rr_streamOrder q of
             [] \<Rightarrow> Inr (None, q)
           | sid # _ \<Rightarrow>
               (case rr_streamQueues q sid of
                  None \<Rightarrow> Inl Panic
                | Some b \<Rightarrow> Inr (bq_get 0 b, q\<lparr>rr_streamSelected := True, rr_selectedStream := sid\<rparr>)))"

definition rr_Pop :: "cheap \<Rightarrow> cref \<Rightarrow> roundRobin \<Rightarrow> string option \<times> roundRobin" where
  "rr_Pop hp c q =
     (if \<not> rr_streamSelected q then (Some ErrUnexpectedQState, q)
      else case rr_streamQueues q (rr_selectedStream q) of
        None \<Rightarrow> (Some ErrUnexpectedQState, q)
      | Some b \<Rightarrow>
          (case bq_pop b of (popped, b') \<Rightarrow>
             (let sid = rr_selectedStream q; q1 = q\<lparr>rr_streamQueues := (rr_streamQueues q)(sid \<mapsto> b')\<rparr>
              in if popped \<noteq> Some c then (Some ErrUnexpectedChunkPoppedStream, q1)
                 else
                   (let rest = (if rr_streamOrder q \<noteq> [] then tl (rr_streamOrder q) else rr_streamOrder q)
                    in (None,
                        if 0 < bq_size b'
                        then q1\<lparr>rr_streamOrder := rest @ [sid], rr_streamSelected := False, rr_selectedStream := 0\<rparr>
                        else q1\<lparr>rr_streamOrder := rest, rr_streamQueues := (rr_streamQueues q)(sid := None),
                                rr_streamSelected := False, rr_selectedStream := 0\<rparr>)))))"

definition roundRobinScheduler :: "roundRobin scheduler" where
  "roundRobinScheduler = \<lparr>ResetS = rr_Reset, PushS = rr_Push, PeekS = rr_Peek, PopS = rr_Pop\<rparr>"

section \<open>Weighted fair queueing\<close>

text \<open>
  Virtual times are \<^verbatim>\<open>float64\<close>: rational numbers rounded to 53 significant bits, half to even. They
  are sums of quotients of a length and a 16-bit weight, so they are never negative, infinite or
  subnormal.
\<close>

definition roundEven :: "rat \<Rightarrow> int" where
  "roundEven x = (let n = \<lfloor>x\<rfloor>; d = x - of_int n in if d < 1 / 2 \<or> d = 1 / 2 \<and> even n then n else n + 1)"

definition binExponent :: "rat \<Rightarrow> int" where
  "binExponent x =
     (case quotient_of x of (p, q) \<Rightarrow>
        (let k = bitlen p - bitlen q in if power_int 2 k \<le> x then k else k - 1))"

definition float64 :: "rat \<Rightarrow> rat" where
  "float64 x =
     (if x \<le> 0 then x
      else let e = binExponent x - 52 in of_int (roundEven (x / power_int 2 e)) * power_int 2 e)"

record wfq =
  wf_streamQueues :: "u16 \<rightharpoonup> pendingBaseQueue"
  wf_streamFinish :: "u16 \<rightharpoonup> rat"
  wf_chunkFinish :: "cref \<rightharpoonup> rat"
  wf_weights :: "u16 \<rightharpoonup> u16"
  wf_virtualTime :: rat
  wf_streamSelected :: bool
  wf_selectedStream :: u16

definition wf_Reset :: "wfq \<Rightarrow> wfq" where
  "wf_Reset q = q\<lparr>wf_streamQueues := Map.empty, wf_streamFinish := Map.empty, wf_chunkFinish := Map.empty,
     wf_virtualTime := 0, wf_streamSelected := False, wf_selectedStream := 0\<rparr>"

definition newWFQ :: "(u16 \<rightharpoonup> u16) \<Rightarrow> wfq" where
  "newWFQ weights =
     wf_Reset \<lparr>wf_streamQueues = Map.empty, wf_streamFinish = Map.empty, wf_chunkFinish = Map.empty,
       wf_weights = (\<lambda>i. case weights i of Some w \<Rightarrow> (if w \<noteq> 0 then Some w else None) | None \<Rightarrow> None),
       wf_virtualTime = 0, wf_streamSelected = False, wf_selectedStream = 0\<rparr>"

text \<open>A read of a map without the key gives the zero value.\<close>

definition orZero :: "'a :: zero option \<Rightarrow> 'a" where
  "orZero x = (case x of None \<Rightarrow> 0 | Some v \<Rightarrow> v)"

definition wf_Push :: "cheap \<Rightarrow> cref \<Rightarrow> wfq \<Rightarrow> wfq" where
  "wf_Push hp c q =
     (let sid = streamIdentifier (hp c);
          b = (case wf_streamQueues q sid of None \<Rightarrow> newPendingBaseQueue | Some b \<Rightarrow> b);
          w = orZero (wf_weights q sid);
          weight = (if w = 0 then 1 else of_nat (unat w));
          start = max (wf_virtualTime q) (orZero (wf_streamFinish q sid));
          finish = float64 (start + float64 (of_nat (length (UserData (hp c))) / weight))
      in q\<lparr>wf_streamQueues := (wf_streamQueues q)(sid \<mapsto> bq_push c b),
           wf_streamFinish := (wf_streamFinish q)(sid \<mapsto> finish),
           wf_chunkFinish := (wf_chunkFinish q)(c \<mapsto> finish)\<rparr>)"

text \<open>
  The loop over the map \<open>streamQueues\<close> in an order \<open>ids\<close> of its keys, with the best chunk so far; no
  chunk stands for the initial finish time, positive infinity.
\<close>

fun wf_select :: "wfq \<Rightarrow> u16 list \<Rightarrow> (cref \<times> u16 \<times> rat) option \<Rightarrow> (cref \<times> u16 \<times> rat) option" where
  "wf_select q [] best = best"
| "wf_select q (sid # ids) best =
     (case wf_streamQueues q sid of
        None \<Rightarrow> wf_select q ids best
      | Some b \<Rightarrow>
          (case bq_get 0 b of
             None \<Rightarrow> wf_select q ids best
           | Some c \<Rightarrow>
               (let finish = orZero (wf_chunkFinish q c)
                in wf_select q ids
                     (case best of
                        None \<Rightarrow> Some (c, sid, finish)
                      | Some (c', sid', finish') \<Rightarrow>
                          if finish < finish' \<or> finish = finish' \<and> sid < sid' then Some (c, sid, finish) else best))))"

definition wf_Peek :: "(wfq \<Rightarrow> u16 list) \<Rightarrow> wfq \<Rightarrow> (sctp_error, cref option \<times> wfq) result" where
  "wf_Peek order q =
     (if wf_streamSelected q
      then (case wf_streamQueues q (wf_selectedStream q) of None \<Rightarrow> Inl Panic | Some b \<Rightarrow> Inr (bq_get 0 b, q))
      else case wf_select q (order q) None of
             None \<Rightarrow> Inr (None, q)
           | Some (c, sid, finish) \<Rightarrow> Inr (Some c, q\<lparr>wf_streamSelected := True, wf_selectedStream := sid\<rparr>))"

definition wf_Pop :: "cheap \<Rightarrow> cref \<Rightarrow> wfq \<Rightarrow> string option \<times> wfq" where
  "wf_Pop hp c q =
     (if \<not> wf_streamSelected q then (Some ErrUnexpectedQState, q)
      else case wf_streamQueues q (wf_selectedStream q) of
        None \<Rightarrow> (Some ErrUnexpectedQState, q)
      | Some b \<Rightarrow>
          (case bq_pop b of (popped, b') \<Rightarrow>
             (let sid = wf_selectedStream q; q1 = q\<lparr>wf_streamQueues := (wf_streamQueues q)(sid \<mapsto> b')\<rparr>
              in if popped \<noteq> Some c then (Some ErrUnexpectedChunkPoppedStream, q1)
                 else
                   (None,
                    q1\<lparr>wf_virtualTime := max (wf_virtualTime q) (orZero (wf_chunkFinish q c)),
                       wf_chunkFinish := (wf_chunkFinish q)(c := None),
                       wf_streamQueues := (if bq_size b' = 0 then (wf_streamQueues q)(sid := None) else wf_streamQueues q1),
                       wf_streamSelected := False, wf_selectedStream := 0\<rparr>))))"

definition wfqScheduler :: "(wfq \<Rightarrow> u16 list) \<Rightarrow> wfq scheduler" where
  "wfqScheduler order = \<lparr>ResetS = wf_Reset, PushS = wf_Push, PeekS = wf_Peek order, PopS = wf_Pop\<rparr>"

section \<open>The pending queue\<close>

datatype 's policy = MessagePolicy messagePolicy | SchedulerPolicy 's

text \<open>\<open>newStreamScheduler\<close> is a nil or a factory, whose result may be nil.\<close>

record 's pendingQueue =
  pd_nBytes :: int
  pd_nChunks :: int
  interleaving :: bool
  newStreamScheduler :: "'s option option"
  policy :: "'s policy"

definition errNilStreamScheduler :: string where
  "errNilStreamScheduler = ''stream scheduler must not be nil''"

definition newPendingQueue :: "'s option option \<Rightarrow> 's pendingQueue" where
  "newPendingQueue factory = \<lparr>pd_nBytes = 0, pd_nChunks = 0, interleaving = False, newStreamScheduler = factory,
     policy = MessagePolicy newMessagePolicy\<rparr>"

definition setInterleaving :: "'s scheduler \<Rightarrow> bool \<Rightarrow> 's pendingQueue \<Rightarrow> string option \<times> 's pendingQueue" where
  "setInterleaving ops enabled q =
     (if interleaving q = enabled then (None, q)
      else if pd_nChunks q \<noteq> 0 then (Some ErrPendingQueueModeChangeNonEmpty, q)
      else
        (let q1 = q\<lparr>interleaving := enabled\<rparr>
         in if enabled then
              (case newStreamScheduler q of
                 None \<Rightarrow> (Some errNilStreamScheduler, q1)
               | Some made \<Rightarrow>
                   (case made of
                      None \<Rightarrow> (Some errNilStreamScheduler, q1)
                    | Some s \<Rightarrow> (None, q1\<lparr>policy := SchedulerPolicy (ResetS ops s)\<rparr>)))
            else (None, q1\<lparr>policy := MessagePolicy newMessagePolicy\<rparr>)))"

definition policyPush :: "'s scheduler \<Rightarrow> cheap \<Rightarrow> cref \<Rightarrow> 's policy \<Rightarrow> 's policy" where
  "policyPush ops hp c p = (case p of MessagePolicy m \<Rightarrow> MessagePolicy (mp_push hp c m) | SchedulerPolicy s \<Rightarrow> SchedulerPolicy (PushS ops hp c s))"

definition policyPeek :: "'s scheduler \<Rightarrow> 's policy \<Rightarrow> (sctp_error, cref option \<times> 's policy) result" where
  "policyPeek ops p =
     (case p of
        MessagePolicy m \<Rightarrow> Inr (mp_peek m, p)
      | SchedulerPolicy s \<Rightarrow> bindR (PeekS ops s) (\<lambda>(c, s'). Inr (c, SchedulerPolicy s')))"

definition policyPop :: "'s scheduler \<Rightarrow> cheap \<Rightarrow> cref \<Rightarrow> 's policy \<Rightarrow> string option \<times> 's policy" where
  "policyPop ops hp c p =
     (case p of
        MessagePolicy m \<Rightarrow> (case mp_pop hp c m of (e, m') \<Rightarrow> (e, MessagePolicy m'))
      | SchedulerPolicy s \<Rightarrow> (case PopS ops hp c s of (e, s') \<Rightarrow> (e, SchedulerPolicy s')))"

definition pd_push :: "'s scheduler \<Rightarrow> cheap \<Rightarrow> cref \<Rightarrow> 's pendingQueue \<Rightarrow> 's pendingQueue" where
  "pd_push ops hp c q = q\<lparr>policy := policyPush ops hp c (policy q),
     pd_nBytes := pd_nBytes q + int (length (UserData (hp c))), pd_nChunks := pd_nChunks q + 1\<rparr>"

definition pd_peek :: "'s scheduler \<Rightarrow> 's pendingQueue \<Rightarrow> (sctp_error, cref option \<times> 's pendingQueue) result" where
  "pd_peek ops q = bindR (policyPeek ops (policy q)) (\<lambda>(c, p). Inr (c, q\<lparr>policy := p\<rparr>))"

definition pd_pop :: "'s scheduler \<Rightarrow> cheap \<Rightarrow> cref \<Rightarrow> 's pendingQueue \<Rightarrow> string option \<times> 's pendingQueue" where
  "pd_pop ops hp c q =
     (case policyPop ops hp c (policy q) of
        (Some e, p) \<Rightarrow> (Some e, q\<lparr>policy := p\<rparr>)
      | (None, p) \<Rightarrow>
          (let n = pd_nBytes q - int (length (UserData (hp c)))
           in (None, q\<lparr>policy := p, pd_nBytes := (if n < 0 then 0 else n), pd_nChunks := pd_nChunks q - 1\<rparr>)))"

definition pd_getNumBytes :: "'s pendingQueue \<Rightarrow> int" where
  "pd_getNumBytes q = pd_nBytes q"

definition pd_size :: "'s pendingQueue \<Rightarrow> int" where
  "pd_size q = pd_nChunks q"

end
