(* ===== verification/PendingFacts.thy ===== *)
theory PendingFacts
  imports PendingQueue "HOL-Library.Sublist"
begin

text \<open>
  Correctness of the pending queue. The locale \<open>pending_contract\<close> states what the association relies
  on, for any policy: a whole message is pushed, and a peeked chunk can be popped. It is interpreted
  on the message policy, on round robin and on weighted fair queueing. Its client lemma covers
  arbitrary runs of the queue with its counters.
\<close>

section \<open>Runs\<close>

text \<open>
  The calls of the association: \<open>sendPayloadData\<close> pushes the fragments of one message,
  \<open>popPendingDataChunksToSend\<close> peeks and may pop what it peeked.
\<close>

datatype pdCall = SendMessage "cref list" | PeekOnly | TakeNext

fun pd_run :: "'s scheduler \<Rightarrow> cheap \<Rightarrow> pdCall list \<Rightarrow> 's pendingQueue \<Rightarrow> cref list \<Rightarrow> (sctp_error, 's pendingQueue \<times> cref list) result" where
  "pd_run ops hp [] q out = Inr (q, out)"
| "pd_run ops hp (SendMessage cs # calls) q out = pd_run ops hp calls (fold (pd_push ops hp) cs q) out"
| "pd_run ops hp (PeekOnly # calls) q out = bindR (pd_peek ops q) (\<lambda>(c, q'). pd_run ops hp calls q' out)"
| "pd_run ops hp (TakeNext # calls) q out =
     bindR (pd_peek ops q) (\<lambda>(c, q').
       case c of
         None \<Rightarrow> pd_run ops hp calls q' out
       | Some c \<Rightarrow>
           (case pd_pop ops hp c q' of
              (Some e, _) \<Rightarrow> Inl (Err e)
            | (None, q'') \<Rightarrow> pd_run ops hp calls q'' (out @ [c])))"

fun sentBy :: "pdCall \<Rightarrow> cref list" where
  "sentBy (SendMessage cs) = cs"
| "sentBy PeekOnly = []"
| "sentBy TakeNext = []"

text \<open>The fragments of one message: begin and end are marked, and all are ordered or all unordered.\<close>

definition message :: "cheap \<Rightarrow> cref list \<Rightarrow> bool" where
  "message hp cs \<longleftrightarrow> cs \<noteq> [] \<and>
     (\<forall>i < length cs. beginningFragment (hp (cs ! i)) = (i = 0) \<and> endingFragment (hp (cs ! i)) = (Suc i = length cs) \<and>
        unordered (hp (cs ! i)) = unordered (hp (cs ! 0)))"

definition messageCalls :: "cheap \<Rightarrow> pdCall list \<Rightarrow> bool" where
  "messageCalls hp calls = list_all (\<lambda>call. case call of SendMessage cs \<Rightarrow> message hp cs | _ \<Rightarrow> True) calls"

definition chunkBytes :: "cheap \<Rightarrow> cref list \<Rightarrow> int" where
  "chunkBytes hp cs = (\<Sum>c \<leftarrow> cs. int (length (UserData (hp c))))"

lemma chunkBytes_simps [simp]:
  "chunkBytes hp [] = 0" "chunkBytes hp (c # cs) = int (length (UserData (hp c))) + chunkBytes hp cs"
  "chunkBytes hp (cs @ ds) = chunkBytes hp cs + chunkBytes hp ds"
  by (simp_all add: chunkBytes_def)

lemma chunkBytes_nonneg [simp]: "0 \<le> chunkBytes hp cs"
  by (induction cs) simp_all

lemma chunkBytes_mono:
  assumes "mset cs \<subseteq># mset ds" shows "chunkBytes hp cs \<le> chunkBytes hp ds"
proof -
  have sum: "chunkBytes hp xs = (\<Sum>c \<in># mset xs. int (length (UserData (hp c))))" for xs
    by (induction xs) simp_all
  obtain rest where "mset ds = mset cs + rest" using assms unfolding mset_subset_eq_exists_conv by blast
  moreover obtain rs where "mset rs = rest" using ex_mset by blast
  ultimately have "chunkBytes hp ds = chunkBytes hp (cs @ rs)" unfolding sum by simp
  then show ?thesis by simp
qed

lemma pd_push_all:
  "fold (pd_push ops hp) cs q = q\<lparr>policy := fold (policyPush ops hp) cs (policy q),
     pd_nBytes := pd_nBytes q + chunkBytes hp cs, pd_nChunks := pd_nChunks q + int (length cs)\<rparr>"
  by (induction cs arbitrary: q) (simp_all add: pd_push_def)

section \<open>The contract of a policy\<close>

text \<open>\<open>held p\<close> is what the policy holds, in order of arrival for each class \<open>key c\<close> of chunks.\<close>

locale pending_contract =
  fixes ops :: "'s scheduler" and hp :: cheap and inv :: "'s policy \<Rightarrow> bool"
    and held :: "'s policy \<Rightarrow> 'k \<Rightarrow> cref list" and key :: "cref \<Rightarrow> 'k" and ghost :: "cref list \<Rightarrow> 's policy \<Rightarrow> bool"
  assumes push_message: "inv p \<Longrightarrow> message hp cs \<Longrightarrow>
      inv (fold (policyPush ops hp) cs p) \<and>
      (\<forall>k. held (fold (policyPush ops hp) cs p) k = held p k @ filter (\<lambda>c. key c = k) cs) \<and>
      (ghost out p \<longrightarrow> ghost out (fold (policyPush ops hp) cs p))"
    and peek_none: "inv p \<Longrightarrow> (\<And>k. held p k = []) \<Longrightarrow> policyPeek ops p = Inr (None, p)"
    and peek_some: "inv p \<Longrightarrow> held p k \<noteq> [] \<Longrightarrow>
      \<exists>c p' p''. policyPeek ops p = Inr (Some c, p') \<and> policyPop ops hp c p' = (None, p'') \<and>
        inv p' \<and> held p' = held p \<and> (ghost out p \<longrightarrow> ghost out p') \<and>
        inv p'' \<and> held p = (held p'')(key c := c # held p'' (key c)) \<and> (ghost out p \<longrightarrow> ghost (out @ [c]) p'')"
begin

text \<open>What is known of the queue after the chunks \<open>pushed\<close> and, of them, those in \<open>out\<close> popped.\<close>

definition balanced :: "'s pendingQueue \<Rightarrow> cref list \<Rightarrow> cref list \<Rightarrow> bool" where
  "balanced q pushed out \<longleftrightarrow> inv (policy q) \<and> ghost out (policy q) \<and>
     (\<forall>k. filter (\<lambda>c. key c = k) out @ held (policy q) k = filter (\<lambda>c. key c = k) pushed) \<and>
     int (length pushed) = int (length out) + pd_nChunks q \<and> chunkBytes hp pushed = chunkBytes hp out + pd_nBytes q"

lemma balanced_mset:
  assumes "balanced q pushed out"
  shows "mset out \<subseteq># mset pushed" "(\<forall>k. held (policy q) k = []) \<longleftrightarrow> mset out = mset pushed"
proof -
  have split: "filter (\<lambda>c. key c = k) out @ held (policy q) k = filter (\<lambda>c. key c = k) pushed" for k
    using assms by (simp add: balanced_def)
  have cnt: "Multiset.count (mset out) c + Multiset.count (mset (held (policy q) (key c))) c = Multiset.count (mset pushed) c" for c
  proof -
    have "Multiset.count (mset xs) c = Multiset.count (mset (filter (\<lambda>d. key d = key c) xs)) c" for xs by (induction xs) auto
    then show ?thesis using arg_cong [OF split [of "key c"], of "\<lambda>xs. Multiset.count (mset xs) c"] by (simp del: mset_filter)
  qed
  show "mset out \<subseteq># mset pushed" unfolding subseteq_mset_def using cnt by (metis le_add1)
  show "(\<forall>k. held (policy q) k = []) \<longleftrightarrow> mset out = mset pushed"
  proof
    assume "\<forall>k. held (policy q) k = []"
    then show "mset out = mset pushed" using cnt by (intro multiset_eqI) (metis add_0_right count_empty mset.simps(1))
  next
    assume eq: "mset out = mset pushed"
    have "length (filter (\<lambda>c. key c = k) out) = length (filter (\<lambda>c. key c = k) pushed)" for k
      using arg_cong [OF eq, of "\<lambda>M. size (filter_mset (\<lambda>c. key c = k) M)"] by (simp flip: mset_filter)
    then show "\<forall>k. held (policy q) k = []" using arg_cong [OF split, of length] by (metis add_cancel_right_right length_0_conv length_append)
  qed
qed

lemma balanced_empty_iff:
  assumes "balanced q pushed out"
  shows "pd_nChunks q = 0 \<longleftrightarrow> (\<forall>k. held (policy q) k = [])" "0 \<le> pd_nChunks q"
proof -
  note m = balanced_mset [OF assms]
  have len: "int (size (mset pushed)) = int (size (mset out)) + pd_nChunks q" using assms by (simp add: balanced_def)
  then show "0 \<le> pd_nChunks q" using size_mset_mono [OF m(1)] by simp
  have "pd_nChunks q = 0 \<longleftrightarrow> mset out = mset pushed"
  proof
    assume "pd_nChunks q = 0"
    then show "mset out = mset pushed" using len m(1) mset_subset_size [of "mset out" "mset pushed"] by (auto simp: subset_mset.le_less)
  next
    assume "mset out = mset pushed"
    then show "pd_nChunks q = 0" using len by (simp only:)
  qed
  then show "pd_nChunks q = 0 \<longleftrightarrow> (\<forall>k. held (policy q) k = [])" using m(2) by simp
qed

lemma send_balanced:
  assumes "balanced q pushed out" and "message hp cs"
  shows "balanced (fold (pd_push ops hp) cs q) (pushed @ cs) out"
  using assms push_message [of "policy q" cs out] by (auto simp: balanced_def pd_push_all simp flip: append_assoc)

lemma peek_balanced:
  assumes "balanced q pushed out"
  obtains (empty) "pd_peek ops q = Inr (None, q)" "pd_nChunks q = 0"
  | (chunk) c q' q'' where "pd_peek ops q = Inr (Some c, q')" "balanced q' pushed out" "pd_nChunks q' = pd_nChunks q"
      "pd_pop ops hp c q' = (None, q'')" "balanced q'' pushed (out @ [c])" "0 < pd_nChunks q"
proof (cases "\<forall>k. held (policy q) k = []")
  case True
  then show thesis
    using peek_none [of "policy q"] assms balanced_empty_iff [OF assms] by (intro empty) (auto simp: pd_peek_def balanced_def)
next
  case False
  then obtain k where k: "held (policy q) k \<noteq> []" by blast
  have inv: "inv (policy q)" using assms by (simp add: balanced_def)
  obtain c p' p'' where p: "policyPeek ops (policy q) = Inr (Some c, p')" "policyPop ops hp c p' = (None, p'')"
      "inv p'" "held p' = held (policy q)" "ghost out p'" "inv p''"
      "held (policy q) = (held p'')(key c := c # held p'' (key c))" "ghost (out @ [c]) p''"
    using peek_some [OF inv k, of out] assms unfolding balanced_def by blast
  let ?q' = "q\<lparr>policy := p'\<rparr>"
  let ?q'' = "q\<lparr>policy := p'', pd_nBytes := pd_nBytes q - int (length (UserData (hp c))), pd_nChunks := pd_nChunks q - 1\<rparr>"
  have b'': "balanced ?q'' pushed (out @ [c])"
    unfolding balanced_def
  proof (intro conjI allI)
    fix k
    have "filter (\<lambda>c. key c = k) out @ held (policy q) k = filter (\<lambda>c. key c = k) pushed" using assms by (simp add: balanced_def)
    then show "filter (\<lambda>c. key c = k) (out @ [c]) @ held (policy ?q'') k = filter (\<lambda>c. key c = k) pushed"
      unfolding p(7) by (cases "k = key c") auto
  qed (use assms p in \<open>simp_all add: balanced_def\<close>)
  have "mset (out @ [c]) \<subseteq># mset pushed" by (rule balanced_mset(1) [OF b''])
  then have "0 \<le> pd_nBytes q - int (length (UserData (hp c)))"
    using chunkBytes_mono [of "out @ [c]" pushed hp] assms by (simp add: balanced_def)
  then have pop: "pd_pop ops hp c ?q' = (None, ?q'')" using p(2) by (simp add: pd_pop_def)
  show thesis
    by (rule chunk [of c ?q' ?q'']) (use assms p pop b'' False balanced_empty_iff [OF assms] in \<open>auto simp: pd_peek_def balanced_def\<close>)
qed

lemma run_balanced:
  assumes "balanced q pushed out" and "messageCalls hp calls"
  shows "\<exists>q' out'. pd_run ops hp calls q out = Inr (q', out @ out') \<and> balanced q' (pushed @ concat (map sentBy calls)) (out @ out')"
  using assms
proof (induction calls arbitrary: q pushed out)
  case Nil
  then show ?case by simp
next
  case (Cons call calls)
  have rest: "messageCalls hp calls" using Cons.prems(2) by (simp add: messageCalls_def)
  show ?case
  proof (cases call)
    case (SendMessage cs)
    then have "balanced (fold (pd_push ops hp) cs q) (pushed @ cs) out"
      using Cons.prems by (intro send_balanced) (simp_all add: messageCalls_def)
    then show ?thesis using Cons.IH [OF _ rest] SendMessage by fastforce
  next
    case PeekOnly
    from Cons.prems(1) show ?thesis
    proof (cases rule: peek_balanced)
      case empty
      then show ?thesis using Cons.IH [OF Cons.prems(1) rest] PeekOnly by simp
    next
      case (chunk c q' q'')
      then show ?thesis using Cons.IH [OF chunk(2) rest] PeekOnly by simp
    qed
  next
    case TakeNext
    from Cons.prems(1) show ?thesis
    proof (cases rule: peek_balanced)
      case empty
      then show ?thesis using Cons.IH [OF Cons.prems(1) rest] TakeNext by simp
    next
      case (chunk c q' q'')
      then show ?thesis using Cons.IH [OF chunk(5) rest] TakeNext by fastforce
    qed
  qed
qed

text \<open>As many takes as chunks wait empty the queue.\<close>

lemma drain:
  assumes "balanced q pushed out" and "pd_nChunks q \<le> int n"
  shows "\<exists>q' out'. pd_run ops hp (replicate n TakeNext) q out = Inr (q', out @ out') \<and>
    balanced q' pushed (out @ out') \<and> pd_nChunks q' = 0"
  using assms
proof (induction n arbitrary: q out)
  case 0
  then show ?case using balanced_empty_iff(2) [OF 0(1)] by simp
next
  case (Suc n)
  from Suc.prems(1) show ?case
  proof (cases rule: peek_balanced)
    case empty
    then show ?thesis using Suc.IH [OF Suc.prems(1)] by simp
  next
    case (chunk c q' q'')
    have "pd_nChunks q'' \<le> int n" using chunk(2,3,5) Suc.prems(2) by (simp add: balanced_def)
    then show ?thesis using Suc.IH [OF chunk(5)] chunk(1,4) by fastforce
  qed
qed

end


section \<open>The message policy\<close>

lemma message_at:
  assumes "message hp (xs @ c # ys)"
  shows "beginningFragment (hp c) \<longleftrightarrow> xs = []" "endingFragment (hp c) \<longleftrightarrow> ys = []"
    "unordered (hp c) = unordered (hp (hd (xs @ c # ys)))"
  using assms [unfolded message_def, THEN conjunct2, rule_format, of "length xs"]
  by (auto simp: hd_conv_nth simp del: nth_append)

lemma message_class: "message hp cs \<Longrightarrow> c \<in> set cs \<Longrightarrow> unordered (hp c) = unordered (hp (hd cs))"
  by (auto simp: in_set_conv_decomp dest: message_at(3))

text \<open>
  \<open>part\<close> are the fragments already popped of the message under way; what is left of it stands at the
  front of the selected queue, followed by whole messages.
\<close>

definition messageInv :: "cheap \<Rightarrow> cref list \<Rightarrow> messagePolicy \<Rightarrow> bool" where
  "messageInv hp part m \<longleftrightarrow> (\<exists>us os rest.
     (\<forall>cs \<in> set us. message hp cs \<and> unordered (hp (hd cs))) \<and> (\<forall>cs \<in> set os. message hp cs \<and> \<not> unordered (hp (hd cs))) \<and>
     selected m = (rest \<noteq> []) \<and> (part = []) = (rest = []) \<and>
     (rest \<noteq> [] \<longrightarrow> message hp (part @ rest) \<and> unordered (hp (hd part)) = unorderedIsSelected m) \<and>
     bq_queue (unorderedQueue m) = (if unorderedIsSelected m then rest else []) @ concat us \<and>
     bq_queue (orderedQueue m) = (if unorderedIsSelected m then [] else rest) @ concat os)"

definition messageHeld :: "messagePolicy \<Rightarrow> bool \<Rightarrow> cref list" where
  "messageHeld m u = bq_queue (if u then unorderedQueue m else orderedQueue m)"

lemma mp_push_all:
  "(\<And>c. c \<in> set cs \<Longrightarrow> unordered (hp c) = u) \<Longrightarrow> fold (mp_push hp) cs m =
     (if u then m\<lparr>unorderedQueue := \<lparr>bq_queue = bq_queue (unorderedQueue m) @ cs\<rparr>\<rparr>
      else m\<lparr>orderedQueue := \<lparr>bq_queue = bq_queue (orderedQueue m) @ cs\<rparr>\<rparr>)"
  by (induction cs arbitrary: m) (auto simp: mp_push_def bq_push_def)

lemma messageInv_push:
  assumes "messageInv hp part m" and cs: "message hp cs"
  shows "messageInv hp part (fold (mp_push hp) cs m)"
    "messageHeld (fold (mp_push hp) cs m) u = messageHeld m u @ filter (\<lambda>c. unordered (hp c) = u) cs"
proof -
  have push: "fold (mp_push hp) cs m =
      (if unordered (hp (hd cs)) then m\<lparr>unorderedQueue := \<lparr>bq_queue = bq_queue (unorderedQueue m) @ cs\<rparr>\<rparr>
       else m\<lparr>orderedQueue := \<lparr>bq_queue = bq_queue (orderedQueue m) @ cs\<rparr>\<rparr>)"
    by (rule mp_push_all) (rule message_class [OF cs])
  from assms(1) obtain us os rest where m:
    "\<forall>cs \<in> set us. message hp cs \<and> unordered (hp (hd cs))" "\<forall>cs \<in> set os. message hp cs \<and> \<not> unordered (hp (hd cs))"
    "selected m = (rest \<noteq> [])" "(part = []) = (rest = [])"
    "rest \<noteq> [] \<longrightarrow> message hp (part @ rest) \<and> unordered (hp (hd part)) = unorderedIsSelected m"
    "bq_queue (unorderedQueue m) = (if unorderedIsSelected m then rest else []) @ concat us"
    "bq_queue (orderedQueue m) = (if unorderedIsSelected m then [] else rest) @ concat os"
    unfolding messageInv_def by blast
  let ?us = "us @ (if unordered (hp (hd cs)) then [cs] else [])" and ?os = "os @ (if unordered (hp (hd cs)) then [] else [cs])"
  show "messageInv hp part (fold (mp_push hp) cs m)"
    unfolding messageInv_def push
    by (rule exI [of _ ?us], rule exI [of _ ?os], rule exI [of _ rest]) (use m cs in \<open>simp split: if_splits\<close>)
  have "filter (\<lambda>c. unordered (hp c) = u) cs = (if unordered (hp (hd cs)) = u then cs else [])"
    using message_class [OF cs] by (auto simp: filter_empty_conv intro: filter_True)
  then show "messageHeld (fold (mp_push hp) cs m) u = messageHeld m u @ filter (\<lambda>c. unordered (hp c) = u) cs"
    unfolding push by (auto simp: messageHeld_def)
qed


definition messageParts :: "cheap \<Rightarrow> cref list \<Rightarrow> messagePolicy \<Rightarrow> cref list list \<Rightarrow> cref list list \<Rightarrow> cref list \<Rightarrow> bool" where
  "messageParts hp part m us os rest \<longleftrightarrow>
     (\<forall>cs \<in> set us. message hp cs \<and> unordered (hp (hd cs))) \<and> (\<forall>cs \<in> set os. message hp cs \<and> \<not> unordered (hp (hd cs))) \<and>
     selected m = (rest \<noteq> []) \<and> (part = []) = (rest = []) \<and>
     (rest \<noteq> [] \<longrightarrow> message hp (part @ rest) \<and> unordered (hp (hd part)) = unorderedIsSelected m) \<and>
     bq_queue (unorderedQueue m) = (if unorderedIsSelected m then rest else []) @ concat us \<and>
     bq_queue (orderedQueue m) = (if unorderedIsSelected m then [] else rest) @ concat os"

lemma messageInv_parts: "messageInv hp part m \<longleftrightarrow> (\<exists>us os rest. messageParts hp part m us os rest)"
  by (simp add: messageInv_def messageParts_def)

lemmas mp_defs = mp_peek_def mp_pop_def popSelected_def popNewSelection_def bq_get_def bq_pop_def

text \<open>One chunk of the message under way, and the first chunk of the next message.\<close>

lemma take_selected:
  assumes m: "messageParts hp part m us os (c # rest)"
  shows "\<exists>m'. mp_peek m = Some c \<and> mp_pop hp c m = (None, m') \<and> messageInv hp (if endingFragment (hp c) then [] else part @ [c]) m' \<and>
    (endingFragment (hp c) \<longrightarrow> message hp (part @ [c])) \<and>
    (\<forall>u. messageHeld m u = (if unordered (hp c) = u then c # messageHeld m' u else messageHeld m' u))"
proof -
  have msg: "message hp (part @ c # rest)" "part \<noteq> []" using m by (simp_all add: messageParts_def)
  have c: "endingFragment (hp c) \<longleftrightarrow> rest = []" "unordered (hp c) = unorderedIsSelected m"
    using message_at [OF msg(1)] m msg(2) by (simp_all add: messageParts_def)
  define m' where "m' = snd (mp_pop hp c m)"
  have pop: "mp_peek m = Some c \<and> mp_pop hp c m = (None, m')"
    using m by (cases "unorderedIsSelected m"; cases "endingFragment (hp c)") (simp_all add: messageParts_def mp_defs m'_def)
  have parts: "messageParts hp (if endingFragment (hp c) then [] else part @ [c]) m' us os rest"
    using m c msg by (cases "unorderedIsSelected m"; cases "endingFragment (hp c)") (simp_all add: messageParts_def mp_defs m'_def)
  have held: "messageHeld m u = (if unordered (hp c) = u then c # messageHeld m' u else messageHeld m' u)" for u
    using m c by (cases "unorderedIsSelected m"; cases "endingFragment (hp c)") (simp_all add: messageParts_def messageHeld_def mp_defs m'_def)
  have "messageInv hp (if endingFragment (hp c) then [] else part @ [c]) m'" unfolding messageInv_parts using parts by blast
  moreover have "endingFragment (hp c) \<longrightarrow> message hp (part @ [c])" using c(1) msg(1) by auto
  ultimately show ?thesis using pop held by blast
qed

lemma take_next:
  assumes m: "messageParts hp part m us os []" and u: "messageHeld m u \<noteq> []"
  shows "\<exists>c m'. mp_peek m = Some c \<and> mp_pop hp c m = (None, m') \<and> messageInv hp (if endingFragment (hp c) then [] else part @ [c]) m' \<and>
    (endingFragment (hp c) \<longrightarrow> message hp (part @ [c])) \<and>
    (\<forall>u. messageHeld m u = (if unordered (hp c) = u then c # messageHeld m' u else messageHeld m' u))"
proof -
  have part: "part = []" using m by (simp add: messageParts_def)
  have first: "cs \<noteq> []" if "cs \<in> set us \<union> set os" for cs using that m by (auto simp: messageParts_def message_def)
  define isU where "isU = (us \<noteq> [])"
  obtain c cs qs where q: "(if isU then us else os) = (c # cs) # qs"
    using u m first by (cases us; cases os) (fastforce simp: messageParts_def messageHeld_def isU_def neq_Nil_conv split: if_splits)+
  have msg: "message hp (c # cs)" "unordered (hp c) = isU"
    using q m by (auto simp: messageParts_def split: if_splits)
  have c: "beginningFragment (hp c)" "endingFragment (hp c) \<longleftrightarrow> cs = []" using message_at [of hp "[]" c cs] msg(1) by simp_all
  define m' where "m' = snd (mp_pop hp c m)"
  have pop: "mp_peek m = Some c \<and> mp_pop hp c m = (None, m')"
    using m q c msg part by (cases isU; cases "endingFragment (hp c)") (simp_all add: messageParts_def mp_defs m'_def isU_def)
  have parts: "messageParts hp (if endingFragment (hp c) then [] else part @ [c]) m' (if isU then qs else us) (if isU then os else qs) cs"
    using m q c msg part by (cases isU; cases "endingFragment (hp c)") (simp_all add: messageParts_def mp_defs m'_def isU_def)
  have held: "messageHeld m u = (if unordered (hp c) = u then c # messageHeld m' u else messageHeld m' u)" for u
    using m q c msg part by (cases isU; cases "endingFragment (hp c)") (simp_all add: messageParts_def messageHeld_def mp_defs m'_def isU_def)
  have "messageInv hp (if endingFragment (hp c) then [] else part @ [c]) m'" unfolding messageInv_parts using parts by blast
  moreover have "endingFragment (hp c) \<longrightarrow> message hp (part @ [c])" using c(2) msg(1) part by auto
  ultimately show ?thesis using pop held by blast
qed


lemma messageInv_take:
  assumes "messageInv hp part m" and "messageHeld m u \<noteq> []"
  shows "\<exists>c m'. mp_peek m = Some c \<and> mp_pop hp c m = (None, m') \<and> messageInv hp (if endingFragment (hp c) then [] else part @ [c]) m' \<and>
    (endingFragment (hp c) \<longrightarrow> message hp (part @ [c])) \<and>
    (\<forall>u. messageHeld m u = (if unordered (hp c) = u then c # messageHeld m' u else messageHeld m' u))"
proof -
  obtain us os rest where m: "messageParts hp part m us os rest" using assms(1) unfolding messageInv_parts by blast
  show ?thesis
  proof (cases rest)
    case Nil
    then show ?thesis using take_next [OF m [unfolded Nil] assms(2)] by blast
  next
    case (Cons c rest')
    then show ?thesis using take_selected [OF m [unfolded Cons]] by blast
  qed
qed

lemma messageInv_empty:
  assumes "messageInv hp part m" and "\<And>u. messageHeld m u = []"
  shows "mp_peek m = None"
  using assms(1) assms(2) [of True] assms(2) [of False] by (auto simp: messageHeld_def mp_peek_def bq_get_def)

text \<open>
  The contract for the queue with the message policy. The chunks popped so far are whole messages and
  the popped part of the one under way.
\<close>

definition messagePolicyInv :: "cheap \<Rightarrow> 's policy \<Rightarrow> bool" where
  "messagePolicyInv hp p \<longleftrightarrow> (case p of MessagePolicy m \<Rightarrow> \<exists>part. messageInv hp part m | SchedulerPolicy s \<Rightarrow> False)"

definition messagePolicyHeld :: "'s policy \<Rightarrow> bool \<Rightarrow> cref list" where
  "messagePolicyHeld p = (case p of MessagePolicy m \<Rightarrow> messageHeld m | SchedulerPolicy s \<Rightarrow> (\<lambda>_. []))"

definition wholeMessages :: "cheap \<Rightarrow> cref list \<Rightarrow> 's policy \<Rightarrow> bool" where
  "wholeMessages hp out p \<longleftrightarrow> (\<exists>ms part m. p = MessagePolicy m \<and> out = concat ms @ part \<and> (\<forall>cs \<in> set ms. message hp cs) \<and> messageInv hp part m)"

lemma policyPush_message: "fold (policyPush ops hp) cs (MessagePolicy m) = MessagePolicy (fold (mp_push hp) cs m)"
  by (induction cs arbitrary: m) (simp_all add: policyPush_def)

lemma wholeMessages_take:
  assumes "wholeMessages hp out (MessagePolicy m)" and "mp_peek m = Some c" and "mp_pop hp c m = (None, m')" and "messageHeld m u \<noteq> []"
  shows "wholeMessages hp (out @ [c]) (MessagePolicy m')"
proof -
  obtain ms part where out: "out = concat ms @ part" "\<forall>cs \<in> set ms. message hp cs" "messageInv hp part m"
    using assms(1) unfolding wholeMessages_def by blast
  have step: "messageInv hp (if endingFragment (hp c) then [] else part @ [c]) m'" "endingFragment (hp c) \<longrightarrow> message hp (part @ [c])"
    using messageInv_take [OF out(3) assms(4)] assms(2,3) by auto
  show ?thesis
  proof (cases "endingFragment (hp c)")
    case True
    then show ?thesis unfolding wholeMessages_def
      using out step by (intro exI [of _ "ms @ [part @ [c]]"] exI [of _ "[]"] exI [of _ m']) simp
  next
    case False
    then show ?thesis unfolding wholeMessages_def
      using out step by (intro exI [of _ ms] exI [of _ "part @ [c]"] exI [of _ m']) simp
  qed
qed

interpretation mp: pending_contract ops hp "messagePolicyInv hp" messagePolicyHeld "\<lambda>c. unordered (hp c)" "wholeMessages hp"
  for ops :: "'s scheduler" and hp :: cheap
proof unfold_locales
  fix p :: "'s policy" and cs out
  assume inv: "messagePolicyInv hp p" and cs: "message hp cs"
  then obtain m part where p: "p = MessagePolicy m" "messageInv hp part m" by (cases p) (auto simp: messagePolicyInv_def)
  have "wholeMessages hp out (MessagePolicy (fold (mp_push hp) cs m))" if "wholeMessages hp out p"
    using that messageInv_push(1) [OF _ cs] unfolding wholeMessages_def p(1) by blast
  then show "messagePolicyInv hp (fold (policyPush ops hp) cs p) \<and>
      (\<forall>k. messagePolicyHeld (fold (policyPush ops hp) cs p) k = messagePolicyHeld p k @ filter (\<lambda>c. unordered (hp c) = k) cs) \<and>
      (wholeMessages hp out p \<longrightarrow> wholeMessages hp out (fold (policyPush ops hp) cs p))"
    unfolding p(1) policyPush_message using messageInv_push [OF p(2) cs] by (auto simp: messagePolicyInv_def messagePolicyHeld_def)
next
  fix p :: "'s policy"
  assume "messagePolicyInv hp p" "\<And>k. messagePolicyHeld p k = []"
  then show "policyPeek ops p = Inr (None, p)"
    using messageInv_empty by (cases p) (auto simp: messagePolicyInv_def messagePolicyHeld_def policyPeek_def)
next
  fix p :: "'s policy" and k out
  assume inv: "messagePolicyInv hp p" and k: "messagePolicyHeld p k \<noteq> []"
  then obtain m part where p: "p = MessagePolicy m" "messageInv hp part m" by (cases p) (auto simp: messagePolicyInv_def)
  have k: "messageHeld m k \<noteq> []" using k p by (simp add: messagePolicyHeld_def)
  obtain c m' where c: "mp_peek m = Some c" "mp_pop hp c m = (None, m')"
      "messageInv hp (if endingFragment (hp c) then [] else part @ [c]) m'"
      "\<forall>u. messageHeld m u = (if unordered (hp c) = u then c # messageHeld m' u else messageHeld m' u)"
    using messageInv_take [OF p(2) k] by blast
  have peek: "policyPeek ops p = Inr (Some c, p)" "policyPop ops hp c p = (None, MessagePolicy m')"
    using c by (simp_all add: p policyPeek_def policyPop_def)
  have held: "messagePolicyHeld p = (messagePolicyHeld (MessagePolicy m' :: 's policy))(unordered (hp c) := c # messagePolicyHeld (MessagePolicy m' :: 's policy) (unordered (hp c)))"
    using c(4) by (auto simp: p messagePolicyHeld_def)
  have inv': "messagePolicyInv hp (MessagePolicy m')" using c(3) by (auto simp: messagePolicyInv_def)
  show "\<exists>c p' p''. policyPeek ops p = Inr (Some c, p') \<and> policyPop ops hp c p' = (None, p'') \<and>
      messagePolicyInv hp p' \<and> messagePolicyHeld p' = messagePolicyHeld p \<and> (wholeMessages hp out p \<longrightarrow> wholeMessages hp out p') \<and>
      messagePolicyInv hp p'' \<and>
      messagePolicyHeld p = (messagePolicyHeld p'')(unordered (hp c) := c # messagePolicyHeld p'' (unordered (hp c))) \<and>
      (wholeMessages hp out p \<longrightarrow> wholeMessages hp (out @ [c]) p'')"
    using peek inv held inv' wholeMessages_take [OF _ c(1,2) k] p(1) by blast
qed


section \<open>Stream schedulers\<close>

text \<open>The contract of a scheduler, for single chunks, which gives the contract of the queue that uses it.\<close>

locale scheduler_contract =
  fixes ops :: "'s scheduler" and hp :: cheap and sinv :: "'s \<Rightarrow> bool" and sheld :: "'s \<Rightarrow> u16 \<Rightarrow> cref list"
  assumes sched_push: "sinv s \<Longrightarrow> sinv (PushS ops hp c s) \<and>
      (\<forall>k. sheld (PushS ops hp c s) k = sheld s k @ (if streamIdentifier (hp c) = k then [c] else []))"
    and sched_empty: "sinv s \<Longrightarrow> (\<And>k. sheld s k = []) \<Longrightarrow> PeekS ops s = Inr (None, s)"
    and sched_take: "sinv s \<Longrightarrow> sheld s k \<noteq> [] \<Longrightarrow>
      \<exists>c s' s''. PeekS ops s = Inr (Some c, s') \<and> PopS ops hp c s' = (None, s'') \<and> sinv s' \<and> sheld s' = sheld s \<and>
        sinv s'' \<and> sheld s = (sheld s'')(streamIdentifier (hp c) := c # sheld s'' (streamIdentifier (hp c)))"
    and sched_reset: "sinv (ResetS ops s) \<and> sheld (ResetS ops s) k = []"
begin

definition policyInv :: "'s policy \<Rightarrow> bool" where
  "policyInv p \<longleftrightarrow> (case p of MessagePolicy m \<Rightarrow> False | SchedulerPolicy s \<Rightarrow> sinv s)"

definition policyHeld :: "'s policy \<Rightarrow> u16 \<Rightarrow> cref list" where
  "policyHeld p = (case p of MessagePolicy m \<Rightarrow> (\<lambda>_. []) | SchedulerPolicy s \<Rightarrow> sheld s)"

lemma push_all:
  "sinv s \<Longrightarrow> \<exists>s'. fold (policyPush ops hp) cs (SchedulerPolicy s) = SchedulerPolicy s' \<and> sinv s' \<and>
     (\<forall>k. sheld s' k = sheld s k @ filter (\<lambda>c. streamIdentifier (hp c) = k) cs)"
proof (induction cs arbitrary: s)
  case (Cons c cs)
  have s: "sinv (PushS ops hp c s)" "\<And>k. sheld (PushS ops hp c s) k = sheld s k @ (if streamIdentifier (hp c) = k then [c] else [])"
    using sched_push [OF Cons.prems, of c] by simp_all
  have "policyPush ops hp c (SchedulerPolicy s) = SchedulerPolicy (PushS ops hp c s)" by (simp add: policyPush_def)
  then show ?case using Cons.IH [OF s(1)] by (auto simp: s(2))
qed simp

sublocale pending_contract ops hp policyInv policyHeld "\<lambda>c. streamIdentifier (hp c)" "\<lambda>_ _. True"
proof unfold_locales
  fix p cs out
  assume inv: "policyInv p"
  then obtain s where s: "p = SchedulerPolicy s" "sinv s" by (cases p) (simp_all add: policyInv_def)
  show "policyInv (fold (policyPush ops hp) cs p) \<and>
      (\<forall>k. policyHeld (fold (policyPush ops hp) cs p) k = policyHeld p k @ filter (\<lambda>c. streamIdentifier (hp c) = k) cs) \<and>
      (True \<longrightarrow> True)"
    using push_all [OF s(2), of cs] by (auto simp: s policyInv_def policyHeld_def)
next
  fix p assume "policyInv p" "\<And>k. policyHeld p k = []"
  then show "policyPeek ops p = Inr (None, p)"
    using sched_empty by (cases p) (simp_all add: policyInv_def policyHeld_def policyPeek_def)
next
  fix p k out
  assume inv: "policyInv p" and k: "policyHeld p k \<noteq> []"
  then obtain s where s: "p = SchedulerPolicy s" "sinv s" by (cases p) (simp_all add: policyInv_def)
  then have "sheld s k \<noteq> []" using k by (simp add: policyHeld_def)
  from sched_take [OF s(2) this] obtain c s' s'' where t:
    "PeekS ops s = Inr (Some c, s')" "PopS ops hp c s' = (None, s'')" "sinv s'" "sheld s' = sheld s" "sinv s''"
    "sheld s = (sheld s'')(streamIdentifier (hp c) := c # sheld s'' (streamIdentifier (hp c)))"
    by blast
  show "\<exists>c p' p''. policyPeek ops p = Inr (Some c, p') \<and> policyPop ops hp c p' = (None, p'') \<and>
      policyInv p' \<and> policyHeld p' = policyHeld p \<and> (True \<longrightarrow> True) \<and> policyInv p'' \<and>
      policyHeld p = (policyHeld p'')(streamIdentifier (hp c) := c # policyHeld p'' (streamIdentifier (hp c))) \<and> (True \<longrightarrow> True)"
    using t by (intro exI [of _ c] exI [of _ "SchedulerPolicy s'"] exI [of _ "SchedulerPolicy s''"])
      (simp add: s policyPeek_def policyPop_def policyInv_def policyHeld_def)
qed

end

text \<open>What both schedulers hold, by stream, and their queues: never empty, and of one stream.\<close>

definition streamHeld :: "(u16 \<rightharpoonup> pendingBaseQueue) \<Rightarrow> u16 \<Rightarrow> cref list" where
  "streamHeld queues k = (case queues k of None \<Rightarrow> [] | Some b \<Rightarrow> bq_queue b)"

definition streamQueuesOK :: "cheap \<Rightarrow> (u16 \<rightharpoonup> pendingBaseQueue) \<Rightarrow> bool" where
  "streamQueuesOK hp queues \<longleftrightarrow> (\<forall>k b. queues k = Some b \<longrightarrow> bq_queue b \<noteq> [] \<and> (\<forall>c \<in> set (bq_queue b). streamIdentifier (hp c) = k))"

lemma streamQueues_push:
  fixes c :: cref
  assumes "streamQueuesOK hp queues"
  defines "queues' \<equiv> queues(streamIdentifier (hp c) \<mapsto> bq_push c (case queues (streamIdentifier (hp c)) of None \<Rightarrow> newPendingBaseQueue | Some b \<Rightarrow> b))"
  shows "streamQueuesOK hp queues'" "streamHeld queues' k = streamHeld queues k @ (if streamIdentifier (hp c) = k then [c] else [])"
  using assms(1) unfolding queues'_def
  by (auto simp: streamQueuesOK_def streamHeld_def bq_push_def newPendingBaseQueue_def split: option.splits)

lemma streamQueues_pop:
  assumes "streamQueuesOK hp queues" and "queues k = Some b"
  obtains c cs where "bq_queue b = c # cs" "bq_get 0 b = Some c" "bq_pop b = (Some c, b\<lparr>bq_queue := cs\<rparr>)" "streamIdentifier (hp c) = k"
    "streamQueuesOK hp (if cs = [] then queues(k := None) else queues(k \<mapsto> b\<lparr>bq_queue := cs\<rparr>))"
    "streamHeld queues = (streamHeld (if cs = [] then queues(k := None) else queues(k \<mapsto> b\<lparr>bq_queue := cs\<rparr>)))(k := c # cs)"
    "streamHeld (if cs = [] then queues(k := None) else queues(k \<mapsto> b\<lparr>bq_queue := cs\<rparr>)) k = cs"
proof -
  obtain c cs where b: "bq_queue b = c # cs" using assms by (cases "bq_queue b") (auto simp: streamQueuesOK_def)
  show thesis
    by (rule that [OF b]) (use assms b in \<open>auto simp: streamQueuesOK_def streamHeld_def bq_get_def bq_pop_def fun_eq_iff\<close>)
qed

lemma streamHeld_dom: "streamQueuesOK hp queues \<Longrightarrow> streamHeld queues k \<noteq> [] \<longleftrightarrow> k \<in> dom queues"
  by (auto simp: streamHeld_def streamQueuesOK_def split: option.splits)


subsection \<open>Round robin\<close>

definition rr_inv :: "cheap \<Rightarrow> roundRobin \<Rightarrow> bool" where
  "rr_inv hp q \<longleftrightarrow> streamQueuesOK hp (rr_streamQueues q) \<and> distinct (rr_streamOrder q) \<and>
     set (rr_streamOrder q) = dom (rr_streamQueues q) \<and>
     (rr_streamSelected q \<longrightarrow> rr_streamOrder q \<noteq> [] \<and> rr_selectedStream q = hd (rr_streamOrder q))"

lemma rr_Push_spec:
  assumes "rr_inv hp q"
  shows "rr_inv hp (rr_Push hp c q)"
    "streamHeld (rr_streamQueues (rr_Push hp c q)) k = streamHeld (rr_streamQueues q) k @ (if streamIdentifier (hp c) = k then [c] else [])"
proof -
  note push = streamQueues_push [of hp "rr_streamQueues q" c]
  have ok: "streamQueuesOK hp (rr_streamQueues q)" using assms by (simp add: rr_inv_def)
  show "rr_inv hp (rr_Push hp c q)"
  proof (cases "rr_streamQueues q (streamIdentifier (hp c))")
    case None
    then have "streamIdentifier (hp c) \<notin> set (rr_streamOrder q)" using assms by (auto simp: rr_inv_def)
    then show ?thesis using assms push(1) [OF ok] None by (simp add: rr_inv_def rr_Push_def Let_def)
  next
    case (Some b)
    then have "bq_size b \<noteq> 0" using ok by (auto simp: streamQueuesOK_def bq_size_def)
    then show ?thesis using assms push(1) [OF ok] Some by (auto simp: rr_inv_def rr_Push_def Let_def)
  qed
  show "streamHeld (rr_streamQueues (rr_Push hp c q)) k = streamHeld (rr_streamQueues q) k @ (if streamIdentifier (hp c) = k then [c] else [])"
    using push(2) [OF ok] by (simp add: rr_Push_def Let_def)
qed

text \<open>A take serves the first stream of the order, which goes to the end if it has more.\<close>

lemma rr_take:
  assumes inv: "rr_inv hp q" and order: "rr_streamOrder q = sid # ids"
  obtains c q' q'' where "rr_Peek q = Inr (Some c, q')" "rr_inv hp q'" "rr_streamQueues q' = rr_streamQueues q"
    "rr_Pop hp c q' = (None, q'')" "rr_inv hp q''" "streamIdentifier (hp c) = sid"
    "rr_streamOrder q'' = ids \<or> rr_streamOrder q'' = ids @ [sid]"
    "streamHeld (rr_streamQueues q) = (streamHeld (rr_streamQueues q''))(sid := c # streamHeld (rr_streamQueues q'') sid)"
proof -
  have ok: "streamQueuesOK hp (rr_streamQueues q)" and sid: "sid \<in> dom (rr_streamQueues q)"
    using inv order by (auto simp: rr_inv_def)
  obtain b where b: "rr_streamQueues q sid = Some b" using sid by blast
  define q' where "q' = q\<lparr>rr_streamSelected := True, rr_selectedStream := sid\<rparr>"
  have q': "rr_inv hp q'" "rr_streamQueues q' = rr_streamQueues q" "rr_streamOrder q' = sid # ids" "rr_streamSelected q'" "rr_selectedStream q' = sid"
    using inv order by (simp_all add: rr_inv_def q'_def)
  have same: "q' = q" if "rr_streamSelected q" using that inv order by (simp add: q'_def rr_inv_def)
  show thesis
  proof (rule streamQueues_pop [OF ok b])
    fix c cs
    let ?qs = "if cs = [] then (rr_streamQueues q)(sid := None) else (rr_streamQueues q)(sid \<mapsto> b\<lparr>bq_queue := cs\<rparr>)"
    assume c: "bq_queue b = c # cs" "bq_get 0 b = Some c" "bq_pop b = (Some c, b\<lparr>bq_queue := cs\<rparr>)" "streamIdentifier (hp c) = sid"
      "streamQueuesOK hp ?qs" "streamHeld (rr_streamQueues q) = (streamHeld ?qs)(sid := c # cs)" "streamHeld ?qs sid = cs"
    let ?q'' = "q'\<lparr>rr_streamQueues := ?qs, rr_streamOrder := (if cs = [] then ids else ids @ [sid]), rr_streamSelected := False, rr_selectedStream := 0\<rparr>"
    have peek: "rr_Peek q = Inr (Some c, q')"
      using order b c(2) same q'(5) by (cases "rr_streamSelected q") (simp_all add: rr_Peek_def q'_def)
    have pop: "rr_Pop hp c q' = (None, ?q'')"
      using q' b c(3) by (simp add: rr_Pop_def Let_def bq_size_def)
    have inv'': "rr_inv hp ?q''" using c(5) q' by (auto simp: rr_inv_def)
    show thesis by (rule that [OF peek q'(1,2) pop inv'' c(4)]) (use c(6,7) in \<open>simp_all del: fun_upd_apply\<close>)
  qed
qed

interpretation rr: scheduler_contract roundRobinScheduler hp "rr_inv hp" "\<lambda>q. streamHeld (rr_streamQueues q)" for hp
proof unfold_locales
  fix q c
  assume "rr_inv hp q"
  then show "rr_inv hp (PushS roundRobinScheduler hp c q) \<and>
      (\<forall>k. streamHeld (rr_streamQueues (PushS roundRobinScheduler hp c q)) k =
        streamHeld (rr_streamQueues q) k @ (if streamIdentifier (hp c) = k then [c] else []))"
    using rr_Push_spec by (simp add: roundRobinScheduler_def)
next
  fix q assume inv: "rr_inv hp q" and empty: "\<And>k. streamHeld (rr_streamQueues q) k = []"
  then have "set (rr_streamOrder q) = {}" using streamHeld_dom [of hp "rr_streamQueues q"] unfolding rr_inv_def by auto
  then show "PeekS roundRobinScheduler q = Inr (None, q)" using inv by (simp add: roundRobinScheduler_def rr_Peek_def rr_inv_def)
next
  fix q k assume inv: "rr_inv hp q" and k: "streamHeld (rr_streamQueues q) k \<noteq> []"
  then have "k \<in> set (rr_streamOrder q)" using streamHeld_dom [of hp "rr_streamQueues q"] by (auto simp: rr_inv_def)
  then obtain sid ids where order: "rr_streamOrder q = sid # ids" by (cases "rr_streamOrder q") auto
  show "\<exists>c s' s''. PeekS roundRobinScheduler q = Inr (Some c, s') \<and> PopS roundRobinScheduler hp c s' = (None, s'') \<and>
      rr_inv hp s' \<and> streamHeld (rr_streamQueues s') = streamHeld (rr_streamQueues q) \<and> rr_inv hp s'' \<and>
      streamHeld (rr_streamQueues q) = (streamHeld (rr_streamQueues s''))(streamIdentifier (hp c) := c # streamHeld (rr_streamQueues s'') (streamIdentifier (hp c)))"
    by (rule rr_take [OF inv order]) (auto simp: roundRobinScheduler_def simp del: fun_upd_apply)
next
  show "rr_inv hp (ResetS roundRobinScheduler q) \<and> streamHeld (rr_streamQueues (ResetS roundRobinScheduler q)) k = []" for q k
    by (simp add: roundRobinScheduler_def rr_Reset_def rr_inv_def streamQueuesOK_def streamHeld_def)
qed


subsection \<open>Weighted fair queueing\<close>

text \<open>The chunk at the front of a stream, and the order of finish times with ties by stream.\<close>

definition front :: "wfq \<Rightarrow> u16 \<Rightarrow> cref option" where
  "front q sid = (case wf_streamQueues q sid of None \<Rightarrow> None | Some b \<Rightarrow> bq_get 0 b)"

definition finishOf :: "wfq \<Rightarrow> cref \<Rightarrow> rat" where
  "finishOf q c = orZero (wf_chunkFinish q c)"

definition notLater :: "rat \<times> u16 \<Rightarrow> rat \<times> u16 \<Rightarrow> bool" where
  "notLater a b \<longleftrightarrow> fst a < fst b \<or> fst a = fst b \<and> snd a \<le> snd b"

lemma notLater_order:
  "notLater a a" "notLater a b \<Longrightarrow> notLater b c \<Longrightarrow> notLater a c" "notLater a b \<Longrightarrow> notLater b a \<Longrightarrow> a = b"
  "\<not> notLater a b \<Longrightarrow> notLater b a"
  by (auto simp: notLater_def prod_eq_iff not_le)

definition better :: "(cref \<times> u16 \<times> rat) option \<Rightarrow> rat \<times> u16 \<Rightarrow> bool" where
  "better r k \<longleftrightarrow> (case r of None \<Rightarrow> False | Some (c, sid, f) \<Rightarrow> notLater (f, sid) k)"

lemma wf_select_step:
  "wf_select q (sid # ids) best =
     wf_select q ids (case front q sid of None \<Rightarrow> best
       | Some c \<Rightarrow> if better best (finishOf q c, sid) then best else Some (c, sid, finishOf q c))"
proof (cases "front q sid")
  case (Some c)
  have lt: "a < f' \<or> a = f' \<and> sid < sid' \<longleftrightarrow> \<not> notLater (f', sid') (a, sid)" for a f' sid'
    by (auto simp: notLater_def)
  show ?thesis using Some by (simp add: front_def finishOf_def better_def Let_def lt split: option.splits) auto
qed (auto simp: front_def split: option.splits)

declare wf_select.simps(2) [simp del]

text \<open>The selected chunk is the front with the smallest finish time, and there is one unless all are empty.\<close>

lemma wf_select_source:
  "wf_select q ids best = Some (c, sid, f) \<Longrightarrow> best = Some (c, sid, f) \<or> sid \<in> set ids \<and> front q sid = Some c \<and> f = finishOf q c"
proof (induction ids arbitrary: best)
  case (Cons i ids)
  then show ?case unfolding wf_select_step by (auto dest!: Cons.IH split: option.splits if_splits)
qed simp

lemma wf_select_better: "better best k \<Longrightarrow> better (wf_select q ids best) k"
proof (induction ids arbitrary: best)
  case (Cons i ids)
  have "better (Some (c, i, f)) k" if "\<not> better best (f, i)" for c f
  proof -
    obtain c' sid' f' where best: "best = Some (c', sid', f')" using Cons.prems by (auto simp: better_def split: option.splits)
    then have k: "notLater (f', sid') k" and i: "\<not> notLater (f', sid') (f, i)" using Cons.prems that by (simp_all add: better_def)
    have "notLater (f, i) k" by (rule notLater_order(2) [OF notLater_order(4) [OF i] k])
    then show ?thesis by (simp add: better_def)
  qed
  then show ?case unfolding wf_select_step by (intro Cons.IH) (use Cons.prems in \<open>simp split: option.splits\<close>)
qed simp

lemma wf_select_min: "sid \<in> set ids \<Longrightarrow> front q sid = Some c \<Longrightarrow> better (wf_select q ids best) (finishOf q c, sid)"
proof (induction ids arbitrary: best)
  case (Cons i ids)
  show ?case
  proof (cases "sid = i")
    case True
    have "better (Some (c, i, finishOf q c)) (finishOf q c, sid)" using True by (simp add: better_def notLater_order(1))
    then show ?thesis unfolding wf_select_step using True Cons.prems(2) by (intro wf_select_better) simp
  next
    case False
    then show ?thesis unfolding wf_select_step using Cons by simp
  qed
qed simp

text \<open>Hence the choice does not depend on the order in which the map is traversed.\<close>

lemma wf_select_unique:
  assumes "set ids = set ids'" shows "wf_select q ids None = wf_select q ids' None"
proof -
  have le: "better (wf_select q ids' None) (f, sid) \<and> front q sid = Some c" if "wf_select q ids None = Some (c, sid, f)" "set ids = set ids'" for c sid f ids ids'
    using wf_select_source [OF that(1)] that(2) wf_select_min [of sid ids' q c None] by auto
  show ?thesis
  proof (cases "wf_select q ids None")
    case None
    then show ?thesis using le [OF _ assms [symmetric]] by (cases "wf_select q ids' None") (auto simp: better_def)
  next
    case (Some r)
    then obtain c sid f where r: "wf_select q ids None = Some (c, sid, f)" by (cases r) auto
    then obtain c' sid' f' where r': "wf_select q ids' None = Some (c', sid', f')" "notLater (f', sid') (f, sid)" "front q sid = Some c"
      using le [OF r assms] by (auto simp: better_def split: option.splits)
    then have "notLater (f, sid) (f', sid')" "front q sid' = Some c'" using le [OF r'(1) assms [symmetric]] r by (simp_all add: better_def)
    then show ?thesis using r r' notLater_order(3) [of "(f, sid)" "(f', sid')"] by simp
  qed
qed


definition wf_inv :: "cheap \<Rightarrow> wfq \<Rightarrow> bool" where
  "wf_inv hp q \<longleftrightarrow> streamQueuesOK hp (wf_streamQueues q) \<and> (wf_streamSelected q \<longrightarrow> wf_selectedStream q \<in> dom (wf_streamQueues q))"

lemma wf_Push_spec:
  assumes "wf_inv hp q"
  shows "wf_inv hp (wf_Push hp c q)"
    "streamHeld (wf_streamQueues (wf_Push hp c q)) k = streamHeld (wf_streamQueues q) k @ (if streamIdentifier (hp c) = k then [c] else [])"
proof -
  note push = streamQueues_push [of hp "wf_streamQueues q" c]
  have ok: "streamQueuesOK hp (wf_streamQueues q)" using assms by (simp add: wf_inv_def)
  show "wf_inv hp (wf_Push hp c q)" using assms push(1) [OF ok] by (auto simp: wf_inv_def wf_Push_def Let_def)
  show "streamHeld (wf_streamQueues (wf_Push hp c q)) k = streamHeld (wf_streamQueues q) k @ (if streamIdentifier (hp c) = k then [c] else [])"
    using push(2) [OF ok] by (simp add: wf_Push_def Let_def)
qed

lemma wf_Pop_spec:
  assumes inv: "wf_inv hp q" and sel: "wf_streamSelected q" and c: "front q (wf_selectedStream q) = Some c"
  shows "\<exists>q'. wf_Pop hp c q = (None, q') \<and> wf_inv hp q' \<and> streamIdentifier (hp c) = wf_selectedStream q \<and>
    streamHeld (wf_streamQueues q) = (streamHeld (wf_streamQueues q'))(streamIdentifier (hp c) := c # streamHeld (wf_streamQueues q') (streamIdentifier (hp c)))"
proof -
  have ok: "streamQueuesOK hp (wf_streamQueues q)" using inv by (simp add: wf_inv_def)
  obtain b where b: "wf_streamQueues q (wf_selectedStream q) = Some b" "bq_get 0 b = Some c"
    using c by (auto simp: front_def split: option.splits)
  show ?thesis
  proof (rule streamQueues_pop [OF ok b(1)])
    fix d cs
    let ?qs = "if cs = [] then (wf_streamQueues q)(wf_selectedStream q := None) else (wf_streamQueues q)(wf_selectedStream q \<mapsto> b\<lparr>bq_queue := cs\<rparr>)"
    assume d: "bq_get 0 b = Some d" "bq_pop b = (Some d, b\<lparr>bq_queue := cs\<rparr>)" "streamIdentifier (hp d) = wf_selectedStream q"
      "streamQueuesOK hp ?qs" "streamHeld (wf_streamQueues q) = (streamHeld ?qs)(wf_selectedStream q := d # cs)" "streamHeld ?qs (wf_selectedStream q) = cs"
    have "d = c" using b(2) d(1) by simp
    moreover have "wf_streamQueues (snd (wf_Pop hp c q)) = ?qs" "\<not> wf_streamSelected (snd (wf_Pop hp c q))" "fst (wf_Pop hp c q) = None"
      using sel b(1) d(2) \<open>d = c\<close> by (simp_all add: wf_Pop_def Let_def bq_size_def)
    ultimately show ?thesis using d(3-6) by (cases "wf_Pop hp c q") (simp add: wf_inv_def)
  qed
qed

text \<open>The runtime traverses the map of queues in an order of its own, but visits every key.\<close>

locale map_iteration =
  fixes order :: "wfq \<Rightarrow> u16 list"
  assumes visits: "set (order q) = dom (wf_streamQueues q)"
begin

lemma wf_take:
  assumes inv: "wf_inv hp q" and k: "streamHeld (wf_streamQueues q) k \<noteq> []"
  shows "\<exists>c q' q''. wf_Peek order q = Inr (Some c, q') \<and> wf_Pop hp c q' = (None, q'') \<and> wf_inv hp q' \<and>
    streamHeld (wf_streamQueues q') = streamHeld (wf_streamQueues q) \<and> wf_inv hp q'' \<and>
    streamHeld (wf_streamQueues q) = (streamHeld (wf_streamQueues q''))(streamIdentifier (hp c) := c # streamHeld (wf_streamQueues q'') (streamIdentifier (hp c)))"
proof -
  have ok: "streamQueuesOK hp (wf_streamQueues q)" using inv by (simp add: wf_inv_def)
  have front: "\<exists>c. front q sid = Some c" if "sid \<in> dom (wf_streamQueues q)" for sid
    using that ok by (auto simp: front_def streamQueuesOK_def bq_get_def)
  have peek: "\<exists>c q'. wf_Peek order q = Inr (Some c, q') \<and> wf_inv hp q' \<and> wf_streamQueues q' = wf_streamQueues q \<and>
      wf_streamSelected q' \<and> front q' (wf_selectedStream q') = Some c"
  proof (cases "wf_streamSelected q")
    case True
    then show ?thesis using inv front [of "wf_selectedStream q"] by (auto simp: wf_Peek_def wf_inv_def front_def)
  next
    case False
    have kd: "k \<in> set (order q)" using k streamHeld_dom [OF ok] visits by simp
    then obtain d where "front q k = Some d" using front visits by blast
    then have "better (wf_select q (order q) None) (finishOf q d, k)" using wf_select_min [OF kd] by blast
    then obtain c sid f where sel: "wf_select q (order q) None = Some (c, sid, f)" by (auto simp: better_def split: option.splits)
    then have "sid \<in> dom (wf_streamQueues q)" "front q sid = Some c" using wf_select_source [OF sel] visits by auto
    then show ?thesis using False sel inv by (simp add: wf_Peek_def wf_inv_def front_def)
  qed
  then obtain c q' where q': "wf_Peek order q = Inr (Some c, q')" "wf_inv hp q'" "wf_streamQueues q' = wf_streamQueues q"
      "wf_streamSelected q'" "front q' (wf_selectedStream q') = Some c"
    by blast
  show ?thesis using wf_Pop_spec [OF q'(2,4,5)] q'(1,2,3) by auto
qed

sublocale wf: scheduler_contract "wfqScheduler order" hp "wf_inv hp" "\<lambda>q. streamHeld (wf_streamQueues q)" for hp
proof unfold_locales
  fix q c
  assume "wf_inv hp q"
  then show "wf_inv hp (PushS (wfqScheduler order) hp c q) \<and>
      (\<forall>k. streamHeld (wf_streamQueues (PushS (wfqScheduler order) hp c q)) k =
        streamHeld (wf_streamQueues q) k @ (if streamIdentifier (hp c) = k then [c] else []))"
    using wf_Push_spec by (simp add: wfqScheduler_def)
next
  fix q assume inv: "wf_inv hp q" and empty: "\<And>k. streamHeld (wf_streamQueues q) k = []"
  then have "dom (wf_streamQueues q) = {}" using streamHeld_dom [of hp "wf_streamQueues q"] unfolding wf_inv_def by auto
  then show "PeekS (wfqScheduler order) q = Inr (None, q)" using inv visits [of q] by (simp add: wfqScheduler_def wf_Peek_def wf_inv_def)
next
  fix q k assume "wf_inv hp q" "streamHeld (wf_streamQueues q) k \<noteq> []"
  then show "\<exists>c s' s''. PeekS (wfqScheduler order) q = Inr (Some c, s') \<and> PopS (wfqScheduler order) hp c s' = (None, s'') \<and>
      wf_inv hp s' \<and> streamHeld (wf_streamQueues s') = streamHeld (wf_streamQueues q) \<and> wf_inv hp s'' \<and>
      streamHeld (wf_streamQueues q) = (streamHeld (wf_streamQueues s''))(streamIdentifier (hp c) := c # streamHeld (wf_streamQueues s'') (streamIdentifier (hp c)))"
    using wf_take by (simp add: wfqScheduler_def)
next
  show "wf_inv hp (ResetS (wfqScheduler order) q) \<and> streamHeld (wf_streamQueues (ResetS (wfqScheduler order) q)) k = []" for q k
    by (simp add: wfqScheduler_def wf_Reset_def wf_inv_def streamQueuesOK_def streamHeld_def)
qed

end

definition ascending :: "wfq \<Rightarrow> u16 list" where
  "ascending q = sorted_list_of_set (dom (wf_streamQueues q))"

interpretation asc: map_iteration ascending
proof unfold_locales
  show "set (ascending q) = dom (wf_streamQueues q)" for q
    by (simp add: ascending_def finite_subset [OF subset_UNIV])
qed


section \<open>Properties\<close>

text \<open>
  A queue serves a run of calls for the classes \<open>key\<close>: no call fails, each class leaves in the order
  of its arrival, the counters agree with what waits, and further takes empty the queue.
\<close>

definition serves :: "'s scheduler \<Rightarrow> cheap \<Rightarrow> (cref \<Rightarrow> 'k) \<Rightarrow> pdCall list \<Rightarrow> 's pendingQueue \<Rightarrow> bool" where
  "serves ops hp key calls q0 \<longleftrightarrow>
     (let pushed = concat (map sentBy calls)
      in \<exists>q out. pd_run ops hp calls q0 [] = Inr (q, out) \<and>
        (\<forall>k. prefix (filter (\<lambda>c. key c = k) out) (filter (\<lambda>c. key c = k) pushed)) \<and>
        pd_size q = int (length pushed) - int (length out) \<and> pd_getNumBytes q = chunkBytes hp pushed - chunkBytes hp out \<and>
        (\<exists>q' out'. pd_run ops hp (replicate (length pushed) TakeNext) q out = Inr (q', out') \<and> mset out' = mset pushed \<and> pd_size q' = 0))"

context pending_contract
begin

lemma serves_run:
  assumes "balanced q0 [] []" and "messageCalls hp calls"
  shows "serves ops hp key calls q0 \<and> (\<exists>q out. pd_run ops hp calls q0 [] = Inr (q, out) \<and> ghost out (policy q))"
proof -
  let ?pushed = "concat (map sentBy calls)"
  obtain q out where run: "pd_run ops hp calls q0 [] = Inr (q, out)" and b: "balanced q ?pushed out"
    using run_balanced [OF assms] by auto
  have order: "prefix (filter (\<lambda>c. key c = k) out) (filter (\<lambda>c. key c = k) ?pushed)" for k
    using b unfolding balanced_def by (metis prefixI)
  have "pd_nChunks q \<le> int (length ?pushed)" using b by (simp add: balanced_def)
  then obtain q' out' where drain: "pd_run ops hp (replicate (length ?pushed) TakeNext) q out = Inr (q', out')"
      "balanced q' ?pushed out'" "pd_nChunks q' = 0"
    using drain [OF b] by blast
  then have "mset out' = mset ?pushed" using balanced_mset(2) [OF drain(2)] balanced_empty_iff(1) [OF drain(2)] by blast
  then show ?thesis
    using run order drain b by (auto simp: serves_def Let_def pd_size_def pd_getNumBytes_def balanced_def)
qed

end

text \<open>A queue that just switched to a scheduler that keeps its contract serves every run.\<close>

context scheduler_contract
begin

lemma interleaving_serves:
  assumes "messageCalls hp calls"
  shows "serves ops hp (\<lambda>c. streamIdentifier (hp c)) calls (snd (setInterleaving ops True (newPendingQueue (Some (Some s)))))"
proof -
  let ?q = "snd (setInterleaving ops True (newPendingQueue (Some (Some s))))"
  have q: "policy ?q = SchedulerPolicy (ResetS ops s)" "pd_nChunks ?q = 0" "pd_nBytes ?q = 0"
    by (simp_all add: setInterleaving_def newPendingQueue_def)
  have "balanced ?q [] []" unfolding balanced_def q using sched_reset by (simp add: policyInv_def policyHeld_def)
  then show ?thesis using serves_run assms by blast
qed

end

context map_iteration
begin

lemmas wf_serves = wf.interleaving_serves

end

text \<open>
  C34: with the message policy the fragments of a message leave together: what has been popped is a
  sequence of whole messages and at most the beginning of one more, however pushes, peeks and pops
  interleave. Ordered and unordered messages each leave in their order, no call fails, the counters
  are exact and everything that was pushed can be popped.
\<close>

theorem messages_sent_whole:
  assumes "messageCalls hp calls"
  shows "serves ops hp (\<lambda>c. unordered (hp c)) calls (newPendingQueue factory) \<and>
    (\<exists>q ms part rest. pd_run ops hp calls (newPendingQueue factory) [] = Inr (q, concat ms @ part) \<and>
       (\<forall>cs \<in> set ms. message hp cs) \<and> (part = [] \<or> message hp (part @ rest)))"
proof -
  have "messageInv hp [] newMessagePolicy"
    unfolding messageInv_parts by (intro exI [of _ "[]"]) (simp add: messageParts_def newMessagePolicy_def newPendingBaseQueue_def)
  moreover from this have "wholeMessages hp [] (MessagePolicy newMessagePolicy :: 'a policy)"
    unfolding wholeMessages_def by (intro exI [of _ "[]"] exI [of _ newMessagePolicy]) simp
  ultimately have b: "mp.balanced hp (newPendingQueue factory) [] []"
    unfolding mp.balanced_def
    by (auto simp: newPendingQueue_def messagePolicyInv_def messagePolicyHeld_def messageHeld_def newMessagePolicy_def newPendingBaseQueue_def)
  from mp.serves_run [OF b assms, of ops] obtain q out where
    serves: "serves ops hp (\<lambda>c. unordered (hp c)) calls (newPendingQueue factory)" and
    run: "pd_run ops hp calls (newPendingQueue factory) [] = Inr (q, out)" "wholeMessages hp out (policy q)"
    by blast
  then obtain ms part m where out: "out = concat ms @ part" "\<forall>cs \<in> set ms. message hp cs" "messageInv hp part m"
    unfolding wholeMessages_def by blast
  then obtain us os rest where "messageParts hp part m us os rest" unfolding messageInv_parts by blast
  then have "part = [] \<or> message hp (part @ rest)" by (auto simp: messageParts_def)
  then show ?thesis using serves run out by blast
qed


text \<open>An unordered message of two fragments and an ordered one, on stream 1 and 2.\<close>

definition pendingHeap :: cheap where
  "pendingHeap c = zeroPayloadData\<lparr>unordered := c < 2, beginningFragment := c \<noteq> 1, endingFragment := c \<noteq> 0,
     streamIdentifier := (if c < 2 then 1 else 2), userData := Some [1, 2, 3]\<rparr>"

lemma pendingHeap_messages: "message pendingHeap [0, 1]" "message pendingHeap [2]"
  by (auto simp: message_def pendingHeap_def nth_Cons split: nat.splits)

theorem messages_sent_whole_witness:
  "messageCalls pendingHeap [SendMessage [2], SendMessage [0, 1], TakeNext, PeekOnly] \<and>
   serves roundRobinScheduler pendingHeap (\<lambda>c. unordered (pendingHeap c))
     [SendMessage [2], SendMessage [0, 1], TakeNext, PeekOnly] (newPendingQueue None)"
proof -
  have calls: "messageCalls pendingHeap [SendMessage [2], SendMessage [0, 1], TakeNext, PeekOnly]"
    by (simp add: messageCalls_def pendingHeap_messages [simplified])
  then show ?thesis using messages_sent_whole [OF calls, of roundRobinScheduler None] by blast
qed

text \<open>
  C35: with either stream scheduler each stream leaves in the order of its arrival, no call fails or
  panics, the counters are exact and everything that was pushed can be popped. For weighted fair
  queueing this holds for every order in which the runtime traverses its map of streams, and the
  order does not matter for the chunk that \<open>Peek\<close> chooses.
\<close>

theorem schedulers_keep_stream_order:
  assumes "messageCalls hp calls" and "\<And>q. set (order q) = dom (wf_streamQueues q)" and "\<And>q. set (order' q) = dom (wf_streamQueues q)"
  shows "serves roundRobinScheduler hp (\<lambda>c. streamIdentifier (hp c)) calls
      (snd (setInterleaving roundRobinScheduler True (newPendingQueue (Some (Some newRoundRobin))))) \<and>
    serves (wfqScheduler order) hp (\<lambda>c. streamIdentifier (hp c)) calls
      (snd (setInterleaving (wfqScheduler order) True (newPendingQueue (Some (Some (newWFQ weights)))))) \<and>
    wf_Peek order q = wf_Peek order' q"
proof (intro conjI)
  show "serves roundRobinScheduler hp (\<lambda>c. streamIdentifier (hp c)) calls
      (snd (setInterleaving roundRobinScheduler True (newPendingQueue (Some (Some newRoundRobin)))))"
    by (rule rr.interleaving_serves [OF assms(1)])
next
  have it: "map_iteration order" by unfold_locales (rule assms(2))
  show "serves (wfqScheduler order) hp (\<lambda>c. streamIdentifier (hp c)) calls
      (snd (setInterleaving (wfqScheduler order) True (newPendingQueue (Some (Some (newWFQ weights))))))"
    by (rule map_iteration.wf_serves [OF it assms(1)])
next
  show "wf_Peek order q = wf_Peek order' q"
    using wf_select_unique [of "order q" "order' q" q] assms(2,3) by (simp add: wf_Peek_def)
qed


theorem schedulers_keep_stream_order_witness:
  "messageCalls pendingHeap [SendMessage [2], SendMessage [0, 1], TakeNext] \<and>
   serves roundRobinScheduler pendingHeap (\<lambda>c. streamIdentifier (pendingHeap c)) [SendMessage [2], SendMessage [0, 1], TakeNext]
     (snd (setInterleaving roundRobinScheduler True (newPendingQueue (Some (Some newRoundRobin))))) \<and>
   serves (wfqScheduler ascending) pendingHeap (\<lambda>c. streamIdentifier (pendingHeap c)) [SendMessage [2], SendMessage [0, 1], TakeNext]
     (snd (setInterleaving (wfqScheduler ascending) True (newPendingQueue (Some (Some (newWFQ Map.empty))))))"
proof -
  have calls: "messageCalls pendingHeap [SendMessage [2], SendMessage [0, 1], TakeNext]"
    by (simp add: messageCalls_def pendingHeap_messages [simplified])
  show ?thesis
    using schedulers_keep_stream_order [OF calls asc.visits asc.visits, of Map.empty "newWFQ Map.empty"] calls by blast
qed

text \<open>
  round robin starves no stream: as long as nothing is pushed, the next takes serve the waiting
  streams one chunk each, in the order of the rotation, before any stream is served again.
\<close>

theorem round_robin_serves_each_once:
  assumes "policy q = SchedulerPolicy r" and "rr_inv hp r" and "n \<le> length (rr_streamOrder r)"
  shows "\<exists>q' out'. pd_run roundRobinScheduler hp (replicate n TakeNext) q out = Inr (q', out @ out') \<and>
    map (\<lambda>c. streamIdentifier (hp c)) out' = take n (rr_streamOrder r)"
  using assms
proof (induction n arbitrary: q r out)
  case 0
  then show ?case by simp
next
  case (Suc n)
  then obtain sid ids where order: "rr_streamOrder r = sid # ids" by (cases "rr_streamOrder r") auto
  obtain c r' r'' where t: "rr_Peek r = Inr (Some c, r')" "rr_Pop hp c r' = (None, r'')" "rr_inv hp r''" "streamIdentifier (hp c) = sid"
      "rr_streamOrder r'' = ids \<or> rr_streamOrder r'' = ids @ [sid]"
    by (rule rr_take [OF Suc.prems(2) order]) (rule that)
  have peek: "pd_peek roundRobinScheduler q = Inr (Some c, q\<lparr>policy := SchedulerPolicy r'\<rparr>)"
    using t(1) Suc.prems(1) by (simp add: pd_peek_def policyPeek_def roundRobinScheduler_def)
  obtain q'' where pop: "pd_pop roundRobinScheduler hp c (q\<lparr>policy := SchedulerPolicy r'\<rparr>) = (None, q'')" "policy q'' = SchedulerPolicy r''"
    using t(2) by (simp add: pd_pop_def policyPop_def roundRobinScheduler_def Let_def)
  have "n \<le> length (rr_streamOrder r'')" "take n (rr_streamOrder r'') = take n ids" using t(5) Suc.prems(3) order by auto
  then show ?case using Suc.IH [OF pop(2) t(3), of "out @ [c]"] peek pop(1) t(4) order by fastforce
qed

theorem round_robin_serves_each_once_witness:
  "\<exists>q' out'. pd_run roundRobinScheduler pendingHeap (replicate 2 TakeNext)
     (fold (pd_push roundRobinScheduler pendingHeap) [0, 1, 2]
       (snd (setInterleaving roundRobinScheduler True (newPendingQueue (Some (Some newRoundRobin)))))) [] = Inr (q', out') \<and>
     map (\<lambda>c. streamIdentifier (pendingHeap c)) out' = [1, 2]"
proof -
  let ?r = "rr_Push pendingHeap 2 (rr_Push pendingHeap 1 (rr_Push pendingHeap 0 (rr_Reset newRoundRobin)))"
  let ?q = "fold (pd_push roundRobinScheduler pendingHeap) [0, 1, 2]
    (snd (setInterleaving roundRobinScheduler True (newPendingQueue (Some (Some newRoundRobin)))))"
  have q: "policy ?q = SchedulerPolicy ?r"
    by (simp add: setInterleaving_def newPendingQueue_def pd_push_def policyPush_def roundRobinScheduler_def)
  have "rr_inv pendingHeap (rr_Reset newRoundRobin)" using rr.sched_reset by (simp add: roundRobinScheduler_def)
  then have inv: "rr_inv pendingHeap ?r" by (intro rr_Push_spec(1))
  have order: "rr_streamOrder ?r = [1, 2]"
    by (simp add: rr_Push_def Let_def rr_Reset_def newRoundRobin_def pendingHeap_def bq_push_def bq_size_def newPendingBaseQueue_def)
  show ?thesis using round_robin_serves_each_once [OF q inv, of 2 "[]"] order by simp
qed

end
