(* ===== verification/ReceiveQueue.thy ===== *)
theory ReceiveQueue
  imports Serial Chunks
begin

unbundle bit_operations_syntax

text \<open>
  The record of received TSNs, \<^verbatim>\<open>receive_payload_queue.go\<close>: a bit mask that is used as a ring over
  the window behind the cumulative TSN. The mask word of a TSN is found by \<open>tsn / 64\<close> modulo the
  number of words, which is not continuous where TSNs wrap around unless the number of words divides
  \<open>2 ^ 26\<close>; the refinement to a set of TSNs holds for windows without collisions. Indexing an empty
  mask panics.
\<close>

section \<open>Operations\<close>

record receivePayloadQueue =
  tailTSN :: u32
  rq_chunkSize :: int
  tsnBitmask :: "u64 list"
  dupTSN :: "u32 list"
  rq_maxTSNOffset :: u32
  cumulativeTSN :: u32

definition newReceivePayloadQueue :: "u32 \<Rightarrow> receivePayloadQueue" where
  "newReceivePayloadQueue offset =
     (let m = ((offset + 63) div 64) * 64
      in \<lparr>tailTSN = 0, rq_chunkSize = 0, tsnBitmask = replicate (unat (m div 64)) 0, dupTSN = [],
          rq_maxTSNOffset = m, cumulativeTSN = 0\<rparr>)"

definition rq_init :: "u32 \<Rightarrow> receivePayloadQueue \<Rightarrow> receivePayloadQueue" where
  "rq_init cum q = q\<lparr>cumulativeTSN := cum, tailTSN := cum, rq_chunkSize := 0,
     tsnBitmask := map (\<lambda>_. 0) (tsnBitmask q), dupTSN := []\<rparr>"

text \<open>The size of the window the association asks for: \<open>avgChunkSize\<close>, \<open>minTSNOffset\<close>, \<open>maxTSNOffset\<close>.\<close>

definition getMaxTSNOffset :: "u32 \<Rightarrow> u32" where
  "getMaxTSNOffset maxReceiveBufferSize = min (max ((maxReceiveBufferSize * 4) div 500) 2000) 40000"

text \<open>The index and offset of a TSN, and the word at the index.\<close>

definition maskIndex :: "receivePayloadQueue \<Rightarrow> u32 \<Rightarrow> nat" where
  "maskIndex q t = unat (t div 64) mod length (tsnBitmask q)"

definition maskOffset :: "u32 \<Rightarrow> nat" where
  "maskOffset t = unat (t mod 64)"

definition maskWord :: "receivePayloadQueue \<Rightarrow> u32 \<Rightarrow> (sctp_error, u64) result" where
  "maskWord q t = (if tsnBitmask q = [] then Inl Panic else Inr (tsnBitmask q ! maskIndex q t))"

definition hasChunk :: "u32 \<Rightarrow> receivePayloadQueue \<Rightarrow> (sctp_error, bool) result" where
  "hasChunk t q =
     (if rq_chunkSize q = 0 \<or> sna32LTE t (cumulativeTSN q) \<or> sna32GT t (tailTSN q) then Inr False
      else bindR (maskWord q t) (\<lambda>w. Inr (w AND push_bit (maskOffset t) 1 \<noteq> 0)))"

definition canPush :: "u32 \<Rightarrow> receivePayloadQueue \<Rightarrow> (sctp_error, bool) result" where
  "canPush t q =
     bindR (hasChunk t q) (\<lambda>ok.
       Inr (\<not> (ok \<or> sna32LTE t (cumulativeTSN q) \<or> sna32GT t (cumulativeTSN q + rq_maxTSNOffset q))))"

definition rq_push :: "u32 \<Rightarrow> receivePayloadQueue \<Rightarrow> (sctp_error, bool \<times> receivePayloadQueue) result" where
  "rq_push t q =
     (if sna32GT t (cumulativeTSN q + rq_maxTSNOffset q) then Inr (False, q)
      else bindR (if sna32LTE t (cumulativeTSN q) then Inr True else hasChunk t q) (\<lambda>dup.
        if dup then Inr (False, q\<lparr>dupTSN := dupTSN q @ [t]\<rparr>)
        else bindR (maskWord q t) (\<lambda>w.
             Inr (True, q\<lparr>tsnBitmask := (tsnBitmask q)[maskIndex q t := w OR push_bit (maskOffset t) 1],
                         rq_chunkSize := rq_chunkSize q + 1,
                         tailTSN := (if sna32GT t (tailTSN q) then t else tailTSN q)\<rparr>))))"

definition rq_pop :: "bool \<Rightarrow> receivePayloadQueue \<Rightarrow> (sctp_error, bool \<times> receivePayloadQueue) result" where
  "rq_pop force q =
     (let t = cumulativeTSN q + 1
      in bindR (hasChunk t q) (\<lambda>has.
           if has then bindR (maskWord q t) (\<lambda>w.
             Inr (True, q\<lparr>tsnBitmask := (tsnBitmask q)[maskIndex q t := w AND NOT (push_bit (maskOffset t) 1)],
                         rq_chunkSize := rq_chunkSize q - 1, cumulativeTSN := cumulativeTSN q + 1\<rparr>))
           else if force then
             Inr (False, q\<lparr>cumulativeTSN := t, tailTSN := (if rq_chunkSize q = 0 then t else tailTSN q)\<rparr>)
           else Inr (False, q)))"

text \<open>\<open>bits.OnesCount64\<close> and the loop of \<open>clearTSNRange\<close> with its variables.\<close>

definition onesCount :: "u64 \<Rightarrow> nat" where
  "onesCount w = length (filter (bit w) [0..<64])"

function clearLoop :: "u32 \<Rightarrow> u32 \<Rightarrow> receivePayloadQueue \<Rightarrow> (sctp_error, receivePayloadQueue) result" where
  "clearLoop start remaining q =
     (if remaining = 0 then Inr q
      else
        (let offset = start mod 64; n = min remaining (64 - offset);
             mask = (if n < 64 then push_bit (unat offset) (push_bit (unat n) 1 - 1) else NOT 0)
         in bindR (maskWord q start) (\<lambda>w.
            clearLoop (start + n) (remaining - n)
              (q\<lparr>tsnBitmask := (tsnBitmask q)[maskIndex q start := w AND NOT mask],
                 rq_chunkSize := rq_chunkSize q - int (onesCount (w AND mask))\<rparr>))))"
  by pat_completeness auto
termination
proof (relation "measure (\<lambda>(start, remaining, q). unat remaining)")
  fix start remaining :: u32 and n offset
  assume "remaining \<noteq> 0" "offset = start mod 64" "n = min remaining (64 - offset)"
  moreover have "start mod 64 < 64" by (simp add: word_mod_less_divisor)
  ultimately have "0 < unat n" "unat n \<le> unat remaining"
    by (auto simp: min_def word_le_nat_alt unat_sub word_less_nat_alt unat_gt_0)
  moreover have "unat (remaining - n) = unat remaining - unat n"
    using \<open>unat n \<le> unat remaining\<close> by (simp add: unat_sub word_le_nat_alt)
  ultimately show "((start + n, remaining - n, q'), start, remaining, q) \<in> measure (\<lambda>(start, remaining, q). unat remaining)"
    for q' q :: receivePayloadQueue
    by simp
qed simp

declare clearLoop.simps [simp del]

definition clearTSNRange :: "u32 \<Rightarrow> u32 \<Rightarrow> receivePayloadQueue \<Rightarrow> (sctp_error, receivePayloadQueue) result" where
  "clearTSNRange startTSN endTSN q = clearLoop startTSN (endTSN - startTSN + 1) q"

definition advanceCumulativeTSN :: "u32 \<Rightarrow> receivePayloadQueue \<Rightarrow> (sctp_error, receivePayloadQueue) result" where
  "advanceCumulativeTSN c q =
     (if \<not> sna32LT (cumulativeTSN q) c then Inr q
      else if rq_chunkSize q = 0 \<or> sna32LTE (tailTSN q) c
      then Inr (q\<lparr>tsnBitmask := map (\<lambda>_. 0) (tsnBitmask q), rq_chunkSize := 0, cumulativeTSN := c, tailTSN := c\<rparr>)
      else bindR (clearTSNRange (cumulativeTSN q + 1) c q) (\<lambda>q'.
           Inr (q'\<lparr>cumulativeTSN := c, tailTSN := (if rq_chunkSize q' = 0 then c else tailTSN q')\<rparr>)))"

definition popDuplicates :: "receivePayloadQueue \<Rightarrow> u32 list \<times> receivePayloadQueue" where
  "popDuplicates q = (dupTSN q, q\<lparr>dupTSN := []\<rparr>)"

text \<open>\<open>bits.TrailingZeros64\<close>; the loop of \<open>getGapAckBlocks\<close> is \<open>None\<close> if it does not end.\<close>

definition trailingZeros :: "u64 \<Rightarrow> nat" where
  "trailingZeros w = length (takeWhile (\<lambda>i. \<not> bit w i) [0..<64])"

definition getFirstNonZeroBit :: "u64 \<Rightarrow> nat \<Rightarrow> nat \<Rightarrow> nat \<times> bool" where
  "getFirstNonZeroBit val start end = (let i = trailingZeros (drop_bit start val) in (i + start, i + start < end))"

definition getFirstZeroBit :: "u64 \<Rightarrow> nat \<Rightarrow> nat \<Rightarrow> nat \<times> bool" where
  "getFirstZeroBit val start end = getFirstNonZeroBit (NOT val) start end"

partial_function (option) gapLoop ::
  "receivePayloadQueue \<Rightarrow> nat \<Rightarrow> u32 \<Rightarrow> bool \<Rightarrow> u16 \<Rightarrow> gapAckBlock list \<Rightarrow> (sctp_error, gapAckBlock list) result option" where
  "gapLoop q maxBlocks t findEnd start blocks =
     (if \<not> (sna32LTE t (tailTSN q) \<and> length blocks < maxBlocks) then Some (Inr blocks)
      else (case maskWord q t of
        Inl e \<Rightarrow> Some (Inl e)
      | Inr w \<Rightarrow>
          (let offset = maskOffset t
           in if \<not> findEnd then
                (case getFirstNonZeroBit w offset 64 of (b, ok) \<Rightarrow>
                   if ok then gapLoop q maxBlocks (t + of_nat (b - offset)) True
                                (ucast (t + of_nat (b - offset) - cumulativeTSN q)) blocks
                   else gapLoop q maxBlocks (t + of_nat (64 - offset)) False start blocks)
              else
                (case getFirstZeroBit w offset 64 of (b, ok) \<Rightarrow>
                   (let t' = (if ok then t + of_nat (b - offset) else t + of_nat (64 - offset));
                        blocks' = (if ok \<and> sna32LTE t' (tailTSN q)
                                   then blocks @ [\<lparr>gap_start = start, gap_end = ucast (t + of_nat (b - offset) - 1 - cumulativeTSN q)\<rparr>]
                                   else blocks)
                    in if sna32GT t' (tailTSN q)
                       then Some (Inr (blocks' @ [\<lparr>gap_start = start, gap_end = ucast (tailTSN q - cumulativeTSN q)\<rparr>]))
                       else gapLoop q maxBlocks t' (\<not> ok) start blocks')))))"

definition getGapAckBlocks :: "nat \<Rightarrow> receivePayloadQueue \<Rightarrow> (sctp_error, gapAckBlock list) result option" where
  "getGapAckBlocks maxBlocks q =
     (if rq_chunkSize q = 0 \<or> maxBlocks = 0 then Some (Inr [])
      else gapLoop q maxBlocks (cumulativeTSN q + 1) False 0 [])"

definition getLastTSNReceived :: "receivePayloadQueue \<Rightarrow> u32 option" where
  "getLastTSNReceived q = (if rq_chunkSize q = 0 then None else Some (tailTSN q))"

definition getcumulativeTSN :: "receivePayloadQueue \<Rightarrow> u32" where
  "getcumulativeTSN q = cumulativeTSN q"

definition rq_size :: "receivePayloadQueue \<Rightarrow> int" where
  "rq_size q = rq_chunkSize q"


section \<open>The window\<close>

definition off :: "receivePayloadQueue \<Rightarrow> u32 \<Rightarrow> nat" where
  "off q t = unat (t - cumulativeTSN q)"

definition span :: "receivePayloadQueue \<Rightarrow> nat" where
  "span q = 64 * length (tsnBitmask q)"

definition window :: "receivePayloadQueue \<Rightarrow> u32 set" where
  "window q = {t. 1 \<le> off q t \<and> off q t \<le> span q}"

text \<open>The place of a TSN in the mask, and windows in which no two TSNs share their place.\<close>

definition pos :: "receivePayloadQueue \<Rightarrow> u32 \<Rightarrow> nat" where
  "pos q t = unat t mod span q"

definition no_collision :: "receivePayloadQueue \<Rightarrow> bool" where
  "no_collision q \<longleftrightarrow> inj_on (pos q) (window q)"

lemma off_less: "off q t < 2 ^ 32"
  using unsigned_less [of "t - cumulativeTSN q"] by (simp add: off_def)

lemma off_inj: "off q a = off q b \<Longrightarrow> a = b"
  using unsigned_word_eqI [of "a - cumulativeTSN q" "b - cumulativeTSN q", where ?'a = nat] by (simp add: off_def)

text \<open>Whether a difference of words lies in the lower half, by their values.\<close>

lemma diff_half:
  fixes x y :: u32
  shows "x - y < 2147483648 \<longleftrightarrow>
    (if unat y \<le> unat x then unat x - unat y < 2 ^ 31 else 2 ^ 31 + unat x < unat y)"
proof -
  have "unat y < 2 ^ 32" using unsigned_less [of y] by simp
  then show ?thesis by (auto simp: word_less_nat_alt unat_sub_if')
qed

lemma sna_off:
  assumes "off q a < 2 ^ 31" and "off q b < 2 ^ 31"
  shows "sna32LTE a b \<longleftrightarrow> off q a \<le> off q b" "sna32GT a b \<longleftrightarrow> off q b < off q a" "sna32LT a b \<longleftrightarrow> off q a < off q b"
proof -
  have "(b - cumulativeTSN q) - (a - cumulativeTSN q) = b - a" by simp
  then show le: "sna32LTE a b \<longleftrightarrow> off q a \<le> off q b"
    unfolding sna32_cmp(1) using diff_half [of "b - cumulativeTSN q" "a - cumulativeTSN q"] assms
    by (auto simp: off_def [symmetric])
  then show "sna32GT a b \<longleftrightarrow> off q b < off q a" by (auto simp: sna32_cmp(3))
  show "sna32LT a b \<longleftrightarrow> off q a < off q b"
    using le off_inj [of q a b] by (auto simp: sna32LT_iff sna32_cmp(1) le_less)
qed

text \<open>
  The TSNs after the cumulative one up to \<open>m\<close> ahead. Old TSNs lie up to half the circle behind.
\<close>

lemma ahead_iff:
  assumes "m < 2 ^ 31"
  shows "\<not> sna32LTE t (cumulativeTSN q) \<and> sna32LTE t (cumulativeTSN q + of_nat m) \<longleftrightarrow> 1 \<le> off q t \<and> off q t \<le> m"
proof -
  define x where "x = t - cumulativeTSN q"
  have x: "unat x = off q t" by (simp add: x_def off_def)
  have m: "unat (of_nat m :: u32) = m" using assms by (simp add: unat_of_nat)
  have eq: "cumulativeTSN q - t = 0 - x" "cumulativeTSN q + of_nat m - t = of_nat m - x" by (simp_all add: x_def)
  have "\<not> sna32LTE t (cumulativeTSN q) \<longleftrightarrow> 1 \<le> off q t \<and> off q t \<le> 2 ^ 31"
    unfolding sna32_cmp(1) eq diff_half x by auto
  moreover have "sna32LTE t (cumulativeTSN q + of_nat m) \<longleftrightarrow> off q t \<le> m \<or> 2 ^ 31 + m < off q t"
    unfolding sna32_cmp(1) eq diff_half x m using assms by auto
  ultimately show ?thesis using assms by auto
qed

lemma off_cum [simp]: "off q (cumulativeTSN q) = 0"
  by (simp add: off_def)

lemma off_next: "off q (cumulativeTSN q + 1) = 1"
  by (simp add: off_def)

lemma window_iff:
  assumes "span q < 2 ^ 31" and "rq_maxTSNOffset q = of_nat (span q)"
  shows "t \<in> window q \<longleftrightarrow> \<not> sna32LTE t (cumulativeTSN q) \<and> \<not> sna32GT t (cumulativeTSN q + rq_maxTSNOffset q)"
  using ahead_iff [OF assms(1), of t q] by (auto simp: window_def assms(2) sna32_cmp(3))

lemma tail_iff:
  assumes "off q (tailTSN q) < 2 ^ 31"
  shows "1 \<le> off q t \<and> off q t \<le> off q (tailTSN q) \<longleftrightarrow> \<not> sna32LTE t (cumulativeTSN q) \<and> \<not> sna32GT t (tailTSN q)"
proof -
  have "tailTSN q = cumulativeTSN q + of_nat (off q (tailTSN q))" by (simp add: off_def)
  then show ?thesis using ahead_iff [OF assms, of t q] by (simp add: sna32_cmp(3))
qed

section \<open>Bits\<close>

lemma pos_split:
  assumes "tsnBitmask q \<noteq> []"
  shows "pos q t = 64 * maskIndex q t + maskOffset t" "maskOffset t < 64" "maskIndex q t < length (tsnBitmask q)"
proof -
  have "unat (t div 64) = unat t div 64" "unat (t mod 64) = unat t mod 64"
    by (simp_all add: unat_div unat_mod)
  then show "pos q t = 64 * maskIndex q t + maskOffset t" "maskOffset t < 64"
    by (simp_all add: pos_def span_def maskIndex_def maskOffset_def mod_mult2_eq)
  show "maskIndex q t < length (tsnBitmask q)" using assms by (simp add: maskIndex_def)
qed

lemma and_single: "w AND push_bit k 1 \<noteq> 0 \<longleftrightarrow> bit w k" for w :: u64
  using and_exp_eq_0_iff_not_bit [of w k] by (simp add: push_bit_eq_mult)

text \<open>The set bit positions of the mask.\<close>

definition marked :: "receivePayloadQueue \<Rightarrow> nat \<Rightarrow> bool" where
  "marked q p \<longleftrightarrow> bit (tsnBitmask q ! (p div 64)) (p mod 64)"

lemma marked_pos:
  assumes "tsnBitmask q \<noteq> []"
  shows "marked q (pos q t) \<longleftrightarrow> bit (tsnBitmask q ! maskIndex q t) (maskOffset t)"
  using pos_split [OF assms, of t] by (simp add: marked_def)

text \<open>
  The abstraction to the set of received TSNs above the cumulative one. The tail is the largest of
  them, and exactly their places are marked.
\<close>

definition rq_models :: "receivePayloadQueue \<Rightarrow> u32 set \<Rightarrow> bool" where
  "rq_models q R \<longleftrightarrow> tsnBitmask q \<noteq> [] \<and> span q < 2 ^ 31 \<and> rq_maxTSNOffset q = of_nat (span q) \<and>
     R \<subseteq> window q \<and> rq_chunkSize q = int (card R) \<and>
     (if R = {} then tailTSN q = cumulativeTSN q else tailTSN q \<in> R \<and> (\<forall>t \<in> R. off q t \<le> off q (tailTSN q))) \<and>
     (\<forall>p < span q. marked q p \<longleftrightarrow> p \<in> pos q ` R)"

lemma finite_R [simp]: "finite (R :: u32 set)"
  by (rule finite_subset [OF subset_UNIV]) simp

lemma rq_modelsD:
  assumes "rq_models q R"
  shows "tsnBitmask q \<noteq> []" "span q < 2 ^ 31" "rq_maxTSNOffset q = of_nat (span q)" "R \<subseteq> window q"
    "rq_chunkSize q = int (card R)" "off q (tailTSN q) \<le> span q" "R \<noteq> {} \<Longrightarrow> tailTSN q \<in> R"
    "t \<in> R \<Longrightarrow> off q t \<le> off q (tailTSN q)" "R = {} \<Longrightarrow> tailTSN q = cumulativeTSN q" "0 < span q"
    "marked q (pos q t) \<longleftrightarrow> pos q t \<in> pos q ` R"
  using assms by (auto simp: rq_models_def window_def pos_def span_def split: if_splits)

lemma hasChunk_iff:
  assumes "rq_models q R"
  shows "hasChunk t q = Inr (R \<noteq> {} \<and> t \<in> window q \<and> off q t \<le> off q (tailTSN q) \<and> pos q t \<in> pos q ` R)"
proof -
  note m = rq_modelsD [OF assms]
  have in_window: "t \<in> window q \<and> off q t \<le> off q (tailTSN q) \<longleftrightarrow>
      \<not> sna32LTE t (cumulativeTSN q) \<and> \<not> sna32GT t (tailTSN q)"
    using tail_iff [of q t] m(2,6) by (auto simp: window_def)
  show ?thesis
    using in_window m(1,5) m(11) [of t] marked_pos [OF m(1), of t] and_single [of "tsnBitmask q ! maskIndex q t" "maskOffset t"]
    by (simp add: hasChunk_def maskWord_def) blast
qed

lemma hasChunk_set:
  assumes "rq_models q R" and "no_collision q"
  shows "hasChunk t q = Inr (t \<in> R)"
proof -
  note m = rq_modelsD [OF assms(1)]
  have "t \<in> R" if "t \<in> window q" "pos q t \<in> pos q ` R"
    using that m(4) assms(2) by (auto simp: no_collision_def inj_on_def subset_iff)
  then show ?thesis unfolding hasChunk_iff [OF assms(1)] using m(4) m(8) [of t] by auto
qed


lemma place_iff:
  assumes "tsnBitmask q \<noteq> []"
  shows "p = pos q t \<longleftrightarrow> p div 64 = maskIndex q t \<and> p mod 64 = maskOffset t"
  using pos_split [OF assms, of t] by auto (metis mult_div_mod_eq)

lemma marked_update:
  assumes "tsnBitmask q \<noteq> []" and "p < span q"
    and "\<And>j. j < 64 \<Longrightarrow> bit w j \<longleftrightarrow> (if j = maskOffset t then v else bit (tsnBitmask q ! maskIndex q t) j)"
    and "tsnBitmask q' = (tsnBitmask q)[maskIndex q t := w]"
  shows "marked q' p \<longleftrightarrow> (if p = pos q t then v else marked q p)"
proof -
  have "p div 64 < length (tsnBitmask q)" using assms(2) by (simp add: span_def less_mult_imp_div_less mult.commute)
  then show ?thesis
    unfolding place_iff [OF assms(1)] marked_def
    using assms(3) [of "p mod 64"] by (cases "p div 64 = maskIndex q t") (simp_all add: assms(4))
qed

lemma set_bit: "j < 64 \<Longrightarrow> k < 64 \<Longrightarrow> bit (w OR push_bit k 1) j \<longleftrightarrow> (if j = k then True else bit w j)" for w :: u64
  by (auto simp: bit_simps)

lemma clear_bit: "j < 64 \<Longrightarrow> k < 64 \<Longrightarrow> bit (w AND NOT (push_bit k 1)) j \<longleftrightarrow> (if j = k then False else bit w j)" for w :: u64
  by (auto simp: bit_simps)

lemma push_new:
  assumes m: "rq_models q R" and t: "t \<in> window q" "t \<notin> R" and has: "hasChunk t q = Inr False"
  shows "\<exists>q'. rq_push t q = Inr (True, q') \<and> rq_models q' (insert t R) \<and> cumulativeTSN q' = cumulativeTSN q \<and>
    dupTSN q' = dupTSN q \<and> length (tsnBitmask q') = length (tsnBitmask q)"
proof -
  note d = rq_modelsD [OF m]
  let ?w = "tsnBitmask q ! maskIndex q t"
  let ?q = "q\<lparr>tsnBitmask := (tsnBitmask q)[maskIndex q t := ?w OR push_bit (maskOffset t) 1],
      rq_chunkSize := rq_chunkSize q + 1, tailTSN := (if sna32GT t (tailTSN q) then t else tailTSN q)\<rparr>"
  have push: "rq_push t q = Inr (True, ?q)"
    using t(1) window_iff [OF d(2,3), of t] has d(1) by (simp add: rq_push_def maskWord_def)
  have same: "span ?q = span q" "off ?q = off q" "pos ?q = pos q" "window ?q = window q"
    by (simp_all add: span_def off_def fun_eq_iff pos_def window_def)
  have "marked ?q p \<longleftrightarrow> p \<in> pos q ` insert t R" if "p < span q" for p
    using marked_update [OF d(1) that, of "?w OR push_bit (maskOffset t) 1" t True ?q] set_bit pos_split(2) [OF d(1)]
      m that by (auto simp: rq_models_def)
  moreover have "sna32GT t (tailTSN q) \<longleftrightarrow> off q (tailTSN q) < off q t"
    using t(1) d(2,6) by (intro sna_off(2)) (auto simp: window_def)
  moreover from this have "tailTSN ?q \<in> insert t R \<and> (\<forall>u \<in> insert t R. off q u \<le> off q (tailTSN ?q))"
    using d(7-9) t(1) by (cases "R = {}") (fastforce simp: window_def)+
  ultimately have "rq_models ?q (insert t R)"
    unfolding rq_models_def same using d t by simp
  then show ?thesis using push by auto
qed

lemma shift_window:
  assumes "0 < off q t" and "off q c \<le> off q t" and "cumulativeTSN q' = c"
  shows "off q' t = off q t - off q c"
proof -
  have "unat ((t - cumulativeTSN q) - (c - cumulativeTSN q)) = off q t - off q c"
    using assms(2) unat_sub [of "c - cumulativeTSN q" "t - cumulativeTSN q"] by (simp add: off_def word_le_nat_alt)
  then show ?thesis using assms(3) by (simp add: off_def)
qed

text \<open>
  Moving the cumulative TSN to \<open>c\<close>, when the queue has just the places of the later TSNs marked.
\<close>

lemma advance_models:
  assumes m: "rq_models q R" and c: "off q c < 2 ^ 31"
    and q': "cumulativeTSN q' = c" "length (tsnBitmask q') = length (tsnBitmask q)" "rq_maxTSNOffset q' = rq_maxTSNOffset q"
      "rq_chunkSize q' = int (card {t \<in> R. off q c < off q t})"
      "tailTSN q' = (if {t \<in> R. off q c < off q t} = {} then c else tailTSN q)"
      "\<And>p. p < span q \<Longrightarrow> marked q' p \<longleftrightarrow> p \<in> pos q ` {t \<in> R. off q c < off q t}"
  shows "rq_models q' {t \<in> R. off q c < off q t}"
proof -
  note d = rq_modelsD [OF m]
  let ?R = "{t \<in> R. off q c < off q t}"
  have same: "span q' = span q" "pos q' = pos q" using q'(2) by (simp_all add: span_def pos_def fun_eq_iff)
  have off': "off q' t = off q t - off q c" if "off q c < off q t" for t
    using that shift_window [of q t c q'] q'(1) by simp
  have "?R \<subseteq> window q'" using d(4) off' by (auto simp: window_def same)
  moreover have "tailTSN q \<in> ?R" if "?R \<noteq> {}" using that d(7,8) by fastforce
  ultimately show ?thesis
    unfolding rq_models_def same using d q' off' by (auto simp: diff_le_mono)
qed


lemma pop_models:
  assumes m: "rq_models q R" and nc: "no_collision q"
  shows "\<exists>q'. rq_pop force q = Inr (cumulativeTSN q + 1 \<in> R, q') \<and> rq_models q' (R - {cumulativeTSN q + 1}) \<and>
    cumulativeTSN q' = (if cumulativeTSN q + 1 \<in> R \<or> force then cumulativeTSN q + 1 else cumulativeTSN q) \<and> dupTSN q' = dupTSN q"
proof -
  note d = rq_modelsD [OF m]
  let ?t = "cumulativeTSN q + 1"
  have later: "{t \<in> R. off q ?t < off q t} = R - {?t}"
  proof (rule set_eqI)
    fix t
    have "off q t = off q ?t \<longleftrightarrow> t = ?t" using off_inj [of q t ?t] by blast
    then show "t \<in> {t \<in> R. off q ?t < off q t} \<longleftrightarrow> t \<in> R - {?t}"
      using d(4) by (auto simp: off_next window_def)
  qed
  have single: "pos q ?t \<notin> pos q ` (R - {?t})"
  proof
    assume "pos q ?t \<in> pos q ` (R - {?t})"
    moreover have "?t \<in> window q" using d(10) by (simp add: window_def off_next)
    ultimately show False using nc d(4) by (auto simp: no_collision_def inj_on_def subset_iff)
  qed
  show ?thesis
  proof (cases "?t \<in> R")
    case True
    let ?w = "tsnBitmask q ! maskIndex q ?t"
    let ?q = "q\<lparr>tsnBitmask := (tsnBitmask q)[maskIndex q ?t := ?w AND NOT (push_bit (maskOffset ?t) 1)],
        rq_chunkSize := rq_chunkSize q - 1, cumulativeTSN := ?t\<rparr>"
    have "marked ?q p \<longleftrightarrow> p \<in> pos q ` (R - {?t})" if "p < span q" for p
      using marked_update [OF d(1) that, of "?w AND NOT (push_bit (maskOffset ?t) 1)" ?t False ?q] clear_bit
        pos_split(2) [OF d(1)] m that single True by (auto simp: rq_models_def)
    moreover have "tailTSN q = ?t" if "R - {?t} = {}" using that True d(7) by auto
    moreover have "card R = Suc (card (R - {?t}))" using card_Suc_Diff1 [OF finite_R True] by simp
    ultimately have "rq_models ?q (R - {?t})"
      using d(5) by (intro advance_models [OF m, of ?t, unfolded later]) (simp_all add: off_next)
    then show ?thesis using True hasChunk_set [OF m nc, of ?t] d(1)
      by (auto simp: rq_pop_def Let_def maskWord_def)
  next
    case False
    let ?q = "q\<lparr>cumulativeTSN := ?t, tailTSN := (if rq_chunkSize q = 0 then ?t else tailTSN q)\<rparr>"
    have "marked ?q p \<longleftrightarrow> p \<in> pos q ` R" if "p < span q" for p
      using m that by (simp add: rq_models_def marked_def)
    then have "rq_models ?q (R - {?t})"
      using d(5) False by (intro advance_models [OF m, of ?t, unfolded later]) (simp_all add: off_next)
    then show ?thesis using False m hasChunk_set [OF m nc, of ?t]
      by (auto simp: rq_pop_def Let_def)
  qed
qed

text \<open>One round of \<open>clearLoop\<close> clears the places of the next TSNs of one mask word.\<close>

lemma mask_bits:
  assumes "k + n \<le> 64" and "j < 64" and "0 < n"
  shows "bit (if n < 64 then push_bit k (push_bit n 1 - 1) else NOT 0 :: u64) j \<longleftrightarrow> k \<le> j \<and> j < k + n"
proof -
  have "push_bit n 1 - 1 = (mask n :: u64)" by (simp add: mask_eq_exp_minus_1 push_bit_eq_mult)
  then show ?thesis using assms by (auto simp: bit_simps)
qed


definition tsnRange :: "u32 \<Rightarrow> nat \<Rightarrow> u32 set" where
  "tsnRange t n = (\<lambda>j. t + of_nat j) ` {..<n}"

lemma block_places:
  assumes "tsnBitmask q \<noteq> []" and "maskOffset t + j < 64"
  shows "maskIndex q (t + of_nat j) = maskIndex q t" "maskOffset (t + of_nat j) = maskOffset t + j"
proof -
  have j: "j < 64" using assms(2) by simp
  have lt: "unat t < 2 ^ 32" using unsigned_less [of t] by simp
  have off: "maskOffset u = unat u mod 64" for u by (simp add: maskOffset_def unat_mod)
  have "unat t + j < 2 ^ 32"
  proof -
    have "unat t div 64 < 67108864" using lt by (simp add: less_mult_imp_div_less)
    moreover have "unat t = 64 * (unat t div 64) + unat t mod 64" by simp
    moreover have "(2 :: nat) ^ 32 = 64 * 67108864" by simp
    ultimately show ?thesis using assms(2) unfolding off by linarith
  qed
  then have u: "unat (t + of_nat j) = unat t + j" using j by (simp add: unat_word_ariths unat_of_nat)
  have "(unat t + j) mod 64 = unat t mod 64 + j" "(unat t + j) div 64 = unat t div 64"
    using assms(2) j mod_add_left_eq [of "unat t" 64 j] div_add1_eq [of "unat t" j 64] unfolding off by simp_all
  then show "maskIndex q (t + of_nat j) = maskIndex q t" "maskOffset (t + of_nat j) = maskOffset t + j"
    by (simp_all add: maskIndex_def unat_div off u)
qed

lemma card_onesCount: "onesCount w = card {j. j < 64 \<and> bit w j}"
proof -
  have "onesCount w = card (set (filter (bit w) [0..<64]))" unfolding onesCount_def by (rule distinct_card [symmetric]) simp
  moreover have "set (filter (bit w) [0..<64]) = {j. j < 64 \<and> bit w j}" by auto
  ultimately show ?thesis by simp
qed

definition marks :: "receivePayloadQueue \<Rightarrow> u32 set \<Rightarrow> bool" where
  "marks q R \<longleftrightarrow> tsnBitmask q \<noteq> [] \<and> rq_chunkSize q = int (card R) \<and> (\<forall>p < span q. marked q p \<longleftrightarrow> p \<in> pos q ` R)"

lemma clear_round:
  assumes m: "marks q R" and inj: "inj_on (pos q) (R \<union> tsnRange t n)" and n: "0 < n" "maskOffset t + n \<le> 64"
    and msk: "msk = (if n < 64 then push_bit (maskOffset t) (push_bit n 1 - 1) else NOT 0)"
  shows "marks (q\<lparr>tsnBitmask := (tsnBitmask q)[maskIndex q t := tsnBitmask q ! maskIndex q t AND NOT msk],
      rq_chunkSize := rq_chunkSize q - int (onesCount (tsnBitmask q ! maskIndex q t AND msk))\<rparr>) (R - tsnRange t n)"
    (is "marks ?q _")
proof -
  let ?k = "maskOffset t" and ?i = "maskIndex q t"
  let ?w = "tsnBitmask q ! ?i"
  have ne: "tsnBitmask q \<noteq> []" using m by (simp add: marks_def)
  have same: "span ?q = span q" "pos ?q = pos q" by (simp_all add: span_def pos_def fun_eq_iff)
  have mb: "bit msk j \<longleftrightarrow> ?k \<le> j \<and> j < ?k + n" if "j < 64" for j
    using mask_bits [OF n(2) that n(1)] by (simp add: msk)
  have place: "pos q (t + of_nat j) = 64 * ?i + (?k + j)" if "j < n" for j
    using block_places [OF ne, of t j] pos_split(1) [OF ne, of "t + of_nat j"] that n(2) by simp
  have at: "p \<in> pos q ` tsnRange t n \<longleftrightarrow> p div 64 = ?i \<and> ?k \<le> p mod 64 \<and> p mod 64 < ?k + n" for p
  proof
    assume "p \<in> pos q ` tsnRange t n"
    then obtain j where "j < n" "p = 64 * ?i + (?k + j)" using place by (auto simp: tsnRange_def)
    then show "p div 64 = ?i \<and> ?k \<le> p mod 64 \<and> p mod 64 < ?k + n" using n(2) by simp
  next
    assume p: "p div 64 = ?i \<and> ?k \<le> p mod 64 \<and> p mod 64 < ?k + n"
    define j where "j = p mod 64 - ?k"
    have "p = 64 * (p div 64) + p mod 64" by simp
    then have "p = pos q (t + of_nat j)" "j < n" using p place [of j] by (auto simp: j_def)
    then show "p \<in> pos q ` tsnRange t n" by (auto simp: tsnRange_def)
  qed
  have split: "pos q ` (R - tsnRange t n) = pos q ` R - pos q ` tsnRange t n"
    using inj by (intro inj_on_image_set_diff [of _ "R \<union> tsnRange t n"]) auto
  have "marked ?q p \<longleftrightarrow> p \<in> pos q ` (R - tsnRange t n)" if p: "p < span q" for p
  proof -
    have "p div 64 < length (tsnBitmask q)" using p by (simp add: span_def less_mult_imp_div_less mult.commute)
    moreover have "bit (?w AND NOT msk) (p mod 64) \<longleftrightarrow> bit ?w (p mod 64) \<and> \<not> bit msk (p mod 64)" by (simp add: bit_simps)
    ultimately have "marked ?q p \<longleftrightarrow> marked q p \<and> \<not> (p div 64 = ?i \<and> ?k \<le> p mod 64 \<and> p mod 64 < ?k + n)"
      using mb [of "p mod 64"] by (cases "p div 64 = ?i") (auto simp: marked_def)
    then show ?thesis using m p unfolding split marks_def at [symmetric] by auto
  qed
  moreover have "onesCount (?w AND msk) = card (R \<inter> tsnRange t n)"
  proof -
    have w: "bit ?w (?k + j) \<longleftrightarrow> t + of_nat j \<in> R" if "j < n" for j
    proof -
      have "64 * ?i + (?k + j) < span q" using that n(2) pos_split(3) [OF ne, of t] by (simp add: span_def)
      then have "marked q (64 * ?i + (?k + j)) \<longleftrightarrow> pos q (t + of_nat j) \<in> pos q ` R"
        using m place [OF that] by (simp add: marks_def)
      moreover have "(64 * ?i + (?k + j)) div 64 = ?i" "(64 * ?i + (?k + j)) mod 64 = ?k + j" using that n(2) by simp_all
      ultimately have "bit ?w (?k + j) \<longleftrightarrow> pos q (t + of_nat j) \<in> pos q ` R" by (simp add: marked_def)
      also have "\<dots> \<longleftrightarrow> t + of_nat j \<in> R"
        using inj_on_image_mem_iff [OF inj, of "t + of_nat j" R] that by (auto simp: tsnRange_def)
      finally show ?thesis .
    qed
    have "{j. j < 64 \<and> bit (?w AND msk) j} = (\<lambda>j. ?k + j) ` {j. j < n \<and> t + of_nat j \<in> R}"
    proof (rule set_eqI)
      fix j
      define i where "i = j - ?k"
      have "j \<in> (\<lambda>j. ?k + j) ` {j. j < n \<and> t + of_nat j \<in> R} \<longleftrightarrow> j = ?k + i \<and> i < n \<and> t + of_nat i \<in> R"
        by (auto simp: i_def)
      moreover have "?k \<le> j \<and> j < ?k + n \<longleftrightarrow> j = ?k + i \<and> i < n" by (auto simp: i_def)
      moreover have "bit (?w AND msk) j \<longleftrightarrow> bit ?w j \<and> bit msk j" by (simp add: bit_simps)
      ultimately show "j \<in> {j. j < 64 \<and> bit (?w AND msk) j} \<longleftrightarrow> j \<in> (\<lambda>j. ?k + j) ` {j. j < n \<and> t + of_nat j \<in> R}"
        using mb [of j] w [of i] n(2) by auto
    qed
    moreover have "R \<inter> tsnRange t n = (\<lambda>j. t + of_nat j) ` {j. j < n \<and> t + of_nat j \<in> R}" by (auto simp: tsnRange_def)
    moreover have "inj_on (\<lambda>j. t + of_nat j :: u32) {j. j < n \<and> t + of_nat j \<in> R}"
    proof (rule inj_onI)
      fix i j assume "i \<in> {j. j < n \<and> t + of_nat j \<in> R}" "j \<in> {j. j < n \<and> t + of_nat j \<in> R}" "t + of_nat i = t + of_nat j"
      then have "(of_nat i :: u32) = of_nat j" "i < 64" "j < 64" using n(2) by auto
      then show "i = j" by (simp add: word_of_nat_eq_iff take_bit_nat_eq_self)
    qed
    ultimately show ?thesis by (simp add: card_onesCount card_image)
  qed
  moreover have "card R = card (R - tsnRange t n) + card (R \<inter> tsnRange t n)" using card_Int_Diff [of R "tsnRange t n"] by simp
  ultimately show ?thesis using m ne unfolding marks_def same by simp
qed


lemma range_split: "m \<le> n \<Longrightarrow> tsnRange t n = tsnRange t m \<union> tsnRange (t + of_nat m) (n - m)"
proof -
  assume "m \<le> n"
  then have "{..<n} = {..<m} \<union> {m..<n}" by auto
  also have "{m..<n} = (+) m ` {..<n - m}" using \<open>m \<le> n\<close> by (simp add: image_add_atLeastLessThan lessThan_atLeast0)
  finally have "tsnRange t n = tsnRange t m \<union> (\<lambda>j. t + of_nat j) ` (+) m ` {..<n - m}"
    by (simp only: tsnRange_def image_Un)
  then show ?thesis by (simp add: tsnRange_def image_image add.assoc)
qed

lemma clearLoop_marks:
  assumes "marks q R" and "inj_on (pos q) (R \<union> tsnRange t (unat r))"
  shows "\<exists>q'. clearLoop t r q = Inr q' \<and> marks q' (R - tsnRange t (unat r)) \<and>
    length (tsnBitmask q') = length (tsnBitmask q) \<and> rq_maxTSNOffset q' = rq_maxTSNOffset q \<and>
    cumulativeTSN q' = cumulativeTSN q \<and> tailTSN q' = tailTSN q \<and> dupTSN q' = dupTSN q"
  using assms
proof (induction t r q arbitrary: R rule: clearLoop.induct)
  case (1 t r q)
  show ?case
  proof (cases "r = 0")
    case True
    then show ?thesis using "1.prems" by (simp add: clearLoop.simps [of t 0 q] tsnRange_def)
  next
    case False
    let ?n = "min r (64 - t mod 64)"
    let ?msk = "if ?n < 64 then push_bit (unat (t mod 64)) (push_bit (unat ?n) 1 - 1) else NOT 0"
    let ?w = "tsnBitmask q ! maskIndex q t"
    let ?q = "q\<lparr>tsnBitmask := (tsnBitmask q)[maskIndex q t := ?w AND NOT ?msk],
        rq_chunkSize := rq_chunkSize q - int (onesCount (?w AND ?msk))\<rparr>"
    have ne: "tsnBitmask q \<noteq> []" using "1.prems"(1) by (simp add: marks_def)
    have "unat (t mod 64) \<le> unat (64 :: u32)" by (simp add: unat_mod)
    then have "unat (64 - t mod 64) = 64 - maskOffset t" by (simp add: unat_sub word_le_nat_alt maskOffset_def)
    then have n: "unat ?n = min (unat r) (64 - maskOffset t)" by (auto simp: min_def word_le_nat_alt)
    moreover have "maskOffset t < 64" using pos_split(2) [OF ne] .
    moreover have "0 < unat r" using False by (simp add: unat_gt_0)
    ultimately have nn: "0 < unat ?n" "maskOffset t + unat ?n \<le> 64" "unat ?n \<le> unat r" by auto
    have split: "tsnRange t (unat r) = tsnRange t (unat ?n) \<union> tsnRange (t + ?n) (unat (r - ?n))"
      using range_split [OF nn(3), of t] nn(3) by (simp add: unat_sub word_le_nat_alt)
    have msk: "?msk = (if unat ?n < 64 then push_bit (maskOffset t) (push_bit (unat ?n) 1 - 1) else NOT 0)"
      by (simp add: maskOffset_def word_less_nat_alt)
    have "marks ?q (R - tsnRange t (unat ?n))"
      using "1.prems" split by (intro clear_round nn msk) (auto intro: inj_on_subset)
    moreover have "pos ?q = pos q" by (simp add: pos_def span_def fun_eq_iff)
    then have "inj_on (pos ?q) (R - tsnRange t (unat ?n) \<union> tsnRange (t + ?n) (unat (r - ?n)))"
      using "1.prems"(2) split by (auto intro: inj_on_subset)
    ultimately obtain q' where "clearLoop (t + ?n) (r - ?n) ?q = Inr q'"
      "marks q' (R - tsnRange t (unat ?n) - tsnRange (t + ?n) (unat (r - ?n)))"
      "length (tsnBitmask q') = length (tsnBitmask q)" "rq_maxTSNOffset q' = rq_maxTSNOffset q"
      "cumulativeTSN q' = cumulativeTSN q" "tailTSN q' = tailTSN q" "dupTSN q' = dupTSN q"
      using "1.IH" [OF False refl refl refl, of ?w "R - tsnRange t (unat ?n)"] by auto
    moreover have "clearLoop t r q = clearLoop (t + ?n) (r - ?n) ?q"
      using False ne by (simp add: clearLoop.simps [of t r q] Let_def maskWord_def)
    moreover have "R - tsnRange t (unat r) = R - tsnRange t (unat ?n) - tsnRange (t + ?n) (unat (r - ?n))"
      unfolding split by blast
    ultimately show ?thesis by auto
  qed
qed


lemma range_off: "n < 2 ^ 32 \<Longrightarrow> t \<in> tsnRange (cumulativeTSN q + 1) n \<longleftrightarrow> 1 \<le> off q t \<and> off q t \<le> n"
proof -
  assume n: "n < 2 ^ 32"
  have off: "off q (cumulativeTSN q + 1 + of_nat j) = Suc j" if "j < n" for j
  proof -
    have "off q (cumulativeTSN q + 1 + of_nat j) = unat (of_nat (Suc j) :: u32)" by (simp add: off_def algebra_simps)
    then show ?thesis using that n by (simp add: unat_of_nat del: of_nat_Suc)
  qed
  show ?thesis
  proof
    assume "t \<in> tsnRange (cumulativeTSN q + 1) n"
    then show "1 \<le> off q t \<and> off q t \<le> n" using off by (auto simp: tsnRange_def)
  next
    assume t: "1 \<le> off q t \<and> off q t \<le> n"
    define j where "j = off q t - 1"
    have j: "j < n" "Suc j = off q t" using t by (auto simp: j_def)
    then have "t = cumulativeTSN q + 1 + of_nat j" using off [of j] by (intro off_inj [of q]) simp
    then show "t \<in> tsnRange (cumulativeTSN q + 1) n" using j(1) by (auto simp: tsnRange_def)
  qed
qed

lemma advance_set:
  assumes m: "rq_models q R" and nc: "no_collision q" and c: "sna32LT (cumulativeTSN q) c"
  shows "\<exists>q'. advanceCumulativeTSN c q = Inr q' \<and> cumulativeTSN q' = c \<and> dupTSN q' = dupTSN q \<and>
    rq_models q' {t \<in> R. off q c < off q t}"
proof -
  note d = rq_modelsD [OF m]
  define R' where "R' = {t \<in> R. off q c < off q t}"
  have mem: "t \<in> R' \<longleftrightarrow> t \<in> R \<and> off q c < off q t" for t by (simp add: R'_def)
  have oc: "off q c < 2 ^ 31" using c by (simp add: sna32LT_iff word_less_nat_alt off_def)
  have tail: "sna32LTE (tailTSN q) c \<longleftrightarrow> off q (tailTSN q) \<le> off q c"
    using d(2,6) oc by (intro sna_off(1)) simp_all
  show ?thesis
  proof (cases "rq_chunkSize q = 0 \<or> sna32LTE (tailTSN q) c")
    case True
    let ?q = "q\<lparr>tsnBitmask := map (\<lambda>_. 0) (tsnBitmask q), rq_chunkSize := 0, cumulativeTSN := c, tailTSN := c\<rparr>"
    have empty: "R' = {}" using True tail d(5) d(8) by (fastforce simp: mem)
    have "\<not> marked ?q p" if "p < span q" for p
      using that by (simp add: marked_def span_def less_mult_imp_div_less mult.commute)
    then have "rq_models ?q R'" using empty by (intro advance_models [OF m oc, folded R'_def]) simp_all
    then show ?thesis using True c by (simp add: advanceCumulativeTSN_def R'_def)
  next
    case False
    have small: "off q c < off q (tailTSN q)" using False tail by simp
    have r: "unat (c - (cumulativeTSN q + 1) + 1) = off q c" by (simp add: off_def)
    have range: "R - tsnRange (cumulativeTSN q + 1) (off q c) = R'"
      using range_off [of "off q c" _ q] oc d(4) by (auto simp: window_def mem)
    have sub: "R \<union> tsnRange (cumulativeTSN q + 1) (off q c) \<subseteq> window q"
      using range_off [of "off q c" _ q] oc d(4,6) small by (auto simp: window_def)
    have "marks q R" using m by (simp add: rq_models_def marks_def)
    moreover have "inj_on (pos q) (R \<union> tsnRange (cumulativeTSN q + 1) (unat (c - (cumulativeTSN q + 1) + 1)))"
      unfolding r using nc sub by (auto simp: no_collision_def intro: inj_on_subset)
    ultimately obtain q' where q': "clearLoop (cumulativeTSN q + 1) (c - (cumulativeTSN q + 1) + 1) q = Inr q'" "marks q' R'"
      "length (tsnBitmask q') = length (tsnBitmask q)" "rq_maxTSNOffset q' = rq_maxTSNOffset q"
      "cumulativeTSN q' = cumulativeTSN q" "tailTSN q' = tailTSN q" "dupTSN q' = dupTSN q"
      using clearLoop_marks [of q R "cumulativeTSN q + 1" "c - (cumulativeTSN q + 1) + 1"] unfolding r range by blast
    let ?q = "q'\<lparr>cumulativeTSN := c, tailTSN := (if rq_chunkSize q' = 0 then c else tailTSN q')\<rparr>"
    have same: "span q' = span q" "pos q' = pos q" using q'(3) by (simp_all add: span_def pos_def fun_eq_iff)
    have "marked ?q p \<longleftrightarrow> p \<in> pos q ` R'" if "p < span q" for p
      using q'(2) that by (simp add: marks_def same marked_def)
    moreover have "rq_chunkSize q' = int (card R')" using q'(2) by (simp add: marks_def)
    ultimately have "rq_models ?q R'" using q' by (intro advance_models [OF m oc, folded R'_def]) simp_all
    then show ?thesis using False c q'(1,7) by (simp add: advanceCumulativeTSN_def clearTSNRange_def R'_def)
  qed
qed


section \<open>Properties of the record\<close>

text \<open>Windows without collisions: those that do not wrap, and all when the mask divides the circle.\<close>

lemma no_collisionI:
  assumes "span q < 2 ^ 31" and "0 < span q" and "unat (cumulativeTSN q) + span q < 2 ^ 32 \<or> span q dvd 2 ^ 32"
  shows "no_collision q"
  unfolding no_collision_def
proof (rule inj_onI)
  have un: "pos q t = (unat (cumulativeTSN q) + off q t) mod span q" if "t \<in> window q" for t
  proof -
    have "unat (cumulativeTSN q + (t - cumulativeTSN q)) = (unat (cumulativeTSN q) + off q t) mod 2 ^ 32"
      by (subst unat_word_ariths(1)) (simp add: off_def)
    then have "unat t = (unat (cumulativeTSN q) + off q t) mod 2 ^ 32" by simp
    then show ?thesis using assms(3) that by (auto simp: pos_def window_def mod_mod_cancel)
  qed
  have le: "off q b \<le> off q a" if "a \<in> window q" "b \<in> window q" "pos q a = pos q b" for a b
  proof (rule ccontr)
    assume "\<not> off q b \<le> off q a"
    then have "span q dvd off q b - off q a" "0 < off q b - off q a"
      using that un [of a] un [of b] mod_eq_dvd_iff_nat [of "unat (cumulativeTSN q) + off q a" "unat (cumulativeTSN q) + off q b" "span q"]
      by simp_all
    then have "span q \<le> off q b - off q a" by (rule dvd_imp_le)
    then show False using that assms(2) by (auto simp: window_def)
  qed
  fix a b assume "a \<in> window q" "b \<in> window q" "pos q a = pos q b"
  then show "a = b" using le [of a b] le [of b a] off_inj [of q a b] by simp
qed

lemma init_models:
  assumes "tsnBitmask q \<noteq> []" and "span q < 2 ^ 31" and "rq_maxTSNOffset q = of_nat (span q)"
  shows "rq_models (rq_init cum q) {}" "no_collision (rq_init cum q) \<longleftrightarrow> no_collision (q\<lparr>cumulativeTSN := cum\<rparr>)"
proof -
  have "\<not> marked (rq_init cum q) p" if "p < span q" for p
    using that by (simp add: marked_def rq_init_def span_def less_mult_imp_div_less mult.commute)
  moreover have "span (rq_init cum q) = span q" by (simp add: rq_init_def span_def)
  ultimately show "rq_models (rq_init cum q) {}" using assms by (simp add: rq_models_def) (simp add: rq_init_def)
  have "pos (rq_init cum q) = pos (q\<lparr>cumulativeTSN := cum\<rparr>)" "window (rq_init cum q) = window (q\<lparr>cumulativeTSN := cum\<rparr>)"
    by (simp_all add: fun_eq_iff pos_def window_def span_def off_def rq_init_def)
  then show "no_collision (rq_init cum q) \<longleftrightarrow> no_collision (q\<lparr>cumulativeTSN := cum\<rparr>)" by (simp add: no_collision_def)
qed

lemma push_refused:
  assumes m: "rq_models q R" and nc: "no_collision q" and t: "t \<notin> window q \<or> t \<in> R"
  shows "\<exists>q'. rq_push t q = Inr (False, q') \<and> rq_models q' R \<and> cumulativeTSN q' = cumulativeTSN q \<and>
    dupTSN q' = dupTSN q @ (if sna32GT t (cumulativeTSN q + rq_maxTSNOffset q) then [] else [t])"
proof -
  note d = rq_modelsD [OF m]
  have "rq_models (q\<lparr>dupTSN := x\<rparr>) R" for x
  proof -
    have "window (q\<lparr>dupTSN := x\<rparr>) = window q" "span (q\<lparr>dupTSN := x\<rparr>) = span q" "off (q\<lparr>dupTSN := x\<rparr>) = off q"
      "pos (q\<lparr>dupTSN := x\<rparr>) = pos q" "marked (q\<lparr>dupTSN := x\<rparr>) = marked q"
      by (simp_all add: fun_eq_iff window_def span_def off_def pos_def marked_def)
    then show ?thesis using m by (simp add: rq_models_def)
  qed
  then show ?thesis
    using m t window_iff [OF d(2,3), of t] hasChunk_set [OF m nc, of t] d(4) by (auto simp: rq_push_def)
qed

text \<open>
  C31: on a window without collisions the bit mask is a set: \<open>push\<close> takes exactly the TSNs of the
  window that are not in the set and adds them, repeated and old ones are reported as duplicates;
  \<open>pop\<close> removes the next TSN and moves the cumulative TSN; \<open>advanceCumulativeTSN\<close> removes
  everything up to the new cumulative TSN, word by word. No operation panics.
\<close>

theorem receive_queue_refines_set:
  assumes "rq_models q R" and "no_collision q"
  shows "hasChunk t q = Inr (t \<in> R) \<and>
    (\<exists>q'. rq_push t q = Inr (t \<in> window q - R, q') \<and> rq_models q' (if t \<in> window q then insert t R else R) \<and>
       cumulativeTSN q' = cumulativeTSN q \<and>
       dupTSN q' = dupTSN q @ (if t \<in> window q - R \<or> sna32GT t (cumulativeTSN q + rq_maxTSNOffset q) then [] else [t])) \<and>
    (\<exists>q'. rq_pop force q = Inr (cumulativeTSN q + 1 \<in> R, q') \<and> rq_models q' (R - {cumulativeTSN q + 1}) \<and>
       cumulativeTSN q' = (if cumulativeTSN q + 1 \<in> R \<or> force then cumulativeTSN q + 1 else cumulativeTSN q)) \<and>
    (sna32LT (cumulativeTSN q) c \<longrightarrow>
       (\<exists>q'. advanceCumulativeTSN c q = Inr q' \<and> cumulativeTSN q' = c \<and> rq_models q' {t \<in> R. off q c < off q t}))"
proof (intro conjI impI)
  show "hasChunk t q = Inr (t \<in> R)" by (rule hasChunk_set [OF assms])
  show "\<exists>q'. rq_push t q = Inr (t \<in> window q - R, q') \<and> rq_models q' (if t \<in> window q then insert t R else R) \<and>
       cumulativeTSN q' = cumulativeTSN q \<and>
       dupTSN q' = dupTSN q @ (if t \<in> window q - R \<or> sna32GT t (cumulativeTSN q + rq_maxTSNOffset q) then [] else [t])"
  proof (cases "t \<in> window q - R")
    case True
    then show ?thesis using push_new [OF assms(1), of t] hasChunk_set [OF assms, of t] by auto
  next
    case False
    then show ?thesis using push_refused [OF assms, of t] by (auto simp: insert_absorb)
  qed
  show "\<exists>q'. rq_pop force q = Inr (cumulativeTSN q + 1 \<in> R, q') \<and> rq_models q' (R - {cumulativeTSN q + 1}) \<and>
       cumulativeTSN q' = (if cumulativeTSN q + 1 \<in> R \<or> force then cumulativeTSN q + 1 else cumulativeTSN q)"
    using pop_models [OF assms, of force] by blast
  show "\<exists>q'. advanceCumulativeTSN c q = Inr q' \<and> cumulativeTSN q' = c \<and> rq_models q' {t \<in> R. off q c < off q t}"
    if "sna32LT (cumulativeTSN q) c" using advance_set [OF assms that] by blast
qed


text \<open>The queue an association starts with.\<close>

lemma new_queue:
  assumes "offset \<noteq> 0" and "unat offset \<le> 40000"
  shows "tsnBitmask (newReceivePayloadQueue offset) \<noteq> []" "span (newReceivePayloadQueue offset) < 2 ^ 31"
    "rq_maxTSNOffset (newReceivePayloadQueue offset) = of_nat (span (newReceivePayloadQueue offset))"
    "span (newReceivePayloadQueue offset) = 64 * ((unat offset + 63) div 64)"
proof -
  have pos: "0 < unat offset" using assms(1) by (simp add: unat_gt_0)
  have u: "unat (offset + 63) = unat offset + 63"
    using assms(2) by (subst unat_word_ariths(1)) simp
  define k where "k = (unat offset + 63) div 64"
  have k: "0 < k" "k \<le> 626" using pos assms(2) by (simp_all add: k_def div_greater_zero_iff)
  have d: "(offset + 63) div 64 = of_nat k" by (rule unsigned_word_eqI [where ?'a = nat]) (use k(2) in \<open>simp add: unat_div u k_def [symmetric] unat_of_nat\<close>)
  have m: "(offset + 63) div 64 * 64 div 64 = (of_nat k :: u32)"
    unfolding d using k by (intro unsigned_word_eqI [where ?'a = nat]) (simp add: unat_div unat_of_nat unat_word_ariths)
  have len: "length (tsnBitmask (newReceivePayloadQueue offset)) = k"
    using k(2) by (simp add: newReceivePayloadQueue_def Let_def m unat_of_nat)
  then show "tsnBitmask (newReceivePayloadQueue offset) \<noteq> []" using k(1) by auto
  show sp: "span (newReceivePayloadQueue offset) = 64 * ((unat offset + 63) div 64)" by (simp add: span_def len k_def)
  then show "span (newReceivePayloadQueue offset) < 2 ^ 31" using k(2) by (simp add: k_def)
  show "rq_maxTSNOffset (newReceivePayloadQueue offset) = of_nat (span (newReceivePayloadQueue offset))"
    using m by (simp add: newReceivePayloadQueue_def Let_def d span_def len [unfolded newReceivePayloadQueue_def Let_def] mult.commute)
qed


lemma fresh_models:
  assumes "offset \<noteq> 0" and "unat offset \<le> 40000"
  shows "rq_models (rq_init cum (newReceivePayloadQueue offset)) {}"
    "span (rq_init cum (newReceivePayloadQueue offset)) = 64 * ((unat offset + 63) div 64)"
  using init_models(1) [OF new_queue(1-3) [OF assms], of cum] new_queue(4) [OF assms]
  by (simp_all add: rq_init_def span_def)

lemma fresh_no_collision:
  assumes "offset \<noteq> 0" and "unat offset \<le> 40000" and "unat cum + 40064 < 2 ^ 32"
  shows "no_collision (rq_init cum (newReceivePayloadQueue offset))"
proof -
  have "64 * ((unat offset + 63) div 64) \<le> 40064" using assms(2) by linarith
  moreover have "0 < 64 * ((unat offset + 63) div 64)" using assms(1) by (simp add: unat_gt_0 div_greater_zero_iff Suc_le_eq)
  ultimately show ?thesis using fresh_models(2) [OF assms(1,2), of cum] assms(3)
    by (intro no_collisionI) (simp_all, simp add: rq_init_def)
qed

theorem receive_queue_refines_set_witness:
  "hasChunk 101 (rq_init 100 (newReceivePayloadQueue 64)) = Inr False \<and>
    (\<exists>q'. rq_push 101 (rq_init 100 (newReceivePayloadQueue 64)) = Inr (True, q') \<and> rq_models q' {101} \<and> dupTSN q' = []) \<and>
    (\<exists>q'. rq_pop True (rq_init 100 (newReceivePayloadQueue 64)) = Inr (False, q') \<and> cumulativeTSN q' = 101) \<and>
    (\<exists>q'. advanceCumulativeTSN 102 (rq_init 100 (newReceivePayloadQueue 64)) = Inr q' \<and> cumulativeTSN q' = 102)"
proof -
  let ?q = "rq_init 100 (newReceivePayloadQueue 64)"
  have off: "(64 :: u32) \<noteq> 0" "unat (64 :: u32) \<le> 40000" "unat (100 :: u32) + 40064 < 2 ^ 32" by simp_all
  have c: "cumulativeTSN ?q = 100" "dupTSN ?q = []" by (simp_all add: rq_init_def)
  have w: "101 \<in> window ?q" using fresh_models(2) [OF off(1,2), of 100] by (simp add: window_def off_def c)
  have lt: "sna32LT (cumulativeTSN ?q) 102" unfolding c by code_simp
  show ?thesis
    using receive_queue_refines_set [OF fresh_models(1) [OF off(1,2)] fresh_no_collision [OF off], of 101 True 102] w lt
    by (auto simp: c)
qed

text \<open>
  C32: where the TSNs wrap around, two TSNs of one window can share a place of the mask. With the
  default receive buffer of 1 MiB the mask has 8448 places, and a TSN just before the wrap shares its
  place with the TSN 4096 after it. When the later one arrives first, \<open>canPush\<close> refuses the missing
  one, so its data never reach the stream, and \<open>pop\<close> nevertheless moves the cumulative TSN over it:
  the peer is told that it arrived.
\<close>

theorem lost_chunk_acknowledged_at_wrap:
  "\<exists>q q'. rq_push 3097 (rq_init 4294966296 (newReceivePayloadQueue (getMaxTSNOffset 1048576))) = Inr (True, q) \<and>
     canPush 4294966297 q = Inr False \<and> rq_pop False q = Inr (True, q') \<and> cumulativeTSN q' = 4294966297"
proof -
  have offset: "getMaxTSNOffset 1048576 = 8388" by (simp add: getMaxTSNOffset_def)
  have bound: "(8388 :: u32) \<noteq> 0" "unat (8388 :: u32) \<le> 40000" by simp_all
  define q where "q = rq_init 4294966296 (newReceivePayloadQueue 8388)"
  have m: "rq_models q {}" "span q = 8448" using fresh_models [OF bound, of 4294966296] by (simp_all add: q_def)
  have c: "cumulativeTSN q = 4294966296" by (simp add: q_def rq_init_def)
  have d: "(4294966297 :: u32) - 4294966296 = 1" "(3097 :: u32) - 4294966296 = 4097" by code_simp+
  have off: "off q 4294966297 = 1" "off q 3097 = 4097" unfolding off_def c d by simp_all
  then have win: "4294966297 \<in> window q" "3097 \<in> window q" by (simp_all add: window_def m(2))
  have pos: "pos q 4294966297 = pos q 3097" by (simp add: pos_def m(2))
  obtain q' where push: "rq_push 3097 q = Inr (True, q')" and q': "rq_models q' {3097}" "cumulativeTSN q' = cumulativeTSN q"
      "length (tsnBitmask q') = length (tsnBitmask q)"
    using push_new [OF m(1) win(2)] hasChunk_iff [OF m(1), of 3097] by auto
  have same: "off q' = off q" "window q' = window q" "pos q' = pos q"
    by (simp_all add: fun_eq_iff off_def window_def pos_def span_def q'(2,3))
  have tail: "tailTSN q' = 3097" using rq_modelsD(7) [OF q'(1)] by simp
  have has: "hasChunk 4294966297 q' = Inr True"
    unfolding hasChunk_iff [OF q'(1)] tail same using win off pos by simp
  have succ: "cumulativeTSN q' + 1 = 4294966297" by (simp add: q'(2) c)
  show ?thesis
    unfolding offset q_def [symmetric]
    using push has succ rq_modelsD(1) [OF q'(1)] by (auto simp: canPush_def rq_pop_def maskWord_def Let_def)
qed

end
