(* ===== verification/GapBlocks.thy ===== *)
theory GapBlocks
  imports ReceiveQueue
begin

text \<open>
  The gap ack blocks of a SACK (\<open>getGapAckBlocks\<close> of \<open>receive_payload_queue.go\<close>). The code walks the
  bit mask a word at a time; \<open>scan\<close> is the walk TSN by TSN. The loop ends, its blocks are those of
  \<open>scan\<close>, and these are the maximal runs of received TSNs in their order.
\<close>

unbundle bit_operations_syntax

section \<open>The runs of a predicate\<close>

primrec scan :: "(nat \<Rightarrow> bool) \<Rightarrow> nat \<Rightarrow> nat \<Rightarrow> nat option \<Rightarrow> (nat \<times> nat) list" where
  "scan P i 0 open = (case open of None \<Rightarrow> [] | Some s \<Rightarrow> [(s, i - 1)])"
| "scan P i (Suc k) open = (case open of
     None \<Rightarrow> scan P (Suc i) k (if P i then Some i else None)
   | Some s \<Rightarrow> if P i then scan P (Suc i) k (Some s) else (s, i - 1) # scan P (Suc i) k None)"

lemma scan_skip: "(\<And>j. i \<le> j \<Longrightarrow> j < i + d \<Longrightarrow> \<not> P j) \<Longrightarrow> d \<le> k \<Longrightarrow> scan P i k None = scan P (i + d) (k - d) None"
proof (induction d arbitrary: i k)
  case (Suc d)
  then obtain k' where "k = Suc k'" by (cases k) auto
  then show ?case using Suc.IH [of "Suc i" k'] Suc.prems by simp
qed simp

lemma scan_run: "(\<And>j. i \<le> j \<Longrightarrow> j < i + d \<Longrightarrow> P j) \<Longrightarrow> d \<le> k \<Longrightarrow> scan P i k (Some s) = scan P (i + d) (k - d) (Some s)"
proof (induction d arbitrary: i k)
  case (Suc d)
  then obtain k' where "k = Suc k'" by (cases k) auto
  then show ?case using Suc.IH [of "Suc i" k'] Suc.prems by simp
qed simp

lemma scan_open: "P i \<Longrightarrow> 0 < k \<Longrightarrow> scan P i k None = scan P i k (Some i)"
  by (cases k) simp_all

lemma scan_close: "\<not> P i \<Longrightarrow> 0 < k \<Longrightarrow> scan P i k (Some s) = (s, i - 1) # scan P i k None"
  by (cases k) simp_all

text \<open>A run \<open>(s, e)\<close> of the numbers from \<open>i\<close> to below \<open>n\<close>, begun at \<open>b\<close> or later.\<close>

definition maxRun :: "(nat \<Rightarrow> bool) \<Rightarrow> nat \<Rightarrow> nat \<Rightarrow> nat \<times> nat \<Rightarrow> bool" where
  "maxRun P i n r \<longleftrightarrow> i \<le> fst r \<and> fst r \<le> snd r \<and> snd r < n \<and> (\<forall>j. fst r \<le> j \<and> j \<le> snd r \<longrightarrow> P j) \<and>
     (fst r = i \<or> \<not> P (fst r - 1)) \<and> (Suc (snd r) = n \<or> \<not> P (Suc (snd r)))"

lemma maxRun_skip:
  assumes "\<not> P i" shows "maxRun P i n r \<longleftrightarrow> maxRun P (Suc i) n r"
proof -
  have "i < fst r" if "maxRun P i n r" using that assms by (cases "i = fst r") (auto simp: maxRun_def)
  then show ?thesis using assms by (auto simp: maxRun_def le_Suc_eq)
qed

lemma maxRun_start:
  assumes "maxRun P i n r" and "\<And>j. i \<le> j \<Longrightarrow> j < fst r \<Longrightarrow> P j"
  shows "fst r = i"
proof (rule ccontr)
  assume "fst r \<noteq> i"
  then have "i < fst r" "\<not> P (fst r - 1)" using assms(1) by (auto simp: maxRun_def)
  then show False using assms(2) [of "fst r - 1"] by linarith
qed

lemma maxRun_end:
  assumes "maxRun P i n r" and "fst r \<le> m" and "\<And>j. fst r \<le> j \<Longrightarrow> j < m \<Longrightarrow> P j" and "m < n \<Longrightarrow> \<not> P m" and "m \<le> n"
  shows "Suc (snd r) = m"
proof -
  have run: "P j" if "fst r \<le> j" "j \<le> snd r" for j using assms(1) that by (simp add: maxRun_def)
  have "snd r < m" using run [of m] assms(1,2,4,5) by (cases "m = n") (auto simp: maxRun_def not_less)
  moreover have "\<not> Suc (snd r) < m"
    using assms(1) assms(3) [of "Suc (snd r)"] assms(5) by (auto simp: maxRun_def)
  ultimately show ?thesis by simp
qed

lemma maxRun_first:
  assumes "i < m" and P: "\<And>j. i \<le> j \<Longrightarrow> j < m \<Longrightarrow> P j" and "\<not> P m" and "m < n"
  shows "maxRun P i n r \<longleftrightarrow> r = (i, m - 1) \<or> maxRun P (Suc m) n r"
proof (cases "fst r < m")
  case True
  have "r = (i, m - 1)" if "maxRun P i n r"
  proof -
    have fst: "fst r = i" using P True by (intro maxRun_start [OF that]) simp
    then have "Suc (snd r) = m" using True P assms(3,4) by (intro maxRun_end [OF that]) simp_all
    then show ?thesis using fst by (cases r) simp
  qed
  moreover have "maxRun P i n (i, m - 1)" using assms by (auto simp: maxRun_def)
  moreover have "\<not> maxRun P (Suc m) n r" using True by (simp add: maxRun_def)
  ultimately show ?thesis by blast
next
  case False
  have "fst r \<noteq> m" if "maxRun P i n r" using that assms(3) by (auto simp: maxRun_def)
  then have "maxRun P i n r \<longleftrightarrow> maxRun P (Suc m) n r"
    using False assms(1,3) by (auto simp: maxRun_def le_Suc_eq)
  moreover have "r \<noteq> (i, m - 1)" using False assms(1) by auto
  ultimately show ?thesis by blast
qed

lemma maxRun_whole:
  assumes "i < n" and P: "\<And>j. i \<le> j \<Longrightarrow> j < n \<Longrightarrow> P j"
  shows "maxRun P i n r \<longleftrightarrow> r = (i, n - 1)"
proof
  assume r: "maxRun P i n r"
  have le: "fst r < n" using r by (simp add: maxRun_def)
  then have fst: "fst r = i" using P by (intro maxRun_start [OF r]) simp
  then have "Suc (snd r) = n" using le P by (intro maxRun_end [OF r]) simp_all
  then show "r = (i, n - 1)" using fst by (cases r) simp
next
  assume "r = (i, n - 1)"
  then show "maxRun P i n r" using assms by (auto simp: maxRun_def)
qed

lemma scan_runs:
  "set (scan P i k None) = {r. maxRun P i (i + k) r}"
  "s < i \<Longrightarrow> (\<And>j. s \<le> j \<Longrightarrow> j < i \<Longrightarrow> P j) \<Longrightarrow> set (scan P i k (Some s)) = {r. maxRun P s (i + k) r}"
proof (induction k arbitrary: i s)
  case 0
  case 1
  show ?case by (auto simp: maxRun_def)
next
  case 0
  case 2
  then show ?case using maxRun_whole [of s i P] by auto
next
  case (Suc k)
  case 1
  show ?case
  proof (cases "P i")
    case True
    then show ?thesis using Suc.IH(2) [of i "Suc i"] by (auto simp: le_less_Suc_eq)
  next
    case False
    then show ?thesis using Suc.IH(1) [of "Suc i"] maxRun_skip [of P i "Suc (i + k)"] by simp
  qed
next
  case (Suc k)
  case 2
  show ?case
  proof (cases "P i")
    case True
    then show ?thesis using Suc.IH(2) [of s "Suc i"] 2 by (auto simp: less_Suc_eq)
  next
    case False
    then show ?thesis using Suc.IH(1) [of "Suc i"] 2 maxRun_first [of s i P "Suc (i + k)"] by auto
  qed
qed

text \<open>The runs come in order, with a gap before each next one.\<close>

lemma scan_sorted:
  "sorted_wrt (\<lambda>a b. Suc (snd a) < fst b) (scan P i k None) \<and> (\<forall>r \<in> set (scan P i k None). i \<le> fst r)"
  "s < i \<Longrightarrow> sorted_wrt (\<lambda>a b. Suc (snd a) < fst b) (scan P i k (Some s)) \<and> (\<forall>r \<in> set (scan P i k (Some s)). s \<le> fst r)"
proof (induction k arbitrary: i s)
  case (Suc k)
  case 1
  show ?case using Suc.IH(2) [of i "Suc i"] Suc.IH(1) [of "Suc i"] by (auto dest: Suc_leD)
next
  case (Suc k)
  case 2
  then show ?case using Suc.IH(2) [of s "Suc i"] Suc.IH(1) [of "Suc i"] by auto
qed simp_all


section \<open>The first set and the first clear bit of a word\<close>

lemma trailingZeros_spec:
  "trailingZeros w \<le> 64" "j < trailingZeros w \<Longrightarrow> \<not> bit w j" "trailingZeros w < 64 \<Longrightarrow> bit w (trailingZeros w)"
proof -
  let ?zs = "takeWhile (\<lambda>i. \<not> bit w i) [0..<64]"
  show "trailingZeros w \<le> 64" using length_takeWhile_le [of "\<lambda>i. \<not> bit w i" "[0..<64]"] by (simp add: trailingZeros_def)
  then show "\<not> bit w j" if "j < trailingZeros w"
    using that nth_mem [of j ?zs] set_takeWhileD [of j "\<lambda>i. \<not> bit w i" "[0..<64]"]
      takeWhile_nth [of j "\<lambda>i. \<not> bit w i" "[0..<64]"]
    by (simp add: trailingZeros_def del: nth_mem)
  show "bit w (trailingZeros w)" if "trailingZeros w < 64"
    using that nth_length_takeWhile [of "\<lambda>i. \<not> bit w i" "[0..<64]"] by (simp add: trailingZeros_def)
qed

lemma firstNonZero:
  assumes "getFirstNonZeroBit w k 64 = (b, ok)"
  shows "k \<le> b" "ok \<longleftrightarrow> b < 64" "k \<le> j \<Longrightarrow> j < b \<Longrightarrow> \<not> bit w j" "ok \<Longrightarrow> bit w b"
proof -
  let ?z = "trailingZeros (drop_bit k w)"
  have b: "b = k + ?z" "ok \<longleftrightarrow> b < 64" using assms by (auto simp: getFirstNonZeroBit_def Let_def)
  then show "k \<le> b" "ok \<longleftrightarrow> b < 64" by simp_all
  show "\<not> bit w j" if "k \<le> j" "j < b"
    using trailingZeros_spec(2) [of "j - k" "drop_bit k w"] that b by (simp add: bit_drop_bit_eq)
  show "bit w b" if ok
    using trailingZeros_spec(3) [of "drop_bit k w"] that b by (simp add: bit_drop_bit_eq)
qed

lemma firstZero:
  assumes "getFirstZeroBit w k 64 = (b, ok)"
  shows "k \<le> b" "ok \<longleftrightarrow> b < 64" "k \<le> j \<Longrightarrow> j < b \<Longrightarrow> j < 64 \<Longrightarrow> bit w j" "ok \<Longrightarrow> \<not> bit w b"
proof -
  note z = firstNonZero [OF assms [unfolded getFirstZeroBit_def]]
  show "k \<le> b" "ok \<longleftrightarrow> b < 64" by (rule z)+
  show "bit w j" if "k \<le> j" "j < b" "j < 64" using z(3) [OF that(1,2)] that(3) by (simp add: bit_simps)
  show "\<not> bit w b" if ok using z(2) z(4) [OF that] that by (simp add: bit_simps)
qed

section \<open>The loop\<close>

text \<open>The TSN \<open>i\<close> after the cumulative one, and whether it was received.\<close>

abbreviation nth_tsn :: "receivePayloadQueue \<Rightarrow> nat \<Rightarrow> u32" where
  "nth_tsn q i \<equiv> cumulativeTSN q + of_nat i"

abbreviation received :: "receivePayloadQueue \<Rightarrow> u32 set \<Rightarrow> nat \<Rightarrow> bool" where
  "received q R i \<equiv> nth_tsn q i \<in> R"

definition block :: "nat \<times> nat \<Rightarrow> gapAckBlock" where
  "block r = \<lparr>gap_start = of_nat (fst r), gap_end = of_nat (snd r)\<rparr>"

lemma off_nth: "i < 2 ^ 32 \<Longrightarrow> off q (nth_tsn q i) = i"
  by (simp add: off_def unat_of_nat)

lemma tail_nth:
  assumes "rq_models q R" and "i < 2 ^ 31"
  shows "sna32LTE (nth_tsn q i) (tailTSN q) \<longleftrightarrow> i \<le> off q (tailTSN q)"
    "sna32GT (nth_tsn q i) (tailTSN q) \<longleftrightarrow> off q (tailTSN q) < i"
  using sna_off [of q "nth_tsn q i" "tailTSN q"] off_nth [of i q] rq_modelsD(2,6) [OF assms(1)] assms(2) by simp_all

lemma word_bits:
  assumes "rq_models q R" and "no_collision q" and "1 \<le> i" and "i + d \<le> off q (tailTSN q)"
    and "maskOffset (nth_tsn q i) + d < 64"
  shows "bit (tsnBitmask q ! maskIndex q (nth_tsn q i)) (maskOffset (nth_tsn q i) + d) \<longleftrightarrow> received q R (i + d)"
proof -
  note m = rq_modelsD [OF assms(1)]
  let ?t = "nth_tsn q (i + d)"
  have eq: "nth_tsn q i + of_nat d = ?t" by simp
  have off: "off q ?t = i + d" using assms(4) m(2,6) by (intro off_nth) simp
  then have win: "?t \<in> window q" using assms(3,4) m(6) by (simp add: window_def)
  have "marked q (pos q ?t) \<longleftrightarrow> ?t \<in> R"
    unfolding m(11) using inj_on_image_mem_iff [OF assms(2) [unfolded no_collision_def] win m(4)] .
  then show ?thesis using block_places [OF m(1) assms(5)] marked_pos [OF m(1), of ?t] unfolding eq by simp
qed

lemma ucast_of_nat16 [simp]: "ucast (of_nat k :: u32) = (of_nat k :: u16)"
  by (rule bit_word_eqI) (auto simp: bit_simps)


text \<open>
  The two steps of the loop. While it looks for a start it skips to the first received TSN of the
  word, and while it looks for an end to the first one that is missing.
\<close>

lemma start_step:
  assumes m: "rq_models q R" "no_collision q" and i: "1 \<le> i" "i \<le> off q (tailTSN q)" and n: "length bs < n"
  defines "T \<equiv> off q (tailTSN q)"
  obtains d ok where "gapLoop q n (nth_tsn q i) False s bs =
      (if ok then gapLoop q n (nth_tsn q (i + d)) True (of_nat (i + d)) bs else gapLoop q n (nth_tsn q (i + d)) False s bs)"
    and "scan (received q R) i (Suc T - i) None = scan (received q R) (i + d) (Suc T - (i + d)) None"
    and "i + d \<le> T" "ok \<Longrightarrow> received q R (i + d)" "ok \<or> 0 < d"
proof -
  note models = rq_modelsD [OF m(1)]
  let ?w = "tsnBitmask q ! maskIndex q (nth_tsn q i)" and ?k = "maskOffset (nth_tsn q i)"
  obtain b ok where first: "getFirstNonZeroBit ?w ?k 64 = (b, ok)" by fastforce
  note f = firstNonZero [OF first]
  have k: "?k < 64" using pos_split(2) [OF models(1)] .
  define d where "d = (if ok then b - ?k else 64 - ?k)"
  have miss: "\<not> received q R j" if "i \<le> j" "j < i + d" "j \<le> T" for j
  proof -
    have "?k + (j - i) < 64" "?k + (j - i) < b" using that(1,2) f(1,2) k by (auto simp: d_def split: if_splits)
    then show ?thesis using word_bits [OF m i(1), of "j - i"] f(3) [of "?k + (j - i)"] that unfolding T_def by simp
  qed
  have "R \<noteq> {}" using models(9) i by auto
  then have "received q R T" using models(7) by (simp add: T_def off_def)
  then have le: "i + d \<le> T" using miss [of T] i(2) unfolding T_def by linarith
  have hit: "received q R (i + d)" if ok
  proof -
    have "?k + d = b" using that f(1) by (simp add: d_def)
    then show ?thesis using word_bits [OF m i(1), of d] f(2,4) le that by (simp add: T_def del: of_nat_add)
  qed
  have T: "T < 2 ^ 31" using models(2,6) by (simp add: T_def)
  have loop: "gapLoop q n (nth_tsn q i) False s bs =
      (if ok then gapLoop q n (nth_tsn q (i + d)) True (of_nat (i + d)) bs else gapLoop q n (nth_tsn q (i + d)) False s bs)"
    by (subst gapLoop.simps) (use tail_nth(1) [OF m(1), of i] i T n models(1) first in
      \<open>simp add: maskWord_def T_def [symmetric] Let_def d_def add.assoc add_diff_eq flip: of_nat_add\<close>)
  have scan: "scan (received q R) i (Suc T - i) None = scan (received q R) (i + d) (Suc T - (i + d)) None"
    using scan_skip [of i d "received q R" "Suc T - i"] miss le by simp
  show ?thesis by (rule that [OF loop scan le hit]) (use k in \<open>simp_all add: d_def\<close>)
qed

lemma end_step:
  assumes m: "rq_models q R" "no_collision q" and i: "1 \<le> i" "i \<le> off q (tailTSN q)" and n: "length bs < n" and span: "span q < 2 ^ 16"
  defines "T \<equiv> off q (tailTSN q)"
  obtains "gapLoop q n (nth_tsn q i) True s bs = Some (Inr (bs @ [\<lparr>gap_start = s, gap_end = of_nat T\<rparr>]))"
      "scan (received q R) i (Suc T - i) (Some a) = [(a, T)]"
  | d where "i + d \<le> T" "\<not> received q R (i + d)"
      "gapLoop q n (nth_tsn q i) True s bs =
         gapLoop q n (nth_tsn q (i + d)) False s (bs @ [\<lparr>gap_start = s, gap_end = of_nat (i + d - 1)\<rparr>])"
      "scan (received q R) i (Suc T - i) (Some a) = (a, i + d - 1) # scan (received q R) (i + d) (Suc T - (i + d)) None"
  | d where "i + d \<le> T" "0 < d" "gapLoop q n (nth_tsn q i) True s bs = gapLoop q n (nth_tsn q (i + d)) True s bs"
      "scan (received q R) i (Suc T - i) (Some a) = scan (received q R) (i + d) (Suc T - (i + d)) (Some a)"
proof -
  note models = rq_modelsD [OF m(1)]
  let ?w = "tsnBitmask q ! maskIndex q (nth_tsn q i)" and ?k = "maskOffset (nth_tsn q i)"
  obtain b ok where first: "getFirstZeroBit ?w ?k 64 = (b, ok)" by fastforce
  note f = firstZero [OF first]
  have k: "?k < 64" using pos_split(2) [OF models(1)] .
  define d where "d = (if ok then b - ?k else 64 - ?k)"
  have run: "received q R j" if "i \<le> j" "j < i + d" "j \<le> T" for j
  proof -
    have "?k + (j - i) < 64" "?k + (j - i) < b" using that(1,2) f(1,2) k by (auto simp: d_def split: if_splits)
    then show ?thesis using word_bits [OF m i(1), of "j - i"] f(3) [of "?k + (j - i)"] that unfolding T_def by simp
  qed
  have T: "T < 2 ^ 31" "i + d < 2 ^ 31" using models(2,6) span i(2) k f(1,2) by (auto simp: T_def d_def)
  have gt: "sna32GT (nth_tsn q (i + d)) (tailTSN q) \<longleftrightarrow> T < i + d" "sna32LTE (nth_tsn q (i + d)) (tailTSN q) \<longleftrightarrow> i + d \<le> T"
    using tail_nth [OF m(1) T(2)] by (simp_all add: T_def)
  have "nth_tsn q i + of_nat (if ok then b - ?k else 64 - ?k) = nth_tsn q (i + d)" by (simp add: d_def)
  then have t': "(if ok then nth_tsn q i + of_nat (b - ?k) else nth_tsn q i + of_nat (64 - ?k)) = nth_tsn q (i + d)"
    by (simp split: if_splits)
  have tl: "tailTSN q - cumulativeTSN q = of_nat T" by (simp add: T_def off_def)
  define E where "E = (of_nat (i + d - 1) :: u16)"
  have e: "ucast (of_nat i + (of_nat (b - ?k) - 1 :: u32)) = E" if ok
  proof -
    have "of_nat i + (of_nat (b - ?k) - 1 :: u32) = of_nat (i + d - 1)" using that i(1) by (simp add: d_def of_nat_diff)
    then show ?thesis by (simp only: ucast_of_nat16 E_def)
  qed
  have loop: "gapLoop q n (nth_tsn q i) True s bs =
      (let bs' = (if ok \<and> i + d \<le> T then bs @ [\<lparr>gap_start = s, gap_end = E\<rparr>] else bs)
       in if T < i + d then Some (Inr (bs' @ [\<lparr>gap_start = s, gap_end = of_nat T\<rparr>]))
          else gapLoop q n (nth_tsn q (i + d)) (\<not> ok) s bs')"
    unfolding gapLoop.simps [of q n "nth_tsn q i"]
    using tail_nth(1) [OF m(1), of i] i T(1) n models(1)
    by (simp add: maskWord_def T_def [symmetric] first Let_def t' gt tl e del: of_nat_add cong: if_cong)
  have zero: "\<not> received q R (i + d)" if ok "i + d \<le> T"
  proof -
    have "?k + d = b" using that f(1) by (simp add: d_def)
    then show ?thesis using word_bits [OF m i(1), of d] f(2,4) that by (simp add: T_def del: of_nat_add)
  qed
  have skip: "scan (received q R) i (Suc T - i) (Some a) = scan (received q R) (i + d) (Suc T - (i + d)) (Some a)" if "i + d \<le> T"
    using scan_run [of i d "received q R" "Suc T - i" a] run that by simp
  consider "T < i + d" | "i + d \<le> T" ok | "i + d \<le> T" "\<not> ok" by linarith
  then show ?thesis
  proof cases
    case 1
    then have "scan (received q R) i (Suc T - i) (Some a) = [(a, T)]"
      using scan_run [of i "Suc T - i" "received q R" "Suc T - i" a] run i(2) by (simp add: T_def)
    then show ?thesis using loop 1 by (intro that(1)) (simp_all add: Let_def)
  next
    case 2
    then have "scan (received q R) i (Suc T - i) (Some a) = (a, i + d - 1) # scan (received q R) (i + d) (Suc T - (i + d)) None"
      using skip scan_close [of "received q R" "i + d" "Suc T - (i + d)" a] zero by simp
    then show ?thesis using loop zero 2 by (intro that(2) [of d]) (simp_all add: Let_def E_def)
  next
    case 3
    then show ?thesis using loop skip k by (intro that(3) [of d]) (simp_all add: Let_def d_def)
  qed
qed

text \<open>The whole loop, from any TSN and in both modes.\<close>

lemma gapLoop_scan:
  assumes m: "rq_models q R" "no_collision q" and span: "span q < 2 ^ 16"
  defines "T \<equiv> off q (tailTSN q)"
  shows "1 \<le> i \<Longrightarrow> i \<le> T \<Longrightarrow> length bs < n \<Longrightarrow> (findEnd \<longrightarrow> s = of_nat a) \<Longrightarrow>
    gapLoop q n (nth_tsn q i) findEnd s bs =
      Some (Inr (take n (bs @ map block (scan (received q R) i (Suc T - i) (if findEnd then Some a else None)))))"
proof (induction "2 * (T - i) + (if findEnd = received q R i then 0 else 1)" arbitrary: i findEnd s a bs rule: less_induct)
  case less
  note i = less(2,3) and n = less(4)
  have dec: "2 * (T - (i + d)) + (if fe = received q R (i + d) then 0 else 1) < 2 * (T - i) + (if findEnd = received q R i then 0 else 1)"
    if "i + d \<le> T" "0 < d \<or> fe \<noteq> findEnd \<and> fe = received q R (i + d)" for d fe
    using that by (cases d) (auto simp del: of_nat_Suc of_nat_add)
  show ?case
  proof (cases findEnd)
    case False
    obtain d ok where d: "gapLoop q n (nth_tsn q i) False s bs =
        (if ok then gapLoop q n (nth_tsn q (i + d)) True (of_nat (i + d)) bs else gapLoop q n (nth_tsn q (i + d)) False s bs)"
      and scan: "scan (received q R) i (Suc T - i) None = scan (received q R) (i + d) (Suc T - (i + d)) None"
      and le: "i + d \<le> T" and ok: "ok \<Longrightarrow> received q R (i + d)" "ok \<or> 0 < d"
      by (rule start_step [OF m i [unfolded T_def] n, folded T_def, of s]) (rule that)
    show ?thesis
    proof (cases ok)
      case True
      have "gapLoop q n (nth_tsn q (i + d)) True (of_nat (i + d)) bs =
          Some (Inr (take n (bs @ map block (scan (received q R) (i + d) (Suc T - (i + d)) (Some (i + d))))))"
        using less(1) [OF dec, of d True bs "of_nat (i + d)" "i + d"] ok(1) [OF True] le i n False by (simp del: of_nat_add)
      then show ?thesis using d scan True False scan_open [of "received q R" "i + d" "Suc T - (i + d)"] ok(1) le by simp
    next
      case False
      then have "gapLoop q n (nth_tsn q (i + d)) False s bs =
          Some (Inr (take n (bs @ map block (scan (received q R) (i + d) (Suc T - (i + d)) None))))"
        using less(1) [OF dec, of d False bs s a] ok(2) le i n by simp
      then show ?thesis using d scan False \<open>\<not> findEnd\<close> by simp
    qed
  next
    case True
    then have s: "s = of_nat a" using less(5) by simp
    show ?thesis
    proof (rule end_step [OF m i [unfolded T_def] n span, folded T_def, of s a])
      assume "gapLoop q n (nth_tsn q i) True s bs = Some (Inr (bs @ [\<lparr>gap_start = s, gap_end = of_nat T\<rparr>]))"
        "scan (received q R) i (Suc T - i) (Some a) = [(a, T)]"
      then show ?thesis using True n by (simp add: block_def s)
    next
      fix d
      let ?bs = "bs @ [block (a, i + d - 1)]"
      assume d: "i + d \<le> T" "\<not> received q R (i + d)"
        "gapLoop q n (nth_tsn q i) True s bs =
           gapLoop q n (nth_tsn q (i + d)) False s (bs @ [\<lparr>gap_start = s, gap_end = of_nat (i + d - 1)\<rparr>])"
        "scan (received q R) i (Suc T - i) (Some a) = (a, i + d - 1) # scan (received q R) (i + d) (Suc T - (i + d)) None"
      have "gapLoop q n (nth_tsn q (i + d)) False s ?bs =
          Some (Inr (take n (?bs @ map block (scan (received q R) (i + d) (Suc T - (i + d)) None))))"
      proof (cases "length ?bs < n")
        case True
        then show ?thesis using less(1) [OF dec, of d False ?bs s a] d(1,2) i \<open>findEnd\<close> by simp
      next
        case False
        then have "n = Suc (length bs)" using n by simp
        then show ?thesis by (subst gapLoop.simps) simp
      qed
      then show ?thesis using True d by (simp add: block_def s)
    next
      fix d
      assume d: "i + d \<le> T" "0 < d" "gapLoop q n (nth_tsn q i) True s bs = gapLoop q n (nth_tsn q (i + d)) True s bs"
        "scan (received q R) i (Suc T - i) (Some a) = scan (received q R) (i + d) (Suc T - (i + d)) (Some a)"
      then show ?thesis using less(1) [OF dec, of d True bs s a] i n s True by simp
    qed
  qed
qed


text \<open>The runs of received TSNs, by their offsets from the cumulative TSN.\<close>

definition receivedRun :: "receivePayloadQueue \<Rightarrow> u32 set \<Rightarrow> nat \<times> nat \<Rightarrow> bool" where
  "receivedRun q R r \<longleftrightarrow> 1 \<le> fst r \<and> fst r \<le> snd r \<and> snd r \<le> span q \<and>
     (\<forall>i. fst r \<le> i \<and> i \<le> snd r \<longrightarrow> received q R i) \<and> \<not> received q R (fst r - 1) \<and> \<not> received q R (Suc (snd r))"

lemma receivedRun_iff:
  assumes m: "rq_models q R"
  shows "receivedRun q R r \<longleftrightarrow> maxRun (received q R) 1 (Suc (off q (tailTSN q))) r"
proof -
  note models = rq_modelsD [OF m]
  have bound: "1 \<le> i \<and> i \<le> off q (tailTSN q)" if "received q R i" "i \<le> Suc (span q)" for i
    using models(8) [OF that(1)] models(2,4) that off_nth [of i q] by (auto simp: window_def)
  have zero: "\<not> received q R 0" using bound [of 0] by auto
  have last: "\<not> received q R (Suc (off q (tailTSN q)))" using bound [of "Suc (off q (tailTSN q))"] models(6) by auto
  show ?thesis
  proof
    assume run: "receivedRun q R r"
    then have "received q R (snd r)" "snd r \<le> span q" by (simp_all add: receivedRun_def)
    then show "maxRun (received q R) 1 (Suc (off q (tailTSN q))) r"
      using run bound [of "snd r"] unfolding receivedRun_def maxRun_def by (simp del: of_nat_Suc of_nat_diff)
  next
    assume "maxRun (received q R) 1 (Suc (off q (tailTSN q))) r"
    then show "receivedRun q R r"
      using zero last models(6) unfolding receivedRun_def maxRun_def by (cases "fst r = 1") auto
  qed
qed

text \<open>
  C33: \<open>getGapAckBlocks\<close> ends and its blocks are the first \<open>n\<close> of the maximal runs of received TSNs,
  in ascending order, although it reads the mask a word at a time and the last word may hold bits of
  TSNs from the other end of the window. Every offset fits the 16 bits of a block.
\<close>

theorem gap_blocks_are_runs:
  assumes "rq_models q R" and "no_collision q" and "span q < 2 ^ 16"
  shows "\<exists>runs. getGapAckBlocks n q = Some (Inr (take n (map block runs))) \<and>
    set runs = {r. receivedRun q R r} \<and> sorted_wrt (\<lambda>a b. Suc (snd a) < fst b) runs \<and>
    (\<forall>r \<in> set runs. unat (gap_start (block r)) = fst r \<and> unat (gap_end (block r)) = snd r)"
proof -
  note models = rq_modelsD [OF assms(1)]
  let ?T = "off q (tailTSN q)"
  let ?runs = "scan (received q R) 1 ?T None"
  have runs: "set ?runs = {r. receivedRun q R r}"
    using scan_runs(1) [of "received q R" 1 ?T] receivedRun_iff [OF assms(1)] by simp
  have "getGapAckBlocks n q = Some (Inr (take n (map block ?runs)))"
  proof (cases "R = {} \<or> n = 0")
    case True
    then show ?thesis using models(5,9) by (auto simp: getGapAckBlocks_def)
  next
    case False
    then have "tailTSN q \<in> window q" "rq_chunkSize q \<noteq> 0" using models(4,5,7) by auto
    then have "1 \<le> ?T" by (simp add: window_def)
    then show ?thesis
      using gapLoop_scan [OF assms, of 1 "[]" n False 0] False \<open>rq_chunkSize q \<noteq> 0\<close> by (simp add: getGapAckBlocks_def)
  qed
  moreover have "unat (gap_start (block r)) = fst r \<and> unat (gap_end (block r)) = snd r" if "r \<in> set ?runs" for r
    using that assms(3) unfolding runs by (simp add: receivedRun_def block_def unat_of_nat)
  ultimately show ?thesis using runs scan_sorted(1) [of "received q R" 1 ?T] by blast
qed

theorem gap_blocks_are_runs_witness:
  "\<exists>q runs. rq_push 103 (rq_init 100 (newReceivePayloadQueue 64)) = Inr (True, q) \<and>
     getGapAckBlocks 5 q = Some (Inr (take 5 (map block runs))) \<and> set runs = {r. receivedRun q {103} r} \<and> (3, 3) \<in> set runs"
proof -
  let ?q = "rq_init 100 (newReceivePayloadQueue 64)"
  have off: "(64 :: u32) \<noteq> 0" "unat (64 :: u32) \<le> 40000" "unat (100 :: u32) + 40064 < 2 ^ 32" by simp_all
  note fresh = fresh_models [OF off(1,2), of 100] and nc = fresh_no_collision [OF off]
  have c: "cumulativeTSN ?q = 100" by (simp add: rq_init_def)
  have w: "103 \<in> window ?q" using fresh(2) by (simp add: window_def off_def c)
  obtain q where q: "rq_push 103 ?q = Inr (True, q)" "rq_models q {103}" "cumulativeTSN q = cumulativeTSN ?q"
      "length (tsnBitmask q) = length (tsnBitmask ?q)"
    using push_new [OF fresh(1) w] hasChunk_set [OF fresh(1) nc, of 103] by auto
  have sp: "span q = span ?q" by (simp add: span_def q(4))
  have "pos q = pos ?q" "window q = window ?q" by (simp_all add: fun_eq_iff pos_def window_def off_def sp q(3))
  then have "no_collision q" using nc by (simp add: no_collision_def)
  then obtain runs where runs: "getGapAckBlocks 5 q = Some (Inr (take 5 (map block runs)))" "set runs = {r. receivedRun q {103} r}"
    using gap_blocks_are_runs [OF q(2), of 5] sp fresh(2) by auto
  have three: "3 \<le> i \<and> i \<le> 3 \<longleftrightarrow> i = (3 :: nat)" for i by auto
  have "receivedRun q {103} (3, 3)" by (simp add: receivedRun_def sp fresh(2) q(3) c three)
  then show ?thesis using q(1) runs by blast
qed

end
