(* ===== verification/Reassembly.thy ===== *)
theory Reassembly
  imports Serial Chunks RingQueue WindowedMin "HOL-Library.AList"
begin

text \<open>
  The reassembly queue of a stream, \<^verbatim>\<open>reassembly_queue.go\<close>: fragments are collected in sets by stream
  sequence number (DATA) or message identifier (I-DATA) and read message by message. Received chunks
  are never changed, so they are values. The sets of I-DATA messages are shared between a list and a
  map and live in a store. Maps are association lists.
\<close>

section \<open>Sorting\<close>

text \<open>
  \<^verbatim>\<open>sort.Slice\<close> as the insertion sort it is for short slices; where \<open>lt\<close> is a strict linear order
  on the elements every sorting algorithm gives this result.
\<close>

definition insertRight :: "('a \<Rightarrow> 'a \<Rightarrow> bool) \<Rightarrow> 'a list \<Rightarrow> 'a \<Rightarrow> 'a list" where
  "insertRight lt xs x = rev (dropWhile (lt x) (rev xs)) @ x # rev (takeWhile (lt x) (rev xs))"

definition sortSlice :: "('a \<Rightarrow> 'a \<Rightarrow> bool) \<Rightarrow> 'a list \<Rightarrow> 'a list" where
  "sortSlice lt xs = foldl (insertRight lt) [] xs"

definition sortChunksByTSN :: "chunkPayloadData list \<Rightarrow> chunkPayloadData list" where
  "sortChunksByTSN = sortSlice (\<lambda>a b. sna32LT (tsn a) (tsn b))"

definition sortChunksByFSN :: "chunkPayloadData list \<Rightarrow> chunkPayloadData list" where
  "sortChunksByFSN = sortSlice (\<lambda>a b. sna32LT (fragmentSequenceNumber a) (fragmentSequenceNumber b))"

section \<open>Sets of fragments\<close>

record chunkSet =
  cs_ssn :: u16
  cs_ppi :: u32
  cs_chunks :: "chunkPayloadData list"

definition newChunkSet :: "u16 \<Rightarrow> u32 \<Rightarrow> chunkSet" where
  "newChunkSet ssn ppi = \<lparr>cs_ssn = ssn, cs_ppi = ppi, cs_chunks = []\<rparr>"

definition sortChunksBySSN :: "chunkSet list \<Rightarrow> chunkSet list" where
  "sortChunksBySSN = sortSlice (\<lambda>a b. sna16LT (cs_ssn a) (cs_ssn b))"

text \<open>The loops of \<open>isComplete\<close>: every number is the previous one plus 1.\<close>

fun contiguousFrom :: "u32 \<Rightarrow> u32 list \<Rightarrow> bool" where
  "contiguousFrom prev [] = True"
| "contiguousFrom prev (t # ts) = (if t \<noteq> prev + 1 then False else contiguousFrom t ts)"

definition cs_isComplete :: "chunkSet \<Rightarrow> bool" where
  "cs_isComplete cs =
     (case cs_chunks cs of
        [] \<Rightarrow> False
      | c # rest \<Rightarrow>
          if \<not> beginningFragment c then False
          else if \<not> endingFragment (last (c # rest)) then False
          else contiguousFrom (tsn c) (map tsn rest))"

definition cs_push :: "chunkPayloadData \<Rightarrow> chunkSet \<Rightarrow> bool \<times> chunkSet" where
  "cs_push chunk cs =
     (if list_ex (\<lambda>c. tsn c = tsn chunk) (cs_chunks cs) then (False, cs)
      else let cs' = cs\<lparr>cs_chunks := sortChunksByTSN (cs_chunks cs @ [chunk])\<rparr> in (cs_isComplete cs', cs'))"

record chunkSetMID =
  ms_mid :: u32
  ms_ppi :: u32
  ms_chunks :: "chunkPayloadData list"

definition newChunkSetMID :: "u32 \<Rightarrow> u32 \<Rightarrow> chunkSetMID" where
  "newChunkSetMID mid ppi = \<lparr>ms_mid = mid, ms_ppi = ppi, ms_chunks = []\<rparr>"

definition ms_isComplete :: "chunkSetMID \<Rightarrow> bool" where
  "ms_isComplete cs =
     (case ms_chunks cs of
        [] \<Rightarrow> False
      | c # rest \<Rightarrow>
          if \<not> beginningFragment c then False
          else if \<not> endingFragment (last (c # rest)) then False
          else if fragmentSequenceNumber c \<noteq> 0 then False
          else contiguousFrom (fragmentSequenceNumber c) (map fragmentSequenceNumber rest))"

text \<open>Whether the set is complete now, and whether the chunk was taken.\<close>

definition pushAndCheck :: "chunkPayloadData \<Rightarrow> chunkSetMID \<Rightarrow> bool \<times> bool \<times> chunkSetMID" where
  "pushAndCheck chunk cs =
     (if ms_isComplete cs then (False, False, cs)
      else if list_ex (\<lambda>c. fragmentSequenceNumber c = fragmentSequenceNumber chunk) (ms_chunks cs) then (False, False, cs)
      else
        (let cs' = cs\<lparr>ms_ppi := (if beginningFragment chunk then payloadType chunk else ms_ppi cs),
                        ms_chunks := sortChunksByFSN (ms_chunks cs @ [chunk])\<rparr>
         in (ms_isComplete cs', True, cs')))"

section \<open>The queue\<close>

text \<open>References to I-DATA sets are places of \<open>midStore\<close>; a new set is appended to it.\<close>

record reassemblyQueue =
  si :: u16
  nextSSN :: u16
  nextMID :: u32
  orderedSets :: "chunkSet list"
  unorderedSets :: "chunkSet list"
  unorderedChunks :: "chunkPayloadData list"
  midStore :: "chunkSetMID list"
  orderedMID :: "nat list"
  unorderedMID :: "nat list"
  orderedMIDMap :: "(u32 \<times> nat) list"
  unorderedMIDMap :: "(u32 \<times> nat) list"
  ra_useInterleaving :: bool
  ra_nBytes :: u64

definition maxReassemblyQueueMIDEntries :: nat where
  "maxReassemblyQueueMIDEntries = 1024"

definition errTryAgain :: string where
  "errTryAgain = ''try again''"

definition ErrShortBuffer :: string where
  "ErrShortBuffer = ''short buffer''"

definition errReassemblyQueueMIDLimitExceeded :: string where
  "errReassemblyQueueMIDLimitExceeded = ''reassembly queue i-data message identifier limit exceeded''"

definition newReassemblyQueue :: "u16 \<Rightarrow> reassemblyQueue" where
  "newReassemblyQueue sid =
     \<lparr>si = sid, nextSSN = 0, nextMID = 0, orderedSets = [], unorderedSets = [], unorderedChunks = [], midStore = [],
      orderedMID = [], unorderedMID = [], orderedMIDMap = [], unorderedMIDMap = [], ra_useInterleaving = False, ra_nBytes = 0\<rparr>"

definition addNumBytes :: "chunkPayloadData \<Rightarrow> reassemblyQueue \<Rightarrow> reassemblyQueue" where
  "addNumBytes chunk r = r\<lparr>ra_nBytes := ra_nBytes r + of_nat (length (UserData chunk))\<rparr>"

definition subtractNumBytes :: "nat \<Rightarrow> reassemblyQueue \<Rightarrow> reassemblyQueue" where
  "subtractNumBytes n r = r\<lparr>ra_nBytes := (if sint (ra_nBytes r) \<ge> int n then ra_nBytes r - of_nat n else 0)\<rparr>"

definition ra_getNumBytes :: "reassemblyQueue \<Rightarrow> int" where
  "ra_getNumBytes r = sint (ra_nBytes r)"

subsection \<open>DATA\<close>

text \<open>
  The loop of \<open>findCompleteUnorderedChunkSet\<close> from index \<open>i\<close>; the state is \<open>None\<close> while \<open>startIdx\<close> is
  -1, else the start, the number of chunks and the last TSN. The result is start and number.
\<close>

fun findLoop :: "chunkPayloadData list \<Rightarrow> nat \<Rightarrow> (nat \<times> nat \<times> u32) option \<Rightarrow> (nat \<times> nat) option" where
  "findLoop [] i st = None"
| "findLoop (c # cs) i st =
     (if beginningFragment c then
        (if endingFragment c then Some (i, 1) else findLoop cs (Suc i) (Some (i, 1, tsn c)))
      else case st of
        None \<Rightarrow> findLoop cs (Suc i) None
      | Some (start, n, lastTSN) \<Rightarrow>
          if tsn c \<noteq> lastTSN + 1 then findLoop cs (Suc i) None
          else if endingFragment c then Some (start, Suc n)
          else findLoop cs (Suc i) (Some (start, Suc n, tsn c)))"

definition findCompleteUnorderedChunkSet :: "reassemblyQueue \<Rightarrow> chunkSet option \<times> reassemblyQueue" where
  "findCompleteUnorderedChunkSet r =
     (case findLoop (unorderedChunks r) 0 None of
        None \<Rightarrow> (None, r)
      | Some (start, n) \<Rightarrow>
          (let chunks = take n (drop start (unorderedChunks r))
           in (Some \<lparr>cs_ssn = 0, cs_ppi = payloadType (hd chunks), cs_chunks = chunks\<rparr>,
               r\<lparr>unorderedChunks := take start (unorderedChunks r) @ drop (start + n) (unorderedChunks r)\<rparr>)))"

text \<open>The index of the first set with the SSN whose first chunk is a fragment.\<close>

fun findFragmented :: "u16 \<Rightarrow> nat \<Rightarrow> chunkSet list \<Rightarrow> (sctp_error, nat option) result" where
  "findFragmented ssn i [] = Inr None"
| "findFragmented ssn i (cs # sets) =
     (if cs_ssn cs = ssn
      then (case cs_chunks cs of
              [] \<Rightarrow> Inl Panic
            | c # _ \<Rightarrow> if isFragmented c then Inr (Some i) else findFragmented ssn (Suc i) sets)
      else findFragmented ssn (Suc i) sets)"

text \<open>A new set is sorted in by its SSN; whether it is filled before or after that is the same.\<close>

definition pushOrdered :: "chunkPayloadData \<Rightarrow> reassemblyQueue \<Rightarrow> (sctp_error, bool) result \<times> reassemblyQueue" where
  "pushOrdered chunk r =
     (if sna16LT (streamSequenceNumber chunk) (nextSSN r) then (Inr False, r)
      else case (if isFragmented chunk then findFragmented (streamSequenceNumber chunk) 0 (orderedSets r) else Inr None) of
        Inl e \<Rightarrow> (Inl e, r)
      | Inr (Some i) \<Rightarrow>
          (case cs_push chunk (orderedSets r ! i) of (complete, cs) \<Rightarrow>
             (Inr complete, addNumBytes chunk (r\<lparr>orderedSets := (orderedSets r)[i := cs]\<rparr>)))
      | Inr None \<Rightarrow>
          (case cs_push chunk (newChunkSet (streamSequenceNumber chunk) (payloadType chunk)) of (complete, cs) \<Rightarrow>
             (Inr complete, addNumBytes chunk (r\<lparr>orderedSets := sortChunksBySSN (orderedSets r @ [cs])\<rparr>))))"

definition pushUnordered :: "chunkPayloadData \<Rightarrow> reassemblyQueue \<Rightarrow> bool \<times> reassemblyQueue" where
  "pushUnordered chunk r =
     (case findCompleteUnorderedChunkSet (addNumBytes chunk (r\<lparr>unorderedChunks := sortChunksByTSN (unorderedChunks r @ [chunk])\<rparr>)) of
        (None, r') \<Rightarrow> (False, r')
      | (Some cs, r') \<Rightarrow> (True, r'\<lparr>unorderedSets := unorderedSets r' @ [cs]\<rparr>))"

subsection \<open>I-DATA\<close>

definition insertChunkSetByMID :: "chunkSetMID list \<Rightarrow> nat list \<Rightarrow> nat \<Rightarrow> nat list" where
  "insertChunkSetByMID store a cset =
     (let insertAt = sortSearch (length a) (\<lambda>i. \<not> sna32LT (ms_mid (store ! (a ! i))) (ms_mid (store ! cset)))
      in take insertAt a @ cset # drop insertAt a)"

definition unorderedMIDEntryCount :: "reassemblyQueue \<Rightarrow> nat" where
  "unorderedMIDEntryCount r = length (unorderedMIDMap r) + length (unorderedMID r)"

definition hasQueuedUnorderedMID :: "u32 \<Rightarrow> reassemblyQueue \<Rightarrow> bool" where
  "hasQueuedUnorderedMID mid r = list_ex (\<lambda>ref. ms_mid (midStore r ! ref) = mid) (unorderedMID r)"

definition pushUnorderedIData :: "chunkPayloadData \<Rightarrow> reassemblyQueue \<Rightarrow> (sctp_error, bool) result \<times> reassemblyQueue" where
  "pushUnorderedIData chunk r =
     (let mid = messageIdentifier chunk
      in if hasQueuedUnorderedMID mid r then (Inr False, r)
         else if map_of (unorderedMIDMap r) mid = None \<and> unorderedMIDEntryCount r \<ge> maxReassemblyQueueMIDEntries
         then (Inl (Err errReassemblyQueueMIDLimitExceeded), r)
         else
           (let (cset, r1) =
              (case map_of (unorderedMIDMap r) mid of
                 Some ref \<Rightarrow> (ref, r)
               | None \<Rightarrow>
                   (length (midStore r),
                    r\<lparr>midStore := midStore r @ [newChunkSetMID mid (payloadType chunk)],
                      unorderedMIDMap := AList.update mid (length (midStore r)) (unorderedMIDMap r)\<rparr>))
            in case pushAndCheck chunk (midStore r1 ! cset) of
                 (complete, accepted, cs) \<Rightarrow>
                   if \<not> accepted then (Inr False, r1)
                   else
                     (let r2 = addNumBytes chunk (r1\<lparr>midStore := (midStore r1)[cset := cs]\<rparr>)
                      in if complete
                         then (Inr True, r2\<lparr>unorderedMIDMap := AList.delete mid (unorderedMIDMap r2),
                                            unorderedMID := unorderedMID r2 @ [cset]\<rparr>)
                         else (Inr False, r2))))"

definition pushOrderedIData :: "chunkPayloadData \<Rightarrow> reassemblyQueue \<Rightarrow> (sctp_error, bool) result \<times> reassemblyQueue" where
  "pushOrderedIData chunk r =
     (let mid = messageIdentifier chunk
      in if sna32LT mid (nextMID r) then (Inr False, r)
         else if map_of (orderedMIDMap r) mid = None \<and> length (orderedMIDMap r) \<ge> maxReassemblyQueueMIDEntries
         then (Inl (Err errReassemblyQueueMIDLimitExceeded), r)
         else
           (let (cset, r1) =
              (case map_of (orderedMIDMap r) mid of
                 Some ref \<Rightarrow> (ref, r)
               | None \<Rightarrow>
                   (let store = midStore r @ [newChunkSetMID mid (payloadType chunk)]; ref = length (midStore r)
                    in (ref, r\<lparr>midStore := store, orderedMIDMap := AList.update mid ref (orderedMIDMap r),
                               orderedMID := insertChunkSetByMID store (orderedMID r) ref\<rparr>)))
            in case pushAndCheck chunk (midStore r1 ! cset) of
                 (complete, accepted, cs) \<Rightarrow>
                   if \<not> accepted then (Inr False, r1)
                   else (Inr complete, addNumBytes chunk (r1\<lparr>midStore := (midStore r1)[cset := cs]\<rparr>))))"

definition pushIData :: "chunkPayloadData \<Rightarrow> reassemblyQueue \<Rightarrow> (sctp_error, bool) result \<times> reassemblyQueue" where
  "pushIData chunk r =
     (if streamIdentifier chunk \<noteq> si r then (Inr False, r)
      else if unordered chunk then pushUnorderedIData chunk r
      else pushOrderedIData chunk r)"

definition pushWithError :: "chunkPayloadData \<Rightarrow> reassemblyQueue \<Rightarrow> (sctp_error, bool) result \<times> reassemblyQueue" where
  "pushWithError chunk r =
     (if isIData chunk then pushIData chunk (r\<lparr>ra_useInterleaving := True\<rparr>)
      else if streamIdentifier chunk \<noteq> si r then (Inr False, r)
      else if unordered chunk then (case pushUnordered chunk r of (complete, r') \<Rightarrow> (Inr complete, r'))
      else pushOrdered chunk r)"

subsection \<open>Reading\<close>

definition isReadable :: "reassemblyQueue \<Rightarrow> bool" where
  "isReadable r =
     (if ra_useInterleaving r then
        unorderedMID r \<noteq> [] \<or>
        (case orderedMID r of
           [] \<Rightarrow> False
         | ref # _ \<Rightarrow> ms_isComplete (midStore r ! ref) \<and> sna32LTE (ms_mid (midStore r ! ref)) (nextMID r))
      else
        unorderedSets r \<noteq> [] \<or>
        (case orderedSets r of [] \<Rightarrow> False | cs # _ \<Rightarrow> cs_isComplete cs \<and> sna16LTE (cs_ssn cs) (nextSSN r)))"

text \<open>The copying loop: the buffer, the number of bytes so far and whether it was too short.\<close>

fun copyChunks :: "chunkPayloadData list \<Rightarrow> bytes \<times> nat \<times> bool \<Rightarrow> bytes \<times> nat \<times> bool" where
  "copyChunks [] st = st"
| "copyChunks (c # cs) (dst, nTotal, short) =
     (if int (length dst) - int nTotal < int (length (UserData c))
      then copyChunks cs (dst, nTotal + length (UserData c), True)
      else copyChunks cs (copyInto dst nTotal (UserData c), nTotal + length (UserData c), short))"

text \<open>The result of a read: number of bytes, payload type, error, buffer and queue.\<close>

type_synonym readResult = "nat \<times> u32 \<times> string option \<times> bytes \<times> reassemblyQueue"

definition readIData :: "bytes \<Rightarrow> reassemblyQueue \<Rightarrow> readResult" where
  "readIData dst r =
     (let finish = (\<lambda>isUnordered ref.
        let iSet = midStore r ! ref
        in case copyChunks (ms_chunks iSet) (dst, 0, False) of
             (dst', nTotal, short) \<Rightarrow>
               if short then (nTotal, 0, Some ErrShortBuffer, dst', r)
               else
                 (nTotal, ms_ppi iSet, None, dst',
                  subtractNumBytes nTotal
                    (if isUnordered then r\<lparr>unorderedMID := tl (unorderedMID r)\<rparr>
                     else r\<lparr>orderedMID := tl (orderedMID r), orderedMIDMap := AList.delete (ms_mid iSet) (orderedMIDMap r),
                            nextMID := (if ms_mid iSet = nextMID r then nextMID r + 1 else nextMID r)\<rparr>)))
      in case unorderedMID r of
           ref # _ \<Rightarrow> finish True ref
         | [] \<Rightarrow>
             (case orderedMID r of
                [] \<Rightarrow> (0, 0, Some errTryAgain, dst, r)
              | ref # _ \<Rightarrow>
                  if \<not> ms_isComplete (midStore r ! ref) then (0, 0, Some errTryAgain, dst, r)
                  else if sna32GT (ms_mid (midStore r ! ref)) (nextMID r) then (0, 0, Some errTryAgain, dst, r)
                  else finish False ref))"

definition readData :: "bytes \<Rightarrow> reassemblyQueue \<Rightarrow> readResult" where
  "readData dst r =
     (let finish = (\<lambda>isUnordered cset.
        case copyChunks (cs_chunks cset) (dst, 0, False) of
          (dst', nTotal, short) \<Rightarrow>
            if short then (nTotal, 0, Some ErrShortBuffer, dst', r)
            else
              (nTotal, cs_ppi cset, None, dst',
               subtractNumBytes nTotal
                 (if isUnordered then r\<lparr>unorderedSets := tl (unorderedSets r)\<rparr>
                  else r\<lparr>orderedSets := tl (orderedSets r),
                         nextSSN := (if cs_ssn cset = nextSSN r then nextSSN r + 1 else nextSSN r)\<rparr>)))
      in case unorderedSets r of
           cset # _ \<Rightarrow> finish True cset
         | [] \<Rightarrow>
             (case orderedSets r of
                [] \<Rightarrow> (0, 0, Some errTryAgain, dst, r)
              | cset # _ \<Rightarrow>
                  if \<not> cs_isComplete cset then (0, 0, Some errTryAgain, dst, r)
                  else if sna16GT (cs_ssn cset) (nextSSN r) then (0, 0, Some errTryAgain, dst, r)
                  else finish False cset))"

definition ra_read :: "bytes \<Rightarrow> reassemblyQueue \<Rightarrow> readResult" where
  "ra_read dst r = (if ra_useInterleaving r then readIData dst r else readData dst r)"

subsection \<open>Skipping abandoned messages\<close>

definition dropBytes :: "chunkPayloadData list \<Rightarrow> reassemblyQueue \<Rightarrow> reassemblyQueue" where
  "dropBytes chunks r = foldl (\<lambda>r c. subtractNumBytes (length (UserData c)) r) r chunks"

definition forwardTSNForOrdered :: "u16 \<Rightarrow> reassemblyQueue \<Rightarrow> reassemblyQueue" where
  "forwardTSNForOrdered lastSSN r =
     (let dropped = (\<lambda>cs. sna16LTE (cs_ssn cs) lastSSN \<and> \<not> cs_isComplete cs);
          r1 = foldl (\<lambda>r cs. if dropped cs then dropBytes (cs_chunks cs) r else r) r (orderedSets r)
      in r1\<lparr>orderedSets := filter (\<lambda>cs. \<not> dropped cs) (orderedSets r),
            nextSSN := (if sna16LTE (nextSSN r) lastSSN then lastSSN + 1 else nextSSN r)\<rparr>)"

definition forwardTSNForUnordered :: "u32 \<Rightarrow> reassemblyQueue \<Rightarrow> reassemblyQueue" where
  "forwardTSNForUnordered newCumulativeTSN r =
     (let old = takeWhile (\<lambda>c. \<not> sna32GT (tsn c) newCumulativeTSN) (unorderedChunks r)
      in if old \<noteq> [] then (dropBytes old r)\<lparr>unorderedChunks := drop (length old) (unorderedChunks r)\<rparr> else r)"

definition forwardTSNForOrderedMID :: "u32 \<Rightarrow> reassemblyQueue \<Rightarrow> reassemblyQueue" where
  "forwardTSNForOrderedMID lastMID r =
     (let dropped = (\<lambda>ref. sna32LTE (ms_mid (midStore r ! ref)) lastMID \<and> \<not> ms_isComplete (midStore r ! ref));
          r1 = foldl (\<lambda>r' ref. if dropped ref
                 then (dropBytes (ms_chunks (midStore r ! ref)) r')\<lparr>orderedMIDMap := AList.delete (ms_mid (midStore r ! ref)) (orderedMIDMap r')\<rparr>
                 else r') r (orderedMID r)
      in r1\<lparr>orderedMID := filter (\<lambda>ref. \<not> dropped ref) (orderedMID r),
            nextMID := (if sna32LTE (nextMID r) lastMID then lastMID + 1 else nextMID r)\<rparr>)"

definition forwardTSNForUnorderedMID :: "u32 \<Rightarrow> reassemblyQueue \<Rightarrow> reassemblyQueue" where
  "forwardTSNForUnorderedMID lastMID r =
     foldl (\<lambda>r' (mid, ref). if sna32LTE mid lastMID
        then (dropBytes (ms_chunks (midStore r ! ref)) r')\<lparr>unorderedMIDMap := AList.delete mid (unorderedMIDMap r')\<rparr>
        else r') r (unorderedMIDMap r)"

end
