(* ===== verification/StreamModel.thy ===== *)
theory StreamModel
  imports Reassembly PendingQueue
begin

text \<open>
  Streams, \<^verbatim>\<open>stream.go\<close>: the methods of a stream as functions on its state. What a stream asks its
  association for (the payload size, whether messages interleave, the size limit, the outcome of the
  sending) are arguments here; the association theories supply them. A read that has to wait is the
  value \<open>None\<close>. A deadline starts a goroutine, whose steps are separate functions so that they can
  interleave with the other calls.
\<close>

section \<open>State\<close>

abbreviation ReliabilityTypeReliable :: byte where "ReliabilityTypeReliable \<equiv> 0"
abbreviation ReliabilityTypeRexmit :: byte where "ReliabilityTypeRexmit \<equiv> 1"
abbreviation ReliabilityTypeTimed :: byte where "ReliabilityTypeTimed \<equiv> 2"

abbreviation PayloadTypeUnknown :: u32 where "PayloadTypeUnknown \<equiv> 0"
abbreviation PayloadTypeWebRTCDCEP :: u32 where "PayloadTypeWebRTCDCEP \<equiv> 50"

datatype StreamState = StreamStateOpen | StreamStateClosing | StreamStateClosed

fun StreamState_String :: "StreamState \<Rightarrow> string" where
  "StreamState_String StreamStateOpen = ''open''"
| "StreamState_String StreamStateClosing = ''closing''"
| "StreamState_String StreamStateClosed = ''closed''"

definition ErrOutboundPacketTooLarge :: string where
  "ErrOutboundPacketTooLarge = ''outbound packet larger than maximum message size''"
definition ErrStreamClosed :: string where
  "ErrStreamClosed = ''stream closed''"
definition ErrReadDeadlineExceeded :: string where
  "ErrReadDeadlineExceeded = ''read deadline exceeded: i/o timeout''"
definition EOF :: string where
  "EOF = ''EOF''"

text \<open>
  \<open>readTimeoutCancel\<close> is the channel of the current deadline and \<open>onBufferedAmountLow\<close> the callback,
  each by a number. The write deadline belongs to a library and only ends a blocked write.
\<close>

record stream =
  s_streamIdentifier :: u16
  defaultPayloadType :: u32
  s_reassemblyQueue :: reassemblyQueue
  sequenceNumber :: u16
  nextOrderedMID :: u32
  nextUnorderedMID :: u32
  readErr :: "string option"
  readTimeoutCancel :: "nat option"
  s_unordered :: bool
  reliabilityType :: byte
  reliabilityValue :: u32
  bufferedAmount :: u64
  bufferedAmountLow :: u64
  onBufferedAmountLow :: "nat option"
  s_state :: StreamState

definition newStream :: "u16 \<Rightarrow> stream" where
  "newStream sid =
     \<lparr>s_streamIdentifier = sid, defaultPayloadType = 0, s_reassemblyQueue = newReassemblyQueue sid, sequenceNumber = 0,
      nextOrderedMID = 0, nextUnorderedMID = 0, readErr = None, readTimeoutCancel = None, s_unordered = False,
      reliabilityType = ReliabilityTypeReliable, reliabilityValue = 0, bufferedAmount = 0, bufferedAmountLow = 0,
      onBufferedAmountLow = None, s_state = StreamStateOpen\<rparr>"

definition SetDefaultPayloadType :: "u32 \<Rightarrow> stream \<Rightarrow> stream" where
  "SetDefaultPayloadType ppi s = s\<lparr>defaultPayloadType := ppi\<rparr>"

definition SetReliabilityParams :: "bool \<Rightarrow> byte \<Rightarrow> u32 \<Rightarrow> stream \<Rightarrow> stream" where
  "SetReliabilityParams unord relType relVal s = s\<lparr>s_unordered := unord, reliabilityType := relType, reliabilityValue := relVal\<rparr>"

definition SetBufferedAmountLowThreshold :: "u64 \<Rightarrow> stream \<Rightarrow> stream" where
  "SetBufferedAmountLowThreshold th s = s\<lparr>bufferedAmountLow := th\<rparr>"

definition OnBufferedAmountLow :: "nat option \<Rightarrow> stream \<Rightarrow> stream" where
  "OnBufferedAmountLow f s = s\<lparr>onBufferedAmountLow := f\<rparr>"

section \<open>Incoming data\<close>

text \<open>The second component tells whether a reader is signalled.\<close>

definition s_handleData :: "chunkPayloadData \<Rightarrow> stream \<Rightarrow> sctp_error option \<times> bool \<times> stream" where
  "s_handleData pd s =
     (case pushWithError pd (s_reassemblyQueue s) of
        (Inl e, r) \<Rightarrow> (Some e, False, s\<lparr>s_reassemblyQueue := r\<rparr>)
      | (Inr isComplete, r) \<Rightarrow> (None, isComplete \<and> isReadable r, s\<lparr>s_reassemblyQueue := r\<rparr>))"

definition handleForwardTSNForOrdered :: "u16 \<Rightarrow> stream \<Rightarrow> bool \<times> stream" where
  "handleForwardTSNForOrdered ssn s =
     (if s_unordered s then (False, s)
      else let r = forwardTSNForOrdered ssn (s_reassemblyQueue s) in (isReadable r, s\<lparr>s_reassemblyQueue := r\<rparr>))"

definition handleForwardTSNForUnordered :: "u32 \<Rightarrow> stream \<Rightarrow> bool \<times> stream" where
  "handleForwardTSNForUnordered newCumulativeTSN s =
     (if \<not> s_unordered s then (False, s)
      else let r = forwardTSNForUnordered newCumulativeTSN (s_reassemblyQueue s) in (isReadable r, s\<lparr>s_reassemblyQueue := r\<rparr>))"

definition handleForwardTSNForOrderedMID :: "u32 \<Rightarrow> stream \<Rightarrow> bool \<times> stream" where
  "handleForwardTSNForOrderedMID mid s =
     (let r = forwardTSNForOrderedMID mid (s_reassemblyQueue s) in (isReadable r, s\<lparr>s_reassemblyQueue := r\<rparr>))"

definition handleForwardTSNForUnorderedMID :: "u32 \<Rightarrow> stream \<Rightarrow> bool \<times> stream" where
  "handleForwardTSNForUnorderedMID mid s =
     (let r = forwardTSNForUnorderedMID mid (s_reassemblyQueue s) in (isReadable r, s\<lparr>s_reassemblyQueue := r\<rparr>))"

definition getNumBytesInReassemblyQueue :: "stream \<Rightarrow> int" where
  "getNumBytesInReassemblyQueue s = ra_getNumBytes (s_reassemblyQueue s)"

definition onInboundStreamReset :: "stream \<Rightarrow> stream" where
  "onInboundStreamReset s =
     s\<lparr>readErr := Some EOF, s_state := (if s_state s = StreamStateClosing then StreamStateClosed else s_state s)\<rparr>"

section \<open>Reading\<close>

text \<open>
  One round of the loop of \<open>ReadSCTP\<close>: the number of bytes, the payload type, the error and the
  buffer, or \<open>None\<close> when the reader waits for a signal. The last component is the channel that is
  closed on the way out.
\<close>

definition ReadSCTP :: "bytes \<Rightarrow> stream \<Rightarrow> (nat \<times> u32 \<times> string option \<times> bytes) option \<times> stream \<times> nat option" where
  "ReadSCTP payload s =
     (case ra_read payload (s_reassemblyQueue s) of
        (n, ppi, err, payload', r) \<Rightarrow>
          let s1 = s\<lparr>s_reassemblyQueue := r\<rparr>;
              leave = (\<lambda>res. if readErr s1 \<noteq> None then (Some res, s1\<lparr>readTimeoutCancel := None\<rparr>, readTimeoutCancel s1)
                             else (Some res, s1, None))
          in if err = None \<or> err = Some ErrShortBuffer then leave (n, ppi, err, payload')
             else if readErr s1 \<noteq> None then leave (0, 0, readErr s1, payload')
             else (None, s1, None))"

section \<open>Deadlines\<close>

text \<open>
  A stream with its channels and the goroutines of its deadlines. A goroutine is in its \<^verbatim>\<open>select\<close>, with
  its channel and deadline, or has found its channel open after the expiry and waits for the lock.
\<close>

datatype deadlineRoutine = Selecting nat int | Locking nat

record streamSys =
  ss_stream :: stream
  ss_now :: int
  ss_channels :: nat
  ss_closed :: "nat set"
  ss_routines :: "deadlineRoutine multiset"
  ss_deadline :: "int option"

definition newStreamSys :: "u16 \<Rightarrow> int \<Rightarrow> streamSys" where
  "newStreamSys sid now =
     \<lparr>ss_stream = newStream sid, ss_now = now, ss_channels = 0, ss_closed = {}, ss_routines = {#}, ss_deadline = None\<rparr>"

definition closeChan :: "nat option \<Rightarrow> streamSys \<Rightarrow> streamSys" where
  "closeChan ch y = y\<lparr>ss_closed := set_option ch \<union> ss_closed y\<rparr>"

text \<open>\<open>ss_deadline\<close> records the deadline that was asked for last.\<close>

definition SetReadDeadline :: "int option \<Rightarrow> streamSys \<Rightarrow> streamSys" where
  "SetReadDeadline deadline y0 =
     (let y = (closeChan (readTimeoutCancel (ss_stream y0)) y0)\<lparr>ss_deadline := deadline\<rparr>;
          s = (ss_stream y)\<lparr>readTimeoutCancel := None\<rparr>
      in if readErr s \<noteq> None \<and> readErr s \<noteq> Some ErrReadDeadlineExceeded then y\<lparr>ss_stream := s\<rparr>
         else
           (case deadline of
              None \<Rightarrow> y\<lparr>ss_stream := s\<lparr>readErr := None\<rparr>\<rparr>
            | Some d \<Rightarrow>
                y\<lparr>ss_stream := s\<lparr>readErr := None, readTimeoutCancel := Some (ss_channels y)\<rparr>, ss_channels := Suc (ss_channels y),
                  ss_routines := add_mset (Selecting (ss_channels y) d) (ss_routines y)\<rparr>))"

definition deadlineFires :: "stream \<Rightarrow> stream" where
  "deadlineFires s = s\<lparr>readErr := (if readErr s = None then Some ErrReadDeadlineExceeded else readErr s), readTimeoutCancel := None\<rparr>"

definition ss_read :: "bytes \<Rightarrow> streamSys \<Rightarrow> streamSys" where
  "ss_read p y = (case ReadSCTP p (ss_stream y) of (_, s, ch) \<Rightarrow> closeChan ch (y\<lparr>ss_stream := s\<rparr>))"

definition noneLocking :: "streamSys \<Rightarrow> bool" where
  "noneLocking y \<longleftrightarrow> (\<forall>ch. Locking ch \<notin># ss_routines y)"

text \<open>
  All interleavings, or, when \<open>racy\<close> is false, those in which a deadline is only set while no goroutine
  waits for the lock.
\<close>

inductive stream_step :: "bool \<Rightarrow> streamSys \<Rightarrow> streamSys \<Rightarrow> bool" where
  clock: "ss_now y \<le> now \<Longrightarrow> stream_step racy y (y\<lparr>ss_now := now\<rparr>)"
| call_set: "racy \<or> noneLocking y \<Longrightarrow> stream_step racy y (SetReadDeadline deadline y)"
| call_read: "stream_step racy y (ss_read p y)"
| data: "stream_step racy y (y\<lparr>ss_stream := snd (snd (s_handleData pd (ss_stream y)))\<rparr>)"
| reset: "stream_step racy y (y\<lparr>ss_stream := onInboundStreamReset (ss_stream y)\<rparr>)"
| cancelled: "\<lbrakk>Selecting ch d \<in># ss_routines y; ch \<in> ss_closed y\<rbrakk> \<Longrightarrow>
    stream_step racy y (y\<lparr>ss_routines := ss_routines y - {#Selecting ch d#}\<rparr>)"
| expired: "\<lbrakk>Selecting ch d \<in># ss_routines y; d \<le> ss_now y; ch \<notin> ss_closed y\<rbrakk> \<Longrightarrow>
    stream_step racy y (y\<lparr>ss_routines := ss_routines y - {#Selecting ch d#} + {#Locking ch#}\<rparr>)"
| fires: "Locking ch \<in># ss_routines y \<Longrightarrow>
    stream_step racy y (y\<lparr>ss_stream := deadlineFires (ss_stream y), ss_routines := ss_routines y - {#Locking ch#}\<rparr>)"

section \<open>Writing\<close>

definition min32 :: "u32 \<Rightarrow> u32 \<Rightarrow> u32" where
  "min32 a b = (if a < b then a else b)"

text \<open>
  The chunks of a message are allocated from the reference \<open>base\<close> on; the first one is the head of
  the others. The loop does not end when the payload size is zero, so its result is optional.
\<close>

definition fragment :: "stream \<Rightarrow> bool \<Rightarrow> bool \<Rightarrow> u32 \<Rightarrow> u32 \<Rightarrow> bytes \<Rightarrow> u32 \<Rightarrow> u32 \<Rightarrow> u32 \<Rightarrow> u32 \<Rightarrow> nat option \<Rightarrow> chunkPayloadData" where
  "fragment s useInterleaving unord ppi mid raw offset remaining fragmentSize fsn hdRef =
     \<lparr>ch_typ = ctPayloadData, ch_flags = 0, ch_raw = [],
      unordered = unord, beginningFragment = (offset = 0), endingFragment = (remaining - fragmentSize = 0), immediateSack = False, tsn = 0,
      streamIdentifier = s_streamIdentifier s,
      streamSequenceNumber = (if useInterleaving then ucast mid else sequenceNumber s),
      messageIdentifier = mid, fragmentSequenceNumber = fsn, payloadType = ppi,
      userData = Some (take (unat fragmentSize) (drop (unat offset) raw)),
      iData = useInterleaving, acked = False, missIndicator = 0, since = 0, nSent = 0, abandonedFlag = False, allInflight = False,
      retransmit = False, headRef = hdRef\<rparr>"


partial_function (option) packetizeLoop ::
  "stream \<Rightarrow> bool \<Rightarrow> bool \<Rightarrow> u32 \<Rightarrow> u32 \<Rightarrow> u32 \<Rightarrow> bytes \<Rightarrow> nat \<Rightarrow> u32 \<Rightarrow> u32 \<Rightarrow> u32 \<Rightarrow> chunkPayloadData list \<Rightarrow> chunkPayloadData list option" where
  "packetizeLoop s useInterleaving unord ppi mid maxPayloadSize raw base offset remaining fsn chunks =
     (if remaining = 0 then Some chunks
      else
        (let fragmentSize = min32 maxPayloadSize remaining;
             chunk = fragment s useInterleaving unord ppi mid raw offset remaining fragmentSize fsn (if chunks = [] then None else Some base)
         in packetizeLoop s useInterleaving unord ppi mid maxPayloadSize raw base (offset + fragmentSize) (remaining - fragmentSize)
              (fsn + 1) (chunks @ [chunk])))"

definition packetize ::
  "bool \<Rightarrow> u32 \<Rightarrow> bytes \<Rightarrow> u32 \<Rightarrow> nat \<Rightarrow> stream \<Rightarrow> (chunkPayloadData list \<times> bool \<times> stream) option" where
  "packetize useInterleaving maxPayloadSize raw ppi base s =
     (let unord = (ppi \<noteq> PayloadTypeWebRTCDCEP \<and> s_unordered s);
          mid = (if useInterleaving then (if unord then nextUnorderedMID s else nextOrderedMID s) else 0);
          s1 = (if useInterleaving
                then (if unord then s\<lparr>nextUnorderedMID := nextUnorderedMID s + 1\<rparr> else s\<lparr>nextOrderedMID := nextOrderedMID s + 1\<rparr>)
                else s)
      in case packetizeLoop s1 useInterleaving unord ppi mid maxPayloadSize raw base 0 (of_nat (length raw)) 0 [] of
           None \<Rightarrow> None
         | Some chunks \<Rightarrow>
             Some (chunks, unord,
               s1\<lparr>sequenceNumber := (if \<not> useInterleaving \<and> \<not> unord then sequenceNumber s1 + 1 else sequenceNumber s1),
                  bufferedAmount := bufferedAmount s1 + of_nat (length raw)\<rparr>))"

text \<open>What \<open>WriteSCTP\<close> takes back when the association refuses the chunks.\<close>

definition undoWrite :: "bool \<Rightarrow> bool \<Rightarrow> nat \<Rightarrow> stream \<Rightarrow> stream" where
  "undoWrite useInterleaving unord n s =
     (let s1 = s\<lparr>bufferedAmount := bufferedAmount s - of_nat n\<rparr>
      in if useInterleaving
         then (if unord then s1\<lparr>nextUnorderedMID := nextUnorderedMID s1 - 1\<rparr> else s1\<lparr>nextOrderedMID := nextOrderedMID s1 - 1\<rparr>)
         else if \<not> unord then s1\<lparr>sequenceNumber := sequenceNumber s1 - 1\<rparr>
         else s1)"

definition resetOutgoingStreamSequenceNumbers :: "stream \<Rightarrow> stream" where
  "resetOutgoingStreamSequenceNumbers s = s\<lparr>sequenceNumber := 0, nextOrderedMID := 0, nextUnorderedMID := 0\<rparr>"

text \<open>\<open>Close\<close> also asks the association to reset the stream if the first component is true.\<close>

definition s_Close :: "stream \<Rightarrow> bool \<times> stream" where
  "s_Close s =
     (if s_state s = StreamStateOpen
      then (True, s\<lparr>s_state := (if readErr s = None then StreamStateClosing else StreamStateClosed)\<rparr>)
      else (False, s))"

text \<open>The callback that is called, if any.\<close>

definition onBufferReleased :: "int \<Rightarrow> stream \<Rightarrow> nat option \<times> stream" where
  "onBufferReleased nBytesReleased s =
     (if nBytesReleased \<le> 0 then (None, s)
      else
        (let fromAmount = bufferedAmount s;
             released = word_of_int nBytesReleased;
             s1 = s\<lparr>bufferedAmount := (if fromAmount < released then 0 else fromAmount - released)\<rparr>
         in if onBufferedAmountLow s1 \<noteq> None \<and> bufferedAmountLow s1 < fromAmount \<and> bufferedAmount s1 \<le> bufferedAmountLow s1
            then (onBufferedAmountLow s1, s1)
            else (None, s1)))"

end
