(* ===== verification/ReassemblyFacts.thy ===== *)
theory ReassemblyFacts
  imports Reassembly
begin

text \<open>
  Ordered delivery. The fragments of the messages of a stream may arrive in any order; the queue
  behaves like the set of fragments that arrived, and reads return the messages in the order of their
  sequence numbers, each as soon as it is complete.
\<close>

section \<open>Insertion into sorted slices\<close>

lemma takeWhile_desc:
  "sorted_wrt (\<lambda>a b. P a \<longrightarrow> P b) xs \<Longrightarrow> rev (takeWhile P (rev xs)) = filter P xs \<and> rev (dropWhile P (rev xs)) = filter (\<lambda>x. \<not> P x) xs"
proof (induction xs rule: rev_induct)
  case (snoc x xs)
  then have sorted: "sorted_wrt (\<lambda>a b. P a \<longrightarrow> P b) xs" and last: "\<not> P x \<Longrightarrow> \<forall>a \<in> set xs. \<not> P a"
    by (auto simp: sorted_wrt_append)
  show ?case
  proof (cases "P x")
    case True
    then show ?thesis using snoc.IH [OF sorted] by simp
  next
    case False
    then show ?thesis using last by (simp add: filter_empty_conv)
  qed
qed simp

lemma insertRight_sorted:
  assumes "sorted_wrt (\<lambda>a b. lt x a \<longrightarrow> lt x b) xs"
  shows "insertRight lt xs x = filter (\<lambda>y. \<not> lt x y) xs @ x # filter (lt x) xs"
  using takeWhile_desc [OF assms] by (simp add: insertRight_def)

lemma filter_Cons_middle:
  assumes "a \<le> (j :: nat)" and "j < b" and "j \<notin> J"
  shows "filter (\<lambda>x. x \<in> J \<and> \<not> j < x) [a..<b] @ j # filter (\<lambda>x. x \<in> J \<and> j < x) [a..<b] = filter (\<lambda>x. x \<in> insert j J) [a..<b]"
proof -
  have split: "[a..<b] = [a..<j] @ j # [Suc j..<b]" using assms upt_add_eq_append [of a j "b - j"] by (simp add: upt_conv_Cons)
  have lo: "filter (\<lambda>x. x \<in> J \<and> \<not> j < x) [a..<j] = filter (\<lambda>x. x \<in> J) [a..<j]" "filter (\<lambda>x. x \<in> J \<and> j < x) [a..<j] = []"
      "filter (\<lambda>x. x \<in> insert j J) [a..<j] = filter (\<lambda>x. x \<in> J) [a..<j]"
    by (auto intro: filter_cong simp: filter_empty_conv)
  have hi: "filter (\<lambda>x. x \<in> J \<and> \<not> j < x) [Suc j..<b] = []" "filter (\<lambda>x. x \<in> J \<and> j < x) [Suc j..<b] = filter (\<lambda>x. x \<in> J) [Suc j..<b]"
      "filter (\<lambda>x. x \<in> insert j J) [Suc j..<b] = filter (\<lambda>x. x \<in> J) [Suc j..<b]"
    by (auto intro: filter_cong simp: filter_empty_conv)
  show ?thesis unfolding split using lo hi assms(3) by simp
qed

text \<open>A slice that is sorted but for its last element.\<close>

lemma sort_insert:
  assumes lt: "\<And>x y. a \<le> x \<Longrightarrow> x < b \<Longrightarrow> a \<le> y \<Longrightarrow> y < b \<Longrightarrow> lt (f x) (f y) \<longleftrightarrow> x < (y :: nat)"
    and j: "a \<le> j" "j < b" "j \<notin> J"
  shows "sortSlice lt (map f (filter (\<lambda>x. x \<in> J) [a..<b]) @ [f j]) = map f (filter (\<lambda>x. x \<in> insert j J) [a..<b])"
proof -
  have ins: "insertRight lt (map f js) (f x) = map f (filter (\<lambda>y. \<not> x < y) js @ x # filter (\<lambda>y. x < y) js)"
    if "sorted js" "set js \<subseteq> {a..<b}" "a \<le> x" "x < b" for js x
  proof -
    have "sorted_wrt (\<lambda>u v. lt (f x) (f u) \<longrightarrow> lt (f x) (f v)) js"
      by (rule sorted_wrt_mono_rel [OF _ that(1)]) (use that lt in \<open>auto simp: subset_iff\<close>)
    then have "insertRight lt (map f js) (f x) = map f (filter (\<lambda>y. \<not> lt (f x) (f y)) js @ x # filter (\<lambda>y. lt (f x) (f y)) js)"
      by (subst insertRight_sorted) (simp_all add: sorted_wrt_map filter_map comp_def)
    moreover have "filter (\<lambda>y. \<not> lt (f x) (f y)) js = filter (\<lambda>y. \<not> x < y) js" "filter (\<lambda>y. lt (f x) (f y)) js = filter (\<lambda>y. x < y) js"
      using that lt by (auto intro!: filter_cong simp: subset_iff)
    ultimately show ?thesis by simp
  qed
  have keep: "sortSlice lt (map f js) = map f js" if "sorted_wrt (<) js" "set js \<subseteq> {a..<b}" for js
    using that
  proof (induction js rule: rev_induct)
    case (snoc x js)
    then have s: "sorted_wrt (<) js" "set js \<subseteq> {a..<b}" "\<forall>y \<in> set js. y < x" "a \<le> x" "x < b" by (auto simp: sorted_wrt_append)
    have "filter (\<lambda>y. \<not> x < y) js = js" "filter (\<lambda>y. x < y) js = []" using s(3) by (auto simp: filter_empty_conv intro!: filter_True)
    then show ?case using snoc.IH [OF s(1,2)] ins [OF strict_sorted_imp_sorted [OF s(1)] s(2,4,5)] by (simp add: sortSlice_def)
  qed (simp add: sortSlice_def)
  let ?js = "filter (\<lambda>x. x \<in> J) [a..<b]"
  have js: "sorted_wrt (<) ?js" "set ?js \<subseteq> {a..<b}" by (auto simp: sorted_wrt_filter)
  have "sortSlice lt (map f ?js @ [f j]) = insertRight lt (sortSlice lt (map f ?js)) (f j)" by (simp add: sortSlice_def)
  also have "\<dots> = map f (filter (\<lambda>y. \<not> j < y) ?js @ j # filter (\<lambda>y. j < y) ?js)"
    unfolding keep [OF js] by (rule ins [OF strict_sorted_imp_sorted [OF js(1)] js(2) j(1,2)])
  also have "\<dots> = map f (filter (\<lambda>x. x \<in> insert j J) [a..<b])"
    using filter_Cons_middle [OF j] by (simp add: conj_commute)
  finally show ?thesis .
qed


section \<open>Messages and the sets of their fragments\<close>

text \<open>The fragments of the \<open>i\<close>-th ordered message of a stream, as the sender numbers them.\<close>

definition orderedMessage :: "u16 \<Rightarrow> nat \<Rightarrow> chunkPayloadData list \<Rightarrow> bool" where
  "orderedMessage sid i cs \<longleftrightarrow> cs \<noteq> [] \<and> length cs < 2 ^ 31 \<and> length (concat (map UserData cs)) < 2 ^ 32 \<and>
     (\<forall>j < length cs. \<not> isIData (cs ! j) \<and> \<not> unordered (cs ! j) \<and> streamIdentifier (cs ! j) = sid \<and>
        streamSequenceNumber (cs ! j) = of_nat i \<and> beginningFragment (cs ! j) = (j = 0) \<and>
        endingFragment (cs ! j) = (Suc j = length cs) \<and> tsn (cs ! j) = tsn (cs ! 0) + of_nat j \<and>
        payloadType (cs ! j) = payloadType (cs ! 0) \<and> headRef (cs ! j) = None)"

lemma orderedMessageD:
  assumes "orderedMessage sid i cs"
  shows "cs \<noteq> []" "length cs < 2 ^ 31" "length (concat (map UserData cs)) < 2 ^ 32"
    "j < length cs \<Longrightarrow> \<not> isIData (cs ! j)" "j < length cs \<Longrightarrow> \<not> unordered (cs ! j)" "j < length cs \<Longrightarrow> streamIdentifier (cs ! j) = sid"
    "j < length cs \<Longrightarrow> streamSequenceNumber (cs ! j) = of_nat i" "j < length cs \<Longrightarrow> beginningFragment (cs ! j) = (j = 0)"
    "j < length cs \<Longrightarrow> endingFragment (cs ! j) = (Suc j = length cs)" "j < length cs \<Longrightarrow> tsn (cs ! j) = tsn (cs ! 0) + of_nat j"
    "j < length cs \<Longrightarrow> payloadType (cs ! j) = payloadType (cs ! 0)" "j < length cs \<Longrightarrow> headRef (cs ! j) = None"
  using assms unfolding orderedMessage_def by (blast, blast, blast, metis+)

definition picked :: "'a list \<Rightarrow> nat set \<Rightarrow> 'a list" where
  "picked cs J = map ((!) cs) (filter (\<lambda>j. j \<in> J) [0..<length cs])"

definition setOf :: "nat \<Rightarrow> chunkPayloadData list \<Rightarrow> nat set \<Rightarrow> chunkSet" where
  "setOf i cs J = \<lparr>cs_ssn = of_nat i, cs_ppi = payloadType (cs ! 0), cs_chunks = picked cs J\<rparr>"

lemma picked_all [simp]: "picked cs {..<length cs} = cs"
proof -
  have "filter (\<lambda>j. j < length cs) [0..<length cs] = [0..<length cs]" by (rule filter_True) simp
  then show ?thesis by (simp add: picked_def map_nth)
qed

lemma picked_empty [simp]: "picked cs {} = []"
  by (simp add: picked_def)

lemma picked_Nil: "J \<subseteq> {..<length cs} \<Longrightarrow> picked cs J = [] \<longleftrightarrow> J = {}"
  by (auto simp: picked_def filter_empty_conv)

lemma of_nat_u32_eq: "a < 2 ^ 32 \<Longrightarrow> b < 2 ^ 32 \<Longrightarrow> (of_nat a :: u32) = of_nat b \<longleftrightarrow> a = b"
  by (auto dest!: arg_cong [of _ _ unat] simp: unat_of_nat)

lemma contiguousFrom_iff:
  assumes "a < 2 ^ 31" and "\<And>j. j \<in> set js \<Longrightarrow> j < 2 ^ 31"
  shows "contiguousFrom (t + of_nat a) (map (\<lambda>j. t + of_nat j) js) \<longleftrightarrow> js = [Suc a..<Suc a + length js]"
  using assms
proof (induction js arbitrary: a)
  case (Cons j js)
  have "t + of_nat j = t + of_nat a + 1 \<longleftrightarrow> (of_nat j :: u32) = of_nat (Suc a)" by (simp add: add.commute)
  also have "\<dots> \<longleftrightarrow> j = Suc a" using Cons.prems(1) Cons.prems(2) [of j] by (intro of_nat_u32_eq) simp_all
  finally have step: "t + of_nat j = t + of_nat a + 1 \<longleftrightarrow> j = Suc a" .
  show ?case
  proof (cases "j = Suc a")
    case True
    have "j < 2 ^ 31" "\<And>x. x \<in> set js \<Longrightarrow> x < 2 ^ 31" using Cons.prems(2) by simp_all
    then show ?thesis using True step Cons.IH [of j] by (simp add: upt_conv_Cons del: upt_Suc)
  next
    case False
    then show ?thesis using step by (simp add: upt_conv_Cons del: upt_Suc)
  qed
qed simp

text \<open>The set is complete exactly when all fragments are there.\<close>

lemma setOf_complete:
  assumes m: "orderedMessage sid i cs" and J: "J \<subseteq> {..<length cs}"
  shows "cs_isComplete (setOf i cs J) \<longleftrightarrow> J = {..<length cs}"
proof (cases "filter (\<lambda>j. j \<in> J) [0..<length cs]")
  case Nil
  then have "J = {}" using J by (auto simp: filter_empty_conv)
  then show ?thesis using orderedMessageD(1) [OF m] by (auto simp: cs_isComplete_def setOf_def picked_def)
next
  case (Cons a js)
  note d = orderedMessageD [OF m]
  have in_cs: "x < length cs" if "x \<in> set (a # js)" for x using that unfolding Cons [symmetric] by simp
  have tsns: "map tsn (map ((!) cs) js) = map (\<lambda>j. tsn (cs ! 0) + of_nat j) js" "tsn (cs ! a) = tsn (cs ! 0) + of_nat a"
    using in_cs d(10) by auto
  have contiguous: "contiguousFrom (tsn (cs ! a)) (map tsn (map ((!) cs) js)) \<longleftrightarrow> js = [Suc a..<Suc a + length js]"
    unfolding tsns using in_cs d(2) by (intro contiguousFrom_iff) (auto intro: less_trans)
  have lst: "last (map ((!) cs) (a # js)) = cs ! last (a # js)" by (rule last_map) simp
  have begin_end: "beginningFragment (cs ! a) \<longleftrightarrow> a = 0" "endingFragment (cs ! last (a # js)) \<longleftrightarrow> Suc (last (a # js)) = length cs"
    using d(8) [of a] d(9) [of "last (a # js)"] in_cs [of "last (a # js)"] in_cs [of a] by simp_all
  have comp: "cs_isComplete (setOf i cs J) \<longleftrightarrow> a = 0 \<and> Suc (last (a # js)) = length cs \<and> js = [Suc a..<Suc a + length js]"
    using contiguous begin_end lst by (auto simp: cs_isComplete_def setOf_def picked_def Cons)
  show ?thesis unfolding comp
  proof
    assume *: "a = 0 \<and> Suc (last (a # js)) = length cs \<and> js = [Suc a..<Suc a + length js]"
    then have "js = [Suc a..<Suc a + length js]" and a: "a = 0" by blast+
    then have js: "a # js = [0..<Suc (length js)]" unfolding a by (subst upt_conv_Cons) simp_all
    have "last (a # js) = length js" unfolding js by (simp only: last_upt zero_less_Suc diff_Suc_1)
    moreover have "Suc (last (a # js)) = length cs" using * by blast
    ultimately have "a # js = [0..<length cs]" using js by (simp only:)
    then have "set (filter (\<lambda>j. j \<in> J) [0..<length cs]) = {..<length cs}" unfolding Cons by auto
    then show "J = {..<length cs}" using J by auto
  next
    assume "J = {..<length cs}"
    then have all: "a # js = [0..<length cs]" unfolding Cons [symmetric] by (auto intro: filter_True)
    obtain n where n: "length cs = Suc n" using d(1) by (cases "length cs") auto
    have "[0..<Suc n] = 0 # [Suc 0..<Suc n]" by (rule upt_conv_Cons) simp
    then have js: "a = 0" "js = [Suc 0..<Suc n]" using all unfolding n by (metis list.inject)+
    have "last (a # js) = n" unfolding all n by (simp only: last_upt zero_less_Suc diff_Suc_1)
    moreover have "length js = n" unfolding js(2) by (simp only: length_upt diff_Suc_Suc diff_zero)
    ultimately show "a = 0 \<and> Suc (last (a # js)) = length cs \<and> js = [Suc a..<Suc a + length js]"
      using js n by (simp only: add_Suc add_0)
  qed
qed


section \<open>Serial numbers within a window\<close>

lemma sna32LT_offset:
  assumes "x < 2 ^ 31" and "y < 2 ^ 31"
  shows "sna32LT (t + of_nat x) (t + of_nat y) \<longleftrightarrow> x < y" "t + of_nat x = t + (of_nat y :: u32) \<longleftrightarrow> x = y"
proof -
  have eq: "t + of_nat z = (of_int (uint t + int z) :: u32)" for z by simp
  have near: "\<bar>uint t + int y - (uint t + int x)\<bar> < 2147483648" using assms by simp
  have le: "sna32LTE (t + of_nat x) (t + of_nat y) \<longleftrightarrow> x \<le> y" "t + of_nat x = t + (of_nat y :: u32) \<longleftrightarrow> x = y"
    unfolding eq using sna32_of_int [OF near] by simp_all
  then show "t + of_nat x = t + (of_nat y :: u32) \<longleftrightarrow> x = y" by simp
  show "sna32LT (t + of_nat x) (t + of_nat y) \<longleftrightarrow> x < y" using le by (auto simp: sna32LTE_def sna32LT_iff)
qed

lemma sna16_of_nat:
  assumes "x < y + 32768" and "y < x + 32768"
  shows "sna16LT (of_nat x) (of_nat y) \<longleftrightarrow> x < y" "sna16LTE (of_nat x) (of_nat y) \<longleftrightarrow> x \<le> y" "(of_nat x :: u16) = of_nat y \<longleftrightarrow> x = y"
proof -
  have near: "\<bar>int y - int x\<bar> < 32768" using assms by simp
  show le: "sna16LTE (of_nat x) (of_nat y) \<longleftrightarrow> x \<le> y" "(of_nat x :: u16) = of_nat y \<longleftrightarrow> x = y"
    using sna16_of_int [OF near] by simp_all
  show "sna16LT (of_nat x) (of_nat y) \<longleftrightarrow> x < y" using le by (auto simp: sna16LTE_def sna16LT_iff)
qed

section \<open>The queue as the fragments that arrived\<close>

definition heldBytes :: "chunkPayloadData list \<Rightarrow> nat set \<Rightarrow> nat" where
  "heldBytes cs J = length (concat (map UserData (picked cs J)))"

text \<open>
  \<open>k\<close> messages have been read, and \<open>got i\<close> are the fragments of message \<open>i\<close> that arrived. The SSNs of
  the sets the queue holds lie in half a circle from \<open>k\<close>.
\<close>

definition ra_models :: "(nat \<Rightarrow> chunkPayloadData list) \<Rightarrow> u16 \<Rightarrow> nat \<Rightarrow> (nat \<Rightarrow> nat set) \<Rightarrow> reassemblyQueue \<Rightarrow> bool" where
  "ra_models frags sid k got r \<longleftrightarrow> si r = sid \<and> nextSSN r = of_nat k \<and> \<not> ra_useInterleaving r \<and> unorderedSets r = [] \<and>
     orderedSets r = map (\<lambda>i. setOf i (frags i) (got i)) (filter (\<lambda>i. i \<in> {i. got i \<noteq> {}}) [k..<k + 32768]) \<and>
     (\<forall>i. got i \<subseteq> {..<length (frags i)}) \<and> (\<forall>i < k. got i = {..<length (frags i)}) \<and> (\<forall>i \<ge> k + 32768. got i = {}) \<and>
     ra_nBytes r = of_nat (\<Sum>i = k..<k + 32768. heldBytes (frags i) (got i))"

lemma cs_push_setOf:
  assumes m: "orderedMessage sid i cs" and J: "J \<subseteq> {..<length cs}" and j: "j < length cs" "j \<notin> J"
  shows "cs_push (cs ! j) (setOf i cs J) = (insert j J = {..<length cs}, setOf i cs (insert j J))"
proof -
  note d = orderedMessageD [OF m]
  have tsn: "tsn (cs ! x) = tsn (cs ! 0) + of_nat x" "x < 2 ^ 31" if "x < length cs" for x
    using d(10) [OF that] that d(2) by simp_all
  have fresh: "\<not> list_ex (\<lambda>c. tsn c = tsn (cs ! j)) (picked cs J)"
  proof -
    have "tsn (cs ! x) \<noteq> tsn (cs ! j)" if "x \<in> J" "x < length cs" for x
      using that j sna32LT_offset(2) [of x j] tsn [OF that(2)] tsn [OF j(1)] by auto
    then show ?thesis by (auto simp: picked_def list_ex_iff)
  qed
  have "sortChunksByTSN (picked cs J @ [cs ! j]) = picked cs (insert j J)"
    unfolding sortChunksByTSN_def picked_def
  proof (rule sort_insert)
    show "sna32LT (tsn (cs ! x)) (tsn (cs ! y)) \<longleftrightarrow> x < y" if "x < length cs" "y < length cs" for x y
      using tsn [OF that(1)] tsn [OF that(2)] sna32LT_offset(1) by metis
  qed (use j in auto)
  then have "(setOf i cs J)\<lparr>cs_chunks := sortChunksByTSN (cs_chunks (setOf i cs J) @ [cs ! j])\<rparr> = setOf i cs (insert j J)"
    by (simp add: setOf_def)
  moreover have "cs_isComplete (setOf i cs (insert j J)) \<longleftrightarrow> insert j J = {..<length cs}"
    using setOf_complete [OF m, of "insert j J"] J j by simp
  ultimately show ?thesis using fresh by (simp add: cs_push_def setOf_def Let_def)
qed

lemma new_setOf:
  assumes m: "orderedMessage sid i cs" and j: "j < length cs"
  shows "newChunkSet (streamSequenceNumber (cs ! j)) (payloadType (cs ! j)) = setOf i cs {}"
  using orderedMessageD(7,11) [OF m j] by (simp add: newChunkSet_def setOf_def)

lemma isFragmented_iff:
  assumes m: "orderedMessage sid i cs" and j: "j < length cs"
  shows "isFragmented (cs ! j) \<longleftrightarrow> 1 < length cs"
  using orderedMessageD(8,9,12) [OF m j] j by (auto simp: isFragmented_def intro: Suc_lessI)

lemma heldBytes_insert:
  assumes "J \<subseteq> {..<length cs}" and "j < length cs" and "j \<notin> J"
  shows "heldBytes cs (insert j J) = heldBytes cs J + length (UserData (cs ! j))"
proof -
  have "heldBytes cs K = (\<Sum>x \<in> K. length (UserData (cs ! x)))" if "K \<subseteq> {..<length cs}" for K
  proof -
    have "heldBytes cs K = (\<Sum>x \<leftarrow> filter (\<lambda>j. j \<in> K) [0..<length cs]. length (UserData (cs ! x)))"
      by (simp add: heldBytes_def picked_def length_concat comp_def)
    also have "\<dots> = (\<Sum>x \<in> set (filter (\<lambda>j. j \<in> K) [0..<length cs]). length (UserData (cs ! x)))"
      by (rule sum_list_distinct_conv_sum_set) simp
    also have "set (filter (\<lambda>j. j \<in> K) [0..<length cs]) = K" using that by auto
    finally show ?thesis .
  qed
  then show ?thesis using assms finite_subset [OF assms(1)] by simp
qed


lemma findFragmented_none:
  assumes "\<And>x. x \<in> set is \<Longrightarrow> x < i + 32768 \<and> i < x + 32768 \<and> x \<noteq> i"
  shows "findFragmented (of_nat i) base (map (\<lambda>i. setOf i (frags i) (got i)) is) = Inr None"
  using assms
proof (induction "is" arbitrary: base)
  case (Cons x xs)
  have "(of_nat x :: u16) \<noteq> of_nat i" using Cons.prems [of x] sna16_of_nat(3) [of x i] by simp
  then show ?case using Cons by (simp add: setOf_def)
qed simp

lemma findFragmented_some:
  assumes "\<And>x. x \<in> set xs \<Longrightarrow> x < i + 32768 \<and> i < x + 32768 \<and> x \<noteq> i" and "picked (frags i) (got i) = c # cs" and "isFragmented c"
  shows "findFragmented (of_nat i) base (map (\<lambda>i. setOf i (frags i) (got i)) (xs @ i # ys)) = Inr (Some (base + length xs))"
  using assms(1)
proof (induction xs arbitrary: base)
  case Nil
  then show ?case using assms(2,3) by (simp add: setOf_def)
next
  case (Cons x xs)
  have "(of_nat x :: u16) \<noteq> of_nat i" using Cons.prems [of x] sna16_of_nat(3) [of x i] by simp
  then show ?case using Cons by (simp add: setOf_def)
qed

text \<open>The indices of the sets, in order.\<close>

abbreviation heldSets :: "nat \<Rightarrow> (nat \<Rightarrow> nat set) \<Rightarrow> nat list" where
  "heldSets k got \<equiv> filter (\<lambda>i. i \<in> {i. got i \<noteq> {}}) [k..<k + 32768]"

lemma push_models:
  assumes msgs: "\<And>i. orderedMessage sid i (frags i)" and m: "ra_models frags sid k got r"
    and i: "i < k + 32768" and j: "j < length (frags i)" "j \<notin> got i"
  shows "\<exists>r'. pushWithError (frags i ! j) r = (Inr (insert j (got i) = {..<length (frags i)}), r') \<and>
    ra_models frags sid k (got(i := insert j (got i))) r'"
proof -
  define c where "c = frags i ! j"
  define got' where "got' = got(i := insert j (got i))"
  note d = orderedMessageD [OF msgs [of i]]
  have sub: "got x \<subseteq> {..<length (frags x)}" for x using m by (simp add: ra_models_def)
  have ik: "k \<le> i"
  proof (rule ccontr)
    assume "\<not> k \<le> i"
    then have "got i = {..<length (frags i)}" using m by (simp add: ra_models_def)
    then show False using j by simp
  qed
  have got': "got' x \<subseteq> {..<length (frags x)}" "x \<noteq> i \<Longrightarrow> got' x = got x" "{i. got' i \<noteq> {}} = insert i {i. got i \<noteq> {}}" for x
    using sub [of x] j by (auto simp: got'_def)
  have near: "x < i + 32768 \<and> i < x + 32768" if "x \<in> set (heldSets k got)" for x using that i ik by auto
  have ssn: "streamSequenceNumber c = of_nat i" using d(7) [OF j(1)] by (simp add: c_def)
  have new: "\<not> sna16LT (streamSequenceNumber c) (nextSSN r)"
    using m i ik sna16_of_nat(1) [of i k] by (simp add: ssn ra_models_def)
  have push: "cs_push c (setOf i (frags i) (got i)) = (insert j (got i) = {..<length (frags i)}, setOf i (frags i) (insert j (got i)))"
    unfolding c_def by (rule cs_push_setOf [OF msgs sub j])
  have sets: "orderedSets r = map (\<lambda>i. setOf i (frags i) (got i)) (heldSets k got)" using m by (simp add: ra_models_def)
  define sets' where "sets' = map (\<lambda>i. setOf i (frags i) (got' i)) (heldSets k got')"
  have result: "pushOrdered c r = (Inr (insert j (got i) = {..<length (frags i)}), addNumBytes c (r\<lparr>orderedSets := sets'\<rparr>))"
  proof (cases "got i = {}")
    case True
    have notin: "i \<notin> set (heldSets k got)" using True by simp
    have "(if isFragmented c then findFragmented (streamSequenceNumber c) 0 (orderedSets r) else Inr None) = Inr None"
      unfolding ssn sets using findFragmented_none [of "heldSets k got" i 0 frags got] near notin by auto
    moreover have "newChunkSet (streamSequenceNumber c) (payloadType c) = setOf i (frags i) (got i)"
      using new_setOf [OF msgs j(1)] True by (simp add: c_def)
    moreover have "sortChunksBySSN (orderedSets r @ [setOf i (frags i) (insert j (got i))]) = sets'"
    proof -
      have "got' x = got x" if "x \<in> set (heldSets k got)" for x using that notin got'(2) by (cases "x = i") simp_all
      then have "orderedSets r = map (\<lambda>i. setOf i (frags i) (got' i)) (heldSets k got)"
        unfolding sets by (intro map_cong) simp_all
      moreover have "sortChunksBySSN (map (\<lambda>i. setOf i (frags i) (got' i)) (heldSets k got) @ [setOf i (frags i) (got' i)]) = sets'"
        unfolding sortChunksBySSN_def sets'_def got'(3)
        by (rule sort_insert) (use sna16_of_nat(1) True i ik in \<open>auto simp: setOf_def\<close>)
      ultimately show ?thesis by (simp add: got'_def)
    qed
    ultimately show ?thesis using new push by (simp add: pushOrdered_def)
  next
    case False
    then have "i \<in> set (heldSets k got)" using i ik by simp
    then obtain xs ys where split: "heldSets k got = xs @ i # ys" by (meson split_list)
    have "distinct (heldSets k got)" by simp
    then have notin: "i \<notin> set xs" "i \<notin> set ys" unfolding split by auto
    obtain e es where e: "picked (frags i) (got i) = e # es" using picked_Nil [OF sub] False by (cases "picked (frags i) (got i)") auto
    have "e \<in> set (picked (frags i) (got i))" by (simp add: e)
    then obtain x where x: "x < length (frags i)" "x \<in> got i" "e = frags i ! x" by (auto simp: picked_def)
    have "1 < length (frags i)" using x j by (cases "length (frags i)" rule: nat.exhaust) (auto simp: less_Suc_eq)
    then have frag: "isFragmented c" "isFragmented e" using isFragmented_iff [OF msgs] j(1) x(1,3) by (simp_all add: c_def)
    have "findFragmented (streamSequenceNumber c) 0 (orderedSets r) = Inr (Some (length xs))"
      unfolding ssn sets split
    proof (subst findFragmented_some)
      show "x < i + 32768 \<and> i < x + 32768 \<and> x \<noteq> i" if "x \<in> set xs" for x
        using near [of x, unfolded split] that notin(1) by auto
    qed (use e frag(2) in simp_all)
    moreover have "orderedSets r ! length xs = setOf i (frags i) (got i)" unfolding sets split by (simp add: nth_append)
    moreover have "(orderedSets r)[length xs := setOf i (frags i) (insert j (got i))] = sets'"
    proof -
      have "heldSets k got' = heldSets k got" unfolding got'(3) using False by (simp add: insert_absorb)
      then show ?thesis unfolding sets'_def sets split using notin by (auto simp: got'_def list_update_append intro!: map_cong)
    qed
    ultimately show ?thesis using new push frag(1) by (simp add: pushOrdered_def)
  qed
  have "(\<Sum>x = k..<k + 32768. heldBytes (frags x) (got' x)) = (\<Sum>x = k..<k + 32768. heldBytes (frags x) (got x)) + length (UserData c)"
  proof -
    have "i \<in> {k..<k + 32768}" using i ik by simp
    then show ?thesis
      using heldBytes_insert [OF sub j] got'(2) by (simp add: sum.remove [of _ i] got'_def c_def del: sum.op_ivl_Suc)
  qed
  then have "ra_models frags sid k got' (addNumBytes c (r\<lparr>orderedSets := sets'\<rparr>))"
    using m got'(1) i ik by (simp add: ra_models_def addNumBytes_def sets'_def got'_def)
  moreover have "pushWithError c r = pushOrdered c r"
    using d(4-6) [OF j(1)] m by (simp add: pushWithError_def c_def ra_models_def)
  ultimately show ?thesis using result by (simp add: c_def got'_def)
qed


section \<open>Reading\<close>

lemma copyChunks_total:
  "snd (copyChunks cs (dst, n, short)) = (n + length (concat (map UserData cs)), short \<or> length dst < n + length (concat (map UserData cs)) \<and> cs \<noteq> [])"
proof (induction cs arbitrary: dst n short)
  case (Cons c cs)
  show ?case
  proof (cases "int (length dst) - int n < int (length (UserData c))")
    case True
    then show ?thesis using Cons.IH by simp
  next
    case False
    then have "length (copyInto dst n (UserData c)) = length dst" by (simp add: copyInto_def)
    then show ?thesis using Cons.IH [of "copyInto dst n (UserData c)"] False by auto
  qed
qed simp

lemma copyChunks_fits:
  "n + length (concat (map UserData cs)) \<le> length dst \<Longrightarrow>
     fst (copyChunks cs (dst, n, short)) = take n dst @ concat (map UserData cs) @ drop (n + length (concat (map UserData cs))) dst"
proof (induction cs arbitrary: dst n)
  case (Cons c cs)
  let ?d = "copyInto dst n (UserData c)"
  have fits: "\<not> int (length dst) - int n < int (length (UserData c))" and n: "n \<le> length dst" using Cons.prems by simp_all
  have d: "?d = take n dst @ UserData c @ drop (n + length (UserData c)) dst" using Cons.prems by (simp add: copyInto_def)
  have "n + length (UserData c) + length (concat (map UserData cs)) \<le> length ?d" using Cons.prems by (simp add: d)
  from Cons.IH [OF this] show ?case using fits n Cons.prems by (simp add: d ac_simps)
qed simp

lemma heldBytes_bound:
  assumes "\<And>i. orderedMessage sid i (frags i)" and "\<And>i. got i \<subseteq> {..<length (frags i)}"
  shows "(\<Sum>i = k..<k + 32768. heldBytes (frags i) (got i)) < 2 ^ 63"
proof -
  have le: "heldBytes (frags i) (got i) \<le> 2 ^ 32" for i
  proof -
    have "heldBytes cs J \<le> length (concat (map UserData cs))" for cs J
    proof -
      have "heldBytes cs J = (\<Sum>x \<leftarrow> filter (\<lambda>j. j \<in> J) [0..<length cs]. length (UserData (cs ! x)))"
        by (simp add: heldBytes_def picked_def length_concat comp_def)
      also have "\<dots> \<le> (\<Sum>x \<leftarrow> [0..<length cs]. length (UserData (cs ! x)))"
        by (rule sum_list_filter_le_nat)
      also have "\<dots> = length (concat (map UserData cs))"
        using arg_cong [OF map_nth, of "\<lambda>xs. sum_list (map (\<lambda>c. length (UserData c)) xs)" cs] by (simp add: length_concat comp_def)
      finally show ?thesis .
    qed
    from this [of "frags i" "got i"] show ?thesis using orderedMessageD(3) [OF assms(1), of i] by linarith
  qed
  have "(\<Sum>i = k..<k + 32768. heldBytes (frags i) (got i)) \<le> of_nat (card {k..<k + 32768}) * 2 ^ 32"
    by (rule sum_bounded_above) (rule le)
  then show ?thesis by simp
qed

lemma sint_small: "S < 2 ^ 63 \<Longrightarrow> sint (of_nat S :: u64) = int S"
  by (simp add: signed_of_nat signed_take_bit_int_eq_self)

lemma subtract_held:
  assumes "S < 2 ^ 63" and "n \<le> S"
  shows "(if sint (of_nat S :: u64) \<ge> int n then of_nat S - of_nat n else 0) = (of_nat (S - n) :: u64)"
proof -
  show ?thesis using sint_small [OF assms(1)] assms(2) by (simp add: of_nat_diff)
qed

lemma read_models:
  assumes msgs: "\<And>i. orderedMessage sid i (frags i)" and m: "ra_models frags sid k got r"
  defines "data \<equiv> concat (map UserData (frags k))"
  shows "isReadable r \<longleftrightarrow> got k = {..<length (frags k)}"
    "got k \<noteq> {..<length (frags k)} \<Longrightarrow> ra_read dst r = (0, 0, Some errTryAgain, dst, r)"
    "got k = {..<length (frags k)} \<Longrightarrow> length dst < length data \<Longrightarrow> \<exists>dst'. ra_read dst r = (length data, 0, Some ErrShortBuffer, dst', r)"
    "got k = {..<length (frags k)} \<Longrightarrow> length data \<le> length dst \<Longrightarrow>
       \<exists>r'. ra_read dst r = (length data, payloadType (frags k ! 0), None, data @ drop (length data) dst, r') \<and> ra_models frags sid (Suc k) got r'"
proof -
  have sub: "got x \<subseteq> {..<length (frags x)}" and far: "got (k + 32768) = {}" for x using m by (simp_all add: ra_models_def)
  have q: "unorderedSets r = []" "\<not> ra_useInterleaving r" "nextSSN r = of_nat k"
      "orderedSets r = map (\<lambda>i. setOf i (frags i) (got i)) (heldSets k got)"
    using m by (simp_all add: ra_models_def)
  have window: "[k..<k + 32768] = k # [Suc k..<k + 32768]" by (rule upt_conv_Cons) simp
  have wait: "\<not> isReadable r \<and> ra_read dst r = (0, 0, Some errTryAgain, dst, r)" if part: "got k \<noteq> {..<length (frags k)}"
  proof (cases "heldSets k got")
    case Nil
    then show ?thesis using q by (simp add: isReadable_def ra_read_def readData_def)
  next
    case (Cons i xs)
    then have i: "i \<in> set (heldSets k got)" by simp
    have "\<not> cs_isComplete (setOf i (frags i) (got i)) \<or> \<not> sna16LTE (of_nat i) (of_nat k)"
      using setOf_complete [OF msgs sub, of k] part i sna16_of_nat(2) [of i k] by (cases "i = k") auto
    moreover have "orderedSets r = setOf i (frags i) (got i) # map (\<lambda>i. setOf i (frags i) (got i)) xs" unfolding q(4) Cons by simp
    moreover have "cs_ssn (setOf i (frags i) (got i)) = of_nat i" by (simp add: setOf_def)
    ultimately show ?thesis using q(1-3) by (auto simp: isReadable_def ra_read_def readData_def sna16_cmp(3))
  qed
  have ready: "orderedSets r = setOf k (frags k) (got k) # map (\<lambda>i. setOf i (frags i) (got i)) (heldSets (Suc k) got)"
      "cs_isComplete (setOf k (frags k) (got k))" "cs_chunks (setOf k (frags k) (got k)) = frags k"
    if all: "got k = {..<length (frags k)}"
  proof -
    have "got k \<noteq> {}" using all orderedMessageD(1) [OF msgs, of k] by auto
    moreover have "[Suc k..<Suc k + 32768] = [Suc k..<k + 32768] @ [k + 32768]"
      unfolding add_Suc by (rule upt_Suc_append) simp
    ultimately have "heldSets k got = k # heldSets (Suc k) got" unfolding window using far by simp
    then show "orderedSets r = setOf k (frags k) (got k) # map (\<lambda>i. setOf i (frags i) (got i)) (heldSets (Suc k) got)"
      unfolding q(4) by simp
    show "cs_isComplete (setOf k (frags k) (got k))" "cs_chunks (setOf k (frags k) (got k)) = frags k"
      using setOf_complete [OF msgs sub, of k] all by (simp, simp add: setOf_def)
  qed
  show "isReadable r \<longleftrightarrow> got k = {..<length (frags k)}"
  proof (cases "got k = {..<length (frags k)}")
    case True
    have "cs_ssn (setOf k (frags k) (got k)) = of_nat k" by (simp add: setOf_def)
    then show ?thesis using True ready [OF True] q(1-3) by (simp add: isReadable_def sna16LTE_def)
  qed (use wait in simp)
  show "got k \<noteq> {..<length (frags k)} \<Longrightarrow> ra_read dst r = (0, 0, Some errTryAgain, dst, r)" using wait by blast
  obtain dst' where copy: "copyChunks (frags k) (dst, 0, False) = (dst', length data, length dst < length data)"
    using copyChunks_total [of "frags k" dst 0 False] orderedMessageD(1) [OF msgs, of k]
    by (cases "copyChunks (frags k) (dst, 0, False)") (auto simp: data_def)
  define r1 where "r1 = subtractNumBytes (length data)
    (r\<lparr>orderedSets := map (\<lambda>i. setOf i (frags i) (got i)) (heldSets (Suc k) got), nextSSN := of_nat (Suc k)\<rparr>)"
  have read: "ra_read dst r = (if length dst < length data then (length data, 0, Some ErrShortBuffer, dst', r)
      else (length data, payloadType (frags k ! 0), None, dst', r1))"
    if all: "got k = {..<length (frags k)}"
  proof -
    have "cs_ssn (setOf k (frags k) (got k)) = of_nat k" "cs_ppi (setOf k (frags k) (got k)) = payloadType (frags k ! 0)"
      by (simp_all add: setOf_def)
    then show ?thesis using ready [OF all] q(1-3) copy
      by (simp add: ra_read_def readData_def Let_def sna16_cmp(3) sna16LTE_def r1_def add.commute)
  qed
  then show "got k = {..<length (frags k)} \<Longrightarrow> length dst < length data \<Longrightarrow> \<exists>dst'. ra_read dst r = (length data, 0, Some ErrShortBuffer, dst', r)"
    by simp
  assume all: "got k = {..<length (frags k)}" and fits: "length data \<le> length dst"
  have "dst' = data @ drop (length data) dst" using copyChunks_fits [of 0 "frags k" dst False] fits copy by (simp add: data_def)
  moreover have "ra_models frags sid (Suc k) got r1"
  proof -
    have split: "(\<Sum>i = k..<k + 32768. heldBytes (frags i) (got i)) =
        heldBytes (frags k) (got k) + (\<Sum>i = Suc k..<k + 32768. heldBytes (frags i) (got i))"
      by (rule sum.atLeast_Suc_lessThan) simp
    have last: "(\<Sum>i = Suc k..<Suc k + 32768. heldBytes (frags i) (got i)) = (\<Sum>i = Suc k..<k + 32768. heldBytes (frags i) (got i))"
      unfolding add_Suc using far by (subst sum.atLeastLessThan_Suc) (simp_all add: heldBytes_def)
    have k: "heldBytes (frags k) (got k) = length data" using all by (simp add: heldBytes_def data_def)
    define S where "S = (\<Sum>i = k..<k + 32768. heldBytes (frags i) (got i))"
    have S: "ra_nBytes r = of_nat S" "S < 2 ^ 63" "length data \<le> S"
      "S - length data = (\<Sum>i = Suc k..<Suc k + 32768. heldBytes (frags i) (got i))"
      using m heldBytes_bound [OF msgs sub, of k] split last k unfolding S_def ra_models_def by presburger+
    have "ra_nBytes r1 = of_nat (\<Sum>i = Suc k..<Suc k + 32768. heldBytes (frags i) (got i))"
    proof -
      have "ra_nBytes r1 = (if sint (ra_nBytes r) \<ge> int (length data) then ra_nBytes r - of_nat (length data) else 0)"
        by (simp add: r1_def subtractNumBytes_def)
      then show ?thesis unfolding S(1) S(4) [symmetric] subtract_held [OF S(2,3)] .
    qed
    then show ?thesis using m all by (auto simp: ra_models_def r1_def subtractNumBytes_def less_Suc_eq)
  qed
  ultimately show "\<exists>r'. ra_read dst r = (length data, payloadType (frags k ! 0), None, data @ drop (length data) dst, r') \<and> ra_models frags sid (Suc k) got r'"
    using read [OF all] fits by simp
qed


section \<open>Ordered delivery\<close>

text \<open>
  A run of the receiver: fragment \<open>j\<close> of message \<open>i\<close> arrives, or the reader reads into a buffer. The
  result are the messages that were read, and the queue.
\<close>

datatype raCall = Arrive nat nat | ReadInto bytes

fun ra_run :: "(nat \<Rightarrow> chunkPayloadData list) \<Rightarrow> raCall list \<Rightarrow> reassemblyQueue \<Rightarrow> (bytes \<times> u32) list \<times> reassemblyQueue" where
  "ra_run frags [] r = ([], r)"
| "ra_run frags (Arrive i j # calls) r = ra_run frags calls (snd (pushWithError (frags i ! j) r))"
| "ra_run frags (ReadInto dst # calls) r =
     (case ra_read dst r of
        (n, ppi, None, dst', r') \<Rightarrow> (case ra_run frags calls r' of (out, r'') \<Rightarrow> ((take n dst', ppi) # out, r''))
      | (n, ppi, Some e, dst', r') \<Rightarrow> ra_run frags calls r')"

text \<open>
  The runs in which every fragment arrives at most once and no message arrives that is half a circle of
  sequence numbers ahead of the reader, with the number of messages read and the fragments that arrived.
\<close>

definition payload :: "chunkPayloadData list \<Rightarrow> bytes \<times> u32" where
  "payload cs = (concat (map UserData cs), payloadType (cs ! 0))"

definition nextRead :: "(nat \<Rightarrow> chunkPayloadData list) \<Rightarrow> bytes \<Rightarrow> nat \<Rightarrow> (nat \<Rightarrow> nat set) \<Rightarrow> nat" where
  "nextRead frags dst k got =
     (if got k = {..<length (frags k)} \<and> length (fst (payload (frags k))) \<le> length dst then Suc k else k)"

primrec arrivalsOK :: "(nat \<Rightarrow> chunkPayloadData list) \<Rightarrow> raCall list \<Rightarrow> nat \<Rightarrow> (nat \<Rightarrow> nat set) \<Rightarrow> bool" where
  "arrivalsOK frags [] k got = True"
| "arrivalsOK frags (call # calls) k got =
     (case call of
        Arrive i j \<Rightarrow> i < k + 32768 \<and> j < length (frags i) \<and> j \<notin> got i \<and> arrivalsOK frags calls k (got(i := insert j (got i)))
      | ReadInto dst \<Rightarrow> arrivalsOK frags calls (nextRead frags dst k got) got)"

definition arrived :: "raCall list \<Rightarrow> nat \<Rightarrow> nat set" where
  "arrived calls i = {j. Arrive i j \<in> set calls}"

lemma run_models:
  assumes msgs: "\<And>i. orderedMessage sid i (frags i)" and "ra_models frags sid k got r" and "arrivalsOK frags calls k got"
  shows "\<exists>n r'. k \<le> n \<and> ra_run frags calls r = (map (\<lambda>i. payload (frags i)) [k..<n], r') \<and>
    ra_models frags sid n (\<lambda>i. got i \<union> arrived calls i) r'"
  using assms(2,3)
proof (induction calls arbitrary: k got r)
  case Nil
  then show ?case by (intro exI [of _ k]) (simp add: arrived_def)
next
  case (Cons call calls)
  show ?case
  proof (cases call)
    case (Arrive i j)
    have ij: "i < k + 32768" "j < length (frags i)" "j \<notin> got i" and ok: "arrivalsOK frags calls k (got(i := insert j (got i)))"
      using Cons.prems(2) Arrive by simp_all
    obtain r1 where r1: "snd (pushWithError (frags i ! j) r) = r1" "ra_models frags sid k (got(i := insert j (got i))) r1"
      using push_models [OF msgs Cons.prems(1) ij] by auto
    have "(\<lambda>x. (got(i := insert j (got i))) x \<union> arrived calls x) = (\<lambda>x. got x \<union> arrived (call # calls) x)"
      using Arrive by (auto simp: fun_eq_iff arrived_def)
    then show ?thesis using Cons.IH [OF r1(2) ok] r1(1) Arrive by simp
  next
    case (ReadInto dst)
    have ok: "arrivalsOK frags calls (nextRead frags dst k got) got" using Cons.prems(2) ReadInto by simp
    have same: "(\<lambda>x. got x \<union> arrived calls x) = (\<lambda>x. got x \<union> arrived (call # calls) x)"
      using ReadInto by (auto simp: fun_eq_iff arrived_def)
    note read = read_models [OF msgs Cons.prems(1)]
    consider (wait) "got k \<noteq> {..<length (frags k)}" | (short) "got k = {..<length (frags k)}" "length dst < length (fst (payload (frags k)))"
      | (fits) "got k = {..<length (frags k)}" "length (fst (payload (frags k))) \<le> length dst"
      by linarith
    then show ?thesis
    proof cases
      case wait
      then show ?thesis using Cons.IH [OF Cons.prems(1)] ok read(2) [of dst] ReadInto same by (simp add: nextRead_def)
    next
      case short
      then show ?thesis using Cons.IH [OF Cons.prems(1)] ok read(3) [of dst] ReadInto same by (auto simp: nextRead_def payload_def)
    next
      case fits
      obtain r1 where r1: "ra_read dst r = (length (fst (payload (frags k))), snd (payload (frags k)), None,
          fst (payload (frags k)) @ drop (length (fst (payload (frags k)))) dst, r1)" "ra_models frags sid (Suc k) got r1"
        using read(4) [of dst] fits by (auto simp: payload_def)
      obtain n r' where n: "Suc k \<le> n" "ra_run frags calls r1 = (map (\<lambda>i. payload (frags i)) [Suc k..<n], r')"
          "ra_models frags sid n (\<lambda>x. got x \<union> arrived calls x) r'"
        using Cons.IH [OF r1(2)] ok fits by (auto simp: nextRead_def)
      have "map (\<lambda>i. payload (frags i)) [k..<n] = payload (frags k) # map (\<lambda>i. payload (frags i)) [Suc k..<n]"
        using n(1) by (simp add: upt_conv_Cons)
      then show ?thesis using r1(1) n same ReadInto by (intro exI [of _ n]) simp
    qed
  qed
qed


lemma new_models: "ra_models frags sid 0 (\<lambda>_. {}) (newReassemblyQueue sid)"
proof -
  have held: "heldSets 0 (\<lambda>_. {}) = []" by (rule filter_False) blast
  have sum: "(\<Sum>i = 0..<0 + 32768. heldBytes (frags i) {}) = 0" by (rule sum.neutral) (simp add: heldBytes_def)
  show ?thesis
    unfolding ra_models_def held sum by (simp add: newReassemblyQueue_def)
qed

text \<open>
  C8: ordered messages are delivered in order and whole. In whatever order the fragments arrive and
  however reads are interleaved, the reads return the messages 0, 1, 2 ... of the stream with their
  payload types. The next message is readable exactly when all its fragments have arrived, and a read
  with a buffer that is large enough then returns it. The byte count is that of the fragments held.
\<close>

theorem ordered_delivery:
  assumes "\<And>i. orderedMessage sid i (frags i)" and "arrivalsOK frags calls 0 (\<lambda>_. {})"
  shows "\<exists>n r. ra_run frags calls (newReassemblyQueue sid) = (map (\<lambda>i. payload (frags i)) [0..<n], r) \<and>
    isReadable r = (arrived calls n = {..<length (frags n)}) \<and>
    (\<forall>dst. isReadable r \<and> length (fst (payload (frags n))) \<le> length dst \<longrightarrow> fst (ra_run frags [ReadInto dst] r) = [payload (frags n)]) \<and>
    (\<forall>dst. \<not> isReadable r \<longrightarrow> ra_read dst r = (0, 0, Some errTryAgain, dst, r)) \<and>
    ra_getNumBytes r = int (\<Sum>i = n..<n + 32768. heldBytes (frags i) (arrived calls i))"
proof -
  obtain n r where run: "ra_run frags calls (newReassemblyQueue sid) = (map (\<lambda>i. payload (frags i)) [0..<n], r)"
    and m': "ra_models frags sid n (\<lambda>i. {} \<union> arrived calls i) r"
    using run_models [OF assms(1) new_models assms(2)] by blast
  have m: "ra_models frags sid n (arrived calls) r" using m' by (simp only: Un_empty_left)
  note read = read_models [OF assms(1) m]
  have following: "fst (ra_run frags [ReadInto dst] r) = [payload (frags n)]" if ready: "isReadable r" and fits: "length (fst (payload (frags n))) \<le> length dst" for dst
  proof -
    have "arrived calls n = {..<length (frags n)}" using ready read(1) by blast
    then obtain r' where "ra_read dst r = (length (fst (payload (frags n))), snd (payload (frags n)), None,
        fst (payload (frags n)) @ drop (length (fst (payload (frags n)))) dst, r')"
      using read(4) [of dst] fits unfolding payload_def fst_conv snd_conv by blast
    then show ?thesis by simp
  qed
  have sub: "arrived calls i \<subseteq> {..<length (frags i)}" for i using m by (simp add: ra_models_def)
  have "ra_nBytes r = of_nat (\<Sum>i = n..<n + 32768. heldBytes (frags i) (arrived calls i))" using m unfolding ra_models_def by blast
  then have "ra_getNumBytes r = int (\<Sum>i = n..<n + 32768. heldBytes (frags i) (arrived calls i))"
    unfolding ra_getNumBytes_def using sint_small [OF heldBytes_bound [OF assms(1) sub, of n]] by (simp only:)
  then show ?thesis using run read(1,2) following by blast
qed

text \<open>One-byte messages on stream 7.\<close>

definition byteMessages :: "nat \<Rightarrow> chunkPayloadData list" where
  "byteMessages i = [zeroPayloadData\<lparr>beginningFragment := True, endingFragment := True, streamIdentifier := 7,
     streamSequenceNumber := of_nat i, tsn := of_nat i, payloadType := 53, userData := Some [of_nat i]\<rparr>]"

lemma byteMessages_ok: "orderedMessage 7 i (byteMessages i)"
  by (simp add: orderedMessage_def byteMessages_def isIData_def zeroPayloadData_def UserData_def)

theorem ordered_delivery_witness:
  "\<exists>n r. ra_run byteMessages [Arrive 1 0, ReadInto [0, 0], Arrive 0 0, ReadInto [0, 0]] (newReassemblyQueue 7) =
     (map (\<lambda>i. payload (byteMessages i)) [0..<n], r)"
proof -
  have "arrivalsOK byteMessages [Arrive 1 0, ReadInto [0, 0], Arrive 0 0, ReadInto [0, 0]] 0 (\<lambda>_. {})"
    by (simp add: nextRead_def byteMessages_def)
  from ordered_delivery [OF byteMessages_ok this] show ?thesis by blast
qed


section \<open>Unordered messages\<close>

text \<open>A run of chunks that makes a message: it begins, ends and has no gap.\<close>

definition wholeRun :: "chunkPayloadData list \<Rightarrow> bool" where
  "wholeRun cs \<longleftrightarrow> cs_isComplete \<lparr>cs_ssn = 0, cs_ppi = 0, cs_chunks = cs\<rparr>"

definition continues :: "u32 \<Rightarrow> chunkPayloadData list \<Rightarrow> bool" where
  "continues prev cs \<longleftrightarrow> cs \<noteq> [] \<and> contiguousFrom prev (map tsn cs) \<and> endingFragment (last cs)"

definition hasWholeRun :: "chunkPayloadData list \<Rightarrow> bool" where
  "hasWholeRun cs \<longleftrightarrow> (\<exists>xs run ys. cs = xs @ run @ ys \<and> wholeRun run)"

definition canContinue :: "u32 \<Rightarrow> chunkPayloadData list \<Rightarrow> bool" where
  "canContinue prev cs \<longleftrightarrow> (\<exists>run ys. cs = run @ ys \<and> continues prev run)"

lemma wholeRun_Cons: "wholeRun (c # cs) \<longleftrightarrow> beginningFragment c \<and> (cs = [] \<and> endingFragment c \<or> continues (tsn c) cs)"
  by (auto simp: wholeRun_def cs_isComplete_def continues_def)

lemma continues_Cons: "continues prev (c # cs) \<longleftrightarrow> tsn c = prev + 1 \<and> (cs = [] \<and> endingFragment c \<or> continues (tsn c) cs)"
  by (auto simp: continues_def)

lemma canContinue_Cons: "canContinue prev (c # cs) \<longleftrightarrow> tsn c = prev + 1 \<and> (endingFragment c \<or> canContinue (tsn c) cs)"
proof -
  have "canContinue prev (c # cs) \<longleftrightarrow> (\<exists>run ys. cs = run @ ys \<and> continues prev (c # run))"
    unfolding canContinue_def
  proof
    assume "\<exists>run ys. c # cs = run @ ys \<and> continues prev run"
    then obtain run ys where run: "c # cs = run @ ys" "continues prev run" by blast
    then obtain run' where "run = c # run'" "cs = run' @ ys" by (cases run) (auto simp: continues_def)
    then show "\<exists>run ys. cs = run @ ys \<and> continues prev (c # run)" using run(2) by blast
  next
    assume "\<exists>run ys. cs = run @ ys \<and> continues prev (c # run)"
    then show "\<exists>run ys. c # cs = run @ ys \<and> continues prev run" by (metis append_Cons)
  qed
  then show ?thesis by (auto simp: canContinue_def continues_Cons)
qed

lemma hasWholeRun_Cons: "hasWholeRun (c # cs) \<longleftrightarrow> hasWholeRun cs \<or> beginningFragment c \<and> (endingFragment c \<or> canContinue (tsn c) cs)"
proof -
  have "hasWholeRun (c # cs) \<longleftrightarrow> hasWholeRun cs \<or> (\<exists>run ys. cs = run @ ys \<and> wholeRun (c # run))"
  proof
    assume "hasWholeRun (c # cs)"
    then obtain xs run ys where run: "c # cs = xs @ run @ ys" "wholeRun run" unfolding hasWholeRun_def by blast
    show "hasWholeRun cs \<or> (\<exists>run ys. cs = run @ ys \<and> wholeRun (c # run))"
    proof (cases xs)
      case Nil
      then obtain run' where "run = c # run'" "cs = run' @ ys" using run by (cases run) (auto simp: wholeRun_def cs_isComplete_def)
      then show ?thesis using run(2) by blast
    next
      case (Cons x xs')
      then have "cs = xs' @ run @ ys" using run(1) by simp
      then show ?thesis using run(2) unfolding hasWholeRun_def by blast
    qed
  next
    assume "hasWholeRun cs \<or> (\<exists>run ys. cs = run @ ys \<and> wholeRun (c # run))"
    then show "hasWholeRun (c # cs)" unfolding hasWholeRun_def by (metis append_Cons append_Nil)
  qed
  then show ?thesis by (auto simp: canContinue_def wholeRun_Cons)
qed

lemma findLoop_None:
  "findLoop cs i None = None \<longleftrightarrow> \<not> hasWholeRun cs"
  "findLoop cs i (Some (start, n, prev)) = None \<longleftrightarrow> \<not> hasWholeRun cs \<and> \<not> canContinue prev cs"
proof (induction cs arbitrary: i start n prev)
  case Nil
  case 1
  show ?case by (auto simp: hasWholeRun_def wholeRun_def cs_isComplete_def)
next
  case Nil
  case 2
  show ?case by (auto simp: hasWholeRun_def wholeRun_def cs_isComplete_def canContinue_def continues_def)
next
  case (Cons c cs)
  case 1
  show ?case using Cons.IH by (auto simp: hasWholeRun_Cons)
next
  case (Cons c cs)
  case 2
  show ?case using Cons.IH by (auto simp: hasWholeRun_Cons canContinue_Cons)
qed

text \<open>The chunks from the start on, as the loop collects them.\<close>

lemma findLoop_Some:
  "findLoop cs (length pre) None = Some (s, n) \<Longrightarrow> s + n \<le> length (pre @ cs) \<and> wholeRun (take n (drop s (pre @ cs)))"
  "findLoop cs (length (pre @ c # mid)) (Some (length pre, Suc (length mid), prev)) = Some (s, n) \<Longrightarrow>
     beginningFragment c \<Longrightarrow> contiguousFrom (tsn c) (map tsn mid) \<Longrightarrow> tsn (last (c # mid)) = prev \<Longrightarrow>
     s + n \<le> length (pre @ c # mid @ cs) \<and> wholeRun (take n (drop s (pre @ c # mid @ cs)))"
proof (induction cs arbitrary: pre c mid prev)
  case (Cons d cs)
  case 1
  show ?case
  proof (cases "beginningFragment d")
    case True
    show ?thesis
    proof (cases "endingFragment d")
      case ending: True
      then have "s = length pre" "n = 1" using 1 True by simp_all
      then show ?thesis using True ending by (simp add: wholeRun_Cons)
    next
      case False
      then show ?thesis using 1 True Cons.IH(2) [of pre d "[]" "tsn d"] by simp
    qed
  next
    case False
    then show ?thesis using 1 Cons.IH(1) [of "pre @ [d]"] by simp
  qed
next
  case (Cons d cs)
  case 2
  have app: "contiguousFrom t (xs @ [y]) \<longleftrightarrow> contiguousFrom t xs \<and> y = last (t # xs) + 1" for t xs y
    by (induction xs arbitrary: t) auto
  note prems = 2
  have prev: "prev = last (tsn c # map tsn mid)" using prems(4) by (cases mid rule: rev_cases) simp_all
  show ?case
  proof (cases "beginningFragment d")
    case True
    show ?thesis
    proof (cases "endingFragment d")
      case ending: True
      then have "s = length (pre @ c # mid)" "n = 1" using 2(1) True by simp_all
      then show ?thesis using True ending by (simp add: wholeRun_Cons)
    next
      case False
      then show ?thesis using 2(1) True Cons.IH(2) [of "pre @ c # mid" d "[]" "tsn d"] by simp
    qed
  next
    case False
    consider "tsn d \<noteq> prev + 1" | "tsn d = prev + 1" "endingFragment d" | "tsn d = prev + 1" "\<not> endingFragment d" by blast
    then show ?thesis
    proof cases
      case 1
      then show ?thesis using 2(1) False Cons.IH(1) [of "pre @ c # mid @ [d]"] by simp
    next
      case 2
      then have sn: "s = length pre" "n = Suc (Suc (length mid))" using prems(1) False by simp_all
      have "wholeRun (c # mid @ [d])" using 2 prems(2,3) prev by (simp add: wholeRun_def cs_isComplete_def app)
      then show ?thesis using sn by simp
    next
      case 3
      then have "contiguousFrom (tsn c) (map tsn (mid @ [d]))" using prems(3) prev by (simp add: app)
      then show ?thesis using 3 False prems(1,2) Cons.IH(2) [of pre c "mid @ [d]" "tsn d"] by simp
    qed
  qed
qed simp_all

text \<open>
  The loop stops at the first chunk that ends a run: without that chunk it finds nothing. The run starts
  at the last first fragment, so none of its later chunks is one.
\<close>

lemma findLoop_first:
  "findLoop cs i st = Some (s, n) \<Longrightarrow> (case st of None \<Rightarrow> True | Some (start, m, prev) \<Rightarrow> start + m = i) \<Longrightarrow>
     i < s + n \<and> findLoop (take (s + n - 1 - i) cs) i st = None"
proof (induction cs i st rule: findLoop.induct)
  case (2 c cs i st)
  have further: "i < s + n \<and> findLoop (take (s + n - 1 - i) (c # cs)) i st = None"
    if "Suc i < s + n \<and> findLoop (take (s + n - 1 - Suc i) cs) (Suc i) st' = None"
      and "\<And>ds. findLoop (c # ds) i st = findLoop ds (Suc i) st'" for st'
  proof -
    have "s + n - 1 - i = Suc (s + n - 1 - Suc i)" using that(1) by (simp add: Suc_diff_Suc)
    then show ?thesis using that by (simp del: findLoop.simps(2))
  qed
  show ?case
  proof (cases "beginningFragment c")
    case True
    then show ?thesis using 2 further [of "Some (i, 1, tsn c)"] by (cases "endingFragment c") auto
  next
    case False
    show ?thesis
    proof (cases st)
      case None
      then show ?thesis using 2 False further [of None] by simp
    next
      case (Some x)
      obtain start m prev where x: "x = (start, m, prev)" by (cases x)
      consider "tsn c \<noteq> prev + 1" | "tsn c = prev + 1" "endingFragment c" | "tsn c = prev + 1" "\<not> endingFragment c" by blast
      then show ?thesis
      proof cases
        case 1
        then show ?thesis using 2 False Some x further [of None] by simp
      next
        case 2
        then show ?thesis using "2.prems" False Some x by auto
      next
        case 3
        then show ?thesis using "2.IH" "2.prems" False Some x further [of "Some (start, Suc m, tsn c)"] by simp
      qed
    qed
  qed
qed simp

lemma findLoop_single_start:
  "findLoop cs (length pre) None = Some (s, n) \<Longrightarrow> \<not> list_ex beginningFragment (tl (take n (drop s (pre @ cs))))"
  "findLoop cs (length (pre @ c # mid)) (Some (length pre, Suc (length mid), prev)) = Some (s, n) \<Longrightarrow>
     \<not> list_ex beginningFragment mid \<Longrightarrow> \<not> list_ex beginningFragment (tl (take n (drop s (pre @ c # mid @ cs))))"
proof (induction cs arbitrary: pre c mid prev)
  case (Cons d cs)
  case 1
  then show ?case using Cons.IH(1) [of "pre @ [d]"] Cons.IH(2) [of pre d "[]" "tsn d"] by (auto split: if_splits)
next
  case (Cons d cs)
  case 2
  then show ?case
    using Cons.IH(1) [of "pre @ c # mid @ [d]"] Cons.IH(2) [of "pre @ c # mid" d "[]" "tsn d"] Cons.IH(2) [of pre c "mid @ [d]" "tsn d"]
    by (auto split: if_splits)
qed simp_all

text \<open>
  C36: after an unordered chunk arrived, \<open>findCompleteUnorderedChunkSet\<close> takes out a message if and
  only if the waiting chunks contain one: a gapless run from a first to a last fragment. What it takes
  is such a run, with no first fragment in its middle, and it is the first one: the chunks before its
  last chunk contain no run. The other chunks stay, in their order.
\<close>

theorem unordered_set_found_iff:
  "(case findCompleteUnorderedChunkSet r of
      (None, r') \<Rightarrow> r' = r \<and> \<not> hasWholeRun (unorderedChunks r)
    | (Some cs, r') \<Rightarrow> wholeRun (cs_chunks cs) \<and> cs_isComplete cs \<and> cs_ppi cs = payloadType (hd (cs_chunks cs)) \<and>
        (\<exists>xs ys. unorderedChunks r = xs @ cs_chunks cs @ ys \<and> r' = r\<lparr>unorderedChunks := xs @ ys\<rparr> \<and>
           \<not> hasWholeRun (xs @ butlast (cs_chunks cs)) \<and> \<not> list_ex beginningFragment (tl (cs_chunks cs))))"
proof (cases "findLoop (unorderedChunks r) 0 None")
  case None
  then have "\<not> hasWholeRun (unorderedChunks r)" using findLoop_None(1) by blast
  then show ?thesis by (simp add: findCompleteUnorderedChunkSet_def None)
next
  case (Some p)
  let ?us = "unorderedChunks r"
  obtain s n where p: "findLoop ?us 0 None = Some (s, n)" using Some by (cases p) auto
  have run: "s + n \<le> length ?us" "wholeRun (take n (drop s ?us))"
    using findLoop_Some(1) [of ?us "[]" s n] p by simp_all
  have split: "?us = take s ?us @ take n (drop s ?us) @ drop (s + n) ?us"
    by (metis append_take_drop_id drop_drop add.commute)
  have "0 < n" using run(2) by (cases n) (simp_all add: wholeRun_def cs_isComplete_def)
  then have "s + n - 1 = s + (n - 1)" by simp
  then have before: "take (s + n - 1) ?us = take s ?us @ butlast (take n (drop s ?us))"
    using run(1) \<open>0 < n\<close> by (simp only: take_add butlast_take length_drop)
  have "\<not> hasWholeRun (take (s + n - 1) ?us)"
    using findLoop_first [OF p] findLoop_None(1) [of "take (s + n - 1) ?us" 0] by simp
  moreover have "\<not> list_ex beginningFragment (tl (take n (drop s ?us)))"
    using findLoop_single_start(1) [of ?us "[]" s n] p by simp
  moreover have "cs_isComplete \<lparr>cs_ssn = 0, cs_ppi = x, cs_chunks = take n (drop s ?us)\<rparr>" for x
    using run(2) by (simp add: wholeRun_def cs_isComplete_def)
  ultimately show ?thesis using p run(2) split before
    by (simp add: findCompleteUnorderedChunkSet_def Let_def) metis
qed

text \<open>
  \<open>isReadable\<close> and \<open>read\<close> agree, for DATA and for I-DATA: a read asks to try again exactly when
  the queue is not readable. A read that fails leaves the queue as it was.
\<close>

theorem readable_iff_read:
  "\<exists>n ppi err dst' r'. ra_read dst r = (n, ppi, err, dst', r') \<and> (err = Some errTryAgain) = (\<not> isReadable r) \<and>
     (err = None \<or> r' = r \<and> ppi = 0) \<and> length dst' = length dst"
proof -
  have len: "length (fst (copyChunks cs st)) = length (fst st)" for cs st
  proof (induction cs st rule: copyChunks.induct)
    case (2 c cs dst n short)
    then show ?case by (auto simp: copyInto_def)
  qed simp
  have err: "errTryAgain \<noteq> ErrShortBuffer" by (simp add: errTryAgain_def ErrShortBuffer_def)
  have len': "length dst' = length dst" if "copyChunks cs (dst, n, b) = (dst', m)" for cs n b dst' m
    using len [of cs "(dst, n, b)"] that by simp
  show ?thesis
  proof (cases "ra_useInterleaving r")
    case True
    then show ?thesis
      using err by (auto simp: ra_read_def readIData_def isReadable_def sna32_cmp(3) Let_def split: list.splits prod.splits dest: len')
  next
    case False
    then show ?thesis
      using err by (auto simp: ra_read_def readData_def isReadable_def sna16_cmp(3) Let_def split: list.splits prod.splits dest: len')
  qed
qed

end
