(* ===== verification/StreamFacts.thy ===== *)
theory StreamFacts
  imports StreamModel ChunkFacts ReassemblyFacts PendingFacts
begin

text \<open>
  Correctness of streams: what \<open>packetize\<close> cuts a message into, its round trip through the reassembly
  queue of the peer, what happens to an empty message, the accounting of buffered bytes, and the read
  deadline.
\<close>

section \<open>Fragmentation\<close>

definition fragCount :: "nat \<Rightarrow> nat \<Rightarrow> nat" where
  "fragCount m n = (n + m - 1) div m"

lemma fragCount_iff: "0 < m \<Longrightarrow> k < fragCount m n \<longleftrightarrow> k * m < n"
proof -
  assume m: "0 < m"
  have "k < fragCount m n \<longleftrightarrow> Suc k \<le> (n + m - 1) div m" by (simp add: fragCount_def Suc_le_eq)
  also have "\<dots> \<longleftrightarrow> Suc k * m \<le> n + m - 1" by (simp add: less_eq_div_iff_mult_less_eq m)
  also have "\<dots> \<longleftrightarrow> k * m < n" using m by auto
  finally show ?thesis .
qed

lemma concat_pieces:
  assumes m: "0 < m"
  shows "concat (map (\<lambda>k. take m (drop (k * m) xs)) [0..<k]) = take (k * m) xs"
proof (induction k)
  case (Suc k)
  have "Suc k * m = k * m + m" by simp
  then have "take (Suc k * m) xs = take (k * m) xs @ take m (drop (k * m) xs)" by (simp only: take_add)
  then show ?case using Suc by simp
qed simp

definition nthFragment :: "stream \<Rightarrow> bool \<Rightarrow> bool \<Rightarrow> u32 \<Rightarrow> u32 \<Rightarrow> nat \<Rightarrow> bytes \<Rightarrow> nat \<Rightarrow> nat \<Rightarrow> chunkPayloadData" where
  "nthFragment s useInterleaving unord ppi mid m raw base k =
     fragment s useInterleaving unord ppi mid raw (of_nat (k * m)) (of_nat (length raw - k * m)) (of_nat (min m (length raw - k * m)))
       (of_nat k) (if k = 0 then None else Some base)"

lemma packetizeLoop_eq:
  assumes m: "0 < m" "m < 2 ^ 32" and len: "length raw < 2 ^ 32" and k: "k \<le> fragCount m (length raw)"
  shows "packetizeLoop s ui unord ppi mid (of_nat m) raw base (of_nat (min (k * m) (length raw))) (of_nat (length raw - k * m)) (of_nat k)
      (map (nthFragment s ui unord ppi mid m raw base) [0..<k]) =
    Some (map (nthFragment s ui unord ppi mid m raw base) [0..<fragCount m (length raw)])"
  using k
proof (induction "fragCount m (length raw) - k" arbitrary: k)
  case 0
  then have k: "k = fragCount m (length raw)" by simp
  then have "length raw \<le> k * m" using fragCount_iff [OF m(1), of k "length raw"] by simp
  then show ?case using k by (subst packetizeLoop.simps) simp
next
  case (Suc d)
  then have "k < fragCount m (length raw)" by linarith
  then have lt: "k * m < length raw" using fragCount_iff [OF m(1)] by simp
  have small: "length raw - k * m < 2 ^ 32" using len by simp
  have rem: "(of_nat (length raw - k * m) :: u32) \<noteq> 0"
    using lt small by (simp add: word_of_nat_eq_0_iff nat_dvd_not_less del: of_nat_diff)
  have size: "min32 (of_nat m) (of_nat (length raw - k * m)) = of_nat (min m (length raw - k * m))"
    using m small by (simp add: min32_def word_less_nat_alt unat_of_nat min_def del: of_nat_diff)
  have next_off: "(of_nat (min (k * m) (length raw)) + of_nat (min m (length raw - k * m)) :: u32) = of_nat (min (Suc k * m) (length raw))"
  proof -
    have "min (k * m) (length raw) + min m (length raw - k * m) = min (Suc k * m) (length raw)" using lt by auto
    then show ?thesis by (metis of_nat_add)
  qed
  have next_rem: "(of_nat (length raw - k * m) - of_nat (min m (length raw - k * m)) :: u32) = of_nat (length raw - Suc k * m)"
  proof -
    have "length raw - k * m = (length raw - Suc k * m) + min m (length raw - k * m)" using lt by auto
    then show ?thesis by (metis add_diff_cancel_right' of_nat_add)
  qed
  have frag: "fragment s ui unord ppi mid raw (of_nat (min (k * m) (length raw))) (of_nat (length raw - k * m))
      (of_nat (min m (length raw - k * m))) (of_nat k) (if map (nthFragment s ui unord ppi mid m raw base) [0..<k] = [] then None else Some base) =
    nthFragment s ui unord ppi mid m raw base k"
    using lt by (simp add: nthFragment_def min_def)
  have "packetizeLoop s ui unord ppi mid (of_nat m) raw base (of_nat (min (k * m) (length raw))) (of_nat (length raw - k * m)) (of_nat k)
      (map (nthFragment s ui unord ppi mid m raw base) [0..<k]) =
    packetizeLoop s ui unord ppi mid (of_nat m) raw base (of_nat (min (Suc k * m) (length raw))) (of_nat (length raw - Suc k * m)) (of_nat (Suc k))
      (map (nthFragment s ui unord ppi mid m raw base) [0..<Suc k])"
    using rem by (subst packetizeLoop.simps) (simp only: if_False Let_def size next_off next_rem frag, simp add: add.commute)
  also have "\<dots> = Some (map (nthFragment s ui unord ppi mid m raw base) [0..<fragCount m (length raw)])"
    using Suc.hyps(1) [of "Suc k"] Suc.hyps(2) Suc.prems by simp
  finally show ?case .
qed


lemma nthFragment_fields [simp]:
  "unordered (nthFragment s ui unord ppi mid m raw base k) = unord"
  "streamIdentifier (nthFragment s ui unord ppi mid m raw base k) = s_streamIdentifier s"
  "streamSequenceNumber (nthFragment s ui unord ppi mid m raw base k) = (if ui then ucast mid else sequenceNumber s)"
  "messageIdentifier (nthFragment s ui unord ppi mid m raw base k) = mid"
  "fragmentSequenceNumber (nthFragment s ui unord ppi mid m raw base k) = of_nat k"
  "payloadType (nthFragment s ui unord ppi mid m raw base k) = ppi"
  "isIData (nthFragment s ui unord ppi mid m raw base k) = ui"
  by (simp_all add: nthFragment_def fragment_def isIData_def)

lemma unat_of_u32: "n < 2 ^ 32 \<Longrightarrow> unat (of_nat n :: u32) = n"
  by (simp add: unat_of_nat take_bit_nat_eq_self)

lemma of_nat_u32_eq_iff: "a < 2 ^ 32 \<Longrightarrow> b < 2 ^ 32 \<Longrightarrow> (of_nat a :: u32) = of_nat b \<longleftrightarrow> a = b"
  using unat_of_u32 by metis

lemma nthFragment_data:
  assumes "0 < m" "length raw < 2 ^ 32" "k < fragCount m (length raw)"
  shows "userData (nthFragment s ui unord ppi mid m raw base k) = Some (take m (drop (k * m) raw))"
    "UserData (nthFragment s ui unord ppi mid m raw base k) = take m (drop (k * m) raw)"
    "beginningFragment (nthFragment s ui unord ppi mid m raw base k) = (k = 0)"
    "endingFragment (nthFragment s ui unord ppi mid m raw base k) = (Suc k = fragCount m (length raw))"
proof -
  have lt: "k * m < length raw" using assms fragCount_iff by blast
  have off: "unat (of_nat (k * m) :: u32) = k * m" using lt assms(2) by (intro unat_of_u32) simp
  have size: "unat (of_nat (min m (length raw - k * m)) :: u32) = min m (length raw - k * m)"
    using assms(2) by (intro unat_of_u32) simp
  show data: "userData (nthFragment s ui unord ppi mid m raw base k) = Some (take m (drop (k * m) raw))"
    unfolding nthFragment_def fragment_def by (simp only: off size chunkPayloadData.simps) (simp add: min_def)
  show "UserData (nthFragment s ui unord ppi mid m raw base k) = take m (drop (k * m) raw)"
    by (simp add: UserData_def data)
  have "(of_nat (k * m) :: u32) = 0 \<longleftrightarrow> k * m = 0" using of_nat_u32_eq_iff [of "k * m" 0] lt assms(2) by simp
  then show "beginningFragment (nthFragment s ui unord ppi mid m raw base k) = (k = 0)"
    unfolding nthFragment_def fragment_def using assms(1) by (simp only: chunkPayloadData.simps) simp
  have "Suc k = fragCount m (length raw) \<longleftrightarrow> \<not> Suc k < fragCount m (length raw)" using assms(3) by auto
  also have "\<dots> \<longleftrightarrow> length raw - k * m = min m (length raw - k * m)"
    unfolding fragCount_iff [OF assms(1)] using lt by (simp add: min_def) linarith
  also have "\<dots> \<longleftrightarrow> (of_nat (length raw - k * m) :: u32) = of_nat (min m (length raw - k * m))"
    using assms(2) by (intro of_nat_u32_eq_iff [symmetric]) simp_all
  finally show "endingFragment (nthFragment s ui unord ppi mid m raw base k) = (Suc k = fragCount m (length raw))"
    unfolding nthFragment_def fragment_def by (simp only: chunkPayloadData.simps right_minus_eq)
qed

text \<open>The state of the stream while a message is cut, and afterwards.\<close>

definition takeMID :: "bool \<Rightarrow> bool \<Rightarrow> stream \<Rightarrow> stream" where
  "takeMID ui unord s =
     (if ui then (if unord then s\<lparr>nextUnorderedMID := nextUnorderedMID s + 1\<rparr> else s\<lparr>nextOrderedMID := nextOrderedMID s + 1\<rparr>) else s)"

definition currentMID :: "bool \<Rightarrow> bool \<Rightarrow> stream \<Rightarrow> u32" where
  "currentMID ui unord s = (if ui then (if unord then nextUnorderedMID s else nextOrderedMID s) else 0)"

definition afterWrite :: "bool \<Rightarrow> bool \<Rightarrow> nat \<Rightarrow> stream \<Rightarrow> stream" where
  "afterWrite ui unord n s =
     (takeMID ui unord s)\<lparr>sequenceNumber := (if \<not> ui \<and> \<not> unord then sequenceNumber s + 1 else sequenceNumber s),
        bufferedAmount := bufferedAmount s + of_nat n\<rparr>"

lemma packetize_eq:
  assumes "0 < m" "m < 2 ^ 32" "length raw < 2 ^ 32" "unord = (ppi \<noteq> PayloadTypeWebRTCDCEP \<and> s_unordered s)"
  shows "packetize ui (of_nat m) raw ppi base s =
    Some (map (nthFragment (takeMID ui unord s) ui unord ppi (currentMID ui unord s) m raw base) [0..<fragCount m (length raw)],
          unord, afterWrite ui unord (length raw) s)"
proof -
  let ?s = "takeMID ui unord s" and ?mid = "currentMID ui unord s"
  have "packetizeLoop ?s ui unord ppi ?mid (of_nat m) raw base 0 (of_nat (length raw)) 0 [] =
      Some (map (nthFragment ?s ui unord ppi ?mid m raw base) [0..<fragCount m (length raw)])"
    using packetizeLoop_eq [OF assms(1-3), of 0] by simp
  then show ?thesis
    using assms(4) by (simp add: packetize_def Let_def takeMID_def currentMID_def afterWrite_def)
qed

lemma fragments_concat:
  assumes "0 < m" "length raw < 2 ^ 32"
  shows "concat (map UserData (map (nthFragment s ui unord ppi mid m raw base) [0..<fragCount m (length raw)])) = raw"
proof -
  have "map UserData (map (nthFragment s ui unord ppi mid m raw base) [0..<fragCount m (length raw)]) =
      map (\<lambda>k. take m (drop (k * m) raw)) [0..<fragCount m (length raw)]"
    using nthFragment_data(2) [OF assms] by simp
  moreover have "length raw \<le> fragCount m (length raw) * m"
    using fragCount_iff [OF assms(1), of "fragCount m (length raw)" "length raw"] by simp
  ultimately show ?thesis by (simp only: concat_pieces [OF assms(1)] take_all)
qed


section \<open>Round trip of ordered messages\<close>

text \<open>The stream of the sender after \<open>i\<close> messages, and the fragments of the \<open>i\<close>-th one.\<close>

primrec sentStream :: "u32 \<Rightarrow> (nat \<Rightarrow> bytes \<times> u32) \<Rightarrow> stream \<Rightarrow> nat \<Rightarrow> stream option" where
  "sentStream maxPayloadSize msgs s 0 = Some s"
| "sentStream maxPayloadSize msgs s (Suc i) =
     Option.bind (sentStream maxPayloadSize msgs s i) (\<lambda>s1.
     Option.bind (packetize False maxPayloadSize (fst (msgs i)) (snd (msgs i)) 0 s1) (\<lambda>(chunks, unord, s2). Some s2))"

definition sentFragments :: "u32 \<Rightarrow> (nat \<Rightarrow> bytes \<times> u32) \<Rightarrow> stream \<Rightarrow> nat \<Rightarrow> chunkPayloadData list" where
  "sentFragments maxPayloadSize msgs s i =
     (case Option.bind (sentStream maxPayloadSize msgs s i) (packetize False maxPayloadSize (fst (msgs i)) (snd (msgs i)) 0) of
        None \<Rightarrow> []
      | Some (chunks, unord, s') \<Rightarrow> chunks)"

text \<open>The same fragments as the peer parses them, with consecutive TSNs from \<open>first i\<close> on.\<close>

definition wireFragments :: "u32 \<Rightarrow> (nat \<Rightarrow> bytes \<times> u32) \<Rightarrow> (nat \<Rightarrow> u32) \<Rightarrow> stream \<Rightarrow> nat \<Rightarrow> chunkPayloadData list" where
  "wireFragments maxPayloadSize msgs first s i =
     (let cs = sentFragments maxPayloadSize msgs s i
      in map (\<lambda>j. payload_received ((cs ! j)\<lparr>tsn := first i + of_nat j\<rparr>)) [0..<length cs])"

lemma payload_received_data:
  assumes "\<not> isIData p"
  shows "unordered (payload_received p) = unordered p" "beginningFragment (payload_received p) = beginningFragment p"
    "endingFragment (payload_received p) = endingFragment p" "tsn (payload_received p) = tsn p"
    "streamIdentifier (payload_received p) = streamIdentifier p" "UserData (payload_received p) = UserData p"
    "streamSequenceNumber (payload_received p) = streamSequenceNumber p" "payloadType (payload_received p) = payloadType p"
    "\<not> isIData (payload_received p)" "headRef (payload_received p) = None"
  using assms by (simp_all add: payload_received_def Let_def isIData_def zeroPayloadData_def UserData_def)

lemma isIData_tsn [simp]: "isIData (p\<lparr>tsn := t\<rparr>) = isIData p" "UserData (p\<lparr>tsn := t\<rparr>) = UserData p"
  by (simp_all add: isIData_def UserData_def)

lemma sentStream_eq:
  assumes "maxPayloadSize \<noteq> 0" "\<not> s_unordered s" "\<And>i. length (fst (msgs i)) < 2 ^ 31"
  shows "sentStream maxPayloadSize msgs s i =
    Some (s\<lparr>sequenceNumber := sequenceNumber s + of_nat i, bufferedAmount := bufferedAmount s + (\<Sum>j<i. of_nat (length (fst (msgs j))))\<rparr>)"
proof (induction i)
  case (Suc i)
  let ?m = "unat maxPayloadSize"
  have m: "0 < ?m" "?m < 2 ^ 32" "of_nat ?m = maxPayloadSize"
    using assms(1) unsigned_less [of maxPayloadSize] by (simp_all add: unat_gt_0)
  have len: "length (fst (msgs i)) < 2 ^ 32" using assms(3) [of i] by simp
  show ?case
    using packetize_eq [OF m(1,2) len, where ui = False and unord = False, unfolded m(3)] assms(2)
    by (simp add: Suc takeMID_def afterWrite_def add.assoc)
qed simp

lemma sentFragments_eq:
  assumes "maxPayloadSize \<noteq> 0" "\<not> s_unordered s" "\<And>i. length (fst (msgs i)) < 2 ^ 31"
  shows "\<exists>t. s_streamIdentifier t = s_streamIdentifier s \<and> sequenceNumber t = sequenceNumber s + of_nat i \<and>
    sentFragments maxPayloadSize msgs s i =
      map (nthFragment t False False (snd (msgs i)) 0 (unat maxPayloadSize) (fst (msgs i)) 0)
        [0..<fragCount (unat maxPayloadSize) (length (fst (msgs i)))]"
proof -
  let ?m = "unat maxPayloadSize"
  have m: "0 < ?m" "?m < 2 ^ 32" "of_nat ?m = maxPayloadSize"
    using assms(1) unsigned_less [of maxPayloadSize] by (simp_all add: unat_gt_0)
  have len: "length (fst (msgs i)) < 2 ^ 32" using assms(3) [of i] by simp
  obtain t where t: "sentStream maxPayloadSize msgs s i = Some t" "s_streamIdentifier t = s_streamIdentifier s"
      "sequenceNumber t = sequenceNumber s + of_nat i" "\<not> s_unordered t"
    using sentStream_eq [OF assms] assms(2) by simp
  then show ?thesis
    using packetize_eq [OF m(1,2) len, where ui = False and unord = False and s = t, unfolded m(3)]
    by (intro exI [of _ t]) (simp add: sentFragments_def takeMID_def currentMID_def)
qed

lemma fragCount_le: "0 < m \<Longrightarrow> fragCount m n \<le> n"
  using fragCount_iff [of m n n] by (cases "n < fragCount m n") auto

lemma wireFragments_message:
  assumes "maxPayloadSize \<noteq> 0" "\<not> s_unordered s" "\<And>i. length (fst (msgs i)) < 2 ^ 31" "0 < length (fst (msgs i))" "sequenceNumber s = 0"
  shows "orderedMessage (s_streamIdentifier s) i (wireFragments maxPayloadSize msgs first s i)"
    "payload (wireFragments maxPayloadSize msgs first s i) = msgs i"
proof -
  let ?m = "unat maxPayloadSize" and ?raw = "fst (msgs i)"
  let ?n = "fragCount ?m (length ?raw)"
  obtain t where t: "s_streamIdentifier t = s_streamIdentifier s" "sequenceNumber t = of_nat i"
    and cs: "sentFragments maxPayloadSize msgs s i = map (nthFragment t False False (snd (msgs i)) 0 ?m ?raw 0) [0..<?n]"
    using sentFragments_eq [OF assms(1-3)] assms(5) by fastforce
  let ?c = "\<lambda>j. (nthFragment t False False (snd (msgs i)) 0 ?m ?raw 0 j)\<lparr>tsn := first i + of_nat j\<rparr>"
  have wire: "wireFragments maxPayloadSize msgs first s i = map (\<lambda>j. payload_received (?c j)) [0..<?n]"
    by (simp add: wireFragments_def cs)
  have m: "0 < ?m" using assms(1) by (simp add: unat_gt_0)
  have len: "length ?raw < 2 ^ 32" using assms(3) [of i] by simp
  note data = nthFragment_data [OF m len]
  have n: "0 < ?n" "?n < 2 ^ 31" using fragCount_iff [OF m, of 0] fragCount_le [OF m, of "length ?raw"] assms(3) [of i] assms(4) by simp_all
  have bytes: "concat (map UserData (wireFragments maxPayloadSize msgs first s i)) = ?raw"
    using fragments_concat [OF m len, of t False False "snd (msgs i)" 0 0] by (simp add: wire o_def payload_received_data)
  then show "orderedMessage (s_streamIdentifier s) i (wireFragments maxPayloadSize msgs first s i)"
    unfolding orderedMessage_def using n len t data by (simp add: wire payload_received_data)
  show "payload (wireFragments maxPayloadSize msgs first s i) = msgs i"
    unfolding payload_def bytes using n by (simp add: wire payload_received_data)
qed


text \<open>The receiving stream: arrivals of fragments and reads, with what the reads return.\<close>

fun streamRun :: "(nat \<Rightarrow> chunkPayloadData list) \<Rightarrow> raCall list \<Rightarrow> stream \<Rightarrow> (bytes \<times> u32) list \<times> stream" where
  "streamRun frags [] s = ([], s)"
| "streamRun frags (Arrive i j # calls) s = streamRun frags calls (snd (snd (s_handleData (frags i ! j) s)))"
| "streamRun frags (ReadInto dst # calls) s =
     (case ReadSCTP dst s of
        (Some (n, ppi, None, dst'), s', _) \<Rightarrow> (case streamRun frags calls s' of (out, s'') \<Rightarrow> ((take n dst', ppi) # out, s''))
      | (_, s', _) \<Rightarrow> streamRun frags calls s')"

lemma s_handleData_queue: "snd (snd (s_handleData pd s)) = s\<lparr>s_reassemblyQueue := snd (pushWithError pd (s_reassemblyQueue s))\<rparr>"
  by (simp add: s_handleData_def split: prod.splits sum.splits)

lemma ReadSCTP_cases:
  assumes "readErr s = None" "ra_read dst (s_reassemblyQueue s) = (n, ppi, err, dst', r)"
  shows "ReadSCTP dst s =
    (if err = None \<or> err = Some ErrShortBuffer then Some (n, ppi, err, dst') else None, s\<lparr>s_reassemblyQueue := r\<rparr>, None)"
  using assms by (simp add: ReadSCTP_def Let_def)

lemma streamRun_queue:
  assumes "readErr s = None"
  shows "streamRun frags calls s =
    (fst (ra_run frags calls (s_reassemblyQueue s)), s\<lparr>s_reassemblyQueue := snd (ra_run frags calls (s_reassemblyQueue s))\<rparr>)"
  using assms
proof (induction calls arbitrary: s)
  case (Cons call calls)
  show ?case
  proof (cases call)
    case (Arrive i j)
    then show ?thesis using Cons by (simp add: s_handleData_queue)
  next
    case (ReadInto dst)
    obtain n ppi err dst' r where read: "ra_read dst (s_reassemblyQueue s) = (n, ppi, err, dst', r)"
      by (cases "ra_read dst (s_reassemblyQueue s)") auto
    have IH: "streamRun frags calls (s\<lparr>s_reassemblyQueue := r\<rparr>) =
        (fst (ra_run frags calls r), s\<lparr>s_reassemblyQueue := snd (ra_run frags calls r)\<rparr>)"
      using Cons by simp
    show ?thesis
      using read ReadSCTP_cases [OF Cons.prems read] by (cases err) (simp_all add: ReadInto IH split: prod.splits)
  qed
qed simp

text \<open>
  C7: What is written on an ordered stream is read by the peer. The messages of the sender are cut
  into fragments and numbered by \<open>packetize\<close>; whatever the order in which the fragments arrive and
  however the reads of the peer interleave with them, the reads return exactly the messages, whole and
  in the order of the writes, with their payload types. The next message can be read as soon as all its
  fragments have arrived.
\<close>

theorem write_read_roundtrip:
  assumes "maxPayloadSize \<noteq> 0" "\<not> s_unordered s" "sequenceNumber s = 0"
    and "\<And>i. 0 < length (fst (msgs i)) \<and> length (fst (msgs i)) < 2 ^ 31"
    and "arrivalsOK (wireFragments maxPayloadSize msgs first s) calls 0 (\<lambda>_. {})"
  shows "\<exists>n t. streamRun (wireFragments maxPayloadSize msgs first s) calls (newStream (s_streamIdentifier s)) = (map msgs [0..<n], t) \<and>
    isReadable (s_reassemblyQueue t) = (arrived calls n = {..<length (wireFragments maxPayloadSize msgs first s n)})"
proof -
  let ?frags = "wireFragments maxPayloadSize msgs first s" and ?sid = "s_streamIdentifier s"
  have len: "length (fst (msgs i)) < 2 ^ 31" "0 < length (fst (msgs i))" for i using assms(4) by simp_all
  note msg = wireFragments_message [where first = first, OF assms(1,2) len(1,2) assms(3)]
  obtain n r where run: "ra_run ?frags calls (newReassemblyQueue ?sid) = (map (\<lambda>i. payload (?frags i)) [0..<n], r)"
    and models: "ra_models ?frags ?sid n (\<lambda>i. {} \<union> arrived calls i) r"
    using run_models [OF msg(1) new_models assms(5)] by blast
  have "isReadable r = (arrived calls n = {..<length (?frags n)})"
    using read_models(1) [OF msg(1) models] by (simp only: Un_empty_left)
  moreover have "map (\<lambda>i. payload (?frags i)) [0..<n] = map msgs [0..<n]" using msg(2) by simp
  moreover have "streamRun ?frags calls (newStream ?sid) =
      (map (\<lambda>i. payload (?frags i)) [0..<n], (newStream ?sid)\<lparr>s_reassemblyQueue := r\<rparr>)"
    using streamRun_queue [of "newStream ?sid" ?frags calls] run by (simp add: newStream_def)
  ultimately show ?thesis by (intro exI [of _ n] exI [of _ "(newStream ?sid)\<lparr>s_reassemblyQueue := r\<rparr>"]) simp
qed

text \<open>Two six-byte messages in fragments of four bytes, the fragments out of order.\<close>

definition sixBytes :: "nat \<Rightarrow> bytes \<times> u32" where
  "sixBytes i = ([1, 2, 3, 4, 5, of_nat i], 53)"

definition shuffledCalls :: "raCall list" where
  "shuffledCalls = [Arrive 1 0, Arrive 0 1, ReadInto (replicate 8 0), Arrive 0 0, ReadInto (replicate 8 0), Arrive 1 1, ReadInto (replicate 8 0)]"

lemma sixBytes_count: "length (wireFragments 4 sixBytes first (newStream 9) i) = 2"
  using sentFragments_eq [of 4 "newStream 9" sixBytes i] by (auto simp: wireFragments_def newStream_def sixBytes_def fragCount_def)

lemma shuffled_ok: "arrivalsOK (wireFragments 4 sixBytes (\<lambda>i. 2 * of_nat i) (newStream 9)) shuffledCalls 0 (\<lambda>_. {})"
  by (simp add: shuffledCalls_def nextRead_def sixBytes_count)

theorem write_read_roundtrip_witness:
  "\<exists>n t. streamRun (wireFragments 4 sixBytes (\<lambda>i. 2 * of_nat i) (newStream 9)) shuffledCalls (newStream 9) = (map sixBytes [0..<n], t)"
  using write_read_roundtrip [OF _ _ _ _ shuffled_ok] by (auto simp: newStream_def sixBytes_def)


section \<open>Empty messages\<close>

text \<open>
  The queue waits for the message with number \<open>k\<close>: it has none of its fragments, whatever it holds is
  of later messages, and no unordered message is ready.
\<close>

definition waitsFor :: "u16 \<Rightarrow> reassemblyQueue \<Rightarrow> bool" where
  "waitsFor k r \<longleftrightarrow> \<not> ra_useInterleaving r \<and> nextSSN r = k \<and> unorderedSets r = [] \<and> list_all (\<lambda>cs. sna16GT (cs_ssn cs) k) (orderedSets r)"

lemma waitsFor_read: "waitsFor k r \<Longrightarrow> ra_read dst r = (0, 0, Some errTryAgain, dst, r)"
  by (auto simp: waitsFor_def ra_read_def readData_def Let_def split: list.splits)

lemma set_insertRight: "set (insertRight lt xs x) = insert x (set xs)"
proof -
  have "set (dropWhile P (rev xs)) \<union> set (takeWhile P (rev xs)) = set xs" for P
    by (metis set_append takeWhile_dropWhile_id set_rev Un_commute)
  then show ?thesis by (simp add: insertRight_def)
qed

lemma set_sortSlice: "set (sortSlice lt xs) = set xs"
  by (induction xs rule: rev_induct) (simp_all add: sortSlice_def set_insertRight)

lemma waitsFor_sets:
  "waitsFor k r \<Longrightarrow> list_all (\<lambda>cs. sna16GT (cs_ssn cs) k) sets \<Longrightarrow> waitsFor k (addNumBytes c (r\<lparr>orderedSets := sets\<rparr>))"
  by (simp add: waitsFor_def addNumBytes_def)

lemma cs_push_ssn: "cs_ssn (snd (cs_push c cs)) = cs_ssn cs"
  by (simp add: cs_push_def Let_def)

lemma findFragmented_index: "findFragmented ssn n sets = Inr (Some i) \<Longrightarrow> n \<le> i \<and> i < n + length sets \<and> cs_ssn (sets ! (i - n)) = ssn"
proof (induction ssn n sets rule: findFragmented.induct)
  case (2 ssn n cs sets)
  then show ?case by (cases "i = n") (auto split: if_splits list.splits simp: nth_Cons')
qed simp

text \<open>A fragment of any other ordered message changes nothing of that: it is dropped as old or kept for later.\<close>

lemma waitsFor_push:
  assumes "waitsFor k r" "\<not> isIData c" "\<not> unordered c" "streamSequenceNumber c \<noteq> k"
  shows "waitsFor k (snd (pushWithError c r))"
proof -
  let ?ssn = "streamSequenceNumber c"
  have sets: "list_all (\<lambda>cs. sna16GT (cs_ssn cs) k) (orderedSets r)" and ssn: "nextSSN r = k"
    using assms(1) by (simp_all add: waitsFor_def)
  have "waitsFor k (snd (pushOrdered c r))"
  proof (cases "sna16LT ?ssn k")
    case True
    then show ?thesis using assms(1) ssn by (simp add: pushOrdered_def)
  next
    case False
    then have later: "sna16GT ?ssn k" using assms(4) by (simp add: sna16_cmp(3) sna16LTE_def)
    have new: "list_all (\<lambda>cs. sna16GT (cs_ssn cs) k) (sortChunksBySSN (orderedSets r @ [snd (cs_push c (newChunkSet ?ssn ppi))]))" for ppi
      using sets later by (simp add: list_all_iff sortChunksBySSN_def set_sortSlice cs_push_ssn newChunkSet_def)
    have old: "list_all (\<lambda>cs. sna16GT (cs_ssn cs) k) ((orderedSets r)[i := snd (cs_push c (orderedSets r ! i))])"
      if "findFragmented ?ssn 0 (orderedSets r) = Inr (Some i)" for i
      using sets later findFragmented_index [OF that] by (auto simp: list_all_length nth_list_update cs_push_ssn)
    show ?thesis
      using False ssn assms(1) new old
      by (auto simp: pushOrdered_def case_prod_beta split: sum.splits option.splits if_splits intro!: waitsFor_sets)
  qed
  then show ?thesis using assms by (simp add: pushWithError_def)
qed

text \<open>Arrivals of fragments of the next 65535 messages, in any order and any number of times.\<close>

definition laterArrivals :: "(nat \<Rightarrow> chunkPayloadData list) \<Rightarrow> raCall list \<Rightarrow> bool" where
  "laterArrivals frags calls \<longleftrightarrow>
     list_all (\<lambda>call. case call of Arrive i j \<Rightarrow> 0 < i \<and> i < 65536 \<and> j < length (frags i) | ReadInto dst \<Rightarrow> True) calls"

lemma waitsFor_run:
  assumes "waitsFor k r" "laterArrivals frags calls"
    and "\<forall>i j. 0 < i \<and> i < 65536 \<and> j < length (frags i) \<longrightarrow>
      \<not> isIData (frags i ! j) \<and> \<not> unordered (frags i ! j) \<and> streamSequenceNumber (frags i ! j) \<noteq> k"
  shows "fst (ra_run frags calls r) = [] \<and> waitsFor k (snd (ra_run frags calls r))"
  using assms(1,2)
proof (induction calls arbitrary: r)
  case (Cons call calls)
  have rest: "laterArrivals frags calls" using Cons.prems(2) by (simp add: laterArrivals_def)
  show ?case
  proof (cases call)
    case (Arrive i j)
    then have "waitsFor k (snd (pushWithError (frags i ! j) r))"
      using waitsFor_push [OF Cons.prems(1)] Cons.prems(2) assms(3) by (simp add: laterArrivals_def)
    then show ?thesis using Cons.IH rest Arrive by simp
  next
    case (ReadInto dst)
    then show ?thesis using Cons.IH [OF Cons.prems(1) rest] waitsFor_read [OF Cons.prems(1)] by simp
  qed
qed simp

lemma wireFragments_number:
  assumes "maxPayloadSize \<noteq> 0" "\<not> s_unordered s" "\<And>i. length (fst (msgs i)) < 2 ^ 31" "j < length (wireFragments maxPayloadSize msgs first s i)"
  shows "\<not> isIData (wireFragments maxPayloadSize msgs first s i ! j)" "\<not> unordered (wireFragments maxPayloadSize msgs first s i ! j)"
    "streamSequenceNumber (wireFragments maxPayloadSize msgs first s i ! j) = sequenceNumber s + of_nat i"
proof -
  obtain t where t: "sequenceNumber t = sequenceNumber s + of_nat i"
    and cs: "sentFragments maxPayloadSize msgs s i = map (nthFragment t False False (snd (msgs i)) 0 (unat maxPayloadSize) (fst (msgs i)) 0)
        [0..<fragCount (unat maxPayloadSize) (length (fst (msgs i)))]"
    using sentFragments_eq [where msgs = msgs and i = i, OF assms(1-3)] by blast
  define c where "c = (nthFragment t False False (snd (msgs i)) 0 (unat maxPayloadSize) (fst (msgs i)) 0 j)\<lparr>tsn := first i + of_nat j\<rparr>"
  have c: "\<not> isIData c" "\<not> unordered c" "streamSequenceNumber c = sequenceNumber s + of_nat i"
    unfolding c_def nthFragment_def fragment_def isIData_def using t by simp_all
  have "wireFragments maxPayloadSize msgs first s i ! j = payload_received c"
    using assms(4) by (simp add: wireFragments_def cs Let_def c_def)
  then show "\<not> isIData (wireFragments maxPayloadSize msgs first s i ! j)" "\<not> unordered (wireFragments maxPayloadSize msgs first s i ! j)"
    "streamSequenceNumber (wireFragments maxPayloadSize msgs first s i ! j) = sequenceNumber s + of_nat i"
    using c payload_received_data [OF c(1)] by simp_all
qed


definition emptyThenByte :: "nat \<Rightarrow> bytes \<times> u32" where
  "emptyThenByte i = (if i = 0 then [] else [of_nat i], 53)"

lemma emptyThenByte_count: "0 < i \<Longrightarrow> length (wireFragments 4 emptyThenByte first (newStream 9) i) = 1"
proof -
  assume i: "0 < i"
  have "length (fst (emptyThenByte i)) < 2 ^ 31" for i by (simp add: emptyThenByte_def)
  with i show ?thesis
    using sentFragments_eq [of 4 "newStream 9" emptyThenByte i]
    by (auto simp: wireFragments_def newStream_def emptyThenByte_def fragCount_def Let_def)
qed



section \<open>Buffered bytes\<close>

text \<open>A refused write leaves the stream as it was, also at the wrap of the counters.\<close>

lemma undoWrite_afterWrite: "undoWrite ui unord n (afterWrite ui unord n s) = s"
  by (simp add: undoWrite_def afterWrite_def takeMID_def Let_def)

lemma onBufferReleased_callback:
  assumes "0 < n" "n < 2 ^ 64"
  shows "fst (onBufferReleased n s) =
    (if bufferedAmountLow s < bufferedAmount s \<and> uint (bufferedAmount s) - n \<le> uint (bufferedAmountLow s) then onBufferedAmountLow s else None)"
    "uint (bufferedAmount (snd (onBufferReleased n s))) = max 0 (uint (bufferedAmount s) - n)"
proof -
  have n: "uint (word_of_int n :: u64) = n" using assms by (simp add: uint_word_of_int)
  have amount: "bufferedAmount (snd (onBufferReleased n s)) =
      (if bufferedAmount s < word_of_int n then 0 else bufferedAmount s - word_of_int n)"
    using assms(1) by (simp add: onBufferReleased_def Let_def)
  then show new: "uint (bufferedAmount (snd (onBufferReleased n s))) = max 0 (uint (bufferedAmount s) - n)"
    using n by (auto simp: word_less_alt uint_sub_if')
  have "bufferedAmount (snd (onBufferReleased n s)) \<le> bufferedAmountLow s \<longleftrightarrow> uint (bufferedAmount s) - n \<le> uint (bufferedAmountLow s)"
    unfolding word_le_def new by auto
  then show "fst (onBufferReleased n s) =
    (if bufferedAmountLow s < bufferedAmount s \<and> uint (bufferedAmount s) - n \<le> uint (bufferedAmountLow s) then onBufferedAmountLow s else None)"
    using assms(1) by (auto simp: onBufferReleased_def Let_def)
qed

section \<open>Read deadlines\<close>

text \<open>
  The invariant: channels are numbered below the counter; a goroutine in its \<^verbatim>\<open>select\<close> with an open
  channel is the only one for this channel, which is the current one, and has the deadline asked for
  last; while a goroutine waits for the lock the deadline has passed and all other channels are closed.
\<close>

definition deadline_inv :: "streamSys \<Rightarrow> bool" where
  "deadline_inv y \<longleftrightarrow>
     (\<forall>ch d. Selecting ch d \<in># ss_routines y \<longrightarrow> ch < ss_channels y \<and> Multiset.count (ss_routines y) (Selecting ch d) \<le> 1 \<and>
        (ch \<notin> ss_closed y \<longrightarrow> ss_deadline y = Some d \<and> readTimeoutCancel (ss_stream y) = Some ch)) \<and>
     (\<forall>ch. Locking ch \<in># ss_routines y \<longrightarrow> (\<exists>d. ss_deadline y = Some d \<and> d \<le> ss_now y) \<and>
        (\<forall>ch d. Selecting ch d \<in># ss_routines y \<longrightarrow> ch \<in> ss_closed y)) \<and>
     (readErr (ss_stream y) = Some ErrReadDeadlineExceeded \<longrightarrow> (\<exists>d. ss_deadline y = Some d \<and> d \<le> ss_now y))"

lemma deadline_inv_set:
  assumes inv: "deadline_inv y" and quiet: "noneLocking y"
  shows "deadline_inv (SetReadDeadline deadline y)"
proof -
  have sel: "ch < ss_channels y \<and> Multiset.count (ss_routines y) (Selecting ch d) \<le> 1 \<and>
      (ch \<notin> ss_closed y \<longrightarrow> readTimeoutCancel (ss_stream y) = Some ch)" if "Selecting ch d \<in># ss_routines y" for ch d
    using inv that by (simp add: deadline_inv_def)
  have fresh: "Selecting (ss_channels y) d \<notin># ss_routines y" for d using sel by blast
  then have "Multiset.count (ss_routines y) (Selecting (ss_channels y) d) = 0" for d by (simp add: not_in_iff)
  with sel fresh quiet show ?thesis
    by (cases deadline) (auto simp: deadline_inv_def SetReadDeadline_def closeChan_def Let_def noneLocking_def dest!: sel split: if_splits)
qed

lemma deadline_inv_less:
  assumes "deadline_inv y" "M \<subseteq># ss_routines y"
  shows "deadline_inv (y\<lparr>ss_routines := M\<rparr>)"
proof -
  have "r \<in># ss_routines y" if "r \<in># M" for r using assms(2) that by (rule mset_subset_eqD)
  moreover have "Multiset.count M r \<le> Multiset.count (ss_routines y) r" for r using assms(2) by (simp add: subseteq_mset_def)
  ultimately show ?thesis using assms(1) unfolding deadline_inv_def by (simp, meson le_trans)
qed

lemma deadline_inv_expired:
  assumes inv: "deadline_inv y" and r: "Selecting ch d \<in># ss_routines y" "d \<le> ss_now y" "ch \<notin> ss_closed y"
  shows "deadline_inv (y\<lparr>ss_routines := ss_routines y - {#Selecting ch d#} + {#Locking ch#}\<rparr>)"
proof -
  let ?z = "y\<lparr>ss_routines := ss_routines y - {#Selecting ch d#}\<rparr>"
  have less: "deadline_inv ?z" using deadline_inv_less [OF inv] by simp
  have deadline: "ss_deadline y = Some d" and once: "Multiset.count (ss_routines y) (Selecting ch d) \<le> 1" and current: "readTimeoutCancel (ss_stream y) = Some ch"
    using inv r by (auto simp: deadline_inv_def)
  have gone: "Selecting ch d \<notin># ss_routines ?z" using once by (simp add: not_in_iff)
  have closed: "ch' \<in> ss_closed y" if "Selecting ch' d' \<in># ss_routines ?z" for ch' d'
  proof (rule ccontr)
    assume "ch' \<notin> ss_closed y"
    then have "ss_deadline y = Some d'" "readTimeoutCancel (ss_stream y) = Some ch'"
      using less that by (simp_all add: deadline_inv_def)
    then show False using that gone deadline current by simp
  qed
  show ?thesis using less closed deadline r(2) unfolding deadline_inv_def by simp
qed

lemma deadline_inv_fires:
  assumes inv: "deadline_inv y" and r: "Locking ch \<in># ss_routines y"
  shows "deadline_inv (y\<lparr>ss_stream := deadlineFires (ss_stream y), ss_routines := ss_routines y - {#Locking ch#}\<rparr>)"
proof -
  have "deadline_inv (y\<lparr>ss_routines := ss_routines y - {#Locking ch#}\<rparr>)" using deadline_inv_less [OF inv] by simp
  moreover have "\<exists>d. ss_deadline y = Some d \<and> d \<le> ss_now y"
      "cha \<in> ss_closed y" if "Selecting cha d \<in># ss_routines y - {#Locking ch#}" for cha d
    using inv r in_diffD [OF that] by (auto simp: deadline_inv_def)
  moreover have "\<exists>d. ss_deadline y = Some d \<and> d \<le> ss_now y" using inv r by (auto simp: deadline_inv_def)
  ultimately show ?thesis unfolding deadline_inv_def by (simp add: deadlineFires_def)
qed

lemma deadline_inv_read: "deadline_inv y \<Longrightarrow> deadline_inv (ss_read p y)"
  by (auto simp: deadline_inv_def ss_read_def ReadSCTP_def closeChan_def Let_def split: prod.splits if_splits)

lemma deadline_inv_clock: "deadline_inv y \<Longrightarrow> ss_now y \<le> now \<Longrightarrow> deadline_inv (y\<lparr>ss_now := now\<rparr>)"
  unfolding deadline_inv_def by (simp, meson order_trans)

lemma deadline_inv_stream:
  "\<lbrakk>deadline_inv y; readTimeoutCancel s = readTimeoutCancel (ss_stream y);
    readErr s = readErr (ss_stream y) \<or> readErr s = Some EOF\<rbrakk> \<Longrightarrow> deadline_inv (y\<lparr>ss_stream := s\<rparr>)"
  by (auto simp: deadline_inv_def EOF_def ErrReadDeadlineExceeded_def)

lemma deadline_inv_step: "stream_step racy y z \<Longrightarrow> \<not> racy \<Longrightarrow> deadline_inv y \<Longrightarrow> deadline_inv z"
proof (induction rule: stream_step.induct)
  case (data racy y pd)
  then show ?case by (intro deadline_inv_stream) (simp_all add: s_handleData_queue)
next
  case (reset racy y)
  then show ?case by (intro deadline_inv_stream) (simp_all add: onInboundStreamReset_def)
next
  case (cancelled ch d y racy)
  then show ?case by (intro deadline_inv_less) simp_all
next
  case (expired ch d y racy)
  then show ?case by (intro deadline_inv_expired)
qed (simp_all add: deadline_inv_set deadline_inv_read deadline_inv_clock deadline_inv_fires)

lemma deadline_inv_reachable: "(stream_step False)\<^sup>*\<^sup>* (newStreamSys sid now) y \<Longrightarrow> deadline_inv y"
proof (induction rule: rtranclp_induct)
  case base
  show ?case by (simp add: deadline_inv_def newStreamSys_def newStream_def)
qed (simp add: deadline_inv_step)

text \<open>A deadline at time 5 expires at time 7, and the goroutine gets as far as the lock.\<close>

definition expiredDeadline :: streamSys where
  "expiredDeadline = (SetReadDeadline (Some 5) (newStreamSys 1 0))\<lparr>ss_now := 7, ss_routines := {#Locking 0#}\<rparr>"

lemma expiredDeadline_reachable: "(stream_step racy)\<^sup>*\<^sup>* (newStreamSys 1 0) expiredDeadline"
proof -
  let ?y = "SetReadDeadline (Some 5) (newStreamSys 1 0)"
  have y: "ss_routines ?y = {#Selecting 0 5#}" "ss_closed ?y = {}" "ss_now ?y = 0"
    by (simp_all add: SetReadDeadline_def newStreamSys_def newStream_def closeChan_def)
  have "stream_step racy (newStreamSys 1 0) ?y" by (rule call_set) (simp add: noneLocking_def newStreamSys_def)
  moreover have "stream_step racy ?y (?y\<lparr>ss_now := 7\<rparr>)" using y by (intro clock) simp
  moreover have "stream_step racy (?y\<lparr>ss_now := 7\<rparr>) expiredDeadline"
    using expired [of 0 5 "?y\<lparr>ss_now := 7\<rparr>" racy] y by (simp add: expiredDeadline_def)
  ultimately show ?thesis by (meson rtranclp.rtrancl_into_rtrancl rtranclp.rtrancl_refl)
qed

lemma expiredDeadline_fires:
  "stream_step racy expiredDeadline (expiredDeadline\<lparr>ss_stream := deadlineFires (ss_stream expiredDeadline), ss_routines := {#}\<rparr>)"
  using fires [of 0 expiredDeadline racy] by (simp add: expiredDeadline_def)


text \<open>
  C39: Read deadlines. When no deadline is set while the goroutine of an expired one waits for the lock,
  reads only fail with ErrReadDeadlineExceeded after the deadline that was asked for last. Without this
  proviso they can fail although the deadline was removed: the goroutine tests its channel before it
  takes the lock and not again afterwards, so it reports the timeout of a deadline that is no longer
  valid.
\<close>

theorem read_deadline_race:
  "(\<forall>y. (stream_step False)\<^sup>*\<^sup>* (newStreamSys sid now) y \<and> readErr (ss_stream y) = Some ErrReadDeadlineExceeded \<longrightarrow>
      (\<exists>d. ss_deadline y = Some d \<and> d \<le> ss_now y)) \<and>
   (\<exists>y. (stream_step True)\<^sup>*\<^sup>* (newStreamSys 1 0) y \<and> ss_deadline y = None \<and> readErr (ss_stream y) = Some ErrReadDeadlineExceeded \<and>
      fst (ReadSCTP [0] (ss_stream y)) = Some (0, 0, Some ErrReadDeadlineExceeded, [0]))"
proof
  show "\<forall>y. (stream_step False)\<^sup>*\<^sup>* (newStreamSys sid now) y \<and> readErr (ss_stream y) = Some ErrReadDeadlineExceeded \<longrightarrow>
      (\<exists>d. ss_deadline y = Some d \<and> d \<le> ss_now y)"
    using deadline_inv_reachable by (auto simp: deadline_inv_def)
  let ?y = "SetReadDeadline None expiredDeadline"
  let ?z = "?y\<lparr>ss_stream := deadlineFires (ss_stream ?y), ss_routines := ss_routines ?y - {#Locking 0#}\<rparr>"
  have "stream_step True expiredDeadline ?y" by (rule call_set) simp
  moreover have "stream_step True ?y ?z"
    by (rule fires) (simp add: expiredDeadline_def SetReadDeadline_def closeChan_def newStreamSys_def newStream_def Let_def)
  ultimately have "(stream_step True)\<^sup>*\<^sup>* (newStreamSys 1 0) ?z"
    using expiredDeadline_reachable [of True] by (meson rtranclp.rtrancl_into_rtrancl)
  moreover have "ss_deadline ?z = None \<and> readErr (ss_stream ?z) = Some ErrReadDeadlineExceeded \<and>
      fst (ReadSCTP [0] (ss_stream ?z)) = Some (0, 0, Some ErrReadDeadlineExceeded, [0])"
    by (simp add: expiredDeadline_def SetReadDeadline_def closeChan_def newStreamSys_def newStream_def Let_def deadlineFires_def
        ReadSCTP_def ra_read_def readData_def newReassemblyQueue_def errTryAgain_def ErrShortBuffer_def)
  ultimately show "\<exists>y. (stream_step True)\<^sup>*\<^sup>* (newStreamSys 1 0) y \<and> ss_deadline y = None \<and>
      readErr (ss_stream y) = Some ErrReadDeadlineExceeded \<and>
      fst (ReadSCTP [0] (ss_stream y)) = Some (0, 0, Some ErrReadDeadlineExceeded, [0])" by blast
qed

theorem read_deadline_race_witness:
  "\<exists>y d. (stream_step False)\<^sup>*\<^sup>* (newStreamSys 1 0) y \<and> readErr (ss_stream y) = Some ErrReadDeadlineExceeded \<and>
     ss_deadline y = Some d \<and> d \<le> ss_now y"
proof -
  let ?y = "expiredDeadline\<lparr>ss_stream := deadlineFires (ss_stream expiredDeadline), ss_routines := {#}\<rparr>"
  have "(stream_step False)\<^sup>*\<^sup>* (newStreamSys 1 0) ?y"
    using expiredDeadline_reachable expiredDeadline_fires by (meson rtranclp.rtrancl_into_rtrancl)
  moreover have "readErr (ss_stream ?y) = Some ErrReadDeadlineExceeded"
    by (simp add: expiredDeadline_def deadlineFires_def SetReadDeadline_def closeChan_def newStreamSys_def newStream_def Let_def)
  ultimately show ?thesis using read_deadline_race [of 1 0] by blast
qed

end
