(* ===== verification/Timers.thy ===== *)
theory Timers
  imports PendingQueue "HOL-Library.Multiset"
begin

text \<open>
  The timers of an association: the retransmission timeout and the retransmission timer
  (\<^verbatim>\<open>rtx_timer.go\<close>) and the timer of delayed acknowledgements (\<^verbatim>\<open>ack_timer.go\<close>). A runtime timer that
  expires starts a goroutine which waits for the mutex of its timer; meanwhile the timer can be
  stopped and started again, and the counter \<^verbatim>\<open>pending\<close> tells an outdated goroutine from the current one.
  What the goroutine decides under the mutex it does after it has released it: the call of the observer
  is deferred. The step relation interleaves the calls with the expiry of the runtime timer, with the
  decisions of these goroutines and with the calls they have decided on. Times are nanoseconds, timeouts
  are \<^verbatim>\<open>float64\<close> milliseconds.
\<close>

section \<open>The retransmission timeout\<close>

abbreviation rtoInitial :: rat where "rtoInitial \<equiv> 1000"
abbreviation rtoMin :: rat where "rtoMin \<equiv> 1000"
abbreviation defaultRTOMax :: rat where "defaultRTOMax \<equiv> 60000"
abbreviation rtoAlpha :: rat where "rtoAlpha \<equiv> 1 / 8"
abbreviation rtoBeta :: rat where "rtoBeta \<equiv> 1 / 4"
abbreviation maxInitRetrans :: u64 where "maxInitRetrans \<equiv> 8"
abbreviation noMaxRetrans :: u64 where "noMaxRetrans \<equiv> 0"

record rtoManager =
  rm_srtt :: rat
  rm_rttvar :: rat
  rm_rto :: rat
  rm_noUpdate :: bool
  rm_rtoMax :: rat

definition newRTOManager :: "rat \<Rightarrow> rtoManager" where
  "newRTOManager rtoMax =
     \<lparr>rm_srtt = 0, rm_rttvar = 0, rm_rto = rtoInitial, rm_noUpdate = False,
      rm_rtoMax = (if rtoMax = 0 then defaultRTOMax else rtoMax)\<rparr>"

text \<open>Every operation is rounded; the sign does not matter for the rounding of a difference.\<close>

definition setNewRTT :: "rat \<Rightarrow> rtoManager \<Rightarrow> rat \<times> rtoManager" where
  "setNewRTT rtt m =
     (if rm_noUpdate m then (rm_srtt m, m)
      else
        (let (srtt, rttvar) =
           (if rm_srtt m = 0 then (rtt, float64 (rtt / 2))
            else (float64 (float64 ((1 - rtoAlpha) * rm_srtt m) + float64 (rtoAlpha * rtt)),
                  float64 (float64 ((1 - rtoBeta) * rm_rttvar m) + float64 (rtoBeta * float64 \<bar>rm_srtt m - rtt\<bar>))))
         in (srtt, m\<lparr>rm_srtt := srtt, rm_rttvar := rttvar,
                     rm_rto := min (max (float64 (srtt + float64 (4 * rttvar))) rtoMin) (rm_rtoMax m)\<rparr>)))"

definition getRTO :: "rtoManager \<Rightarrow> rat" where
  "getRTO m = rm_rto m"

definition rm_reset :: "rtoManager \<Rightarrow> rtoManager" where
  "rm_reset m = (if rm_noUpdate m then m else m\<lparr>rm_srtt := 0, rm_rttvar := 0, rm_rto := rtoInitial\<rparr>)"

definition setRTO :: "rat \<Rightarrow> bool \<Rightarrow> rtoManager \<Rightarrow> rtoManager" where
  "setRTO rto noUpdate m = m\<lparr>rm_rto := rto, rm_noUpdate := noUpdate\<rparr>"

lemma setNewRTT_bounds:
  assumes "rtoMin \<le> rm_rtoMax m" "rtoMin \<le> rm_rto m" "rm_rto m \<le> rm_rtoMax m"
  shows "rtoMin \<le> rm_rto (snd (setNewRTT rtt m)) \<and> rm_rto (snd (setNewRTT rtt m)) \<le> rm_rtoMax m \<and>
    rm_rtoMax (snd (setNewRTT rtt m)) = rm_rtoMax m"
  using assms by (simp add: setNewRTT_def Let_def)

section \<open>The retransmission timer\<close>

datatype rtxTimerState = rtxTimerStopped | rtxTimerStarted | rtxTimerClosed

text \<open>\<open>rt_timer\<close> is the expiry of the runtime timer while it is armed.\<close>

record rtxTimer =
  rt_timer :: "int option"
  rt_id :: nat
  rt_maxRetrans :: u64
  rt_rtoMax :: rat
  rt_rto :: rat
  rt_nRtos :: u64
  rt_state :: rtxTimerState
  rt_pending :: byte

datatype rtxCallback = onRetransmissionTimeout nat u64 | onRetransmissionFailure nat

definition newRTXTimer :: "nat \<Rightarrow> u64 \<Rightarrow> rat \<Rightarrow> rtxTimer" where
  "newRTXTimer tid maxRetrans rtoMax =
     \<lparr>rt_timer = None, rt_id = tid, rt_maxRetrans = maxRetrans, rt_rtoMax = (if rtoMax = 0 then defaultRTOMax else rtoMax),
      rt_rto = 0, rt_nRtos = 0, rt_state = rtxTimerStopped, rt_pending = 0\<rparr>"

definition calculateNextTimeout :: "rat \<Rightarrow> u64 \<Rightarrow> rat \<Rightarrow> rat" where
  "calculateNextTimeout rto nRtos rtoMax =
     (if nRtos < 31 then min (float64 (rto * 2 ^ unat nRtos)) rtoMax else rtoMax)"

text \<open>The conversion to a \<^verbatim>\<open>time.Duration\<close> cuts off the fraction of a millisecond.\<close>

definition truncRat :: "rat \<Rightarrow> int" where
  "truncRat x = (if 0 \<le> x then \<lfloor>x\<rfloor> else \<lceil>x\<rceil>)"

definition rt_nextTimeout :: "rtxTimer \<Rightarrow> int" where
  "rt_nextTimeout t = truncRat (calculateNextTimeout (rt_rto t) (rt_nRtos t) (rt_rtoMax t)) * 1000000"

text \<open>
  What \<^verbatim>\<open>timeout\<close> does under the mutex, with the call of the observer that it defers, the arguments
  evaluated.
\<close>

definition rt_timeout :: "int \<Rightarrow> rtxTimer \<Rightarrow> rtxCallback option \<times> rtxTimer" where
  "rt_timeout now t =
     (let t1 = t\<lparr>rt_pending := rt_pending t - 1\<rparr>
      in if rt_pending t1 = 0 \<and> rt_state t1 = rtxTimerStarted
         then
           (let t2 = t1\<lparr>rt_nRtos := rt_nRtos t1 + 1\<rparr>
            in if rt_maxRetrans t2 = 0 \<or> rt_nRtos t2 \<le> rt_maxRetrans t2
               then (Some (onRetransmissionTimeout (rt_id t2) (rt_nRtos t2)),
                     t2\<lparr>rt_timer := Some (now + rt_nextTimeout t2), rt_pending := rt_pending t2 + 1\<rparr>)
               else (Some (onRetransmissionFailure (rt_id t2)), t2\<lparr>rt_state := rtxTimerStopped\<rparr>))
         else (None, t1))"

definition rt_start :: "int \<Rightarrow> rat \<Rightarrow> rtxTimer \<Rightarrow> bool \<times> rtxTimer" where
  "rt_start now rto t =
     (if rt_state t \<noteq> rtxTimerStopped then (False, t)
      else
        (let t1 = t\<lparr>rt_rto := rto, rt_nRtos := 0, rt_state := rtxTimerStarted, rt_pending := rt_pending t + 1\<rparr>
         in (True, t1\<lparr>rt_timer := Some (now + rt_nextTimeout t1)\<rparr>)))"

text \<open>\<^verbatim>\<open>timer.Stop()\<close> reports whether the runtime timer was still armed.\<close>

definition rt_disarm :: "rtxTimer \<Rightarrow> rtxTimer" where
  "rt_disarm t = (if rt_timer t \<noteq> None then t\<lparr>rt_timer := None, rt_pending := rt_pending t - 1\<rparr> else t)"

definition rt_stop :: "rtxTimer \<Rightarrow> rtxTimer" where
  "rt_stop t = (if rt_state t = rtxTimerStarted then (rt_disarm t)\<lparr>rt_state := rtxTimerStopped\<rparr> else t)"

definition rt_close :: "rtxTimer \<Rightarrow> rtxTimer" where
  "rt_close t = (if rt_state t = rtxTimerStarted then rt_disarm t else t)\<lparr>rt_state := rtxTimerClosed\<rparr>"

definition rt_isRunning :: "rtxTimer \<Rightarrow> bool" where
  "rt_isRunning t \<longleftrightarrow> rt_state t = rtxTimerStarted"

section \<open>The acknowledgement timer\<close>

definition ackInterval :: int where
  "ackInterval = 200 * 1000000"

datatype ackTimerState = ackTimerStopped | ackTimerStarted | ackTimerClosed

record ackTimer =
  at_timer :: "int option"
  at_state :: ackTimerState
  at_pending :: byte

definition newAckTimer :: ackTimer where
  "newAckTimer = \<lparr>at_timer = None, at_state = ackTimerStopped, at_pending = 0\<rparr>"

text \<open>The first component tells whether a call of the observer is deferred.\<close>

definition at_timeout :: "ackTimer \<Rightarrow> bool \<times> ackTimer" where
  "at_timeout t =
     (let t1 = t\<lparr>at_pending := at_pending t - 1\<rparr>
      in if at_pending t1 = 0 \<and> at_state t1 = ackTimerStarted
         then (True, t1\<lparr>at_state := ackTimerStopped\<rparr>)
         else (False, t1))"

definition at_start :: "int \<Rightarrow> ackTimer \<Rightarrow> bool \<times> ackTimer" where
  "at_start now t =
     (if at_state t \<noteq> ackTimerStopped then (False, t)
      else (True, t\<lparr>at_state := ackTimerStarted, at_pending := at_pending t + 1, at_timer := Some (now + ackInterval)\<rparr>))"

definition at_disarm :: "ackTimer \<Rightarrow> ackTimer" where
  "at_disarm t = (if at_timer t \<noteq> None then t\<lparr>at_timer := None, at_pending := at_pending t - 1\<rparr> else t)"

definition at_stop :: "ackTimer \<Rightarrow> ackTimer" where
  "at_stop t = (if at_state t = ackTimerStarted then (at_disarm t)\<lparr>at_state := ackTimerStopped\<rparr> else t)"

definition at_close :: "ackTimer \<Rightarrow> ackTimer" where
  "at_close t = (if at_state t = ackTimerStarted then at_disarm t else t)\<lparr>at_state := ackTimerClosed\<rparr>"

definition at_isRunning :: "ackTimer \<Rightarrow> bool" where
  "at_isRunning t \<longleftrightarrow> at_state t = ackTimerStarted"

section \<open>Interleavings\<close>

text \<open>
  A timer with the clock, the number of its goroutines that wait for the mutex, and, for the current
  activation, the time of its start and the calls decided in it with the times of the decisions. The
  same is kept of the earlier activations, with their timeouts. The decided calls are deferred until
  their goroutine, which has released the mutex, makes them; then they are listed with the time of the
  call. Fewer than 255 goroutines wait at a time; with more the 8-bit counter would wrap.
\<close>

type_synonym decision = "int \<times> rtxCallback"
type_synonym activation = "int \<times> rat \<times> decision list"

record rtxSys =
  rs_timer :: rtxTimer
  rs_now :: int
  rs_waiting :: nat
  rs_since :: int
  rs_calls :: "decision list"
  rs_past :: "activation list"
  rs_deferred :: "decision multiset"
  rs_made :: "(int \<times> decision) list"

definition newRtxSys :: "nat \<Rightarrow> u64 \<Rightarrow> rat \<Rightarrow> int \<Rightarrow> rtxSys" where
  "newRtxSys tid maxRetrans rtoMax now =
     \<lparr>rs_timer = newRTXTimer tid maxRetrans rtoMax, rs_now = now, rs_waiting = 0, rs_since = now, rs_calls = [],
      rs_past = [], rs_deferred = {#}, rs_made = []\<rparr>"

definition activations :: "rtxSys \<Rightarrow> activation list" where
  "activations y = rs_past y @ [(rs_since y, rt_rto (rs_timer y), rs_calls y)]"

definition rs_begin :: "rat \<Rightarrow> rtxSys \<Rightarrow> rtxSys" where
  "rs_begin rto y =
     (case rt_start (rs_now y) rto (rs_timer y) of
        (started, t) \<Rightarrow>
          if started then y\<lparr>rs_timer := t, rs_since := rs_now y, rs_calls := [], rs_past := activations y\<rparr>
          else y\<lparr>rs_timer := t\<rparr>)"

definition rs_fire :: "rtxSys \<Rightarrow> rtxSys" where
  "rs_fire y =
     (case rt_timeout (rs_now y) (rs_timer y) of
        (cb, t) \<Rightarrow>
          (let decided = (case cb of None \<Rightarrow> [] | Some c \<Rightarrow> [(rs_now y, c)])
           in y\<lparr>rs_timer := t, rs_waiting := rs_waiting y - 1, rs_calls := rs_calls y @ decided,
                rs_deferred := rs_deferred y + mset decided\<rparr>))"

definition rs_deliver :: "decision \<Rightarrow> rtxSys \<Rightarrow> rtxSys" where
  "rs_deliver c y = y\<lparr>rs_deferred := rs_deferred y - {#c#}, rs_made := rs_made y @ [(rs_now y, c)]\<rparr>"

lemma rs_deliver_simps [simp]:
  "rs_timer (rs_deliver c y) = rs_timer y" "rs_now (rs_deliver c y) = rs_now y" "rs_waiting (rs_deliver c y) = rs_waiting y"
  "rs_since (rs_deliver c y) = rs_since y" "rs_calls (rs_deliver c y) = rs_calls y" "rs_past (rs_deliver c y) = rs_past y"
  by (simp_all add: rs_deliver_def)

inductive rtx_step :: "rtxSys \<Rightarrow> rtxSys \<Rightarrow> bool" where
  clock: "rs_now y \<le> now \<Longrightarrow> rtx_step y (y\<lparr>rs_now := now\<rparr>)"
| call_start: "rtx_step y (rs_begin rto y)"
| call_stop: "rtx_step y (y\<lparr>rs_timer := rt_stop (rs_timer y)\<rparr>)"
| call_close: "rtx_step y (y\<lparr>rs_timer := rt_close (rs_timer y)\<rparr>)"
| expire: "\<lbrakk>rt_timer (rs_timer y) = Some d; d \<le> rs_now y; rs_waiting y < 254\<rbrakk> \<Longrightarrow>
    rtx_step y (y\<lparr>rs_timer := (rs_timer y)\<lparr>rt_timer := None\<rparr>, rs_waiting := Suc (rs_waiting y)\<rparr>)"
| fire: "0 < rs_waiting y \<Longrightarrow> rtx_step y (rs_fire y)"
| deliver: "c \<in># rs_deferred y \<Longrightarrow> rtx_step y (rs_deliver c y)"

definition rtx_reachable :: "nat \<Rightarrow> u64 \<Rightarrow> rat \<Rightarrow> rtxSys \<Rightarrow> bool" where
  "rtx_reachable tid maxRetrans rtoMax y \<longleftrightarrow> (\<exists>now. rtx_step\<^sup>*\<^sup>* (newRtxSys tid maxRetrans rtoMax now) y)"


text \<open>The delay before the \<open>j\<close>-th callback of the current activation, and the earliest time of the \<open>k\<close>-th.\<close>

definition backoff :: "rtxTimer \<Rightarrow> nat \<Rightarrow> int" where
  "backoff t j = truncRat (calculateNextTimeout (rt_rto t) (of_nat j) (rt_rtoMax t)) * 1000000"

definition due :: "rtxSys \<Rightarrow> nat \<Rightarrow> int" where
  "due y k = rs_since y + (\<Sum>j\<le>k. backoff (rs_timer y) j)"

definition callNo :: "rtxTimer \<Rightarrow> nat \<Rightarrow> rtxCallback" where
  "callNo t k =
     (if rt_maxRetrans t = 0 \<or> of_nat (Suc k) \<le> rt_maxRetrans t
      then onRetransmissionTimeout (rt_id t) (of_nat (Suc k)) else onRetransmissionFailure (rt_id t))"

definition rtx_inv :: "rtxSys \<Rightarrow> bool" where
  "rtx_inv y \<longleftrightarrow> rs_waiting y \<le> 254 \<and>
     rt_pending (rs_timer y) = of_nat (rs_waiting y + (if rt_timer (rs_timer y) = None then 0 else 1)) \<and>
     (rt_timer (rs_timer y) \<noteq> None \<longrightarrow> rt_state (rs_timer y) = rtxTimerStarted) \<and>
     (rt_state (rs_timer y) = rtxTimerStarted \<longrightarrow> rt_nRtos (rs_timer y) = of_nat (length (rs_calls y)) \<and>
        (case rt_timer (rs_timer y) of
           Some d \<Rightarrow> due y (length (rs_calls y)) \<le> d
         | None \<Rightarrow> 0 < rs_waiting y \<and> due y (length (rs_calls y)) \<le> rs_now y)) \<and>
     (\<forall>k < length (rs_calls y). due y k \<le> fst (rs_calls y ! k) \<and> snd (rs_calls y ! k) = callNo (rs_timer y) k)"

lemma due_cong:
  "\<lbrakk>rs_since y' = rs_since y; rt_rto (rs_timer y') = rt_rto (rs_timer y); rt_rtoMax (rs_timer y') = rt_rtoMax (rs_timer y)\<rbrakk>
     \<Longrightarrow> due y' k = due y k"
  by (simp add: due_def backoff_def)

lemma callNo_cong:
  "\<lbrakk>rt_maxRetrans t' = rt_maxRetrans t; rt_id t' = rt_id t\<rbrakk> \<Longrightarrow> callNo t' k = callNo t k"
  by (simp add: callNo_def)

lemma rt_disarm_simps [simp]:
  "rt_timer (rt_disarm t) = None" "rt_id (rt_disarm t) = rt_id t" "rt_maxRetrans (rt_disarm t) = rt_maxRetrans t"
  "rt_rto (rt_disarm t) = rt_rto t" "rt_rtoMax (rt_disarm t) = rt_rtoMax t" "rt_state (rt_disarm t) = rt_state t"
  "rt_pending (rt_disarm t) = rt_pending t - (if rt_timer t = None then 0 else 1)"
  by (simp_all add: rt_disarm_def)

lemma rtx_inv_halt:
  assumes "rtx_inv y" "t = (if rt_state (rs_timer y) = rtxTimerStarted then rt_disarm (rs_timer y) else rs_timer y)"
    and "s \<noteq> rtxTimerStarted"
  shows "rtx_inv (y\<lparr>rs_timer := t\<lparr>rt_state := s\<rparr>\<rparr>)"
proof -
  have none: "rt_timer t = None"
    using assms by (auto simp: rtx_inv_def)
  have "due (y\<lparr>rs_timer := t\<lparr>rt_state := s\<rparr>\<rparr>) k = due y k" "callNo (t\<lparr>rt_state := s\<rparr>) k = callNo (rs_timer y) k" for k
    using assms(2) by (auto intro!: due_cong callNo_cong)
  then show ?thesis
    using assms none by (auto simp: rtx_inv_def)
qed

lemma rtx_inv_stop: "rtx_inv y \<Longrightarrow> rtx_inv (y\<lparr>rs_timer := rt_stop (rs_timer y)\<rparr>)"
  using rtx_inv_halt [of y _ rtxTimerStopped] by (cases "rt_state (rs_timer y) = rtxTimerStarted") (simp_all add: rt_stop_def)

lemma rtx_inv_close: "rtx_inv y \<Longrightarrow> rtx_inv (y\<lparr>rs_timer := rt_close (rs_timer y)\<rparr>)"
  using rtx_inv_halt [of y _ rtxTimerClosed] by (simp add: rt_close_def)

lemma rtx_inv_start:
  assumes "rtx_inv y"
  shows "rtx_inv (rs_begin rto y)"
proof (cases "rt_state (rs_timer y) = rtxTimerStopped")
  case True
  then have "rt_timer (rs_timer y) = None"
    using assms by (auto simp: rtx_inv_def)
  with assms True show ?thesis
    by (simp add: rtx_inv_def rs_begin_def rt_start_def Let_def due_def backoff_def rt_nextTimeout_def)
next
  case False
  then show ?thesis
    using assms by (simp add: rs_begin_def rt_start_def)
qed

lemma rtx_inv_expire:
  assumes "rtx_inv y" "rt_timer (rs_timer y) = Some d" "d \<le> rs_now y" "rs_waiting y < 254"
  shows "rtx_inv (y\<lparr>rs_timer := (rs_timer y)\<lparr>rt_timer := None\<rparr>, rs_waiting := Suc (rs_waiting y)\<rparr>)" (is "rtx_inv ?y")
proof -
  have "due ?y k = due y k" "callNo (rs_timer ?y) k = callNo (rs_timer y) k" for k
    by (auto intro!: due_cong callNo_cong)
  then show ?thesis
    using assms by (auto simp: rtx_inv_def)
qed

lemma pending_last:
  assumes "(of_nat n :: byte) - 1 = 0" "0 < n" "n \<le> 255"
  shows "n = 1"
proof -
  have "(of_nat n :: byte) = of_nat 1"
    using assms(1) by simp
  then have "unat (of_nat n :: byte) = unat (of_nat 1 :: byte)"
    by (simp only:)
  then show ?thesis
    using assms(3) by (simp add: unat_of_nat)
qed

lemma rtx_inv_fire:
  assumes inv: "rtx_inv y" and waiting: "0 < rs_waiting y"
  shows "rtx_inv (rs_fire y)"
proof -
  let ?t = "rs_timer y" and ?n = "rs_waiting y + (if rt_timer (rs_timer y) = None then 0 else 1)"
  have pending: "rt_pending ?t = of_nat ?n" and small: "?n \<le> 255"
    using inv by (simp_all add: rtx_inv_def)
  show ?thesis
  proof (cases "rt_pending ?t - 1 = 0 \<and> rt_state ?t = rtxTimerStarted")
    case True
    have "?n = 1"
      using pending_last [of ?n] True pending small waiting by simp
    then have none: "rt_timer ?t = None" and one: "rs_waiting y = 1"
      using waiting by (auto split: if_splits)
    have reached: "due y (length (rs_calls y)) \<le> rs_now y" and num: "rt_nRtos ?t = of_nat (length (rs_calls y))"
      using inv True none by (simp_all add: rtx_inv_def)
    have same: "due (rs_fire y) k = due y k" "callNo (rs_timer (rs_fire y)) k = callNo ?t k" for k
      by (auto intro!: due_cong callNo_cong simp: rs_fire_def rt_timeout_def Let_def split: prod.splits)
    have calls: "rs_calls (rs_fire y) = rs_calls y @ [(rs_now y, callNo ?t (length (rs_calls y)))]"
      using True num by (simp add: rs_fire_def rt_timeout_def Let_def callNo_def add.commute)
    have old: "due y k \<le> fst (rs_calls y ! k) \<and> snd (rs_calls y ! k) = callNo ?t k" if "k < length (rs_calls y)" for k
      using inv that by (simp add: rtx_inv_def)
    have all: "\<forall>k < length (rs_calls (rs_fire y)).
        due (rs_fire y) k \<le> fst (rs_calls (rs_fire y) ! k) \<and> snd (rs_calls (rs_fire y) ! k) = callNo (rs_timer (rs_fire y)) k"
      unfolding same calls using old reached by (auto simp: nth_append less_Suc_eq)
    show ?thesis
    proof (cases "rt_maxRetrans ?t = 0 \<or> rt_nRtos ?t + 1 \<le> rt_maxRetrans ?t")
      case again: True
      have timer: "rt_timer (rs_timer (rs_fire y)) = Some (rs_now y + backoff ?t (Suc (length (rs_calls y))))"
        using True again num by (simp add: rs_fire_def rt_timeout_def Let_def rt_nextTimeout_def backoff_def add.commute)
      have "due y (Suc (length (rs_calls y))) \<le> rs_now y + backoff ?t (Suc (length (rs_calls y)))"
        using reached by (simp add: due_def)
      then show ?thesis
        unfolding rtx_inv_def using all True again num one timer
        by (simp add: same calls) (simp add: rs_fire_def rt_timeout_def Let_def)
    next
      case last: False
      have "rt_timer (rs_timer (rs_fire y)) = None" "rt_state (rs_timer (rs_fire y)) = rtxTimerStopped"
        using True last none by (simp_all add: rs_fire_def rt_timeout_def Let_def)
      then show ?thesis
        unfolding rtx_inv_def using all True last one
        by (simp add: same calls) (simp add: rs_fire_def rt_timeout_def Let_def)
    qed
  next
    case False
    have t: "rs_fire y = y\<lparr>rs_timer := ?t\<lparr>rt_pending := rt_pending ?t - 1\<rparr>, rs_waiting := rs_waiting y - 1\<rparr>"
      using False by (auto simp: rs_fire_def rt_timeout_def Let_def)
    have same: "due (rs_fire y) k = due y k" "callNo (rs_timer (rs_fire y)) k = callNo ?t k" for k
      by (auto intro!: due_cong callNo_cong simp: t)
    have "rt_pending ?t - 1 = of_nat (?n - 1)"
      using pending waiting by (simp add: of_nat_diff)
    moreover have "0 < rs_waiting y - 1" if "rt_state ?t = rtxTimerStarted" "rt_timer ?t = None"
      using False that pending waiting by (cases "rs_waiting y = 1") auto
    ultimately show ?thesis
      using inv waiting unfolding rtx_inv_def same by (auto simp: t of_nat_diff split: option.splits)
  qed
qed


lemma rtx_inv_step: "rtx_step y y' \<Longrightarrow> rtx_inv y \<Longrightarrow> rtx_inv y'"
proof (induction rule: rtx_step.induct)
  case (clock y now)
  have "due (y\<lparr>rs_now := now\<rparr>) k = due y k" for k
    by (simp add: due_def)
  then show ?case
    using clock by (auto simp: rtx_inv_def split: option.splits)
next
  case (deliver c y)
  have "due (rs_deliver c y) k = due y k" for k by (simp add: due_def)
  then show ?case using deliver by (simp add: rtx_inv_def split: option.splits)
qed (simp_all add: rtx_inv_start rtx_inv_stop rtx_inv_close rtx_inv_expire rtx_inv_fire)

lemma rtx_inv_reachable: "rtx_step\<^sup>*\<^sup>* (newRtxSys tid maxRetrans rtoMax now) y \<Longrightarrow> rtx_inv y"
proof (induction rule: rtranclp_induct)
  case base
  show ?case
    by (simp add: rtx_inv_def newRtxSys_def newRTXTimer_def)
qed (rule rtx_inv_step)

lemma rtx_config:
  assumes "rtx_step\<^sup>*\<^sup>* (newRtxSys tid maxRetrans rtoMax now) y"
  shows "rt_id (rs_timer y) = tid \<and> rt_maxRetrans (rs_timer y) = maxRetrans \<and>
    rt_rtoMax (rs_timer y) = (if rtoMax = 0 then defaultRTOMax else rtoMax)"
  using assms
proof (induction rule: rtranclp_induct)
  case (step y z)
  show ?case
    using step(2,3) by (cases rule: rtx_step.cases)
      (auto simp: rs_begin_def rt_start_def rt_stop_def rt_close_def rs_fire_def rt_timeout_def Let_def split: prod.splits if_splits)
qed (simp add: newRtxSys_def newRTXTimer_def)

text \<open>
  The schedule of an activation: its decisions are numbered, and the \<open>k\<close>-th is not made before the sum
  of the timeouts up to it.
\<close>

definition onSchedule :: "nat \<Rightarrow> u64 \<Rightarrow> rat \<Rightarrow> activation \<Rightarrow> bool" where
  "onSchedule tid maxRetrans rtoMax act =
     (case act of (started, rto, calls) \<Rightarrow>
        \<forall>k < length calls.
          started + (\<Sum>j\<le>k. truncRat (calculateNextTimeout rto (of_nat j) rtoMax) * 1000000) \<le> fst (calls ! k) \<and>
          snd (calls ! k) =
            (if maxRetrans = 0 \<or> of_nat (Suc k) \<le> maxRetrans then onRetransmissionTimeout tid (of_nat (Suc k))
             else onRetransmissionFailure tid))"

text \<open>Every decision of an activation is deferred or has been made, and is made after it was taken.\<close>

definition calls_inv :: "rtxSys \<Rightarrow> bool" where
  "calls_inv y \<longleftrightarrow>
     (\<Sum>(started, rto, calls) \<leftarrow> activations y. mset calls) = rs_deferred y + mset (map snd (rs_made y)) \<and>
     (\<forall>c. c \<in># rs_deferred y \<longrightarrow> fst c \<le> rs_now y) \<and>
     list_all (\<lambda>(time, decided, call). decided \<le> time) (rs_made y)"

lemma calls_inv_timer:
  assumes "rs_calls y' = rs_calls y" "rs_past y' = rs_past y" "rs_deferred y' = rs_deferred y" "rs_made y' = rs_made y" "rs_now y \<le> rs_now y'"
    and "calls_inv y"
  shows "calls_inv y'"
  using assms by (fastforce simp: calls_inv_def activations_def)

lemma calls_inv_step: "rtx_step y y' \<Longrightarrow> calls_inv y \<Longrightarrow> calls_inv y'"
proof (induction rule: rtx_step.induct)
  case (call_start y rto)
  then show ?case by (simp add: calls_inv_def rs_begin_def rt_start_def activations_def Let_def)
next
  case (fire y)
  show ?case
  proof (cases "fst (rt_timeout (rs_now y) (rs_timer y))")
    case None
    then show ?thesis by (intro calls_inv_timer [OF _ _ _ _ _ fire(2)]) (simp_all add: rs_fire_def case_prod_beta)
  next
    case (Some c)
    then show ?thesis using fire(2) by (auto simp: calls_inv_def rs_fire_def case_prod_beta activations_def)
  qed
next
  case (deliver c y)
  then have "rs_deferred y = add_mset c (rs_deferred y - {#c#})" by simp
  moreover have "fst c \<le> rs_now y" using deliver unfolding calls_inv_def by blast
  ultimately show ?case using deliver by (auto simp: calls_inv_def rs_deliver_def activations_def dest: in_diffD)
qed (erule calls_inv_timer [rotated 5], simp_all)+

lemma calls_inv_reachable: "rtx_step\<^sup>*\<^sup>* (newRtxSys tid maxRetrans rtoMax now) y \<Longrightarrow> calls_inv y"
proof (induction rule: rtranclp_induct)
  case base
  show ?case by (simp add: calls_inv_def newRtxSys_def activations_def)
qed (rule calls_inv_step)

lemma current_onSchedule:
  assumes "rtx_inv y"
  shows "onSchedule (rt_id (rs_timer y)) (rt_maxRetrans (rs_timer y)) (rt_rtoMax (rs_timer y)) (rs_since y, rt_rto (rs_timer y), rs_calls y)"
  using assms by (simp add: onSchedule_def rtx_inv_def due_def backoff_def callNo_def)

lemma past_onSchedule:
  assumes "rtx_step\<^sup>*\<^sup>* (newRtxSys tid maxRetrans rtoMax now) y"
  shows "list_all (onSchedule tid maxRetrans (if rtoMax = 0 then defaultRTOMax else rtoMax)) (rs_past y)"
  using assms
proof (induction rule: rtranclp_induct)
  case (step y z)
  have "rs_past z = rs_past y \<or> rs_past z = activations y"
    using step(2) by (cases rule: rtx_step.cases) (auto simp: rs_begin_def rs_fire_def rs_deliver_def case_prod_beta Let_def)
  moreover have "list_all (onSchedule tid maxRetrans (if rtoMax = 0 then defaultRTOMax else rtoMax)) (activations y)"
    using step(3) current_onSchedule [OF rtx_inv_reachable [OF step(1)]] rtx_config [OF step(1)] by (simp add: activations_def)
  ultimately show ?case using step(3) by auto
qed (simp add: newRtxSys_def)



text \<open>
  A run with an outdated goroutine: the timer expires, is stopped and started again before the
  goroutine gets the mutex, and expires once more. After the decision to call the observer the timer
  is stopped, and then the call is made.
\<close>

definition expireAt :: "int \<Rightarrow> rtxSys \<Rightarrow> rtxSys" where
  "expireAt now y = y\<lparr>rs_now := now, rs_timer := (rs_timer y)\<lparr>rt_timer := None\<rparr>, rs_waiting := Suc (rs_waiting y)\<rparr>"

definition firstExpiry :: rtxSys where
  "firstExpiry = expireAt 1000000000 (rs_begin 1000 (newRtxSys 3 0 0 0))"

definition restarted :: rtxSys where
  "restarted = rs_fire (rs_begin 1000 (firstExpiry\<lparr>rs_timer := rt_stop (rs_timer firstExpiry)\<rparr>))"

definition restartedRun :: rtxSys where
  "restartedRun = rs_fire (expireAt 2000000000 restarted)"

definition lateCall :: rtxSys where
  "lateCall = rs_deliver (2000000000, onRetransmissionTimeout 3 1) (restartedRun\<lparr>rs_timer := rt_stop (rs_timer restartedRun)\<rparr>)"

lemma expireAt_reachable:
  assumes "rtx_reachable tid m r y" "rs_now y \<le> now" "rt_timer (rs_timer y) = Some d" "d \<le> now" "rs_waiting y < 254"
  shows "rtx_reachable tid m r (expireAt now y)"
proof -
  have "rtx_step y (y\<lparr>rs_now := now\<rparr>)"
    using assms(2) by (rule clock)
  moreover have "rtx_step (y\<lparr>rs_now := now\<rparr>) (expireAt now y)"
    using expire [of "y\<lparr>rs_now := now\<rparr>" d] assms by (simp add: expireAt_def)
  ultimately show ?thesis
    using assms(1) unfolding rtx_reachable_def by (meson rtranclp.rtrancl_into_rtrancl)
qed

lemma rtx_reachable_step: "rtx_reachable tid m r y \<Longrightarrow> rtx_step y z \<Longrightarrow> rtx_reachable tid m r z"
  unfolding rtx_reachable_def by (meson rtranclp.rtrancl_into_rtrancl)

lemma restarted_states:
  "rs_now (rs_begin 1000 (newRtxSys 3 0 0 0)) = 0 \<and> rs_waiting (rs_begin 1000 (newRtxSys 3 0 0 0)) = 0 \<and>
   rt_timer (rs_timer (rs_begin 1000 (newRtxSys 3 0 0 0))) = Some 1000000000"
  "rs_now restarted = 1000000000 \<and> rs_waiting restarted = 0 \<and> rt_timer (rs_timer restarted) = Some 2000000000 \<and> rs_calls restarted = []"
  "rs_waiting (rs_begin 1000 (firstExpiry\<lparr>rs_timer := rt_stop (rs_timer firstExpiry)\<rparr>)) = 1"
  "rs_waiting (expireAt 2000000000 restarted) = 1"
  "rs_since restartedRun = 1000000000 \<and> rs_calls restartedRun = [(2000000000, onRetransmissionTimeout 3 1)]"
  by code_simp+

lemma restartedRun_reachable: "rtx_reachable 3 0 0 restartedRun"
proof -
  have "rtx_reachable 3 0 0 (rs_begin 1000 (newRtxSys 3 0 0 0))"
    using call_start unfolding rtx_reachable_def by blast
  then have "rtx_reachable 3 0 0 firstExpiry"
    unfolding firstExpiry_def using restarted_states(1) by (intro expireAt_reachable) auto
  then have "rtx_reachable 3 0 0 (rs_begin 1000 (firstExpiry\<lparr>rs_timer := rt_stop (rs_timer firstExpiry)\<rparr>))"
    by (intro rtx_reachable_step [OF _ call_start] rtx_reachable_step [OF _ call_stop])
  then have "rtx_reachable 3 0 0 restarted"
    unfolding restarted_def using restarted_states(3) by (intro rtx_reachable_step [OF _ fire]) auto
  then have "rtx_reachable 3 0 0 (expireAt 2000000000 restarted)"
    using restarted_states(2) by (intro expireAt_reachable) auto
  then show ?thesis
    unfolding restartedRun_def using restarted_states(4) by (intro rtx_reachable_step [OF _ fire]) auto
qed

lemma lateCall_states:
  "rs_deferred restartedRun = {#(2000000000, onRetransmissionTimeout 3 1)#}"
  "\<not> rt_isRunning (rs_timer lateCall) \<and> rs_made lateCall = [(2000000000, 2000000000, onRetransmissionTimeout 3 1)] \<and>
   activations lateCall = [(0, 0, []), (0, 1000, []), (1000000000, 1000, [(2000000000, onRetransmissionTimeout 3 1)])]"
  by code_simp+

lemma lateCall_reachable: "rtx_reachable 3 0 0 lateCall"
  unfolding lateCall_def using lateCall_states(1)
  by (intro rtx_reachable_step [OF _ deliver] rtx_reachable_step [OF restartedRun_reachable call_stop]) simp


end
