(* ===== verification/Options.thy ===== *)
theory Options
  imports WindowedMin PendingQueue
begin

text \<open>
  Configuration of an association: the options of \<^verbatim>\<open>association_options.go\<close>,
  \<^verbatim>\<open>association_rack_options.go\<close> and \<^verbatim>\<open>association_interleaving_options.go\<close>, and the construction of the
  configuration in \<^verbatim>\<open>association.go\<close>. An option is a function on configurations that may fail; a nil
  option is \<open>None\<close>. Logger factories, connections and scheduler factories of the user are numbers.
\<close>

section \<open>Configuration\<close>

datatype schedulerFactory = WeightedFairQueueing "u16 \<rightharpoonup> u16" | RoundRobinFactory | UserFactory nat

record interleavingSettings =
  newStreamScheduler :: "schedulerFactory option"
  wfqWeights :: "u16 \<rightharpoonup> u16"

record rackSettings =
  cfgMinRTTWnd :: "windowedMin option"
  rackReoWndFloor :: int
  rackWCDelAck :: int

record Config =
  LoggerFactory :: "nat option"
  cfgName :: string
  NetConn :: "nat option"
  BlockWrite :: bool
  EnableZeroChecksum :: bool
  cfgMTU :: u32
  MaxReceiveBufferSize :: u32
  cfgMaxMessageSize :: u32
  RTOMax :: rat
  MinCwnd :: u32
  FastRtxWnd :: u32
  CwndCAStep :: u32
  cfgRack :: rackSettings
  interleaving :: "interleavingSettings option"
  snapConfig :: "(bytes \<times> bytes) option"
  enableInterleaving :: bool
  enableInterleavingSet :: bool

definition emptyInterleaving :: interleavingSettings where
  "emptyInterleaving = \<lparr>newStreamScheduler = None, wfqWeights = Map.empty\<rparr>"

definition zeroConfig :: Config where
  "zeroConfig =
     \<lparr>LoggerFactory = None, cfgName = '''', NetConn = None, BlockWrite = False, EnableZeroChecksum = False, cfgMTU = 0,
      MaxReceiveBufferSize = 0, cfgMaxMessageSize = 0, RTOMax = 0, MinCwnd = 0, FastRtxWnd = 0, CwndCAStep = 0,
      cfgRack = \<lparr>cfgMinRTTWnd = None, rackReoWndFloor = 0, rackWCDelAck = 0\<rparr>, interleaving = None, snapConfig = None,
      enableInterleaving = False, enableInterleavingSet = False\<rparr>"

abbreviation initialMTU :: u32 where "initialMTU \<equiv> 1228"
abbreviation initialRecvBufSize :: u32 where "initialRecvBufSize \<equiv> 1024 * 1024"
abbreviation defaultMaxMessageSize :: u32 where "defaultMaxMessageSize \<equiv> 65536"

definition setWeightedFairQueueingStreamScheduler :: "interleavingSettings \<Rightarrow> interleavingSettings" where
  "setWeightedFairQueueingStreamScheduler s = s\<lparr>newStreamScheduler := Some (WeightedFairQueueing (wfqWeights s))\<rparr>"

definition cloneInterleavingSettings :: "interleavingSettings option \<Rightarrow> interleavingSettings" where
  "cloneInterleavingSettings s = (case s of None \<Rightarrow> emptyInterleaving | Some i \<Rightarrow> i)"

text \<open>The default logger factory is number 0.\<close>

definition applyDefaults :: "Config \<Rightarrow> Config" where
  "applyDefaults c =
     (let i = (case interleaving c of None \<Rightarrow> emptyInterleaving | Some i \<Rightarrow> i)
      in c\<lparr>LoggerFactory := (case LoggerFactory c of None \<Rightarrow> Some 0 | Some f \<Rightarrow> Some f),
           MaxReceiveBufferSize := (if MaxReceiveBufferSize c = 0 then initialRecvBufSize else MaxReceiveBufferSize c),
           cfgMaxMessageSize := (if cfgMaxMessageSize c = 0 then defaultMaxMessageSize else cfgMaxMessageSize c),
           cfgMTU := (if cfgMTU c = 0 then initialMTU else cfgMTU c),
           enableInterleaving := (if \<not> enableInterleavingSet c then True else enableInterleaving c),
           interleaving := Some (if newStreamScheduler i = None then setWeightedFairQueueingStreamScheduler i else i)\<rparr>)"

section \<open>Options\<close>

type_synonym assocOption = "Config \<Rightarrow> (string, Config) result"

abbreviation errNilNetConn :: string where "errNilNetConn \<equiv> ''netConn must not be nil''"
abbreviation errNilLoggerFactory :: string where "errNilLoggerFactory \<equiv> ''loggerFactory must not be nil''"
abbreviation errZeroMTUOption :: string where "errZeroMTUOption \<equiv> ''MTU option cannot be set to zero''"
abbreviation errZeroMaxReceiveBufferOption :: string where
  "errZeroMaxReceiveBufferOption \<equiv> ''MaxReceiveBuffer option cannot be set to zero''"
abbreviation errZeroMaxMessageSize :: string where
  "errZeroMaxMessageSize \<equiv> ''MaxMessageSize option cannot be set to zero''"
abbreviation errInvalidRTOMax :: string where "errInvalidRTOMax \<equiv> ''RTO max was set to <= 0''"
abbreviation errInvalidRackMinRTTWnd :: string where "errInvalidRackMinRTTWnd \<equiv> ''RackMinRTT was set to <= 0''"
abbreviation errInvalidRackReoWndFloor :: string where "errInvalidRackReoWndFloor \<equiv> ''RackReoWndFloor was set to < 0''"
abbreviation errInvalidRackWcDelAck :: string where "errInvalidRackWcDelAck \<equiv> ''RackWcDelAck was set to <= 0''"
abbreviation errInvalidSnapToken :: string where "errInvalidSnapToken \<equiv> ''SNAP token is invalid''"
abbreviation errInvalidStreamSchedulerWeight :: string where
  "errInvalidStreamSchedulerWeight \<equiv> ''stream scheduler weight must be > 0''"

definition WithLoggerFactory :: "nat option \<Rightarrow> assocOption" where
  "WithLoggerFactory f c = (if f = None then Inl errNilLoggerFactory else Inr (c\<lparr>LoggerFactory := f\<rparr>))"

definition WithName :: "string \<Rightarrow> assocOption" where
  "WithName name c = Inr (c\<lparr>cfgName := name\<rparr>)"

definition WithNetConn :: "nat option \<Rightarrow> assocOption" where
  "WithNetConn conn c = (if conn = None then Inl errNilNetConn else Inr (c\<lparr>NetConn := conn\<rparr>))"

definition WithBlockWrite :: "bool \<Rightarrow> assocOption" where
  "WithBlockWrite b c = Inr (c\<lparr>BlockWrite := b\<rparr>)"

definition WithEnableZeroChecksum :: "bool \<Rightarrow> assocOption" where
  "WithEnableZeroChecksum b c = Inr (c\<lparr>EnableZeroChecksum := b\<rparr>)"

definition WithEnableInterleaving :: "bool \<Rightarrow> assocOption" where
  "WithEnableInterleaving b c = Inr (c\<lparr>enableInterleaving := b, enableInterleavingSet := True\<rparr>)"

definition WithMTU :: "u32 \<Rightarrow> assocOption" where
  "WithMTU n c = (if n = 0 then Inl errZeroMTUOption else Inr (c\<lparr>cfgMTU := n\<rparr>))"

definition WithMaxReceiveBufferSize :: "u32 \<Rightarrow> assocOption" where
  "WithMaxReceiveBufferSize n c = (if n = 0 then Inl errZeroMaxReceiveBufferOption else Inr (c\<lparr>MaxReceiveBufferSize := n\<rparr>))"

definition WithMaxMessageSize :: "u32 \<Rightarrow> assocOption" where
  "WithMaxMessageSize n c = (if n = 0 then Inl errZeroMaxMessageSize else Inr (c\<lparr>cfgMaxMessageSize := n\<rparr>))"

definition WithRTOMax :: "rat \<Rightarrow> assocOption" where
  "WithRTOMax rtoMax c = (if rtoMax \<le> 0 then Inl errInvalidRTOMax else Inr (c\<lparr>RTOMax := rtoMax\<rparr>))"

definition WithMinCwnd :: "u32 \<Rightarrow> assocOption" where
  "WithMinCwnd minCwnd c = Inr (c\<lparr>MinCwnd := minCwnd\<rparr>)"

definition WithFastRtxWnd :: "u32 \<Rightarrow> assocOption" where
  "WithFastRtxWnd fastRtxWnd c = Inr (c\<lparr>FastRtxWnd := fastRtxWnd\<rparr>)"

definition WithCwndCAStep :: "u32 \<Rightarrow> assocOption" where
  "WithCwndCAStep cwndCAStep c = Inr (c\<lparr>CwndCAStep := cwndCAStep\<rparr>)"

definition WithSNAP :: "bytes \<Rightarrow> bytes \<Rightarrow> assocOption" where
  "WithSNAP localInit remoteInit c =
     (if localInit = [] \<or> remoteInit = [] then Inl errInvalidSnapToken else Inr (c\<lparr>snapConfig := Some (localInit, remoteInit)\<rparr>))"

text \<open>The loop over options, stopping at the first error.\<close>

fun applyOpts :: "('c \<Rightarrow> (string, 'c) result) option list \<Rightarrow> 'c \<Rightarrow> (string, 'c) result" where
  "applyOpts [] c = Inr c"
| "applyOpts (None # opts) c = applyOpts opts c"
| "applyOpts (Some opt # opts) c = bindR (opt c) (applyOpts opts)"

definition WithRackMinRTTWnd :: "int \<Rightarrow> rackSettings \<Rightarrow> (string, rackSettings) result" where
  "WithRackMinRTTWnd d r = (if d \<le> 0 then Inl errInvalidRackMinRTTWnd else Inr (r\<lparr>cfgMinRTTWnd := Some (newWindowedMin d)\<rparr>))"

definition WithRackReoWndFloor :: "int \<Rightarrow> rackSettings \<Rightarrow> (string, rackSettings) result" where
  "WithRackReoWndFloor d r = (if d < 0 then Inl errInvalidRackReoWndFloor else Inr (r\<lparr>rackReoWndFloor := d\<rparr>))"

definition WithRackWCDelAck :: "int \<Rightarrow> rackSettings \<Rightarrow> (string, rackSettings) result" where
  "WithRackWCDelAck d r = (if d \<le> 0 then Inl errInvalidRackWcDelAck else Inr (r\<lparr>rackWCDelAck := d\<rparr>))"

definition WithRACKOptions :: "(rackSettings \<Rightarrow> (string, rackSettings) result) option list \<Rightarrow> assocOption" where
  "WithRACKOptions opts c = bindR (applyOpts opts (cfgRack c)) (\<lambda>r. Inr (c\<lparr>cfgRack := r\<rparr>))"

definition WithInterleavingStreamSchedulerFactory :: "nat option \<Rightarrow> interleavingSettings \<Rightarrow> (string, interleavingSettings) result" where
  "WithInterleavingStreamSchedulerFactory f s =
     (case f of None \<Rightarrow> Inl errNilStreamScheduler | Some n \<Rightarrow> Inr (s\<lparr>newStreamScheduler := Some (UserFactory n)\<rparr>))"

definition WithInterleavingWeightedFairQueueingScheduler :: "interleavingSettings \<Rightarrow> (string, interleavingSettings) result" where
  "WithInterleavingWeightedFairQueueingScheduler s = Inr (setWeightedFairQueueingStreamScheduler s)"

definition WithInterleavingWeightedFairQueueingWeight :: "u16 \<Rightarrow> u16 \<Rightarrow> interleavingSettings \<Rightarrow> (string, interleavingSettings) result" where
  "WithInterleavingWeightedFairQueueingWeight streamID weight s =
     (if weight = 0 then Inl errInvalidStreamSchedulerWeight
      else Inr (setWeightedFairQueueingStreamScheduler (s\<lparr>wfqWeights := (wfqWeights s)(streamID \<mapsto> weight)\<rparr>)))"

definition WithInterleavingRoundRobinScheduler :: "interleavingSettings \<Rightarrow> (string, interleavingSettings) result" where
  "WithInterleavingRoundRobinScheduler s = Inr (s\<lparr>newStreamScheduler := Some RoundRobinFactory\<rparr>)"

definition WithInterleavingOptions :: "(interleavingSettings \<Rightarrow> (string, interleavingSettings) result) option list \<Rightarrow> assocOption" where
  "WithInterleavingOptions opts c =
     bindR (applyOpts opts (cloneInterleavingSettings (interleaving c))) (\<lambda>i. Inr (c\<lparr>interleaving := Some i\<rparr>))"

section \<open>Configurations as options\<close>

definition orElse :: "u32 \<Rightarrow> u32 \<Rightarrow> u32" where
  "orElse new old = (if new \<noteq> 0 then new else old)"

definition applyServer :: "Config \<Rightarrow> assocOption" where
  "applyServer c cfg =
     (let cfg1 = cfg\<lparr>LoggerFactory := (case LoggerFactory c of None \<Rightarrow> LoggerFactory cfg | Some f \<Rightarrow> Some f),
            cfgName := (if cfgName c \<noteq> '''' then cfgName c else cfgName cfg),
            NetConn := (case NetConn c of None \<Rightarrow> NetConn cfg | Some n \<Rightarrow> Some n),
            BlockWrite := BlockWrite c, EnableZeroChecksum := EnableZeroChecksum c,
            cfgMTU := orElse (cfgMTU c) (cfgMTU cfg),
            MaxReceiveBufferSize := orElse (MaxReceiveBufferSize c) (MaxReceiveBufferSize cfg),
            cfgMaxMessageSize := orElse (cfgMaxMessageSize c) (cfgMaxMessageSize cfg),
            RTOMax := (if RTOMax c \<noteq> 0 then RTOMax c else RTOMax cfg),
            MinCwnd := orElse (MinCwnd c) (MinCwnd cfg), FastRtxWnd := orElse (FastRtxWnd c) (FastRtxWnd cfg),
            CwndCAStep := orElse (CwndCAStep c) (CwndCAStep cfg),
            cfgRack := cfgRack c, interleaving := Some (cloneInterleavingSettings (interleaving c))\<rparr>
      in Inr (if enableInterleavingSet c then cfg1\<lparr>enableInterleaving := enableInterleaving c, enableInterleavingSet := True\<rparr> else cfg1))"

definition applyClient :: "Config \<Rightarrow> assocOption" where
  "applyClient c cfg = bindR (applyServer c cfg) (\<lambda>cfg1. Inr (cfg1\<lparr>snapConfig := snapConfig c\<rparr>))"

definition buildServerConfig :: "assocOption option list \<Rightarrow> (string, Config) result" where
  "buildServerConfig opts =
     bindR (applyOpts opts (applyDefaults zeroConfig)) (\<lambda>cfg.
       let cfg1 = applyDefaults cfg in if NetConn cfg1 = None then Inl errNilNetConn else Inr cfg1)"

definition buildClientConfig :: "assocOption option list \<Rightarrow> (string, Config) result" where
  "buildClientConfig opts = buildServerConfig opts"

end
