(* ===== verification/AssocState.thy ===== *)
theory AssocState
  imports StreamModel Timers Options Packet ReceiveQueue
begin

text \<open>
  The state of an SCTP association, \<^verbatim>\<open>association.go\<close> and \<^verbatim>\<open>association_stats.go\<close>. The field \<open>a_x\<close> is the
  field \<^verbatim>\<open>x\<close> of the Go struct. Chunks to be sent live on the heap \<open>a_heap\<close> and streams in \<open>a_store\<close>,
  because both are shared by reference; the links of the RACK list are the three functions \<open>a_rackNext\<close>,
  \<open>a_rackPrev\<close> and \<open>a_rackInList\<close> on chunks. A channel that is only closed or only holds a token is a flag.
\<close>

section \<open>State\<close>

datatype assocState = closedState | cookieWait | cookieEchoed | established | shutdownAckSent | shutdownPending | shutdownReceived | shutdownSent

datatype ackMode = ackModeNormal | ackModeNoDelay | ackModeAlwaysDelay

datatype ackState = ackStateIdle | ackStateImmediate | ackStateDelay

abbreviation timerT1Init :: nat where "timerT1Init \<equiv> 0"
abbreviation timerT1Cookie :: nat where "timerT1Cookie \<equiv> 1"
abbreviation timerT2Shutdown :: nat where "timerT2Shutdown \<equiv> 2"
abbreviation timerT3RTX :: nat where "timerT3RTX \<equiv> 3"
abbreviation timerReconfig :: nat where "timerReconfig \<equiv> 4"

abbreviation commonHeaderSize :: nat where "commonHeaderSize \<equiv> 12"

fun getAssociationStateString :: "assocState \<Rightarrow> string" where
  "getAssociationStateString closedState = ''Closed''"
| "getAssociationStateString cookieWait = ''CookieWait''"
| "getAssociationStateString cookieEchoed = ''CookieEchoed''"
| "getAssociationStateString established = ''Established''"
| "getAssociationStateString shutdownPending = ''ShutdownPending''"
| "getAssociationStateString shutdownSent = ''ShutdownSent''"
| "getAssociationStateString shutdownReceived = ''ShutdownReceived''"
| "getAssociationStateString shutdownAckSent = ''ShutdownAckSent''"

record associationStats =
  nPacketsReceived :: u64
  nPacketsSent :: u64
  nDATAs :: u64
  nSACKsReceived :: u64
  nSACKsSent :: u64
  nT3Timeouts :: u64
  nAckTimeouts :: u64
  nFastRetrans :: u64

text \<open>An outgoing reset request: request number, last TSN of the sender, streams.\<close>

type_synonym resetRequest = "u32 \<times> u32 \<times> u16 list"

type_synonym sref = nat

record 's association =
  a_bytesReceived :: u64
  a_bytesSent :: u64
  a_stats :: associationStats
  a_peerVerificationTag :: u32
  a_myVerificationTag :: u32
  a_state :: assocState
  a_myNextTSN :: u32
  a_minTSN2MeasureRTT :: u32
  a_willSendForwardTSN :: bool
  a_willRetransmitFast :: bool
  a_willRetransmitReconfig :: bool
  a_willSendShutdown :: bool
  a_willSendShutdownAck :: bool
  a_willSendShutdownComplete :: bool
  a_willSendAbort :: bool
  a_willSendAbortCause :: "errorCause option"
  a_myNextRSN :: u32
  a_reconfigs :: "(u32 \<times> resetRequest) list"
  a_reconfigRequests :: "(u32 \<times> resetRequest) list"
  a_sourcePort :: u16
  a_destinationPort :: u16
  a_myMaxNumInboundStreams :: u16
  a_myMaxNumOutboundStreams :: u16
  a_myCookie :: "bytes option"
  a_payloadQueue :: receivePayloadQueue
  a_inflightQueue :: payloadQueue
  a_pendingQueue :: "'s pendingQueue"
  a_controlQueue :: "packet controlQueue"
  a_mtu :: u32
  a_maxPayloadSize :: u32
  a_srtt :: rat
  a_cumulativeTSNAckPoint :: u32
  a_advancedPeerTSNAckPoint :: u32
  a_useForwardTSN :: bool
  a_useIForwardTSN :: bool
  a_useInterleaving :: bool
  a_localInterleaving :: bool
  a_peerInterleaving :: bool
  a_peerForwardTSN :: bool
  a_peerIForwardTSN :: bool
  a_sendZeroChecksum :: bool
  a_recvZeroChecksum :: bool
  a_maxReceiveBufferSize :: u32
  a_maxMessageSize :: u32
  a_cwnd :: u32
  a_rwnd :: u32
  a_ssthresh :: u32
  a_partialBytesAcked :: u32
  a_inFastRecovery :: bool
  a_fastRecoverExitPoint :: u32
  a_minCwnd :: u32
  a_fastRtxWnd :: u32
  a_cwndCAStep :: u32
  a_rtoMgr :: rtoManager
  a_t1Init :: rtxTimer
  a_t1Cookie :: rtxTimer
  a_t2Shutdown :: rtxTimer
  a_t3RTX :: rtxTimer
  a_tReconfig :: rtxTimer
  a_ackTimer :: ackTimer
  a_rackMinRTTWnd :: windowedMin
  a_rackReoWndFloor :: int
  a_rackWCDelAck :: int
  a_rackReoWnd :: int
  a_rackMinRTT :: int
  a_rackDeliveredTime :: "int option"
  a_rackHighestDeliveredOrigTSN :: u32
  a_rackReorderingSeen :: bool
  a_rackKeepInflatedRecoveries :: int
  a_rackHead :: "cref option"
  a_rackTail :: "cref option"
  a_rackNext :: "cref \<Rightarrow> cref option"
  a_rackPrev :: "cref \<Rightarrow> cref option"
  a_rackInList :: "cref \<Rightarrow> bool"
  a_rackDeadline :: "int option"
  a_ptoDeadline :: "int option"
  a_storedInit :: "chunkInitCommon option"
  a_storedCookieEcho :: "bytes option"
  a_streams :: "(u16 \<times> sref) list"
  a_acceptCh :: "sref list"
  a_awake :: bool
  a_closeWriteLoop :: bool
  a_readLoopClosed :: bool
  a_abortSent :: bool
  a_handshakeWaiting :: bool
  a_handshakeResult :: "string option option"
  a_ackState :: ackState
  a_ackMode :: ackMode
  a_delayedAckTriggered :: bool
  a_immediateAckTriggered :: bool
  a_blockWrite :: bool
  a_writePending :: bool
  a_writeNotify :: bool
  a_tlrActive :: bool
  a_tlrFirstRTT :: bool
  a_tlrHadAdditionalLoss :: bool
  a_tlrEndTSN :: u32
  a_tlrBurstFirstRTTUnits :: int
  a_tlrBurstLaterRTTUnits :: int
  a_tlrGoodOps :: u32
  a_tlrStartTime :: "int option"
  a_heap :: cheap
  a_nextChunk :: cref
  a_store :: "sref \<Rightarrow> stream"
  a_nextStream :: sref

end
