(* ===== verification/AssocBase.thy ===== *)
theory AssocBase
  imports AssocState
begin

text \<open>
  Helpers of an association, \<^verbatim>\<open>association.go\<close>: creation, timers and windows, the list of chunks in the
  order of their transmission that RACK uses, and the burst limits of tail loss recovery. Every method
  that runs under the lock of the association is one function and reads the clock once. What it takes
  from outside is in the environment: the time, the orders in which Go iterates over maps, the
  scheduler, the random cookie, and the choice between two ready channels.
\<close>

section \<open>Environment and outcomes\<close>

record 's env =
  e_now :: int
  e_order16 :: "u16 list \<Rightarrow> u16 list"
  e_order32 :: "u32 list \<Rightarrow> u32 list"
  e_sched :: "'s scheduler"
  e_cookie :: "string + bytes"
  e_pick :: bool

text \<open>
  A method returns a value, fails, or does not return. The state after a failure matters, because
  methods fail in the middle.
\<close>

datatype 'a outcome = Ok 'a | Fail sctp_error | Stuck

type_synonym ('s, 'a) assocM = "'s association \<Rightarrow> 'a outcome \<times> 's association"

definition retA :: "'a \<Rightarrow> ('s, 'a) assocM" where
  "retA x a = (Ok x, a)"

definition failA :: "sctp_error \<Rightarrow> ('s, 'a) assocM" where
  "failA e a = (Fail e, a)"

definition stuckA :: "('s, 'a) assocM" where
  "stuckA a = (Stuck, a)"

definition bindA :: "('s, 'a) assocM \<Rightarrow> ('a \<Rightarrow> ('s, 'b) assocM) \<Rightarrow> ('s, 'b) assocM" where
  "bindA m f a = (case m a of (Ok x, a') \<Rightarrow> f x a' | (Fail e, a') \<Rightarrow> (Fail e, a') | (Stuck, a') \<Rightarrow> (Stuck, a'))"

definition modA :: "('s association \<Rightarrow> 's association) \<Rightarrow> ('s, unit) assocM" where
  "modA f a = (Ok (), f a)"

definition withA :: "('s association \<Rightarrow> ('s, 'a) assocM) \<Rightarrow> ('s, 'a) assocM" where
  "withA f a = f a a"

definition liftA :: "(sctp_error, 'a) result \<Rightarrow> ('s, 'a) assocM" where
  "liftA r a = (case r of Inl e \<Rightarrow> (Fail e, a) | Inr x \<Rightarrow> (Ok x, a))"

lemma bindA_simps [simp]:
  "bindA (retA x) f = f x" "bindA (failA e) f = failA e" "bindA stuckA f = stuckA"
  "bindA (liftA (Inr x)) f = f x" "bindA (liftA (Inl e)) f = failA e"
  by (simp_all add: fun_eq_iff bindA_def retA_def failA_def stuckA_def liftA_def)

lemma bindA_modA [simp]: "bindA (modA g) f a = f () (g a)"
  by (simp add: bindA_def modA_def)

lemma bindA_withA [simp]: "bindA (withA g) f a = bindA (g a) f a"
  by (simp add: bindA_def withA_def)

lemma bindA_assoc: "bindA (bindA m f) g = bindA m (\<lambda>x. bindA (f x) g)"
  by (simp add: fun_eq_iff bindA_def split: prod.splits outcome.splits)

section \<open>Small operations\<close>

definition max32 :: "u32 \<Rightarrow> u32 \<Rightarrow> u32" where
  "max32 a b = (if a > b then a else b)"

definition min16 :: "u16 \<Rightarrow> u16 \<Rightarrow> u16" where
  "min16 a b = (if a < b then a else b)"

definition setCWND :: "u32 \<Rightarrow> 's association \<Rightarrow> 's association" where
  "setCWND cwnd a = a\<lparr>a_cwnd := (if cwnd < a_minCwnd a then a_minCwnd a else cwnd)\<rparr>"

definition awakeWriteLoop :: "'s association \<Rightarrow> 's association" where
  "awakeWriteLoop a = a\<lparr>a_awake := True\<rparr>"

definition notifyBlockWritable :: "'s association \<Rightarrow> 's association" where
  "notifyBlockWritable a = a\<lparr>a_writePending := False, a_writeNotify := True\<rparr>"

definition unblockPendingWrites :: "'s association \<Rightarrow> 's association" where
  "unblockPendingWrites a = (if \<not> a_blockWrite a then a else a\<lparr>a_writePending := False, a_writeNotify := False\<rparr>)"

definition peerLastTSN :: "'s association \<Rightarrow> u32" where
  "peerLastTSN a = getcumulativeTSN (a_payloadQueue a)"

definition partialReliabilityEnabled :: "'s association \<Rightarrow> bool" where
  "partialReliabilityEnabled a \<longleftrightarrow> a_useForwardTSN a \<or> a_useIForwardTSN a"

definition generateNextTSN :: "'s association \<Rightarrow> u32 \<times> 's association" where
  "generateNextTSN a = (a_myNextTSN a, a\<lparr>a_myNextTSN := a_myNextTSN a + 1\<rparr>)"

definition generateNextRSN :: "'s association \<Rightarrow> u32 \<times> 's association" where
  "generateNextRSN a = (a_myNextRSN a, a\<lparr>a_myNextRSN := a_myNextRSN a + 1\<rparr>)"

definition createPacket :: "chunk list \<Rightarrow> 's association \<Rightarrow> packet" where
  "createPacket cs a = \<lparr>sourcePort = a_sourcePort a, destinationPort = a_destinationPort a, verificationTag = a_peerVerificationTag a, chunks = cs\<rparr>"

definition zeroHeader :: chunkHeader where
  "zeroHeader = \<lparr>ch_typ = 0, ch_flags = 0, ch_raw = []\<rparr>"

definition zeroParamHeader :: paramHeader where
  "zeroParamHeader = \<lparr>ph_typ = 0, ph_unrecognizedAction = 0, ph_len = 0, ph_raw = []\<rparr>"

definition abortProtocolViolation :: "string \<Rightarrow> 's association \<Rightarrow> 's association" where
  "abortProtocolViolation reason a =
     awakeWriteLoop (a\<lparr>a_willSendAbort := True,
       a_willSendAbortCause := Some (ProtocolViolation \<lparr>ec_code = protocolViolation, ec_len = 0, ec_raw = []\<rparr> (map (\<lambda>c. of_char c) reason))\<rparr>)"

definition chunkMandatoryChecksum :: "chunk list \<Rightarrow> bool" where
  "chunkMandatoryChecksum cc = list_ex (\<lambda>c. case c of ChunkInit _ _ \<Rightarrow> True | ChunkCookieEcho _ _ \<Rightarrow> True | _ \<Rightarrow> False) cc"

definition marshalPacket :: "packet \<Rightarrow> 's association \<Rightarrow> (sctp_error, bytes) result" where
  "marshalPacket p a = packet_marshal (\<not> a_sendZeroChecksum a \<or> chunkMandatoryChecksum (chunks p)) p"

definition unmarshalPacket :: "bytes \<Rightarrow> 's association \<Rightarrow> (sctp_error, packet) result" where
  "unmarshalPacket raw a = packet_unmarshal (\<not> a_recvZeroChecksum a) raw"

definition startT3 :: "'s env \<Rightarrow> 's association \<Rightarrow> 's association" where
  "startT3 e a = a\<lparr>a_t3RTX := snd (rt_start (e_now e) (getRTO (a_rtoMgr a)) (a_t3RTX a))\<rparr>"

definition startT2 :: "'s env \<Rightarrow> 's association \<Rightarrow> 's association" where
  "startT2 e a = a\<lparr>a_t2Shutdown := snd (rt_start (e_now e) (getRTO (a_rtoMgr a)) (a_t2Shutdown a))\<rparr>"

definition startReconfig :: "'s env \<Rightarrow> 's association \<Rightarrow> 's association" where
  "startReconfig e a = a\<lparr>a_tReconfig := snd (rt_start (e_now e) (getRTO (a_rtoMgr a)) (a_tReconfig a))\<rparr>"

section \<open>RACK timers\<close>

text \<open>A deadline that is the zero time is \<open>None\<close>. Waking the timer loop has no other effect here.\<close>

definition startRackTimer :: "'s env \<Rightarrow> int \<Rightarrow> 's association \<Rightarrow> 's association" where
  "startRackTimer e dur a = a\<lparr>a_rackDeadline := (if dur \<le> 0 then None else Some (e_now e + dur))\<rparr>"

definition stopRackTimer :: "'s association \<Rightarrow> 's association" where
  "stopRackTimer a = a\<lparr>a_rackDeadline := None\<rparr>"

definition startPTOTimer :: "'s env \<Rightarrow> int \<Rightarrow> 's association \<Rightarrow> 's association" where
  "startPTOTimer e dur a = a\<lparr>a_ptoDeadline := (if dur \<le> 0 then None else Some (e_now e + dur))\<rparr>"

definition stopPTOTimer :: "'s association \<Rightarrow> 's association" where
  "stopPTOTimer a = a\<lparr>a_ptoDeadline := None\<rparr>"

text \<open>\<^verbatim>\<open>time.Duration(srttMs * 1e6)\<close>.\<close>

definition srttDuration :: "'s association \<Rightarrow> int" where
  "srttDuration a = truncRat (float64 (a_srtt a * 1000000))"

definition schedulePTOAfterSendLocked :: "'s env \<Rightarrow> 's association \<Rightarrow> 's association" where
  "schedulePTOAfterSendLocked e a =
     (if pq_size (a_inflightQueue a) = 0 then stopPTOTimer a
      else if a_srtt a > 0
      then startPTOTimer e (2 * srttDuration a + (if pq_size (a_inflightQueue a) = 1 then a_rackWCDelAck a else 2000000)) a
      else startPTOTimer e 1000000000 a)"

definition closeAllTimers :: "'s association \<Rightarrow> 's association" where
  "closeAllTimers a =
     stopPTOTimer (stopRackTimer
       (a\<lparr>a_t1Init := rt_close (a_t1Init a), a_t1Cookie := rt_close (a_t1Cookie a), a_t2Shutdown := rt_close (a_t2Shutdown a),
          a_t3RTX := rt_close (a_t3RTX a), a_tReconfig := rt_close (a_tReconfig a), a_ackTimer := at_close (a_ackTimer a)\<rparr>))"

definition a_close :: "'s association \<Rightarrow> 's association" where
  "a_close a = (closeAllTimers (a\<lparr>a_state := closedState\<rparr>))\<lparr>a_closeWriteLoop := True\<rparr>"

section \<open>The list of chunks by transmission time\<close>

definition rackInsert :: "cref \<Rightarrow> 's association \<Rightarrow> 's association" where
  "rackInsert c a =
     (if a_rackInList a c then a
      else
        (let a1 = (case a_rackTail a of
                     Some t \<Rightarrow> a\<lparr>a_rackNext := (a_rackNext a)(t := Some c), a_rackPrev := (a_rackPrev a)(c := Some t)\<rparr>
                   | None \<Rightarrow> a\<lparr>a_rackHead := Some c\<rparr>)
         in a1\<lparr>a_rackTail := Some c, a_rackInList := (a_rackInList a1)(c := True)\<rparr>))"

definition rackRemove :: "cref \<Rightarrow> 's association \<Rightarrow> 's association" where
  "rackRemove c a =
     (if \<not> a_rackInList a c then a
      else
        (let a1 = (case a_rackPrev a c of
                     Some p \<Rightarrow> a\<lparr>a_rackNext := (a_rackNext a)(p := a_rackNext a c)\<rparr>
                   | None \<Rightarrow> a\<lparr>a_rackHead := a_rackNext a c\<rparr>);
             a2 = (case a_rackNext a1 c of
                     Some n \<Rightarrow> a1\<lparr>a_rackPrev := (a_rackPrev a1)(n := a_rackPrev a1 c)\<rparr>
                   | None \<Rightarrow> a1\<lparr>a_rackTail := a_rackPrev a1 c\<rparr>)
         in a2\<lparr>a_rackPrev := (a_rackPrev a2)(c := None), a_rackNext := (a_rackNext a2)(c := None),
               a_rackInList := (a_rackInList a2)(c := False)\<rparr>))"

section \<open>Burst limits of tail loss recovery\<close>

definition tlrFirstRTTDurationLocked :: "'s association \<Rightarrow> int" where
  "tlrFirstRTTDurationLocked a = (if a_srtt a > 0 then srttDuration a else 1000000000)"

definition tlrUpdatePhaseLocked :: "int \<Rightarrow> 's association \<Rightarrow> 's association" where
  "tlrUpdatePhaseLocked currTime a =
     (if \<not> a_tlrActive a \<or> \<not> a_tlrFirstRTT a then a
      else case a_tlrStartTime a of
        None \<Rightarrow> a
      | Some t \<Rightarrow> if currTime - t \<ge> tlrFirstRTTDurationLocked a then a\<lparr>a_tlrFirstRTT := False\<rparr> else a)"

definition tlrCurrentBurstUnitsLocked :: "'s env \<Rightarrow> 's association \<Rightarrow> int \<times> 's association" where
  "tlrCurrentBurstUnitsLocked e a =
     (if \<not> a_tlrActive a then (0, a)
      else
        (let a1 = tlrUpdatePhaseLocked (e_now e) a
         in (if a_tlrFirstRTT a1 then a_tlrBurstFirstRTTUnits a1 else a_tlrBurstLaterRTTUnits a1, a1)))"

definition tlrCurrentBurstBudgetScaledLocked :: "'s env \<Rightarrow> 's association \<Rightarrow> int \<times> 's association" where
  "tlrCurrentBurstBudgetScaledLocked e a =
     (if \<not> a_tlrActive a then (0, a)
      else case tlrCurrentBurstUnitsLocked e a of (units, a1) \<Rightarrow> (units * uint (a_mtu a1), a1))"

definition tlrApplyAdditionalLossLocked :: "int \<Rightarrow> 's association \<Rightarrow> 's association" where
  "tlrApplyAdditionalLossLocked currTime a =
     (if \<not> a_tlrActive a then a
      else
        (let a1 = (tlrUpdatePhaseLocked currTime a)\<lparr>a_tlrHadAdditionalLoss := True, a_tlrGoodOps := 0\<rparr>
         in if a_tlrFirstRTT a1
            then a1\<lparr>a_tlrBurstFirstRTTUnits := max (a_tlrBurstFirstRTTUnits a1 - 4) 8\<rparr>
            else a1\<lparr>a_tlrBurstLaterRTTUnits := max (a_tlrBurstLaterRTTUnits a1 - 1) 5\<rparr>))"

definition tlrMaybeFinishLocked :: "bool \<Rightarrow> 's association \<Rightarrow> 's association" where
  "tlrMaybeFinishLocked ackProgress a =
     (if \<not> a_tlrActive a then a
      else
        (let a1 = (if a_tlrFirstRTT a \<and> ackProgress then a\<lparr>a_tlrFirstRTT := False\<rparr> else a)
         in if sna32GTE (a_cumulativeTSNAckPoint a1) (a_tlrEndTSN a1)
            then
              (let a2 = (if \<not> a_tlrHadAdditionalLoss a1
                         then (let g = a_tlrGoodOps a1 + 1
                               in if g \<ge> 16 then a1\<lparr>a_tlrBurstFirstRTTUnits := 16, a_tlrBurstLaterRTTUnits := 8, a_tlrGoodOps := 0\<rparr>
                                  else a1\<lparr>a_tlrGoodOps := g\<rparr>)
                         else a1\<lparr>a_tlrGoodOps := 0\<rparr>)
               in a2\<lparr>a_tlrActive := False, a_tlrFirstRTT := False, a_tlrHadAdditionalLoss := False, a_tlrEndTSN := 0\<rparr>)
            else a1))"

text \<open>The remaining budget and whether anything was sent in this burst are passed along.\<close>

type_synonym budget = "int \<times> bool"

definition tlrAllowSendLocked :: "'s association \<Rightarrow> budget \<Rightarrow> int \<Rightarrow> bool \<times> budget" where
  "tlrAllowSendLocked a b estBytes =
     (if \<not> a_tlrActive a then (True, b)
      else if estBytes \<le> 0 then (True, b)
      else
        (let needScaled = estBytes * 4
         in if snd b \<and> fst b < needScaled then (False, b)
            else (True, (max (fst b - needScaled) 0, True))))"

end
