(* ===== verification/AssocHandshake.thy ===== *)
theory AssocHandshake
  imports AssocBase
begin

text \<open>
  Life cycle of an association, \<^verbatim>\<open>association.go\<close>: creation, the negotiation of extensions, the four-way
  handshake from both sides, heartbeats, shutdown and abort. Handlers return the packets to be queued.
\<close>

section \<open>Creation\<close>

definition createAssociationFromConfigWithTsn :: "(schedulerFactory \<Rightarrow> 's option) \<Rightarrow> u32 \<Rightarrow> Config \<Rightarrow> u32 \<Rightarrow> 's association" where
  "createAssociationFromConfigWithTsn mk tag cfg t =
     (let maxRecv = (if MaxReceiveBufferSize cfg = 0 then initialRecvBufSize else MaxReceiveBufferSize cfg);
          maxMsg = (if cfgMaxMessageSize cfg = 0 then defaultMaxMessageSize else cfgMaxMessageSize cfg);
          mtu = (if cfgMTU cfg = 0 then initialMTU else cfgMTU cfg);
          rtoMax = RTOMax cfg;
          inter = (case Options.interleaving cfg of
                     None \<Rightarrow> setWeightedFairQueueingStreamScheduler emptyInterleaving
                   | Some i \<Rightarrow> i);
          rack = cfgRack cfg
      in setCWND (min32 (4 * mtu) (max32 (2 * mtu) 4380))
        \<lparr>a_bytesReceived = 0, a_bytesSent = 0, a_stats = \<lparr>nPacketsReceived = 0, nPacketsSent = 0, nDATAs = 0, nSACKsReceived = 0, nSACKsSent = 0, nT3Timeouts = 0,
           nAckTimeouts = 0, nFastRetrans = 0\<rparr>,
         a_peerVerificationTag = 0, a_myVerificationTag = tag, a_state = closedState, a_myNextTSN = t,
         a_minTSN2MeasureRTT = t, a_willSendForwardTSN = False, a_willRetransmitFast = False, a_willRetransmitReconfig = False,
         a_willSendShutdown = False, a_willSendShutdownAck = False, a_willSendShutdownComplete = False,
         a_willSendAbort = False, a_willSendAbortCause = None, a_myNextRSN = t, a_reconfigs = [], a_reconfigRequests = [],
         a_sourcePort = 0, a_destinationPort = 0, a_myMaxNumInboundStreams = 65535, a_myMaxNumOutboundStreams = 65535,
         a_myCookie = None, a_payloadQueue = newReceivePayloadQueue (getMaxTSNOffset maxRecv),
         a_inflightQueue = newPayloadQueue, a_pendingQueue = newPendingQueue (map_option mk (Options.newStreamScheduler inter)),
         a_controlQueue = newControlQueue, a_mtu = mtu, a_maxPayloadSize = mtu - (12 + 16), a_srtt = 0,
         a_cumulativeTSNAckPoint = t - 1, a_advancedPeerTSNAckPoint = t - 1,
         a_useForwardTSN = False, a_useIForwardTSN = False, a_useInterleaving = False,
         a_localInterleaving = enableInterleaving cfg, a_peerInterleaving = False, a_peerForwardTSN = False,
         a_peerIForwardTSN = False, a_sendZeroChecksum = False, a_recvZeroChecksum = EnableZeroChecksum cfg,
         a_maxReceiveBufferSize = maxRecv, a_maxMessageSize = maxMsg, a_cwnd = 0, a_rwnd = 0, a_ssthresh = 0,
         a_partialBytesAcked = 0, a_inFastRecovery = False, a_fastRecoverExitPoint = 0, a_minCwnd = MinCwnd cfg,
         a_fastRtxWnd = FastRtxWnd cfg, a_cwndCAStep = CwndCAStep cfg, a_rtoMgr = newRTOManager rtoMax,
         a_t1Init = newRTXTimer timerT1Init maxInitRetrans rtoMax, a_t1Cookie = newRTXTimer timerT1Cookie maxInitRetrans rtoMax,
         a_t2Shutdown = newRTXTimer timerT2Shutdown noMaxRetrans rtoMax, a_t3RTX = newRTXTimer timerT3RTX noMaxRetrans rtoMax,
         a_tReconfig = newRTXTimer timerReconfig noMaxRetrans rtoMax, a_ackTimer = newAckTimer,
         a_rackMinRTTWnd = (case cfgMinRTTWnd rack of None \<Rightarrow> newWindowedMin 30000000000 | Some w \<Rightarrow> w),
         a_rackReoWndFloor = rackReoWndFloor rack,
         a_rackWCDelAck = (if rackWCDelAck rack = 0 then 200000000 else rackWCDelAck rack),
         a_rackReoWnd = 0, a_rackMinRTT = 0, a_rackDeliveredTime = None, a_rackHighestDeliveredOrigTSN = 0,
         a_rackReorderingSeen = False, a_rackKeepInflatedRecoveries = 0, a_rackHead = None, a_rackTail = None,
         a_rackNext = (\<lambda>_. None), a_rackPrev = (\<lambda>_. None), a_rackInList = (\<lambda>_. False), a_rackDeadline = None, a_ptoDeadline = None,
         a_storedInit = None, a_storedCookieEcho = None, a_streams = [], a_acceptCh = [], a_awake = False,
         a_closeWriteLoop = False, a_readLoopClosed = False, a_abortSent = False, a_handshakeWaiting = False, a_handshakeResult = None, a_ackState = ackStateIdle,
         a_ackMode = ackModeNormal, a_delayedAckTriggered = False, a_immediateAckTriggered = False,
         a_blockWrite = BlockWrite cfg, a_writePending = False, a_writeNotify = False,
         a_tlrActive = False, a_tlrFirstRTT = False, a_tlrHadAdditionalLoss = False, a_tlrEndTSN = 0,
         a_tlrBurstFirstRTTUnits = 16, a_tlrBurstLaterRTTUnits = 8, a_tlrGoodOps = 0, a_tlrStartTime = None,
         a_heap = (\<lambda>_. zeroPayloadData), a_nextChunk = 0, a_store = (\<lambda>_. newStream 0), a_nextStream = 0\<rparr>)"

section \<open>Extensions\<close>

record supportedExtensions =
  ext_forwardTSN :: bool
  ext_interleaving :: bool
  ext_iForwardTSN :: bool

definition supportedExtensionsFromChunkTypes :: "chunkType list \<Rightarrow> supportedExtensions" where
  "supportedExtensionsFromChunkTypes ts =
     \<lparr>ext_forwardTSN = (ctForwardTSN \<in> set ts), ext_interleaving = (ctIData \<in> set ts), ext_iForwardTSN = (ctIForwardTSN \<in> set ts)\<rparr>"

definition getSupportedExtensions :: "param list \<Rightarrow> supportedExtensions" where
  "getSupportedExtensions ps =
     foldl (\<lambda>ext p. case p of
         SupportedExtensions _ ts \<Rightarrow>
           (let parsed = supportedExtensionsFromChunkTypes ts
            in \<lparr>ext_forwardTSN = (ext_forwardTSN ext \<or> ext_forwardTSN parsed),
                ext_interleaving = (ext_interleaving ext \<or> ext_interleaving parsed),
                ext_iForwardTSN = (ext_iForwardTSN ext \<or> ext_iForwardTSN parsed)\<rparr>)
       | _ \<Rightarrow> ext)
     \<lparr>ext_forwardTSN = False, ext_interleaving = False, ext_iForwardTSN = False\<rparr> ps"

definition setSupportedExtensions :: "bool \<Rightarrow> chunkInitCommon \<Rightarrow> chunkInitCommon" where
  "setSupportedExtensions enable i =
     i\<lparr>init_params := init_params i @
         [SupportedExtensions zeroParamHeader ([ctReconfig, ctForwardTSN] @ (if enable then [ctIData, ctIForwardTSN] else []))]\<rparr>"

definition setPeerSupportedExtensions :: "supportedExtensions \<Rightarrow> 's association \<Rightarrow> 's association" where
  "setPeerSupportedExtensions ext a =
     a\<lparr>a_peerForwardTSN := ext_forwardTSN ext, a_peerInterleaving := ext_interleaving ext, a_peerIForwardTSN := ext_iForwardTSN ext\<rparr>"

abbreviation dtlsErrorDetectionMethod :: u32 where "dtlsErrorDetectionMethod \<equiv> 1"

definition setSendZeroChecksum :: "param list \<Rightarrow> 's association \<Rightarrow> 's association" where
  "setSendZeroChecksum ps a =
     foldl (\<lambda>a p. case p of ZeroChecksumAcceptable _ edmid \<Rightarrow> a\<lparr>a_sendZeroChecksum := (edmid = dtlsErrorDetectionMethod)\<rparr> | _ \<Rightarrow> a) a ps"

definition updateInterleavingState :: "'s env \<Rightarrow> ('s, unit) assocM" where
  "updateInterleavingState e a =
     (let use = (a_localInterleaving a \<and> a_peerInterleaving a);
          (err, a1) =
            (if use \<noteq> a_useInterleaving a
             then (case setInterleaving (e_sched e) use (a_pendingQueue a) of
                     (Some err, q) \<Rightarrow> (Some err, a\<lparr>a_pendingQueue := q\<rparr>)
                   | (None, q) \<Rightarrow>
                       (None, a\<lparr>a_pendingQueue := q, a_useInterleaving := use,
                                a_maxPayloadSize := (if use then a_mtu a - (12 + 20) else a_mtu a - (12 + 16))\<rparr>))
             else (None, a))
      in case err of
           Some err \<Rightarrow> (Fail (Err err), a1)
         | None \<Rightarrow>
             (Ok (), if use then a1\<lparr>a_useIForwardTSN := (a_peerIForwardTSN a1 \<and> a_localInterleaving a1), a_useForwardTSN := False\<rparr>
                     else a1\<lparr>a_useIForwardTSN := False, a_useForwardTSN := a_peerForwardTSN a1\<rparr>))"

definition establish :: "'s env \<Rightarrow> ('s, unit) assocM" where
  "establish e = bindA (updateInterleavingState e) (\<lambda>_. modA (\<lambda>a. a\<lparr>a_state := established\<rparr>))"

section \<open>Opening\<close>

abbreviation ErrInitNotStoredToSend :: string where "ErrInitNotStoredToSend \<equiv> ''the init not stored to send''"
abbreviation ErrCookieEchoNotStoredToSend :: string where "ErrCookieEchoNotStoredToSend \<equiv> ''cookieEcho not stored to send''"
abbreviation ErrHandleInitState :: string where "ErrHandleInitState \<equiv> ''todo: handle Init when in state''"
abbreviation ErrInitAckNoCookie :: string where "ErrInitAckNoCookie \<equiv> ''no cookie in InitAck''"
abbreviation defaultSCTPSrcDstPort :: u16 where "defaultSCTPSrcDstPort \<equiv> 5000"

definition sendInit :: "('s, unit) assocM" where
  "sendInit a =
     (case a_storedInit a of
        None \<Rightarrow> (Fail (Err ErrInitNotStoredToSend), a)
      | Some i \<Rightarrow>
          (let a1 = a\<lparr>a_sourcePort := defaultSCTPSrcDstPort, a_destinationPort := defaultSCTPSrcDstPort\<rparr>;
               p = (createPacket [ChunkInit zeroHeader i] a1)\<lparr>verificationTag := 0\<rparr>
           in (Ok (), awakeWriteLoop (a1\<lparr>a_controlQueue := cq_push p (a_controlQueue a1)\<rparr>))))"

definition sendCookieEcho :: "('s, unit) assocM" where
  "sendCookieEcho a =
     (case a_storedCookieEcho a of
        None \<Rightarrow> (Fail (Err ErrCookieEchoNotStoredToSend), a)
      | Some c \<Rightarrow> (Ok (), awakeWriteLoop (a\<lparr>a_controlQueue := cq_push (createPacket [ChunkCookieEcho zeroHeader c] a) (a_controlQueue a)\<rparr>)))"

definition initServer :: "'s association \<Rightarrow> 's association" where
  "initServer a = a\<lparr>a_handshakeWaiting := True\<rparr>"

definition localInitChunk :: "'s association \<Rightarrow> chunkInitCommon" where
  "localInitChunk a =
     (let i = setSupportedExtensions (a_localInterleaving a)
            \<lparr>initiateTag = a_myVerificationTag a, init_arwnd = a_maxReceiveBufferSize a,
             numOutboundStreams = a_myMaxNumOutboundStreams a, numInboundStreams = a_myMaxNumInboundStreams a,
             initialTSN = a_myNextTSN a, init_params = [], unrecognizedParams = []\<rparr>
      in if a_recvZeroChecksum a
         then i\<lparr>init_params := init_params i @ [ZeroChecksumAcceptable zeroParamHeader dtlsErrorDetectionMethod]\<rparr> else i)"

definition initClient :: "'s env \<Rightarrow> 's association \<Rightarrow> 's association" where
  "initClient e a =
     (let a1 = snd (sendInit (a\<lparr>a_handshakeWaiting := True, a_storedInit := Some (localInitChunk a)\<rparr>))
      in a1\<lparr>a_state := cookieWait, a_t1Init := snd (rt_start (e_now e) (getRTO (a_rtoMgr a1)) (a_t1Init a1))\<rparr>)"

definition initWithOutOfBandTokens :: "'s env \<Rightarrow> chunkInitCommon \<Rightarrow> chunkInitCommon \<Rightarrow> ('s, unit) assocM" where
  "initWithOutOfBandTokens e localInit remoteInit a =
     (let a1 = a\<lparr>a_payloadQueue := rq_init (initialTSN remoteInit - 1) (a_payloadQueue a),
            a_myMaxNumInboundStreams := min16 (numInboundStreams localInit) (numInboundStreams remoteInit),
            a_myMaxNumOutboundStreams := min16 (numOutboundStreams localInit) (numOutboundStreams remoteInit),
            a_rwnd := init_arwnd remoteInit, a_peerVerificationTag := initiateTag remoteInit,
            a_sourcePort := defaultSCTPSrcDstPort, a_destinationPort := defaultSCTPSrcDstPort,
            a_localInterleaving := ext_interleaving (getSupportedExtensions (init_params localInit))\<rparr>;
          a2 = setSendZeroChecksum (init_params remoteInit) (setPeerSupportedExtensions (getSupportedExtensions (init_params remoteInit)) a1)
      in establish e (a2\<lparr>a_ssthresh := a_rwnd a2\<rparr>))"

text \<open>
  The creator waits for the end of the handshake. If it does and the association is being closed as
  well, either may be chosen; if neither, the call does not return.
\<close>

definition completeHandshake :: "'s env \<Rightarrow> string option \<Rightarrow> ('s, bool) assocM" where
  "completeHandshake e err a =
     (if a_handshakeWaiting a \<and> (\<not> a_closeWriteLoop a \<or> e_pick e)
      then (Ok True, a\<lparr>a_handshakeWaiting := False, a_handshakeResult := Some err\<rparr>)
      else if a_closeWriteLoop a then (Ok False, a)
      else (Stuck, a))"

text \<open>The loop over the parameters of an INIT or INIT ACK, with the last cookie.\<close>

definition peerParam :: "param \<Rightarrow> 's association \<times> bytes option \<Rightarrow> 's association \<times> bytes option" where
  "peerParam p x =
     (case x of (a, cookie) \<Rightarrow>
        (case p of
           StateCookie _ c \<Rightarrow> (a, Some c)
         | SupportedExtensions _ ts \<Rightarrow>
             (let ext = supportedExtensionsFromChunkTypes ts
              in (a\<lparr>a_peerForwardTSN := (a_peerForwardTSN a \<or> ext_forwardTSN ext),
                    a_peerInterleaving := (a_peerInterleaving a \<or> ext_interleaving ext),
                    a_peerIForwardTSN := (a_peerIForwardTSN a \<or> ext_iForwardTSN ext)\<rparr>, cookie))
         | ZeroChecksumAcceptable _ edmid \<Rightarrow> (a\<lparr>a_sendZeroChecksum := (edmid = dtlsErrorDetectionMethod)\<rparr>, cookie)
         | _ \<Rightarrow> (a, cookie)))"

definition peerParams :: "param list \<Rightarrow> 's association \<Rightarrow> 's association \<times> bytes option" where
  "peerParams ps a = fold peerParam ps (a\<lparr>a_peerInterleaving := False, a_peerForwardTSN := False, a_peerIForwardTSN := False\<rparr>, None)"

text \<open>What an INIT tells about the peer, and the answer with the cookie.\<close>

definition learnPeer :: "packet \<Rightarrow> chunkInitCommon \<Rightarrow> 's association \<Rightarrow> 's association" where
  "learnPeer pkt i a =
     a\<lparr>a_myMaxNumInboundStreams := min16 (numInboundStreams i) (a_myMaxNumInboundStreams a),
       a_myMaxNumOutboundStreams := min16 (numOutboundStreams i) (a_myMaxNumOutboundStreams a),
       a_peerVerificationTag := initiateTag i, a_sourcePort := destinationPort pkt, a_destinationPort := sourcePort pkt,
       a_payloadQueue := rq_init (initialTSN i - 1) (a_payloadQueue a), a_rwnd := init_arwnd i\<rparr>"

definition answerInit :: "'s env \<Rightarrow> ('s, packet list) assocM" where
  "answerInit e a =
     (case (case a_myCookie a of Some c \<Rightarrow> Inr c | None \<Rightarrow> e_cookie e) of
        Inl err \<Rightarrow> (Fail (Err err), a)
      | Inr cookie \<Rightarrow>
          (let ack = \<lparr>initiateTag = a_myVerificationTag a, init_arwnd = a_maxReceiveBufferSize a,
                 numOutboundStreams = a_myMaxNumOutboundStreams a, numInboundStreams = a_myMaxNumInboundStreams a,
                 initialTSN = a_myNextTSN a,
                 init_params = StateCookie zeroParamHeader cookie #
                   (if a_recvZeroChecksum a then [ZeroChecksumAcceptable zeroParamHeader dtlsErrorDetectionMethod] else []),
                 unrecognizedParams = []\<rparr>
           in (Ok [createPacket [ChunkInitAck zeroHeader (setSupportedExtensions (a_localInterleaving a) ack)] a],
               a\<lparr>a_myCookie := Some cookie\<rparr>)))"

definition handleInit :: "'s env \<Rightarrow> packet \<Rightarrow> chunkInitCommon \<Rightarrow> ('s, packet list) assocM" where
  "handleInit e pkt i a =
     (if a_state a \<noteq> closedState \<and> a_state a \<noteq> cookieWait \<and> a_state a \<noteq> cookieEchoed
      then (Fail (Err (ErrHandleInitState @ '': '' @ getAssociationStateString (a_state a))), a)
      else bindA (updateInterleavingState e) (\<lambda>_. answerInit e) (fst (peerParams (init_params i) (learnPeer pkt i a))))"

text \<open>The INIT ACK sets the tag and the TSNs before the ports are compared.\<close>

definition learnAck :: "chunkInitCommon \<Rightarrow> 's association \<Rightarrow> 's association" where
  "learnAck i a =
     a\<lparr>a_myMaxNumInboundStreams := min16 (numInboundStreams i) (a_myMaxNumInboundStreams a),
       a_myMaxNumOutboundStreams := min16 (numOutboundStreams i) (a_myMaxNumOutboundStreams a),
       a_peerVerificationTag := initiateTag i, a_payloadQueue := rq_init (initialTSN i - 1) (a_payloadQueue a)\<rparr>"

definition acceptAck :: "chunkInitCommon \<Rightarrow> 's association \<Rightarrow> 's association" where
  "acceptAck i a = a\<lparr>a_rwnd := init_arwnd i, a_ssthresh := init_arwnd i, a_t1Init := rt_stop (a_t1Init a), a_storedInit := None\<rparr>"

definition echoCookie :: "'s env \<Rightarrow> bytes option \<Rightarrow> ('s, unit) assocM" where
  "echoCookie e cookie a =
     (case cookie of
        None \<Rightarrow> (Fail (Err ErrInitAckNoCookie), a)
      | Some c \<Rightarrow>
          (let a1 = snd (sendCookieEcho (a\<lparr>a_storedCookieEcho := Some c\<rparr>))
           in (Ok (), a1\<lparr>a_t1Cookie := snd (rt_start (e_now e) (getRTO (a_rtoMgr a1)) (a_t1Cookie a1)), a_state := cookieEchoed\<rparr>)))"

definition handleInitAck :: "'s env \<Rightarrow> packet \<Rightarrow> chunkInitCommon \<Rightarrow> ('s, unit) assocM" where
  "handleInitAck e pkt i a =
     (if a_state a \<noteq> cookieWait then (Ok (), a)
      else
        (let a1 = learnAck i a
         in if a_sourcePort a1 \<noteq> destinationPort pkt \<or> a_destinationPort a1 \<noteq> sourcePort pkt then (Ok (), a1)
            else case peerParams (init_params i) (acceptAck i a1) of
                   (a2, cookie) \<Rightarrow> bindA (updateInterleavingState e) (\<lambda>_. echoCookie e cookie) a2))"

definition cookieAckPacket :: "'s association \<Rightarrow> packet" where
  "cookieAckPacket a = createPacket [ChunkCookieAck zeroHeader] a"

definition handleCookieEcho :: "'s env \<Rightarrow> bytes \<Rightarrow> ('s, packet list) assocM" where
  "handleCookieEcho e cookie a =
     (if a_myCookie a = None then (Ok [], a)
      else if a_state a = established
      then (if a_myCookie a \<noteq> Some cookie then (Ok [], a) else (Ok [cookieAckPacket a], a))
      else if a_state a = closedState \<or> a_state a = cookieWait \<or> a_state a = cookieEchoed
      then
        (if a_myCookie a \<noteq> Some cookie then (Ok [], a)
         else
           (let a1 = a\<lparr>a_t1Init := rt_stop (a_t1Init a), a_storedInit := None, a_t1Cookie := rt_stop (a_t1Cookie a), a_storedCookieEcho := None\<rparr>
            in case establish e a1 of
                 (Ok _, a2) \<Rightarrow>
                   bindA (completeHandshake e None) (\<lambda>sent a3. (Ok (if sent then [cookieAckPacket a3] else []), a3)) a2
               | (Fail (Err err), a2) \<Rightarrow> bindA (completeHandshake e (Some err)) (\<lambda>_. retA []) a2
               | (Fail Panic, a2) \<Rightarrow> (Fail Panic, a2)
               | (Stuck, a2) \<Rightarrow> (Stuck, a2)))
      else (Ok [], a))"

definition handleCookieAck :: "'s env \<Rightarrow> ('s, unit) assocM" where
  "handleCookieAck e a =
     (if a_state a \<noteq> cookieEchoed then (Ok (), a)
      else
        (let a1 = a\<lparr>a_t1Cookie := rt_stop (a_t1Cookie a), a_storedCookieEcho := None\<rparr>
         in case establish e a1 of
              (Ok _, a2) \<Rightarrow> bindA (completeHandshake e None) (\<lambda>_. retA ()) a2
            | (Fail (Err err), a2) \<Rightarrow> bindA (completeHandshake e (Some err)) (\<lambda>_. retA ()) a2
            | (Fail Panic, a2) \<Rightarrow> (Fail Panic, a2)
            | (Stuck, a2) \<Rightarrow> (Stuck, a2)))"

section \<open>Heartbeats\<close>

definition handleHeartbeat :: "param list \<Rightarrow> 's association \<Rightarrow> packet list" where
  "handleHeartbeat ps a =
     (case ps of
        HeartbeatInfo _ info # _ \<Rightarrow> [createPacket [ChunkHeartbeatAck zeroHeader [HeartbeatInfo zeroParamHeader info]] a]
      | _ \<Rightarrow> [])"

text \<open>\<^verbatim>\<open>d.Seconds() * 1000.0\<close> for a duration in nanoseconds.\<close>

definition durationMs :: "int \<Rightarrow> rat" where
  "durationMs d = float64 (float64 (of_int (d div 1000000000) + float64 (of_int (d mod 1000000000) / 1000000000)) * 1000)"

definition measureRTT :: "'s env \<Rightarrow> int \<Rightarrow> 's association \<Rightarrow> 's association" where
  "measureRTT e sent a =
     (case setNewRTT (durationMs (e_now e - sent)) (a_rtoMgr a) of
        (srtt, m) \<Rightarrow> a\<lparr>a_rtoMgr := m, a_srtt := srtt, a_rackMinRTTWnd := Push_wm (e_now e) (e_now e - sent) (a_rackMinRTTWnd a)\<rparr>)"

definition bigEndian :: "bytes \<Rightarrow> int" where
  "bigEndian bs = foldl (\<lambda>n b. n * 256 + uint b) 0 bs"

definition handleHeartbeatAck :: "'s env \<Rightarrow> param list \<Rightarrow> 's association \<Rightarrow> 's association" where
  "handleHeartbeatAck e ps a =
     (case ps of
        HeartbeatInfo _ info # _ \<Rightarrow>
          if length info = 8 \<and> bigEndian info < 2 ^ 63 \<and> bigEndian info \<le> e_now e then measureRTT e (bigEndian info) a else a
      | _ \<Rightarrow> a)"

definition sendActiveHeartbeatLocked :: "'s env \<Rightarrow> 's association \<Rightarrow> 's association" where
  "sendActiveHeartbeatLocked e a =
     awakeWriteLoop (a\<lparr>a_controlQueue := cq_push (createPacket
       [ChunkHeartbeat \<lparr>ch_typ = ctHeartbeat, ch_flags = 0, ch_raw = []\<rparr>
          [HeartbeatInfo zeroParamHeader (map (\<lambda>i. of_int (e_now e div 256 ^ (7 - i))) [0..<8])]] a) (a_controlQueue a)\<rparr>)"

definition ActiveHeartbeat :: "'s env \<Rightarrow> 's association \<Rightarrow> 's association" where
  "ActiveHeartbeat e a = (if a_state a \<noteq> established then a else sendActiveHeartbeatLocked e a)"

section \<open>Closing\<close>

abbreviation ErrShutdownNonEstablished :: string where "ErrShutdownNonEstablished \<equiv> ''shutdown called in non-established state''"
abbreviation ErrChunk :: string where "ErrChunk \<equiv> ''abort chunk, with following errors''"

text \<open>\<open>Shutdown\<close> up to the point where it waits for the association to end.\<close>

definition Shutdown :: "('s, unit) assocM" where
  "Shutdown a =
     (if a_state a \<noteq> established then (Fail (Err ErrShutdownNonEstablished), a)
      else if pq_size (a_inflightQueue a) = 0
      then (Ok (), awakeWriteLoop (a\<lparr>a_willSendShutdown := True, a_state := shutdownSent\<rparr>))
      else (Ok (), a\<lparr>a_state := shutdownPending\<rparr>))"

definition handleShutdown :: "'s association \<Rightarrow> 's association" where
  "handleShutdown a =
     (if a_state a = established
      then (if pq_size (a_inflightQueue a) > 0 then a\<lparr>a_state := shutdownReceived\<rparr>
            else awakeWriteLoop (a\<lparr>a_willSendShutdownAck := True, a_state := shutdownAckSent\<rparr>))
      else if a_state a = shutdownSent then awakeWriteLoop (a\<lparr>a_willSendShutdownAck := True, a_state := shutdownAckSent\<rparr>)
      else a)"

definition handleShutdownAck :: "'s association \<Rightarrow> 's association" where
  "handleShutdownAck a =
     (if a_state a = shutdownSent \<or> a_state a = shutdownAckSent
      then awakeWriteLoop (a\<lparr>a_t2Shutdown := rt_stop (a_t2Shutdown a), a_willSendShutdownComplete := True\<rparr>) else a)"

definition handleShutdownComplete :: "'s association \<Rightarrow> 's association" where
  "handleShutdownComplete a =
     (if a_state a = shutdownAckSent then a_close (a\<lparr>a_t2Shutdown := rt_stop (a_t2Shutdown a)\<rparr>) else a)"

definition handleAbort :: "('s, unit) assocM" where
  "handleAbort a = (Fail (Err ErrChunk), a_close a)"

definition Abort :: "bytes \<Rightarrow> 's association \<Rightarrow> 's association" where
  "Abort reason a =
     awakeWriteLoop (a\<lparr>a_willSendAbort := True, a_willSendAbortCause := Some (UserInitiatedAbort \<lparr>ec_code = 0, ec_len = 0, ec_raw = []\<rparr> reason)\<rparr>)"

section \<open>Packets\<close>

abbreviation ErrSCTPPacketSourcePortZero :: string where
  "ErrSCTPPacketSourcePortZero \<equiv> ''sctp packet must not have a source port of 0''"
abbreviation ErrSCTPPacketDestinationPortZero :: string where
  "ErrSCTPPacketDestinationPortZero \<equiv> ''sctp packet must not have a destination port of 0''"
abbreviation ErrInitChunkBundled :: string where
  "ErrInitChunkBundled \<equiv> ''init chunk must not be bundled with any other chunk''"
abbreviation ErrInitChunkVerifyTagNotZero :: string where
  "ErrInitChunkVerifyTagNotZero \<equiv> ''init chunk expects a verification tag of 0 on the packet when out-of-the-blue''"

definition isInit :: "chunk \<Rightarrow> bool" where
  "isInit c = (case c of ChunkInit _ _ \<Rightarrow> True | _ \<Rightarrow> False)"

definition checkPacket :: "packet \<Rightarrow> string option" where
  "checkPacket pkt =
     (if sourcePort pkt = 0 then Some ErrSCTPPacketSourcePortZero
      else if destinationPort pkt = 0 then Some ErrSCTPPacketDestinationPortZero
      else if list_ex isInit (chunks pkt)
      then (if length (chunks pkt) \<noteq> 1 then Some ErrInitChunkBundled
            else if verificationTag pkt \<noteq> 0 then Some ErrInitChunkVerifyTagNotZero else None)
      else None)"

end
