(* ===== verification/AssocSend.thy ===== *)
theory AssocSend
  imports AssocHandshake
begin

text \<open>
  The sending side of an association, \<^verbatim>\<open>association.go\<close> and \<^verbatim>\<open>WriteSCTP\<close> of \<^verbatim>\<open>stream.go\<close>: streams and
  writes, the transfer of pending chunks into flight within the windows, retransmission, bundling into
  packets, and the collection of everything that is due by \<open>gatherOutbound\<close>. Loops over the inflight
  queue only change chunks, so the chunks they visit are computed first.
\<close>

section \<open>Queues\<close>

definition inflightGet :: "u32 \<Rightarrow> ('s, cref option) assocM" where
  "inflightGet t a = liftA (pq_get (a_heap a) t (a_inflightQueue a)) a"

definition inflightPop :: "u32 \<Rightarrow> ('s, cref option) assocM" where
  "inflightPop t a =
     (case pq_pop (a_heap a) t (a_inflightQueue a) of
        Inl e \<Rightarrow> (Fail e, a)
      | Inr (c, q) \<Rightarrow> (Ok c, a\<lparr>a_inflightQueue := q\<rparr>))"

text \<open>The chunks found by \<^verbatim>\<open>get\<close> for successive TSNs until the first that is missing.\<close>

primrec inflightLoop :: "nat \<Rightarrow> u32 \<Rightarrow> ('s, (u32 \<times> cref) list) assocM" where
  "inflightLoop 0 t = retA []"
| "inflightLoop (Suc n) t =
     bindA (inflightGet t) (\<lambda>c. case c of None \<Rightarrow> retA [] | Some c \<Rightarrow> bindA (inflightLoop n (t + 1)) (\<lambda>cs. retA ((t, c) # cs)))"

definition inflightFrom :: "u32 \<Rightarrow> ('s, (u32 \<times> cref) list) assocM" where
  "inflightFrom t = withA (\<lambda>a. inflightLoop (nat (pq_size (a_inflightQueue a))) t)"

definition peekPending :: "'s env \<Rightarrow> ('s, cref option) assocM" where
  "peekPending e a =
     (case pd_peek (e_sched e) (a_pendingQueue a) of
        Inl err \<Rightarrow> (Fail err, a)
      | Inr (c, q) \<Rightarrow> (Ok c, a\<lparr>a_pendingQueue := q\<rparr>))"

text \<open>An error of \<^verbatim>\<open>pop\<close> is only logged.\<close>

definition popPending :: "'s env \<Rightarrow> cref \<Rightarrow> 's association \<Rightarrow> 's association" where
  "popPending e c a = a\<lparr>a_pendingQueue := snd (pd_pop (e_sched e) (a_heap a) c (a_pendingQueue a))\<rparr>"

definition pushPending :: "'s env \<Rightarrow> cref \<Rightarrow> 's association \<Rightarrow> 's association" where
  "pushPending e c a = a\<lparr>a_pendingQueue := pd_push (e_sched e) (a_heap a) c (a_pendingQueue a)\<rparr>"

definition updChunk :: "cref \<Rightarrow> (chunkPayloadData \<Rightarrow> chunkPayloadData) \<Rightarrow> 's association \<Rightarrow> 's association" where
  "updChunk c f a = a\<lparr>a_heap := (a_heap a)(c := f (a_heap a c))\<rparr>"

section \<open>Streams\<close>

definition updStream :: "sref \<Rightarrow> (stream \<Rightarrow> stream) \<Rightarrow> 's association \<Rightarrow> 's association" where
  "updStream r f a = a\<lparr>a_store := (a_store a)(r := f (a_store a r))\<rparr>"

text \<open>An accepted stream is dropped when the queue of 16 is full.\<close>

definition createStream :: "u16 \<Rightarrow> bool \<Rightarrow> 's association \<Rightarrow> sref option \<times> 's association" where
  "createStream sid accept a =
     (let r = a_nextStream a; a1 = a\<lparr>a_store := (a_store a)(r := newStream sid), a_nextStream := Suc r\<rparr>
      in if accept
         then (if length (a_acceptCh a1) < 16
               then (Some r, a1\<lparr>a_acceptCh := a_acceptCh a1 @ [r], a_streams := AList.update sid r (a_streams a1)\<rparr>)
               else (None, a1))
         else (Some r, a1\<lparr>a_streams := AList.update sid r (a_streams a1)\<rparr>))"

definition getOrCreateStream :: "u16 \<Rightarrow> bool \<Rightarrow> u32 \<Rightarrow> 's association \<Rightarrow> sref option \<times> 's association" where
  "getOrCreateStream sid accept ppi a =
     (case map_of (a_streams a) sid of
        Some r \<Rightarrow> (Some r, updStream r (SetDefaultPayloadType ppi) a)
      | None \<Rightarrow>
          (case createStream sid accept a of
             (None, a1) \<Rightarrow> (None, a1)
           | (Some r, a1) \<Rightarrow> (Some r, updStream r (SetDefaultPayloadType ppi) a1)))"

abbreviation ErrAssociationClosed :: string where "ErrAssociationClosed \<equiv> ''association closed''"
abbreviation ErrPayloadDataStateNotExist :: string where "ErrPayloadDataStateNotExist \<equiv> ''sending payload data in non-established state''"
abbreviation ErrResetPacketInStateNotExist :: string where "ErrResetPacketInStateNotExist \<equiv> ''sending reset packet in non-established state''"

definition OpenStream :: "u16 \<Rightarrow> u32 \<Rightarrow> ('s, sref option) assocM" where
  "OpenStream sid ppi a =
     (if a_state a \<in> {shutdownAckSent, shutdownPending, shutdownReceived, shutdownSent, closedState}
      then (Fail (Err ErrAssociationClosed), a)
      else (case getOrCreateStream sid False ppi a of (r, a1) \<Rightarrow> (Ok r, a1)))"

text \<open>\<open>AcceptStream\<close> waits while no stream is queued; after the end of the read loop it returns EOF.\<close>

definition AcceptStream :: "('s, sref) assocM" where
  "AcceptStream a =
     (case a_acceptCh a of
        r # rs \<Rightarrow> (Ok r, a\<lparr>a_acceptCh := rs\<rparr>)
      | [] \<Rightarrow> if a_readLoopClosed a then (Fail (Err EOF), a) else (Stuck, a))"

section \<open>Writing\<close>

text \<open>A write that waits for the pending data to be sent does not return here.\<close>

definition sendPayloadData :: "'s env \<Rightarrow> cref list \<Rightarrow> ('s, unit) assocM" where
  "sendPayloadData e cs a =
     (if a_state a \<noteq> established
      then (Fail (Err (ErrPayloadDataStateNotExist @ '': state='' @ getAssociationStateString (a_state a))), a)
      else if a_blockWrite a \<and> a_writePending a then (Stuck, a)
      else
        (let a1 = (if a_blockWrite a then a\<lparr>a_writePending := True\<rparr> else a)
         in (Ok (), awakeWriteLoop (fold (pushPending e) cs a1))))"

text \<open>The chunks of a message get the next references.\<close>

definition allocChunks :: "chunkPayloadData list \<Rightarrow> 's association \<Rightarrow> cref list \<times> 's association" where
  "allocChunks cs a =
     (let base = a_nextChunk a
      in ([base..<base + length cs],
          a\<lparr>a_heap := (\<lambda>c. if base \<le> c \<and> c < base + length cs then cs ! (c - base) else a_heap a c), a_nextChunk := base + length cs\<rparr>))"

definition WriteSCTP :: "'s env \<Rightarrow> sref \<Rightarrow> bytes \<Rightarrow> u32 \<Rightarrow> ('s, nat) assocM" where
  "WriteSCTP e r payload ppi a =
     (if length payload > unat (a_maxMessageSize a) then (Fail (Err ErrOutboundPacketTooLarge), a)
      else if s_state (a_store a r) \<noteq> StreamStateOpen then (Fail (Err ErrStreamClosed), a)
      else case packetize (a_useInterleaving a) (a_maxPayloadSize a) payload ppi (a_nextChunk a) (a_store a r) of
        None \<Rightarrow> (Stuck, a)
      | Some (cs, unord, s) \<Rightarrow>
          (case allocChunks cs (updStream r (\<lambda>_. s) a) of (refs, a1) \<Rightarrow>
             (case sendPayloadData e refs a1 of
                (Ok _, a2) \<Rightarrow> (Ok (length payload), a2)
              | (Fail err, a2) \<Rightarrow> (Fail err, updStream r (undoWrite (a_useInterleaving a) unord (length payload)) a2)
              | (Stuck, a2) \<Rightarrow> (Stuck, a2))))"

definition sendResetRequest :: "'s env \<Rightarrow> u16 \<Rightarrow> ('s, unit) assocM" where
  "sendResetRequest e sid a =
     (if a_state a \<noteq> established
      then (Fail (Err (ErrResetPacketInStateNotExist @ '': state='' @ getAssociationStateString (a_state a))), a)
      else
        (case allocChunks [zeroPayloadData\<lparr>streamIdentifier := sid, beginningFragment := True, endingFragment := True, userData := None\<rparr>] a of
           (refs, a1) \<Rightarrow> (Ok (), awakeWriteLoop (fold (pushPending e) refs a1))))"

definition CloseStream :: "'s env \<Rightarrow> sref \<Rightarrow> ('s, unit) assocM" where
  "CloseStream e r a =
     (case s_Close (a_store a r) of
        (True, s) \<Rightarrow> sendResetRequest e (s_streamIdentifier s) (updStream r (\<lambda>_. s) a)
      | (False, s) \<Rightarrow> (Ok (), updStream r (\<lambda>_. s) a))"

section \<open>Into flight\<close>

definition abandonChunk :: "cref \<Rightarrow> 's association \<Rightarrow> 's association" where
  "abandonChunk c a = rackRemove c (a\<lparr>a_heap := setAbandoned True c (a_heap a)\<rparr>)"

definition checkPartialReliabilityStatus :: "'s env \<Rightarrow> cref \<Rightarrow> 's association \<Rightarrow> 's association" where
  "checkPartialReliabilityStatus e c a =
     (if \<not> partialReliabilityEnabled a then a
      else if payloadType (a_heap a c) = PayloadTypeWebRTCDCEP then a
      else case map_of (a_streams a) (streamIdentifier (a_heap a c)) of
        None \<Rightarrow> a
      | Some r \<Rightarrow>
          (let s = a_store a r
           in if reliabilityType s = ReliabilityTypeRexmit
              then (if nSent (a_heap a c) \<ge> reliabilityValue s then abandonChunk c a else a)
              else if reliabilityType s = ReliabilityTypeTimed
              then (if truncRat (durationMs (e_now e - since (a_heap a c))) \<ge> uint (reliabilityValue s) then abandonChunk c a else a)
              else a))"

definition movePendingDataChunkToInflightQueue :: "'s env \<Rightarrow> cref \<Rightarrow> 's association \<Rightarrow> 's association" where
  "movePendingDataChunkToInflightQueue e c a =
     (let a1 = popPending e c a;
          a2 = (if endingFragment (a_heap a1 c) then a1\<lparr>a_heap := setAllInflight c (a_heap a1)\<rparr> else a1);
          (t, a3) = generateNextTSN a2;
          a4 = updChunk c (\<lambda>p. p\<lparr>tsn := t, since := e_now e, nSent := 1\<rparr>) a3;
          a5 = checkPartialReliabilityStatus e c a4
      in rackInsert c (a5\<lparr>a_inflightQueue := pushNoCheck (a_heap a5) c (a_inflightQueue a5)\<rparr>))"

text \<open>
  The loop of \<open>popPendingDataChunksToSend\<close>: \<open>bip\<close> is the size of the current packet. In each round a
  chunk leaves the pending queue or a new packet is begun, so twice the size of the queue is enough.
\<close>

primrec popLoop :: "'s env \<Rightarrow> nat \<Rightarrow> budget \<Rightarrow> int \<Rightarrow> cref list \<Rightarrow> u16 list \<Rightarrow> ('s, cref list \<times> u16 list \<times> budget) assocM" where
  "popLoop e 0 b bip cs sis = stuckA"
| "popLoop e (Suc n) b bip cs sis =
     bindA (peekPending e) (\<lambda>found. withA (\<lambda>a.
       case found of
         None \<Rightarrow> retA (cs, sis, b)
       | Some c \<Rightarrow>
           (let dataLen = of_nat (length (UserData (a_heap a c))) :: u32;
                chunkBytes = int (chunkSizeInPacket (a_heap a c));
                send = (\<lambda>b' bip'. bindA (modA (\<lambda>a. movePendingDataChunkToInflightQueue e c (a\<lparr>a_rwnd := a_rwnd a - dataLen\<rparr>)))
                   (\<lambda>_. popLoop e n b' (bip' + chunkBytes) (cs @ [c]) sis))
            in if dataLen = 0
               then bindA (modA (popPending e c)) (\<lambda>_. popLoop e n b bip cs (sis @ [streamIdentifier (a_heap a c)]))
               else if of_int (pq_getNumBytes (a_inflightQueue a)) + dataLen > a_cwnd a then retA (cs, sis, b)
               else if dataLen > a_rwnd a then retA (cs, sis, b)
               else if bip = 0
               then (if chunkBytes + 12 > uint (a_mtu a) then retA (cs, sis, b)
                     else case tlrAllowSendLocked a b (chunkBytes + 12) of
                            (False, b') \<Rightarrow> retA (cs, sis, b')
                          | (True, b') \<Rightarrow> send b' 12)
               else if bip + chunkBytes > uint (a_mtu a) then popLoop e n b 0 cs sis
               else case tlrAllowSendLocked a b chunkBytes of
                      (False, b') \<Rightarrow> retA (cs, sis, b')
                    | (True, b') \<Rightarrow> send b' bip)))"

text \<open>The zero window probe: one chunk may always be in flight.\<close>

definition windowProbe :: "'s env \<Rightarrow> budget \<Rightarrow> ('s, cref list \<times> budget) assocM" where
  "windowProbe e b =
     bindA (peekPending e) (\<lambda>found. withA (\<lambda>a.
       case found of
         None \<Rightarrow> retA ([], b)
       | Some c \<Rightarrow>
           (let addBytes = 12 + int (chunkSizeInPacket (a_heap a c))
            in if UserData (a_heap a c) \<noteq> [] \<and> addBytes \<le> uint (a_mtu a)
               then (case tlrAllowSendLocked a b addBytes of
                       (False, b') \<Rightarrow> retA ([], b')
                     | (True, b') \<Rightarrow> bindA (modA (movePendingDataChunkToInflightQueue e c)) (\<lambda>_. retA ([c], b')))
               else retA ([], b))))"

definition popPendingDataChunksToSend :: "'s env \<Rightarrow> budget \<Rightarrow> ('s, cref list \<times> u16 list \<times> budget) assocM" where
  "popPendingDataChunksToSend e b =
     bindA (withA (\<lambda>a.
       if pd_size (a_pendingQueue a) > 0
       then bindA (popLoop e (2 * nat (pd_size (a_pendingQueue a)) + 2) b 0 [] []) (\<lambda>(cs, sis, b'). withA (\<lambda>a1.
              if cs = [] \<and> pq_size (a_inflightQueue a1) = 0
              then bindA (windowProbe e b') (\<lambda>(cs', b''). retA (cs', sis, b''))
              else retA (cs, sis, b')))
       else retA ([], [], b)))
     (\<lambda>(cs, sis, b'). bindA (modA (\<lambda>a. if a_blockWrite a \<and> cs \<noteq> [] \<and> pd_size (a_pendingQueue a) = 0 then notifyBlockWritable a else a))
        (\<lambda>_. retA (cs, sis, b')))"

section \<open>Bundling\<close>

fun bundleLoop :: "nat \<Rightarrow> chunkPayloadData list \<Rightarrow> chunkPayloadData list \<Rightarrow> nat \<Rightarrow> chunkPayloadData list list" where
  "bundleLoop mtu [] cur n = (if cur \<noteq> [] then [cur] else [])"
| "bundleLoop mtu (c # cs) cur n =
     (if n + chunkSizeInPacket c > mtu then cur # bundleLoop mtu cs [c] (commonHeaderSize + chunkSizeInPacket c)
      else bundleLoop mtu cs (cur @ [c]) (n + chunkSizeInPacket c))"

definition bundleDataChunksIntoPackets :: "cref list \<Rightarrow> 's association \<Rightarrow> packet list" where
  "bundleDataChunksIntoPackets cs a =
     map (\<lambda>ps. createPacket (map ChunkPayloadData ps) a) (bundleLoop (unat (a_mtu a)) (map (a_heap a) cs) [] commonHeaderSize)"

text \<open>Packets that cannot be marshalled are left out.\<close>

fun marshalAll :: "packet list \<Rightarrow> ('s, bytes list) assocM" where
  "marshalAll [] = retA []"
| "marshalAll (p # ps) =
     withA (\<lambda>a. case marshalPacket p a of
         Inl Panic \<Rightarrow> failA Panic
       | Inl (Err _) \<Rightarrow> marshalAll ps
       | Inr raw \<Rightarrow> bindA (marshalAll ps) (\<lambda>raws. retA (raw # raws)))"

section \<open>Retransmission\<close>

text \<open>Whether a chunk goes into the current packet or a new one, and the size of that packet then.\<close>

definition fitPacket :: "'s association \<Rightarrow> budget \<Rightarrow> int \<Rightarrow> int \<Rightarrow> (int \<times> budget) option \<times> budget" where
  "fitPacket a b bip chunkBytes =
     (let base = (if bip \<noteq> 0 \<and> bip + chunkBytes \<le> uint (a_mtu a) then bip else 0);
          addBytes = (if base = 0 then chunkBytes + 12 else chunkBytes)
      in if base = 0 \<and> addBytes > uint (a_mtu a) then (None, b)
         else case tlrAllowSendLocked a b addBytes of
                (False, b') \<Rightarrow> (None, b')
              | (True, b') \<Rightarrow> (Some ((if base = 0 then 12 else base) + chunkBytes, b'), b'))"

definition resend :: "'s env \<Rightarrow> cref \<Rightarrow> 's association \<Rightarrow> 's association" where
  "resend e c a =
     checkPartialReliabilityStatus e c (rackInsert c (rackRemove c
       (updChunk c (\<lambda>p. p\<lparr>nSent := nSent p + 1, since := e_now e\<rparr>) a)))"

primrec rtxLoop :: "'s env \<Rightarrow> (u32 \<times> cref) list \<Rightarrow> bool \<Rightarrow> budget \<Rightarrow> nat \<Rightarrow> int \<Rightarrow> cref list \<Rightarrow> ('s, cref list \<times> budget) assocM" where
  "rtxLoop e [] first b sent bip cs = retA (cs, b)"
| "rtxLoop e (x # xs) first b sent bip cs =
     withA (\<lambda>a.
       let c = snd x; p = a_heap a c; len = length (UserData p)
       in if \<not> retransmit p then rtxLoop e xs False b sent bip cs
          else if \<not> (first \<and> unat (a_rwnd a) < len) \<and> sent + len > unat (min32 (a_cwnd a) (a_rwnd a)) then retA (cs, b)
          else case fitPacket a b bip (int (chunkSizeInPacket p)) of
                 (None, b') \<Rightarrow> retA (cs, b')
               | (Some (bip', b'), _) \<Rightarrow>
                   bindA (modA (\<lambda>a. resend e c (updChunk c (\<lambda>p. p\<lparr>retransmit := False\<rparr>) a)))
                     (\<lambda>_. rtxLoop e xs False b' (sent + len) bip' (cs @ [c])))"

definition getDataPacketsToRetransmit :: "'s env \<Rightarrow> budget \<Rightarrow> ('s, packet list \<times> budget) assocM" where
  "getDataPacketsToRetransmit e b =
     withA (\<lambda>a. bindA (inflightFrom (a_cumulativeTSNAckPoint a + 1)) (\<lambda>xs.
       bindA (rtxLoop e xs True b 0 0 []) (\<lambda>(cs, b'). withA (\<lambda>a1. retA (bundleDataChunksIntoPackets cs a1, b')))))"

primrec fastLoop :: "'s env \<Rightarrow> (u32 \<times> cref) list \<Rightarrow> budget \<Rightarrow> int \<Rightarrow> int \<Rightarrow> cref list \<Rightarrow> ('s, cref list \<times> budget) assocM" where
  "fastLoop e [] b wnd bip cs = retA (cs, b)"
| "fastLoop e (x # xs) b wnd bip cs =
     withA (\<lambda>a.
       let c = snd x; p = a_heap a c; chunkBytes = int (chunkSizeInPacket p)
       in if acked p \<or> abandoned (a_heap a) c then fastLoop e xs b wnd bip cs
          else if nSent p > 1 \<or> missIndicator p < 3 then fastLoop e xs b wnd bip cs
          else if uint (max (a_mtu a) (a_fastRtxWnd a)) < wnd + chunkBytes then retA (cs, b)
          else case fitPacket a b bip chunkBytes of
                 (None, b') \<Rightarrow> retA (cs, b')
               | (Some (bip', b'), _) \<Rightarrow>
                   bindA (modA (\<lambda>a. resend e c (a\<lparr>a_stats := (a_stats a)\<lparr>nFastRetrans := nFastRetrans (a_stats a) + 1\<rparr>\<rparr>)))
                     (\<lambda>_. fastLoop e xs b' (wnd + chunkBytes) bip' (cs @ [c])))"

definition gatherOutboundFastRetransmissionPackets :: "'s env \<Rightarrow> budget \<Rightarrow> ('s, bytes list \<times> budget) assocM" where
  "gatherOutboundFastRetransmissionPackets e b =
     withA (\<lambda>a.
       if \<not> a_willRetransmitFast a then retA ([], b)
       else bindA (modA (\<lambda>a. a\<lparr>a_willRetransmitFast := False\<rparr>)) (\<lambda>_.
            bindA (inflightFrom (a_cumulativeTSNAckPoint a + 1)) (\<lambda>xs.
            bindA (fastLoop e xs b 12 0 []) (\<lambda>(cs, b'). withA (\<lambda>a1.
              if cs = [] then retA ([], b')
              else bindA (marshalAll (bundleDataChunksIntoPackets cs a1)) (\<lambda>raws. retA (raws, b')))))))"


section \<open>Acknowledgements and skipped messages\<close>

text \<open>The loop over a map visits the keys in the order of the environment.\<close>

definition inOrder :: "('k list \<Rightarrow> 'k list) \<Rightarrow> ('k \<times> 'v) list \<Rightarrow> ('k \<times> 'v) list" where
  "inOrder order m = List.map_filter (\<lambda>k. map_option (\<lambda>v. (k, v)) (map_of m k)) (order (map fst m))"

definition getMyReceiverWindowCredit :: "'s association \<Rightarrow> u32" where
  "getMyReceiverWindowCredit a =
     (let bytesQueued = (\<Sum>(sid, r) \<leftarrow> a_streams a. of_int (getNumBytesInReassemblyQueue (a_store a r))) :: u32
      in if bytesQueued \<ge> a_maxReceiveBufferSize a then 0 else a_maxReceiveBufferSize a - bytesQueued)"

definition sackEntries :: "u32 \<Rightarrow> nat" where
  "sackEntries mtu = (if mtu > 28 then unat (min (mtu - 28) (65535 - 4 - 12) div 4) else 0)"

definition createSelectiveAckChunk :: "('s, chunkSelectiveAck) assocM" where
  "createSelectiveAckChunk a =
     (let maxEntries = sackEntries (a_mtu a)
      in case getGapAckBlocks maxEntries (a_payloadQueue a) of
           None \<Rightarrow> (Stuck, a)
         | Some (Inl e) \<Rightarrow> (Fail e, a)
         | Some (Inr gaps) \<Rightarrow>
             (case popDuplicates (a_payloadQueue a) of (dups, q) \<Rightarrow>
                (let n = min (int (length dups)) (int maxEntries - int (length gaps)); a1 = a\<lparr>a_payloadQueue := q\<rparr>
                 in if n < 0 then (Fail Panic, a1)
                    else (Ok \<lparr>ch_typ = 0, ch_flags = 0, ch_raw = [], cumulativeTSNAck = peerLastTSN a,
                              sack_arwnd = getMyReceiverWindowCredit a, gapAckBlocks = gaps, duplicateTSN = take (nat n) dups\<rparr>, a1))))"

text \<open>The chunks behind the cumulative acknowledgement up to the advanced one.\<close>

definition skippedChunks :: "('s, cref list) assocM" where
  "skippedChunks = withA (\<lambda>a. bindA (inflightFrom (a_cumulativeTSNAckPoint a + 1))
     (\<lambda>xs. retA (map snd (takeWhile (\<lambda>x. sna32LTE (fst x) (a_advancedPeerTSNAckPoint a)) xs))))"

text \<open>A map entry that only moves forward in the given order.\<close>

definition keepLatest :: "('v \<Rightarrow> 'v \<Rightarrow> bool) \<Rightarrow> 'k \<Rightarrow> 'v \<Rightarrow> ('k \<times> 'v) list \<Rightarrow> ('k \<times> 'v) list" where
  "keepLatest lt k v m = (case map_of m k of None \<Rightarrow> AList.update k v m | Some w \<Rightarrow> if lt w v then AList.update k v m else m)"

definition createForwardTSN :: "'s env \<Rightarrow> ('s, chunk) assocM" where
  "createForwardTSN e =
     bindA skippedChunks (\<lambda>cs. withA (\<lambda>a.
       let streamMap = fold (\<lambda>c. keepLatest sna16LT (streamIdentifier (a_heap a c)) (streamSequenceNumber (a_heap a c))) cs []
       in retA (ChunkForwardTSN zeroHeader (a_advancedPeerTSNAckPoint a)
            (map (\<lambda>(si, ssn). \<lparr>fwd_identifier = si, fwd_sequence = ssn\<rparr>) (inOrder (e_order16 e) streamMap)))))"

definition createIForwardTSN :: "'s env \<Rightarrow> ('s, chunk) assocM" where
  "createIForwardTSN e =
     bindA skippedChunks (\<lambda>cs. withA (\<lambda>a.
       let latest = (\<lambda>unord. fold (\<lambda>c. keepLatest sna32LT (streamIdentifier (a_heap a c)) (messageIdentifier (a_heap a c)))
                       (filter (\<lambda>c. unordered (a_heap a c) = unord) cs) []);
           entries = (\<lambda>unord. map (\<lambda>(si, mid). \<lparr>ifwd_identifier = si, ifwd_unordered = unord, ifwd_messageIdentifier = mid\<rparr>)
                       (inOrder (e_order16 e) (latest unord)))
       in retA (ChunkIForwardTSN zeroHeader (a_advancedPeerTSNAckPoint a) (entries False @ entries True))))"

section \<open>Gathering\<close>

definition gatherDataPacketsToRetransmit :: "'s env \<Rightarrow> budget \<Rightarrow> ('s, bytes list \<times> budget) assocM" where
  "gatherDataPacketsToRetransmit e b =
     bindA (getDataPacketsToRetransmit e b) (\<lambda>(ps, b'). bindA (marshalAll ps) (\<lambda>raws. retA (raws, b')))"

definition reconfigChunk :: "resetRequest \<Rightarrow> chunk" where
  "reconfigChunk req =
     (case req of (rsn, lastTSN, sis) \<Rightarrow> ChunkReconfig zeroHeader (OutgoingResetRequest zeroParamHeader rsn 0 lastTSN sis) None)"

definition gatherReconfig :: "'s env \<Rightarrow> u16 list \<Rightarrow> ('s, bytes list) assocM" where
  "gatherReconfig e sis =
     withA (\<lambda>a.
       if sis = [] \<and> \<not> a_willRetransmitReconfig a then retA []
       else
         bindA (if a_willRetransmitReconfig a
                then bindA (modA (\<lambda>a. a\<lparr>a_willRetransmitReconfig := False\<rparr>)) (\<lambda>_. withA (\<lambda>a.
                       marshalAll (map (\<lambda>(k, req). createPacket [reconfigChunk req] a) (inOrder (e_order32 e) (a_reconfigs a)))))
                else retA []) (\<lambda>raws1.
         bindA (if sis \<noteq> []
                then withA (\<lambda>a.
                       let (rsn, a1) = generateNextRSN a; req = (rsn, a_myNextTSN a1 - 1, sis)
                       in bindA (modA (\<lambda>_. a1\<lparr>a_reconfigs := AList.update rsn req (a_reconfigs a1)\<rparr>)) (\<lambda>_. withA (\<lambda>a2.
                            marshalAll [createPacket [reconfigChunk req] a2])))
                else retA []) (\<lambda>raws2.
         bindA (modA (\<lambda>a. if a_reconfigs a \<noteq> [] then startReconfig e a else a)) (\<lambda>_. retA (raws1 @ raws2)))))"

definition gatherOutboundDataAndReconfigPackets :: "'s env \<Rightarrow> budget \<Rightarrow> ('s, bytes list \<times> budget) assocM" where
  "gatherOutboundDataAndReconfigPackets e b =
     bindA (popPendingDataChunksToSend e b) (\<lambda>(cs, sis, b').
     bindA (if cs \<noteq> []
            then bindA (modA (startT3 e)) (\<lambda>_. bindA (withA (\<lambda>a. marshalAll (bundleDataChunksIntoPackets cs a))) (\<lambda>raws.
                 bindA (modA (schedulePTOAfterSendLocked e)) (\<lambda>_. retA raws)))
            else retA []) (\<lambda>raws1.
     bindA (gatherReconfig e sis) (\<lambda>raws2. retA (raws1 @ raws2, b'))))"

definition gatherOutboundSackPackets :: "('s, bytes list) assocM" where
  "gatherOutboundSackPackets =
     withA (\<lambda>a.
       if a_ackState a = ackStateImmediate
       then bindA (modA (\<lambda>a. a\<lparr>a_ackState := ackStateIdle\<rparr>)) (\<lambda>_.
            bindA createSelectiveAckChunk (\<lambda>sack.
            bindA (modA (\<lambda>a. a\<lparr>a_stats := (a_stats a)\<lparr>nSACKsSent := nSACKsSent (a_stats a) + 1\<rparr>\<rparr>)) (\<lambda>_. withA (\<lambda>a.
              marshalAll [createPacket [ChunkSelectiveAck sack] a]))))
       else retA [])"

definition gatherOutboundForwardTSNPackets :: "'s env \<Rightarrow> ('s, bytes list) assocM" where
  "gatherOutboundForwardTSNPackets e =
     withA (\<lambda>a.
       if a_willSendForwardTSN a
       then bindA (modA (\<lambda>a. a\<lparr>a_willSendForwardTSN := False\<rparr>)) (\<lambda>_.
              if sna32GT (a_advancedPeerTSNAckPoint a) (a_cumulativeTSNAckPoint a) \<and> (a_useIForwardTSN a \<or> a_useForwardTSN a)
              then bindA (if a_useIForwardTSN a then createIForwardTSN e else createForwardTSN e)
                     (\<lambda>c. withA (\<lambda>a. marshalAll [createPacket [c] a]))
              else retA [])
       else retA [])"

definition gatherOutboundShutdownPackets :: "'s env \<Rightarrow> ('s, bytes list \<times> bool) assocM" where
  "gatherOutboundShutdownPackets e =
     withA (\<lambda>a.
       if a_willSendShutdown a
       then bindA (modA (\<lambda>a. a\<lparr>a_willSendShutdown := False\<rparr>)) (\<lambda>_.
            bindA (marshalAll [createPacket [ChunkShutdown zeroHeader (a_cumulativeTSNAckPoint a)] a]) (\<lambda>raws.
            bindA (modA (\<lambda>a. if raws \<noteq> [] then startT2 e a else a)) (\<lambda>_. retA (raws, True))))
       else if a_willSendShutdownAck a
       then bindA (modA (\<lambda>a. a\<lparr>a_willSendShutdownAck := False\<rparr>)) (\<lambda>_.
            bindA (marshalAll [createPacket [ChunkShutdownAck zeroHeader] a]) (\<lambda>raws.
            bindA (modA (\<lambda>a. if raws \<noteq> [] then startT2 e a else a)) (\<lambda>_. retA (raws, True))))
       else if a_willSendShutdownComplete a
       then bindA (modA (\<lambda>a. a\<lparr>a_willSendShutdownComplete := False\<rparr>)) (\<lambda>_.
            bindA (marshalAll [createPacket [ChunkShutdownComplete zeroHeader] a]) (\<lambda>raws. retA (raws, raws = [])))
       else retA ([], True))"

definition gatherAbortPacket :: "('s, bytes list) assocM" where
  "gatherAbortPacket =
     withA (\<lambda>a. bindA (modA (\<lambda>a. a\<lparr>a_willSendAbort := False, a_willSendAbortCause := None\<rparr>)) (\<lambda>_.
       marshalAll [createPacket [ChunkAbort zeroHeader (case a_willSendAbortCause a of None \<Rightarrow> [] | Some c \<Rightarrow> [c])] a]))"

text \<open>The boolean is false when the association is to be closed after the packets are sent.\<close>

definition gatherOutbound :: "'s env \<Rightarrow> ('s, bytes list \<times> bool) assocM" where
  "gatherOutbound e =
     withA (\<lambda>a.
       if a_willSendAbort a then bindA gatherAbortPacket (\<lambda>raws.
              bindA (modA (\<lambda>a. if raws = [] then a\<lparr>a_abortSent := True\<rparr> else a)) (\<lambda>_. retA (raws, False)))
       else
         bindA (withA (\<lambda>a. case cq_popAll (a_controlQueue a) of (ps, q) \<Rightarrow>
                  bindA (modA (\<lambda>a. a\<lparr>a_controlQueue := q\<rparr>)) (\<lambda>_. marshalAll ps))) (\<lambda>control.
         if a_state a = established
         then bindA (withA (\<lambda>a. case tlrCurrentBurstBudgetScaledLocked e a of (u, a1) \<Rightarrow> bindA (modA (\<lambda>_. a1)) (\<lambda>_. retA (u, False)))) (\<lambda>b.
              bindA (gatherDataPacketsToRetransmit e b) (\<lambda>(r1, b1).
              bindA (gatherOutboundDataAndReconfigPackets e b1) (\<lambda>(r2, b2).
              bindA (gatherOutboundFastRetransmissionPackets e b2) (\<lambda>(r3, b3).
              bindA gatherOutboundSackPackets (\<lambda>r4.
              bindA (gatherOutboundForwardTSNPackets e) (\<lambda>r5. retA (control @ r1 @ r2 @ r3 @ r4 @ r5, True)))))))
         else if a_state a \<in> {shutdownPending, shutdownSent, shutdownReceived}
         then bindA (withA (\<lambda>a. case tlrCurrentBurstBudgetScaledLocked e a of (u, a1) \<Rightarrow> bindA (modA (\<lambda>_. a1)) (\<lambda>_. retA (u, False)))) (\<lambda>b.
              bindA (gatherDataPacketsToRetransmit e b) (\<lambda>(r1, b1).
              bindA (gatherOutboundFastRetransmissionPackets e b1) (\<lambda>(r2, b2).
              bindA gatherOutboundSackPackets (\<lambda>r3.
              bindA (gatherOutboundShutdownPackets e) (\<lambda>(r4, ok). retA (control @ r1 @ r2 @ r3 @ r4, ok))))))
         else if a_state a = shutdownAckSent
         then bindA (gatherOutboundShutdownPackets e) (\<lambda>(r, ok). retA (control @ r, ok))
         else retA (control, True)))"

end
