(* ===== verification/AssocRecv.thy ===== *)
theory AssocRecv
  imports AssocSend
begin

text \<open>
  The receiving side of an association, \<^verbatim>\<open>association.go\<close>: acknowledgements, congestion control, RACK and
  tail loss recovery, incoming data, skipped messages, stream resets, the dispatch of chunks and
  packets, and the timeouts. Where the code releases the lock around a call into a stream, the call is
  part of the same step here. The callbacks of streams are returned in the order of their calls.
\<close>

section \<open>Selective acknowledgements\<close>

abbreviation ErrInflightQueueTSNPop :: string where "ErrInflightQueueTSNPop \<equiv> ''unable to be popped from inflight queue TSN''"
abbreviation ErrTSNRequestNotExist :: string where "ErrTSNRequestNotExist \<equiv> ''requested non-existent TSN''"

text \<open>What a SACK acknowledged: bytes by stream, and the newest delivered chunk by its time of sending.\<close>

record sackInfo =
  bytesAckedPerStream :: "(u16 \<times> int) list"
  newestDelivered :: "(int \<times> u32) option"

definition addAcked :: "u16 \<Rightarrow> int \<Rightarrow> sackInfo \<Rightarrow> sackInfo" where
  "addAcked sid n x =
     x\<lparr>bytesAckedPerStream := AList.update sid ((case map_of (bytesAckedPerStream x) sid of None \<Rightarrow> 0 | Some m \<Rightarrow> m) + n) (bytesAckedPerStream x)\<rparr>"

definition noteDelivered :: "chunkPayloadData \<Rightarrow> sackInfo \<Rightarrow> sackInfo" where
  "noteDelivered p x =
     (case newestDelivered x of
        None \<Rightarrow> x\<lparr>newestDelivered := Some (since p, tsn p)\<rparr>
      | Some (t, _) \<Rightarrow> if since p > t then x\<lparr>newestDelivered := Some (since p, tsn p)\<rparr> else x)"

definition sampleRTT :: "'s env \<Rightarrow> chunkPayloadData \<Rightarrow> 's association \<Rightarrow> 's association" where
  "sampleRTT e p a =
     (if sna32GTE (tsn p) (a_minTSN2MeasureRTT a) \<and> nSent p = 1
      then measureRTT e (since p) (a\<lparr>a_minTSN2MeasureRTT := a_myNextTSN a\<rparr>) else a)"

text \<open>The loop over the cumulatively acknowledged chunks, in each round of which one chunk is popped.\<close>

primrec cumAckLoop :: "'s env \<Rightarrow> nat \<Rightarrow> u32 \<Rightarrow> u32 \<Rightarrow> sackInfo \<Rightarrow> ('s, sackInfo) assocM" where
  "cumAckLoop e 0 idx cum x = stuckA"
| "cumAckLoop e (Suc n) idx cum x =
     (if \<not> sna32LTE idx cum then retA x
      else bindA (inflightPop idx) (\<lambda>found. withA (\<lambda>a.
        case found of
          None \<Rightarrow> failA (Err ErrInflightQueueTSNPop)
        | Some c \<Rightarrow>
            (let p = a_heap a c; a1 = rackRemove c a;
                 a2 = (if acked p then a1
                       else sampleRTT e p (if idx = a_cumulativeTSNAckPoint a1 + 1 then a1\<lparr>a_t3RTX := rt_stop (a_t3RTX a1)\<rparr> else a1));
                 x' = (if acked p then x else noteDelivered p (addAcked (streamIdentifier p) (int (length (UserData p))) x))
             in bindA (modA (\<lambda>_. if a_inFastRecovery a2 \<and> tsn p = a_fastRecoverExitPoint a2 then a2\<lparr>a_inFastRecovery := False\<rparr> else a2))
                  (\<lambda>_. cumAckLoop e n (idx + 1) cum x')))))"

text \<open>The loop over one gap block; the index has 16 bits and wraps when the block ends at 65535.\<close>

primrec gapAckLoop :: "'s env \<Rightarrow> nat \<Rightarrow> u32 \<Rightarrow> u16 \<Rightarrow> u16 \<Rightarrow> u32 \<times> sackInfo \<Rightarrow> ('s, u32 \<times> sackInfo) assocM" where
  "gapAckLoop e 0 cum i hi st = stuckA"
| "gapAckLoop e (Suc n) cum i hi st =
     (if \<not> i \<le> hi then retA st
      else
        (let t = cum + ucast i
         in bindA (inflightGet t) (\<lambda>found. withA (\<lambda>a.
              case found of
                None \<Rightarrow> failA (Err ErrTSNRequestNotExist)
              | Some c \<Rightarrow>
                  (let p = a_heap a c; a1 = rackRemove c a; htna = (if sna32LT (fst st) t then t else fst st)
                   in if acked p then bindA (modA (\<lambda>_. a1)) (\<lambda>_. gapAckLoop e n cum (i + 1) hi (htna, snd st))
                      else case markAsAcked t (a_heap a1) (a_inflightQueue a1) of
                             Inl err \<Rightarrow> failA err
                           | Inr (nBytes, hp, q) \<Rightarrow>
                               bindA (modA (\<lambda>_. sampleRTT e p (a1\<lparr>a_heap := hp, a_inflightQueue := q\<rparr>)))
                                 (\<lambda>_. gapAckLoop e n cum (i + 1) hi
                                        (htna, noteDelivered p (addAcked (streamIdentifier p) nBytes (snd st))))))))) "

fun gapBlocksLoop :: "'s env \<Rightarrow> u32 \<Rightarrow> gapAckBlock list \<Rightarrow> u32 \<times> sackInfo \<Rightarrow> ('s, u32 \<times> sackInfo) assocM" where
  "gapBlocksLoop e cum [] st = retA st"
| "gapBlocksLoop e cum (g # gs) st =
     bindA (gapAckLoop e (unat (gap_end g - gap_start g) + 3) cum (gap_start g) (gap_end g) st) (gapBlocksLoop e cum gs)"

text \<open>The highest newly acknowledged TSN and the summary.\<close>

definition processSelectiveAck :: "'s env \<Rightarrow> chunkSelectiveAck \<Rightarrow> ('s, u32 \<times> sackInfo) assocM" where
  "processSelectiveAck e sack =
     withA (\<lambda>a.
       bindA (cumAckLoop e (nat (pq_size (a_inflightQueue a)) + 2) (a_cumulativeTSNAckPoint a + 1) (cumulativeTSNAck sack)
                \<lparr>bytesAckedPerStream = [], newestDelivered = None\<rparr>) (\<lambda>x.
       gapBlocksLoop e (cumulativeTSNAck sack) (gapAckBlocks sack) (cumulativeTSNAck sack, x)))"

section \<open>Congestion control\<close>

definition onCumulativeTSNAckPointAdvanced :: "'s env \<Rightarrow> int \<Rightarrow> 's association \<Rightarrow> 's association" where
  "onCumulativeTSNAckPointAdvanced e nAcked a =
     (let a1 = (if pq_size (a_inflightQueue a) = 0
                then stopRackTimer (stopPTOTimer (a\<lparr>a_t3RTX := rt_stop (a_t3RTX a)\<rparr>)) else startT3 e a);
          pending = (pd_size (a_pendingQueue a1) > 0)
      in if a_cwnd a1 \<le> a_ssthresh a1
         then (if \<not> a_inFastRecovery a1 \<and> pending then setCWND (a_cwnd a1 + min32 (word_of_int nAcked) (a_cwnd a1)) a1 else a1)
         else
           (let a2 = a1\<lparr>a_partialBytesAcked := a_partialBytesAcked a1 + word_of_int nAcked\<rparr>
            in if a_partialBytesAcked a2 \<ge> a_cwnd a2 \<and> pending
               then setCWND (a_cwnd a2 + max (a_mtu a2) (a_cwndCAStep a2)) (a2\<lparr>a_partialBytesAcked := a_partialBytesAcked a2 - a_cwnd a2\<rparr>)
               else a2))"

definition enterFastRecovery :: "u32 \<Rightarrow> 's association \<Rightarrow> 's association" where
  "enterFastRecovery htna a =
     (let a1 = a\<lparr>a_inFastRecovery := True, a_fastRecoverExitPoint := htna, a_ssthresh := max32 (a_cwnd a div 2) (4 * a_mtu a)\<rparr>
      in (setCWND (a_ssthresh a1) a1)\<lparr>a_partialBytesAcked := 0, a_willRetransmitFast := True\<rparr>)"

primrec missLoop :: "'s env \<Rightarrow> nat \<Rightarrow> u32 \<Rightarrow> u32 \<Rightarrow> u32 \<Rightarrow> ('s, unit) assocM" where
  "missLoop e 0 t maxTSN htna = stuckA"
| "missLoop e (Suc n) t maxTSN htna =
     (if \<not> sna32LT t maxTSN then retA ()
      else bindA (inflightGet t) (\<lambda>found. withA (\<lambda>a.
        case found of
          None \<Rightarrow> failA (Err ErrTSNRequestNotExist)
        | Some c \<Rightarrow>
            bindA (modA (\<lambda>a.
              if \<not> acked (a_heap a c) \<and> \<not> abandoned (a_heap a) c \<and> missIndicator (a_heap a c) < 3
              then (let a1 = updChunk c (\<lambda>p. p\<lparr>missIndicator := missIndicator p + 1\<rparr>) a
                    in if missIndicator (a_heap a1 c) = 3
                       then (let a2 = (if a_tlrActive a1 then tlrApplyAdditionalLossLocked (e_now e) a1 else a1)
                             in if \<not> a_inFastRecovery a2 then enterFastRecovery htna a2 else a2)
                       else a1)
              else a)) (\<lambda>_. missLoop e n (t + 1) maxTSN htna))))"

definition processFastRetransmission :: "'s env \<Rightarrow> u32 \<Rightarrow> gapAckBlock list \<Rightarrow> u32 \<Rightarrow> bool \<Rightarrow> ('s, unit) assocM" where
  "processFastRetransmission e cum gaps htna advanced =
     bindA (withA (\<lambda>a.
       if \<not> a_inFastRecovery a \<or> (a_inFastRecovery a \<and> advanced)
       then (let maxTSN = (if \<not> a_inFastRecovery a then htna
                           else if gaps \<noteq> [] then cum + ucast (gap_end (last gaps)) else cum)
             in missLoop e (nat (pq_size (a_inflightQueue a)) + 2) (cum + 1) maxTSN htna)
       else retA ()))
     (\<lambda>_. modA (\<lambda>a. if a_inFastRecovery a \<and> advanced then a\<lparr>a_willRetransmitFast := True\<rparr> else a))"

section \<open>RACK and tail loss recovery\<close>

primrec rackLinks :: "nat \<Rightarrow> cref option \<Rightarrow> 's association \<Rightarrow> cref list" where
  "rackLinks 0 c a = []"
| "rackLinks (Suc n) c a = (case c of None \<Rightarrow> [] | Some c \<Rightarrow> c # rackLinks n (a_rackNext a c) a)"

text \<open>The list from its head; it has no more elements than there are chunks.\<close>

definition rackList :: "'s association \<Rightarrow> cref list" where
  "rackList a = rackLinks (a_nextChunk a) (a_rackHead a) a"

fun rackMarkLoop :: "int \<Rightarrow> cref list \<Rightarrow> bool \<Rightarrow> 's association \<Rightarrow> bool \<times> 's association" where
  "rackMarkLoop delivered [] lost a = (lost, a)"
| "rackMarkLoop delivered (c # cs) lost a =
     (if acked (a_heap a c) \<or> abandoned (a_heap a) c then rackMarkLoop delivered cs lost (rackRemove c a)
      else if retransmit (a_heap a c) \<or> nSent (a_heap a c) > 1 then rackMarkLoop delivered cs lost a
      else if \<not> since (a_heap a c) + a_rackReoWnd a < delivered then (lost, a)
      else rackMarkLoop delivered cs True (rackRemove c (updChunk c (\<lambda>p. p\<lparr>retransmit := True\<rparr>) a)))"

text \<open>Marking of lost chunks, after a SACK and when the RACK timer fires.\<close>

definition rackMarkLost :: "'s env \<Rightarrow> 's association \<Rightarrow> 's association" where
  "rackMarkLost e a =
     (case a_rackDeliveredTime a of
        None \<Rightarrow> a
      | Some d \<Rightarrow>
          (case rackMarkLoop d (rackList a) False a of
             (lost, a1) \<Rightarrow>
               if lost then awakeWriteLoop (if a_tlrActive a1 then tlrApplyAdditionalLossLocked (e_now e) a1 else a1) else a1))"

definition rackReordering :: "sackInfo \<Rightarrow> 's association \<Rightarrow> 's association" where
  "rackReordering x a =
     (case newestDelivered x of
        None \<Rightarrow> a
      | Some (t, d) \<Rightarrow>
          (let a1 = (if sna32LT (a_rackHighestDeliveredOrigTSN a) d then a\<lparr>a_rackHighestDeliveredOrigTSN := d\<rparr> else a\<lparr>a_rackReorderingSeen := True\<rparr>)
           in if a_rackDeliveredTime a1 = None \<or> the (a_rackDeliveredTime a1) < t then a1\<lparr>a_rackDeliveredTime := Some t\<rparr> else a1))"

definition reoQuarter :: "'s association \<Rightarrow> int" where
  "reoQuarter a = max (a_rackMinRTT a div 4) (a_rackReoWndFloor a)"

definition rackSampleMin :: "'s env \<Rightarrow> 's association \<Rightarrow> 's association" where
  "rackSampleMin e a =
     (case Min_wm (e_now e) (a_rackMinRTTWnd a) of (minRTT, w) \<Rightarrow>
        a\<lparr>a_rackMinRTTWnd := w, a_rackMinRTT := (if minRTT > 0 then minRTT else a_rackMinRTT a)\<rparr>)"

definition rackBase :: "'s association \<Rightarrow> 's association" where
  "rackBase a =
     (let base = (if a_rackMinRTT a > 0 then reoQuarter a else 0)
      in if \<not> a_rackReorderingSeen a \<and> (a_inFastRecovery a \<or> rt_isRunning (a_t3RTX a)) then a\<lparr>a_rackReoWnd := 0\<rparr>
         else if a_rackReoWnd a = 0 \<and> base > 0 then a\<lparr>a_rackReoWnd := base\<rparr> else a)"

definition rackInflate :: "chunkSelectiveAck \<Rightarrow> 's association \<Rightarrow> 's association" where
  "rackInflate sack a =
     (if duplicateTSN sack \<noteq> [] \<and> a_rackMinRTT a > 0
      then a\<lparr>a_rackReoWnd := a_rackReoWnd a + reoQuarter a, a_rackKeepInflatedRecoveries := 16\<rparr> else a)"

definition rackDeflate :: "'s association \<Rightarrow> 's association" where
  "rackDeflate a =
     (if \<not> a_inFastRecovery a \<and> a_rackKeepInflatedRecoveries a > 0
      then (let a1 = a\<lparr>a_rackKeepInflatedRecoveries := a_rackKeepInflatedRecoveries a - 1\<rparr>
            in if a_rackKeepInflatedRecoveries a1 = 0 \<and> a_rackMinRTT a1 > 0 then a1\<lparr>a_rackReoWnd := a_rackMinRTT a1 div 4\<rparr> else a1)
      else a)"

definition rackBound :: "'s association \<Rightarrow> 's association" where
  "rackBound a = (if a_srtt a > 0 \<and> a_rackReoWnd a > srttDuration a then a\<lparr>a_rackReoWnd := srttDuration a\<rparr> else a)"

text \<open>The upkeep of the reordering window.\<close>

definition rackWindow :: "'s env \<Rightarrow> chunkSelectiveAck \<Rightarrow> 's association \<Rightarrow> 's association" where
  "rackWindow e sack a = rackBound (rackDeflate (rackInflate sack (rackBase (rackSampleMin e a))))"

definition onRackAfterSACK :: "'s env \<Rightarrow> sackInfo \<Rightarrow> chunkSelectiveAck \<Rightarrow> 's association \<Rightarrow> 's association" where
  "onRackAfterSACK e x sack a =
     (let a1 = rackMarkLost e (rackWindow e sack (rackReordering x a));
          a2 = (case (a_rackHead a1, a_rackDeliveredTime a1) of
                  (Some _, Some d) \<Rightarrow> startRackTimer e (max (e_now e - d) 0 + a_rackReoWnd a1) a1
                | _ \<Rightarrow> stopRackTimer a1)
      in schedulePTOAfterSendLocked e a2)"

definition onRackTimeoutLocked :: "'s env \<Rightarrow> 's association \<Rightarrow> 's association" where
  "onRackTimeoutLocked e a = rackMarkLost e a"

definition tlrBeginLocked :: "'s env \<Rightarrow> ('s, unit) assocM" where
  "tlrBeginLocked e =
     withA (\<lambda>a. bindA (inflightFrom (a_cumulativeTSNAckPoint a + 1)) (\<lambda>xs.
       modA (\<lambda>a. a\<lparr>a_tlrActive := True, a_tlrFirstRTT := True, a_tlrHadAdditionalLoss := False, a_tlrStartTime := Some (e_now e),
         a_tlrEndTSN := (if xs = [] then a_cumulativeTSNAckPoint a else fst (last xs))\<rparr>)))"

definition onPTOTimerLocked :: "'s env \<Rightarrow> ('s, unit) assocM" where
  "onPTOTimerLocked e =
     withA (\<lambda>a.
       if pq_size (a_inflightQueue a) = 0 then modA (\<lambda>a. sendActiveHeartbeatLocked e (stopPTOTimer a))
       else bindA (if \<not> a_tlrActive a then tlrBeginLocked e else modA (tlrApplyAdditionalLossLocked (e_now e))) (\<lambda>_. withA (\<lambda>a.
         if pd_size (a_pendingQueue a) > 0 then modA awakeWriteLoop
         else bindA (inflightFrom (a_cumulativeTSNAckPoint a + 1)) (\<lambda>xs.
           let open' = filter (\<lambda>c. \<not> acked (a_heap a c) \<and> \<not> abandoned (a_heap a) c) (map snd xs)
           in modA (\<lambda>a. if open' \<noteq> [] \<and> \<not> retransmit (a_heap a (last open'))
                        then awakeWriteLoop (updChunk (last open') (\<lambda>p. p\<lparr>retransmit := True\<rparr>) a) else a)))))"


section \<open>Handling of a SACK\<close>

primrec advanceLoop :: "(u32 \<times> cref) list \<Rightarrow> 's association \<Rightarrow> 's association" where
  "advanceLoop [] a = a"
| "advanceLoop (x # xs) a = (if abandoned (a_heap a) (snd x) then advanceLoop xs (a\<lparr>a_advancedPeerTSNAckPoint := fst x\<rparr>) else a)"

text \<open>RFC 3758 section 3.5, C2 and C3.\<close>

definition advancePeerAckPoint :: "('s, unit) assocM" where
  "advancePeerAckPoint =
     withA (\<lambda>a. bindA (inflightFrom (a_advancedPeerTSNAckPoint a + 1)) (\<lambda>xs.
       modA (\<lambda>a. let a1 = advanceLoop xs a
                 in if sna32GT (a_advancedPeerTSNAckPoint a1) (a_cumulativeTSNAckPoint a1) then a1\<lparr>a_willSendForwardTSN := True\<rparr> else a1)))"

definition postprocessSack :: "'s env \<Rightarrow> assocState \<Rightarrow> bool \<Rightarrow> 's association \<Rightarrow> 's association" where
  "postprocessSack e st awake a =
     (if pq_size (a_inflightQueue a) > 0 then (if awake then awakeWriteLoop (startT3 e a) else startT3 e a)
      else if st = shutdownPending then awakeWriteLoop (a\<lparr>a_willSendShutdown := True, a_state := shutdownSent\<rparr>)
      else if st = shutdownReceived then awakeWriteLoop (a\<lparr>a_willSendShutdownAck := True, a_state := shutdownAckSent\<rparr>)
      else if awake then awakeWriteLoop a else a)"

text \<open>The callbacks of the streams whose bytes were acknowledged.\<close>

fun releaseBuffers :: "(u16 \<times> int) list \<Rightarrow> 's association \<Rightarrow> nat list \<times> 's association" where
  "releaseBuffers [] a = ([], a)"
| "releaseBuffers ((sid, n) # xs) a =
     (case map_of (a_streams a) sid of
        None \<Rightarrow> releaseBuffers xs a
      | Some r \<Rightarrow>
          (case onBufferReleased n (a_store a r) of (cb, s) \<Rightarrow>
             (case releaseBuffers xs (updStream r (\<lambda>_. s) a) of (cbs, a1) \<Rightarrow> ((case cb of None \<Rightarrow> [] | Some f \<Rightarrow> [f]) @ cbs, a1))))"

definition sackWindow :: "chunkSelectiveAck \<Rightarrow> 's association \<Rightarrow> 's association" where
  "sackWindow sack a =
     (let outstanding = word_of_int (pq_getNumBytes (a_inflightQueue a))
      in a\<lparr>a_rwnd := (if outstanding \<ge> sack_arwnd sack then 0 else sack_arwnd sack - outstanding)\<rparr>)"

definition handleSack :: "'s env \<Rightarrow> chunkSelectiveAck \<Rightarrow> ('s, nat list) assocM" where
  "handleSack e sack =
     withA (\<lambda>a0. let st = a_state a0 in
       if st \<noteq> established \<and> st \<noteq> shutdownPending \<and> st \<noteq> shutdownReceived then retA []
       else bindA (modA (\<lambda>a. a\<lparr>a_stats := (a_stats a)\<lparr>nSACKsReceived := nSACKsReceived (a_stats a) + 1\<rparr>\<rparr>)) (\<lambda>_.
         if sna32GT (a_cumulativeTSNAckPoint a0) (cumulativeTSNAck sack) then retA []
         else bindA (processSelectiveAck e sack) (\<lambda>(htna, x). withA (\<lambda>a.
           let nAcked = (\<Sum>(sid, n) \<leftarrow> bytesAckedPerStream x. n);
               advanced = sna32LT (a_cumulativeTSNAckPoint a) (cumulativeTSNAck sack);
               a1 = (if advanced then onCumulativeTSNAckPointAdvanced e nAcked (a\<lparr>a_cumulativeTSNAckPoint := cumulativeTSNAck sack\<rparr>) else a)
           in case releaseBuffers (inOrder (e_order16 e) (bytesAckedPerStream x)) a1 of
                (cbs, a2) \<Rightarrow>
                  bindA (modA (\<lambda>_. sackWindow sack a2)) (\<lambda>_.
                  bindA (processFastRetransmission e (cumulativeTSNAck sack) (gapAckBlocks sack) htna advanced) (\<lambda>_.
                  bindA (withA (\<lambda>a.
                    if partialReliabilityEnabled a
                    then bindA (modA (\<lambda>a. if sna32LT (a_advancedPeerTSNAckPoint a) (a_cumulativeTSNAckPoint a)
                                          then a\<lparr>a_advancedPeerTSNAckPoint := a_cumulativeTSNAckPoint a\<rparr> else a)) (\<lambda>_.
                         bindA advancePeerAckPoint (\<lambda>_. modA awakeWriteLoop))
                    else retA ())) (\<lambda>_.
                  bindA (modA (\<lambda>a. tlrMaybeFinishLocked (advanced \<or> newestDelivered x \<noteq> None)
                           (onRackAfterSACK e x sack (postprocessSack e st advanced a)))) (\<lambda>_. retA cbs))))))))"

section \<open>Stream resets\<close>

abbreviation reconfigResultSuccessPerformed :: u32 where "reconfigResultSuccessPerformed \<equiv> 1"
abbreviation reconfigResultInProgress :: u32 where "reconfigResultInProgress \<equiv> 6"
abbreviation ErrTooManyReconfigRequests :: string where "ErrTooManyReconfigRequests \<equiv> ''too many outstanding reconfig requests''"
abbreviation ErrParamterType :: string where "ErrParamterType \<equiv> ''unexpected parameter type''"

definition resetStream :: "u16 \<Rightarrow> 's association \<Rightarrow> 's association" where
  "resetStream sid a =
     (case map_of (a_streams a) sid of
        None \<Rightarrow> a
      | Some r \<Rightarrow> (updStream r onInboundStreamReset a)\<lparr>a_streams := AList.delete (s_streamIdentifier (a_store a r)) (a_streams a)\<rparr>)"

definition resetStreamsIfAny :: "resetRequest \<Rightarrow> 's association \<Rightarrow> packet \<times> 's association" where
  "resetStreamsIfAny req a =
     (case req of (rsn, lastTSN, sis) \<Rightarrow>
        (let (res, a1) =
           (if sna32LTE lastTSN (peerLastTSN a)
            then (reconfigResultSuccessPerformed, (fold resetStream sis a)\<lparr>a_reconfigRequests := AList.delete rsn (a_reconfigRequests a)\<rparr>)
            else (reconfigResultInProgress, a))
         in (createPacket [ChunkReconfig zeroHeader (ReconfigResponse zeroParamHeader rsn res) None] a1, a1)))"

definition resetOutgoing :: "u32 \<Rightarrow> 's association \<Rightarrow> 's association" where
  "resetOutgoing rsn a =
     (case map_of (a_reconfigs a) rsn of
        None \<Rightarrow> a
      | Some (_, _, sis) \<Rightarrow>
          fold (\<lambda>sid a. case map_of (a_streams a) sid of None \<Rightarrow> a | Some r \<Rightarrow> updStream r resetOutgoingStreamSequenceNumbers a) sis a)"

text \<open>The comparison with the last TSN of the sender is one of plain integers in the code.\<close>

definition handleReconfigParam :: "'s env \<Rightarrow> param \<Rightarrow> ('s, packet list) assocM" where
  "handleReconfigParam e par a =
     (case par of
        OutgoingResetRequest _ rsn _ lastTSN sis \<Rightarrow>
          if peerLastTSN a < lastTSN \<and> length (a_reconfigRequests a) \<ge> 1000 then (Fail (Err ErrTooManyReconfigRequests), a)
          else (case resetStreamsIfAny (rsn, lastTSN, sis) (a\<lparr>a_reconfigRequests := AList.update rsn (rsn, lastTSN, sis) (a_reconfigRequests a)\<rparr>) of
                  (p, a1) \<Rightarrow> (Ok [p], a1))
      | ReconfigResponse _ rsn res \<Rightarrow>
          if res = reconfigResultInProgress
          then (Ok [], if map_of (a_reconfigs a) rsn \<noteq> None then startReconfig e (a\<lparr>a_tReconfig := rt_stop (a_tReconfig a)\<rparr>) else a)
          else
            (let a1 = (if res = reconfigResultSuccessPerformed then resetOutgoing rsn a else a);
                 a2 = a1\<lparr>a_reconfigs := AList.delete rsn (a_reconfigs a1)\<rparr>
             in (Ok [], if a_reconfigs a2 = [] then a2\<lparr>a_tReconfig := rt_stop (a_tReconfig a2)\<rparr> else a2))
      | _ \<Rightarrow> (Fail (Err ErrParamterType), a))"

definition handleReconfig :: "'s env \<Rightarrow> param \<Rightarrow> param option \<Rightarrow> ('s, packet list) assocM" where
  "handleReconfig e paramA paramB =
     bindA (handleReconfigParam e paramA) (\<lambda>ps.
       case paramB of None \<Rightarrow> retA ps | Some p \<Rightarrow> bindA (handleReconfigParam e p) (\<lambda>ps'. retA (ps @ ps')))"

section \<open>Incoming data\<close>

definition resetPending :: "'s env \<Rightarrow> 's association \<Rightarrow> packet list \<times> 's association" where
  "resetPending e a =
     foldl (\<lambda>(ps, a) (k, req). case resetStreamsIfAny req a of (p, a1) \<Rightarrow> (ps @ [p], a1)) ([], a) (inOrder (e_order32 e) (a_reconfigRequests a))"

primrec popTSNLoop :: "'s env \<Rightarrow> nat \<Rightarrow> packet list \<Rightarrow> ('s, packet list) assocM" where
  "popTSNLoop e 0 reply = stuckA"
| "popTSNLoop e (Suc n) reply =
     withA (\<lambda>a. case rq_pop False (a_payloadQueue a) of
         Inl err \<Rightarrow> failA err
       | Inr (ok, q) \<Rightarrow>
           (if \<not> ok then bindA (modA (\<lambda>a. a\<lparr>a_payloadQueue := q\<rparr>)) (\<lambda>_. retA reply)
            else case resetPending e (a\<lparr>a_payloadQueue := q\<rparr>) of
                   (ps, a1) \<Rightarrow> bindA (modA (\<lambda>_. a1)) (\<lambda>_. popTSNLoop e n (reply @ ps))))"

definition handlePeerLastTSNAndAcknowledgement :: "'s env \<Rightarrow> bool \<Rightarrow> ('s, packet list) assocM" where
  "handlePeerLastTSNAndAcknowledgement e sackImmediately =
     withA (\<lambda>a. bindA (popTSNLoop e (nat (rq_size (a_payloadQueue a)) + 1) []) (\<lambda>reply.
       bindA (modA (\<lambda>a.
         if sackImmediately \<or> rq_size (a_payloadQueue a) > 0 \<or> a_ackMode a = ackModeNoDelay then a\<lparr>a_immediateAckTriggered := True\<rparr>
         else if a_ackMode a = ackModeAlwaysDelay \<or> (a_ackMode a = ackModeNormal \<and> a_ackState a \<noteq> ackStateImmediate)
         then (if a_ackState a = ackStateIdle then a\<lparr>a_delayedAckTriggered := True\<rparr> else a\<lparr>a_immediateAckTriggered := True\<rparr>)
         else a\<lparr>a_immediateAckTriggered := True\<rparr>)) (\<lambda>_. retA reply)))"

definition errString :: "sctp_error \<Rightarrow> string" where
  "errString e = (case e of Err s \<Rightarrow> s | Panic \<Rightarrow> '''')"

text \<open>The result is false when the association is aborted.\<close>

definition pushPayloadDataToStream :: "sref \<Rightarrow> chunkPayloadData \<Rightarrow> ('s, bool) assocM" where
  "pushPayloadDataToStream r pd a =
     (case rq_push (tsn pd) (a_payloadQueue a) of
        Inl err \<Rightarrow> (Fail err, a)
      | Inr (_, q) \<Rightarrow>
          (case s_handleData pd (a_store a r) of
             (None, _, s) \<Rightarrow> (Ok True, updStream r (\<lambda>_. s) (a\<lparr>a_payloadQueue := q\<rparr>))
           | (Some Panic, _, s) \<Rightarrow> (Fail Panic, a)
           | (Some err, _, s) \<Rightarrow> (Ok False, abortProtocolViolation (errString err) (updStream r (\<lambda>_. s) (a\<lparr>a_payloadQueue := q\<rparr>)))))"

definition acceptPayloadData :: "chunkPayloadData \<Rightarrow> ('s, bool) assocM" where
  "acceptPayloadData pd a =
     (case getOrCreateStream (streamIdentifier pd) True PayloadTypeUnknown a of
        (None, a1) \<Rightarrow> (Ok False, a1)
      | (Some r, a1) \<Rightarrow>
          if getMyReceiverWindowCredit a1 > 0 then pushPayloadDataToStream r pd a1
          else (case getLastTSNReceived (a_payloadQueue a1) of
                  None \<Rightarrow> (Ok True, a1)
                | Some lastTSN \<Rightarrow> if \<not> sna32LT (tsn pd) lastTSN then (Ok True, a1) else pushPayloadDataToStream r pd a1))"

definition handleData :: "'s env \<Rightarrow> chunkPayloadData \<Rightarrow> ('s, packet list) assocM" where
  "handleData e pd =
     withA (\<lambda>a.
       if a_state a \<noteq> established \<and> a_state a \<noteq> shutdownPending \<and> a_state a \<noteq> shutdownReceived then retA []
       else if isIData pd \<noteq> a_useInterleaving a
       then bindA (modA (abortProtocolViolation
              (if isIData pd then ''received I-DATA without interleaving negotiated'' else ''received DATA with interleaving negotiated'')))
              (\<lambda>_. retA [])
       else bindA (modA (\<lambda>a. a\<lparr>a_stats := (a_stats a)\<lparr>nDATAs := nDATAs (a_stats a) + 1\<rparr>\<rparr>)) (\<lambda>_.
            bindA (liftA (canPush (tsn pd) (a_payloadQueue a))) (\<lambda>can.
            bindA (if can then acceptPayloadData pd else retA True) (\<lambda>ok.
              if \<not> ok then retA []
              else withA (\<lambda>a. handlePeerLastTSNAndAcknowledgement e
                     (immediateSack pd \<or> sna32GT (tsn pd) (peerLastTSN a + 1)))))))"

text \<open>An acknowledgement is sent at once for a FORWARD TSN that brings nothing new.\<close>

definition ackNow :: "'s association \<Rightarrow> 's association" where
  "ackNow a = awakeWriteLoop (a\<lparr>a_ackState := ackStateImmediate, a_ackTimer := at_stop (a_ackTimer a)\<rparr>)"

definition advancePayloadQueue :: "u32 \<Rightarrow> ('s, unit) assocM" where
  "advancePayloadQueue t a =
     (case advanceCumulativeTSN t (a_payloadQueue a) of Inl err \<Rightarrow> (Fail err, a) | Inr q \<Rightarrow> (Ok (), a\<lparr>a_payloadQueue := q\<rparr>))"

definition onStream :: "u16 \<Rightarrow> (stream \<Rightarrow> stream) \<Rightarrow> 's association \<Rightarrow> 's association" where
  "onStream sid f a = (case map_of (a_streams a) sid of None \<Rightarrow> a | Some r \<Rightarrow> updStream r f a)"

definition handleForwardTSN :: "'s env \<Rightarrow> u32 \<Rightarrow> chunkForwardTSNStream list \<Rightarrow> ('s, packet list) assocM" where
  "handleForwardTSN e newCum fwds =
     withA (\<lambda>a.
       if a_useInterleaving a
       then bindA (modA (abortProtocolViolation ''received FORWARD-TSN with interleaving enabled'')) (\<lambda>_. retA [])
       else if \<not> a_useForwardTSN a
       then retA [createPacket [ChunkError zeroHeader [UnrecognizedChunkType \<lparr>ec_code = 0, ec_len = 0, ec_raw = []\<rparr> []]] a]
       else if sna32LTE newCum (peerLastTSN a) then bindA (modA ackNow) (\<lambda>_. retA [])
       else bindA (advancePayloadQueue newCum) (\<lambda>_.
            bindA (modA (fold (\<lambda>f. onStream (fwd_identifier f) (\<lambda>s. snd (handleForwardTSNForOrdered (fwd_sequence f) s))) fwds)) (\<lambda>_.
            bindA (modA (\<lambda>a. fold (\<lambda>(sid, r). updStream r (\<lambda>s. snd (handleForwardTSNForUnordered newCum s))) (inOrder (e_order16 e) (a_streams a)) a)) (\<lambda>_.
              handlePeerLastTSNAndAcknowledgement e False))))"

definition handleIForwardTSN :: "'s env \<Rightarrow> u32 \<Rightarrow> chunkIForwardTSNStream list \<Rightarrow> ('s, packet list) assocM" where
  "handleIForwardTSN e newCum fwds =
     withA (\<lambda>a.
       if \<not> a_useIForwardTSN a
       then bindA (modA (abortProtocolViolation ''received I-FORWARD-TSN without support'')) (\<lambda>_. retA [])
       else if sna32LTE newCum (peerLastTSN a) then bindA (modA ackNow) (\<lambda>_. retA [])
       else bindA (advancePayloadQueue newCum) (\<lambda>_.
            bindA (modA (fold (\<lambda>f. onStream (ifwd_identifier f)
                     (if ifwd_unordered f then (\<lambda>s. snd (handleForwardTSNForUnorderedMID (ifwd_messageIdentifier f) s))
                      else (\<lambda>s. snd (handleForwardTSNForOrderedMID (ifwd_messageIdentifier f) s)))) fwds)) (\<lambda>_.
              handlePeerLastTSNAndAcknowledgement e False)))"

section \<open>Dispatch\<close>

definition shouldAbortOnChunkValidationError :: "chunk \<Rightarrow> bool" where
  "shouldAbortOnChunkValidationError c =
     (case c of ChunkInit _ _ \<Rightarrow> False | ChunkInitAck _ _ \<Rightarrow> False | ChunkCookieEcho _ _ \<Rightarrow> False | _ \<Rightarrow> True)"

definition quietly :: "('s, unit) assocM \<Rightarrow> ('s, packet list \<times> nat list) assocM" where
  "quietly m = bindA m (\<lambda>_. retA ([], []))"

definition replying :: "('s, packet list) assocM \<Rightarrow> ('s, packet list \<times> nat list) assocM" where
  "replying m = bindA m (\<lambda>ps. retA (ps, []))"

fun handleChunkByType :: "'s env \<Rightarrow> packet \<Rightarrow> chunk \<Rightarrow> ('s, packet list \<times> nat list) assocM" where
  "handleChunkByType e pkt (ChunkInit _ i) = replying (handleInit e pkt i)"
| "handleChunkByType e pkt (ChunkInitAck _ i) = quietly (handleInitAck e pkt i)"
| "handleChunkByType e pkt (ChunkAbort _ _) = quietly handleAbort"
| "handleChunkByType e pkt (ChunkError _ _) = retA ([], [])"
| "handleChunkByType e pkt (ChunkHeartbeat _ ps) = withA (\<lambda>a. retA (handleHeartbeat ps a, []))"
| "handleChunkByType e pkt (ChunkHeartbeatAck _ ps) = quietly (modA (handleHeartbeatAck e ps))"
| "handleChunkByType e pkt (ChunkCookieEcho _ c) = replying (handleCookieEcho e c)"
| "handleChunkByType e pkt (ChunkCookieAck _) = quietly (handleCookieAck e)"
| "handleChunkByType e pkt (ChunkPayloadData pd) = replying (handleData e pd)"
| "handleChunkByType e pkt (ChunkSelectiveAck sack) = bindA (handleSack e sack) (\<lambda>cbs. retA ([], cbs))"
| "handleChunkByType e pkt (ChunkReconfig _ p q) = replying (handleReconfig e p q)"
| "handleChunkByType e pkt (ChunkForwardTSN _ t fs) = replying (handleForwardTSN e t fs)"
| "handleChunkByType e pkt (ChunkIForwardTSN _ t fs) = replying (handleIForwardTSN e t fs)"
| "handleChunkByType e pkt (ChunkShutdown _ _) = quietly (modA handleShutdown)"
| "handleChunkByType e pkt (ChunkShutdownAck _) = quietly (modA handleShutdownAck)"
| "handleChunkByType e pkt (ChunkShutdownComplete _) = quietly (modA handleShutdownComplete)"

text \<open>Only the error of an ABORT is passed on; the others are logged.\<close>

definition handleChunk :: "'s env \<Rightarrow> packet \<Rightarrow> chunk \<Rightarrow> ('s, nat list) assocM" where
  "handleChunk e pkt c a =
     (case chunk_check c of
        (abort, Some err) \<Rightarrow>
          (Ok [], if abort \<and> shouldAbortOnChunkValidationError c then abortProtocolViolation (errString err) a else a)
      | (_, None) \<Rightarrow>
          (case handleChunkByType e pkt c a of
             (Ok (ps, cbs), a1) \<Rightarrow>
               (Ok cbs, if ps \<noteq> [] then awakeWriteLoop (a1\<lparr>a_controlQueue := cq_pushAll ps (a_controlQueue a1)\<rparr>) else a1)
           | (Fail (Err err), a1) \<Rightarrow> (case c of ChunkAbort _ _ \<Rightarrow> (Fail (Err err), a1) | _ \<Rightarrow> (Ok [], a1))
           | (Fail Panic, a1) \<Rightarrow> (Fail Panic, a1)
           | (Stuck, a1) \<Rightarrow> (Stuck, a1)))"

definition handleChunksStart :: "'s association \<Rightarrow> 's association" where
  "handleChunksStart a =
     a\<lparr>a_stats := (a_stats a)\<lparr>nPacketsReceived := nPacketsReceived (a_stats a) + 1\<rparr>, a_delayedAckTriggered := False, a_immediateAckTriggered := False\<rparr>"

definition handleChunksEnd :: "'s env \<Rightarrow> 's association \<Rightarrow> 's association" where
  "handleChunksEnd e a =
     (if a_immediateAckTriggered a then ackNow a
      else if a_delayedAckTriggered a
      then a\<lparr>a_ackState := ackStateDelay, a_ackTimer := snd (at_start (e_now e) (a_ackTimer a))\<rparr>
      else a)"

fun handleChunks :: "'s env \<Rightarrow> packet \<Rightarrow> chunk list \<Rightarrow> ('s, nat list) assocM" where
  "handleChunks e pkt [] = retA []"
| "handleChunks e pkt (c # cs) = bindA (handleChunk e pkt c) (\<lambda>cbs. bindA (handleChunks e pkt cs) (\<lambda>cbs'. retA (cbs @ cbs')))"

definition handleInbound :: "'s env \<Rightarrow> bytes \<Rightarrow> ('s, nat list) assocM" where
  "handleInbound e raw =
     withA (\<lambda>a. case unmarshalPacket raw a of
         Inl Panic \<Rightarrow> failA Panic
       | Inl (Err _) \<Rightarrow> retA []
       | Inr pkt \<Rightarrow>
           (if checkPacket pkt \<noteq> None then retA []
            else bindA (modA handleChunksStart) (\<lambda>_. bindA (handleChunks e pkt (chunks pkt)) (\<lambda>cbs.
                 bindA (modA (handleChunksEnd e)) (\<lambda>_. retA cbs)))))"

section \<open>Timeouts\<close>

definition onT3Timeout :: "'s env \<Rightarrow> ('s, unit) assocM" where
  "onT3Timeout e =
     bindA (modA (\<lambda>a.
       let a1 = a\<lparr>a_stats := (a_stats a)\<lparr>nT3Timeouts := nT3Timeouts (a_stats a) + 1\<rparr>, a_ssthresh := max32 (a_cwnd a div 2) (4 * a_mtu a)\<rparr>;
           a2 = setCWND (a_mtu a1) a1
       in if a_inFastRecovery a2
          then a2\<lparr>a_inFastRecovery := False, a_willRetransmitFast := False, a_fastRecoverExitPoint := 0, a_partialBytesAcked := 0\<rparr>
          else a2)) (\<lambda>_.
     bindA (withA (\<lambda>a. if partialReliabilityEnabled a then advancePeerAckPoint else retA ())) (\<lambda>_.
     withA (\<lambda>a. case markAllToRetrasmit (a_heap a) (a_inflightQueue a) of
         Inl err \<Rightarrow> failA err
       | Inr hp \<Rightarrow> modA (\<lambda>a. awakeWriteLoop (a\<lparr>a_heap := hp\<rparr>)))))"

text \<open>Errors of retransmitting INIT and COOKIE ECHO are only logged.\<close>

definition onRetransmissionTimeoutA :: "'s env \<Rightarrow> nat \<Rightarrow> ('s, unit) assocM" where
  "onRetransmissionTimeoutA e tid =
     (if tid = timerT1Init then modA (\<lambda>a. snd (sendInit a))
      else if tid = timerT1Cookie then modA (\<lambda>a. snd (sendCookieEcho a))
      else if tid = timerT2Shutdown
      then modA (\<lambda>a. if a_state a = shutdownSent then awakeWriteLoop (a\<lparr>a_willSendShutdown := True\<rparr>)
                     else if a_state a = shutdownAckSent then awakeWriteLoop (a\<lparr>a_willSendShutdownAck := True\<rparr>) else a)
      else if tid = timerT3RTX then onT3Timeout e
      else if tid = timerReconfig then modA (\<lambda>a. awakeWriteLoop (a\<lparr>a_willRetransmitReconfig := True\<rparr>))
      else retA ())"

definition onRetransmissionFailureA :: "'s env \<Rightarrow> nat \<Rightarrow> ('s, unit) assocM" where
  "onRetransmissionFailureA e tid =
     (if tid = timerT1Init then bindA (completeHandshake e (Some ''handshake failed (INIT ACK)'')) (\<lambda>_. retA ())
      else if tid = timerT1Cookie then bindA (completeHandshake e (Some ''handshake failed (COOKIE ECHO)'')) (\<lambda>_. retA ())
      else retA ())"

definition onAckTimeout :: "'s association \<Rightarrow> 's association" where
  "onAckTimeout a =
     awakeWriteLoop (a\<lparr>a_stats := (a_stats a)\<lparr>nAckTimeouts := nAckTimeouts (a_stats a) + 1\<rparr>, a_ackState := ackStateImmediate\<rparr>)"

text \<open>One round of the timer loop whose timer has fired.\<close>

definition timerLoopFires :: "'s env \<Rightarrow> ('s, unit) assocM" where
  "timerLoopFires e =
     withA (\<lambda>a.
       let isDue = (\<lambda>d. case d of None \<Rightarrow> False | Some t \<Rightarrow> t \<le> e_now e); rack = isDue (a_rackDeadline a); pto = isDue (a_ptoDeadline a)
       in bindA (modA (\<lambda>a. a\<lparr>a_rackDeadline := (if rack then None else a_rackDeadline a), a_ptoDeadline := (if pto then None else a_ptoDeadline a)\<rparr>)) (\<lambda>_.
          bindA (modA (\<lambda>a. if rack then onRackTimeoutLocked e a else a)) (\<lambda>_.
            if pto then onPTOTimerLocked e else retA ())))"

end
