(* ===== verification/AssocLoops.thy ===== *)
theory AssocLoops
  imports AssocRecv
begin

text \<open>
  The goroutines of an association, \<^verbatim>\<open>association.go\<close>: the rounds of the read and the write loop, the
  creation of clients and servers with the wait for the handshake, and the step relation in which calls,
  loops and timers interleave. The connection is outside: what it delivers and how its writes end are
  arguments.
\<close>

section \<open>The read loop\<close>

definition unregisterStream :: "string option \<Rightarrow> sref \<Rightarrow> 's association \<Rightarrow> 's association" where
  "unregisterStream err r a =
     (updStream r (\<lambda>s. s\<lparr>readErr := err\<rparr>) a)\<lparr>a_streams := AList.delete (s_streamIdentifier (a_store a r)) (a_streams a)\<rparr>"

definition readLoopEnds :: "string option \<Rightarrow> 's association \<Rightarrow> 's association" where
  "readLoopEnds err a =
     (unblockPendingWrites (fold (unregisterStream err) (map snd (a_streams a)) (a\<lparr>a_closeWriteLoop := True, a_state := closedState\<rparr>)))
       \<lparr>a_readLoopClosed := True\<rparr>"

text \<open>One read of the connection; the loop ends on an error of the connection and on an ABORT.\<close>

definition readLoopRound :: "'s env \<Rightarrow> string + bytes \<Rightarrow> ('s, nat list) assocM" where
  "readLoopRound e input a =
     (case input of
        Inl err \<Rightarrow> (Ok [], readLoopEnds (Some err) a)
      | Inr raw \<Rightarrow>
          (case handleInbound e raw (a\<lparr>a_bytesReceived := a_bytesReceived a + of_nat (length raw)\<rparr>) of
             (Fail (Err err), a1) \<Rightarrow> (Ok [], readLoopEnds (Some err) a1)
           | r \<Rightarrow> r))"

section \<open>The write loop\<close>

definition isAbortPacket :: "bytes \<Rightarrow> bool" where
  "isAbortPacket raw \<longleftrightarrow> length raw > commonHeaderSize \<and> raw ! commonHeaderSize = ctAbort"

text \<open>The outcomes of the writes are given in order; the result tells whether all succeeded.\<close>

fun writePackets :: "(nat \<Rightarrow> bool) \<Rightarrow> bytes list \<Rightarrow> 's association \<Rightarrow> bool \<times> 's association" where
  "writePackets ok [] a = (True, a)"
| "writePackets ok (raw # raws) a =
     (let a1 = (if isAbortPacket raw then a\<lparr>a_abortSent := True\<rparr> else a)
      in if \<not> ok 0 then (False, a1)
         else writePackets (\<lambda>i. ok (Suc i)) raws
                (a1\<lparr>a_bytesSent := a_bytesSent a1 + of_nat (length raw),
                    a_stats := (a_stats a1)\<lparr>nPacketsSent := nPacketsSent (a_stats a1) + 1\<rparr>\<rparr>))"

definition writeLoopEnds :: "'s association \<Rightarrow> 's association" where
  "writeLoopEnds a = closeAllTimers (a\<lparr>a_state := closedState\<rparr>)"

text \<open>A round up to the next wait; the result tells whether the loop goes on.\<close>

definition writeLoopRound :: "'s env \<Rightarrow> (nat \<Rightarrow> bool) \<Rightarrow> ('s, bytes list \<times> bool) assocM" where
  "writeLoopRound e ok =
     bindA (gatherOutbound e) (\<lambda>(raws, more). withA (\<lambda>a.
       case writePackets ok raws a of
         (False, a1) \<Rightarrow> bindA (modA (\<lambda>_. writeLoopEnds a1)) (\<lambda>_. retA (raws, False))
       | (True, a1) \<Rightarrow> bindA (modA (\<lambda>_. if more then a1 else a_close a1)) (\<lambda>_. retA (raws, more))))"

text \<open>The wait: a wake-up goes on, the end of the association ends the loop unless an ABORT is to be sent.\<close>

definition writeLoopWait :: "'s env \<Rightarrow> ('s, bool) assocM" where
  "writeLoopWait e a =
     (if a_awake a \<and> (\<not> a_closeWriteLoop a \<or> e_pick e) then (Ok True, a\<lparr>a_awake := False\<rparr>)
      else if a_closeWriteLoop a then (if a_willSendAbort a then (Ok True, a) else (Ok False, writeLoopEnds a))
      else (Stuck, a))"

section \<open>Creation\<close>

abbreviation ErrAssociationClosedBeforeConn :: string where
  "ErrAssociationClosedBeforeConn \<equiv> ''association closed before connecting''"

text \<open>
  The random initiate tag and initial TSN are arguments, and \<open>mk\<close> makes a scheduler. An INIT is parsed
  into a chunk of its own type.
\<close>

definition initOf :: "bytes \<Rightarrow> (sctp_error, chunkInitCommon) result" where
  "initOf raw = bindR (chunkInit_unmarshal raw) (\<lambda>c. case c of ChunkInit _ i \<Rightarrow> Inr i | _ \<Rightarrow> Inl Panic)"

definition createSNAPAssociation ::
  "(schedulerFactory \<Rightarrow> 's option) \<Rightarrow> 's env \<Rightarrow> u32 \<Rightarrow> Config \<Rightarrow> bytes \<times> bytes \<Rightarrow> 's association outcome" where
  "createSNAPAssociation mk e tag cfg snap =
     (case initOf (snd snap) of
        Inl err \<Rightarrow> Fail err
      | Inr remote \<Rightarrow>
          (case initOf (fst snap) of
             Inl err \<Rightarrow> Fail err
           | Inr local \<Rightarrow>
               (case initWithOutOfBandTokens e local remote (createAssociationFromConfigWithTsn mk tag cfg (initialTSN local)) of
                  (Ok _, a) \<Rightarrow> Ok a
                | (Fail err, a) \<Rightarrow> Fail err
                | (Stuck, a) \<Rightarrow> Stuck)))"

definition createServerAssociation ::
  "(schedulerFactory \<Rightarrow> 's option) \<Rightarrow> u32 \<Rightarrow> u32 \<Rightarrow> assocOption option list \<Rightarrow> (string, 's association) result" where
  "createServerAssociation mk tag t opts =
     bindR (buildServerConfig opts) (\<lambda>cfg. Inr (createAssociationFromConfigWithTsn mk tag cfg t))"

definition createClientAssociation ::
  "(schedulerFactory \<Rightarrow> 's option) \<Rightarrow> u32 \<Rightarrow> u32 \<Rightarrow> assocOption option list \<Rightarrow> (string, 's association) result" where
  "createClientAssociation mk tag t opts =
     bindR (buildClientConfig opts) (\<lambda>cfg. Inr (createAssociationFromConfigWithTsn mk tag cfg t))"

text \<open>\<open>ServerWithOptions\<close> and the creation of a client up to the wait; a SNAP client does not wait.\<close>

definition ServerWithOptions ::
  "(schedulerFactory \<Rightarrow> 's option) \<Rightarrow> u32 \<Rightarrow> u32 \<Rightarrow> assocOption option list \<Rightarrow> (string, 's association) result" where
  "ServerWithOptions mk tag t opts = bindR (createServerAssociation mk tag t opts) (\<lambda>a. Inr (initServer a))"

definition createClientWithOptionsWithContext ::
  "(schedulerFactory \<Rightarrow> 's option) \<Rightarrow> 's env \<Rightarrow> u32 \<Rightarrow> u32 \<Rightarrow> assocOption option list \<Rightarrow> 's association outcome" where
  "createClientWithOptionsWithContext mk e tag t opts =
     (case buildClientConfig opts of
        Inl err \<Rightarrow> Fail (Err err)
      | Inr cfg \<Rightarrow>
          (case snapConfig cfg of
             Some snap \<Rightarrow>
               if fst snap \<noteq> [] \<and> snd snap \<noteq> [] then createSNAPAssociation mk e tag cfg snap
               else Ok (initClient e (createAssociationFromConfigWithTsn mk tag cfg t))
           | None \<Rightarrow> Ok (initClient e (createAssociationFromConfigWithTsn mk tag cfg t))))"

text \<open>How the wait ends: the result of the handshake was received, or the association is gone.\<close>

definition awaitHandshake :: "('s, unit) assocM" where
  "awaitHandshake a =
     (case a_handshakeResult a of
        Some None \<Rightarrow> (Ok (), a)
      | Some (Some err) \<Rightarrow> (Fail (Err err), a)
      | None \<Rightarrow> if a_readLoopClosed a then (Fail (Err ErrAssociationClosedBeforeConn), a\<lparr>a_handshakeWaiting := False\<rparr>) else (Stuck, a))"

definition GenerateOutOfBandToken :: "u32 \<Rightarrow> u32 \<Rightarrow> assocOption option list \<Rightarrow> (sctp_error, bytes) result" where
  "GenerateOutOfBandToken t tag opts =
     (case applyOpts opts (applyDefaults zeroConfig) of
        Inl err \<Rightarrow> Inl (Err err)
      | Inr cfg0 \<Rightarrow>
          (let cfg = applyDefaults cfg0;
               i = setSupportedExtensions (enableInterleaving cfg)
                 \<lparr>initiateTag = tag, init_arwnd = MaxReceiveBufferSize cfg, numOutboundStreams = 65535, numInboundStreams = 65535,
                  initialTSN = t, init_params = [], unrecognizedParams = []\<rparr>;
               i' = (if EnableZeroChecksum cfg
                     then i\<lparr>init_params := init_params i @ [ZeroChecksumAcceptable zeroParamHeader dtlsErrorDetectionMethod]\<rparr> else i)
           in case chunkInit_check i' of (_, Some err) \<Rightarrow> Inl err | (_, None) \<Rightarrow> Inr (chunkInit_marshal zeroHeader i')))"

section \<open>Queries\<close>

datatype partialReliabilityMode = PartialReliabilityModeNone | PartialReliabilityModeForwardTSN | PartialReliabilityModeIForwardTSN

record associationMetadata =
  MessageInterleavingEnabled :: bool
  PartialReliabilityMode :: partialReliabilityMode
  ZeroChecksumSendingEnabled :: bool
  ZeroChecksumReceivingEnabled :: bool

definition Metadata :: "'s association \<Rightarrow> associationMetadata option" where
  "Metadata a =
     (if a_state a \<noteq> established then None
      else Some \<lparr>MessageInterleavingEnabled = a_useInterleaving a,
         PartialReliabilityMode = (if a_useIForwardTSN a then PartialReliabilityModeIForwardTSN
            else if a_useForwardTSN a then PartialReliabilityModeForwardTSN else PartialReliabilityModeNone),
         ZeroChecksumSendingEnabled = a_sendZeroChecksum a, ZeroChecksumReceivingEnabled = a_recvZeroChecksum a\<rparr>)"

definition BufferedAmountA :: "'s association \<Rightarrow> int" where
  "BufferedAmountA a = pd_getNumBytes (a_pendingQueue a) + pq_getNumBytes (a_inflightQueue a)"

definition SetMaxMessageSize :: "u32 \<Rightarrow> 's association \<Rightarrow> 's association" where
  "SetMaxMessageSize n a = a\<lparr>a_maxMessageSize := n\<rparr>"

section \<open>Steps\<close>

text \<open>
  How an association starts: \<open>createAssociationFromConfigWithTsn\<close> makes it, and before any of its loops
  runs a server calls \<open>initServer\<close>, a client \<open>initClient\<close>, and a SNAP client \<open>initWithOutOfBandTokens\<close>,
  whose loops run on even if it fails.
\<close>

inductive assoc_start :: "(schedulerFactory \<Rightarrow> 's option) \<Rightarrow> 's association \<Rightarrow> bool" for mk where
  created: "assoc_start mk (createAssociationFromConfigWithTsn mk tag cfg t)"
| server: "assoc_start mk (initServer (createAssociationFromConfigWithTsn mk tag cfg t))"
| client: "assoc_start mk (initClient e (createAssociationFromConfigWithTsn mk tag cfg t))"
| snap: "assoc_start mk (snd (initWithOutOfBandTokens e local remote (createAssociationFromConfigWithTsn mk tag cfg t)))"

lemma ServerWithOptions_start: "ServerWithOptions mk tag t opts = Inr a \<Longrightarrow> assoc_start mk a"
  by (auto simp: ServerWithOptions_def createServerAssociation_def bindR_def split: sum.splits intro: assoc_start.server)

lemma createSNAPAssociation_start: "createSNAPAssociation mk e tag cfg s = Ok a \<Longrightarrow> assoc_start mk a"
  using assoc_start.snap [of mk e _ _ tag cfg]
  by (auto simp: createSNAPAssociation_def split: sum.splits prod.splits outcome.splits) (metis snd_conv)

lemma createClientWithOptionsWithContext_start:
  "createClientWithOptionsWithContext mk e tag t opts = Ok a \<Longrightarrow> assoc_start mk a"
  by (auto simp: createClientWithOptionsWithContext_def split: sum.splits option.splits if_splits
      intro: assoc_start.client createSNAPAssociation_start)

text \<open>
  What can happen to an association. Each step runs under its lock; methods that wait are split at the
  wait, so a step never starts if it would wait. \<open>StreamCall\<close> stands for whatever a method of a stream
  that stays within the stream does to it: \<open>ReadSCTP\<close>, \<open>SetReadDeadline\<close> with its goroutine, the setters.
\<close>

datatype assocAction =
    Inbound "string + bytes" | Outbound "nat \<Rightarrow> bool" | Wake
  | RtxTimeout nat | RtxFailure nat | AckTimeout | RackFires
  | Write sref bytes u32 | CloseS sref | Open u16 u32 | Accept
  | StreamCall sref "stream \<Rightarrow> stream"
  | Heartbeat | ShutdownCall | AbortCall bytes | CloseCall | MaxMessageSize u32

definition assocRun :: "'s env \<Rightarrow> assocAction \<Rightarrow> 's association \<Rightarrow> 's association" where
  "assocRun e act =
     (case act of
        Inbound input \<Rightarrow> snd \<circ> readLoopRound e input
      | Outbound ok \<Rightarrow> snd \<circ> writeLoopRound e ok
      | Wake \<Rightarrow> snd \<circ> writeLoopWait e
      | RtxTimeout n \<Rightarrow> snd \<circ> onRetransmissionTimeoutA e n
      | RtxFailure n \<Rightarrow> snd \<circ> onRetransmissionFailureA e n
      | AckTimeout \<Rightarrow> onAckTimeout
      | RackFires \<Rightarrow> snd \<circ> timerLoopFires e
      | Write r bs ppi \<Rightarrow> snd \<circ> WriteSCTP e r bs ppi
      | CloseS r \<Rightarrow> snd \<circ> CloseStream e r
      | Open sid ppi \<Rightarrow> snd \<circ> OpenStream sid ppi
      | Accept \<Rightarrow> snd \<circ> AcceptStream
      | StreamCall r f \<Rightarrow> updStream r f
      | Heartbeat \<Rightarrow> ActiveHeartbeat e
      | ShutdownCall \<Rightarrow> snd \<circ> Shutdown
      | AbortCall reason \<Rightarrow> Abort reason
      | CloseCall \<Rightarrow> a_close
      | MaxMessageSize n \<Rightarrow> SetMaxMessageSize n)"

inductive assoc_reach :: "'s association \<Rightarrow> 's association \<Rightarrow> bool" for a0 where
  init: "assoc_reach a0 a0"
| step: "assoc_reach a0 a \<Longrightarrow> assoc_reach a0 (assocRun e act a)"

end
