(* ===== verification/AssocInvariant.thy ===== *)
theory AssocInvariant
  imports AssocLoops
begin

text \<open>
  An invariant of associations that every call, loop and timer preserves: bounds of the congestion
  window and of the bursts of tail loss recovery, consistency of the negotiated extensions, and the list
  of chunks by transmission time, which is a doubly linked list in the code and a list here.
\<close>

section \<open>Doubly linked lists\<close>

definition first :: "'a list \<Rightarrow> 'a option" where
  "first xs = (case xs of [] \<Rightarrow> None | x # _ \<Rightarrow> Some x)"

lemma first_simps [simp]: "first [] = None" "first (x # xs) = Some x" "first xs = None \<longleftrightarrow> xs = []"
  by (simp_all add: first_def split: list.splits)

lemma first_append: "first (xs @ ys) = (if xs = [] then first ys else first xs)"
  by (cases xs) simp_all

lemma first_rev: "xs \<noteq> [] \<Longrightarrow> first (rev xs) = Some (last xs)"
  by (cases xs rule: rev_cases) simp_all

text \<open>The link from each element to the next one.\<close>

primrec linksTo :: "'a list \<Rightarrow> 'a \<Rightarrow> 'a option" where
  "linksTo [] = (\<lambda>_. None)"
| "linksTo (x # xs) = (linksTo xs)(x := first xs)"

lemma linksTo_out [simp]: "c \<notin> set xs \<Longrightarrow> linksTo xs c = None"
  by (induction xs) auto

lemma linksTo_at: "distinct (ys @ c # zs) \<Longrightarrow> linksTo (ys @ c # zs) c = first zs"
  by (induction ys) auto

lemma linksTo_snoc: "distinct (xs @ [c]) \<Longrightarrow> xs \<noteq> [] \<Longrightarrow> linksTo (xs @ [c]) = (linksTo xs)(last xs := Some c)"
proof (induction xs)
  case (Cons x xs)
  then show ?case by (cases "xs = []") (auto simp: fun_eq_iff first_append)
qed simp

lemma linksTo_remove:
  "distinct (ys @ c # zs) \<Longrightarrow>
   linksTo (ys @ zs) = (if ys = [] then linksTo (c # zs) else (linksTo (ys @ c # zs))(last ys := first zs))(c := None)"
proof (induction ys)
  case Nil
  then show ?case by (auto simp: fun_eq_iff)
next
  case (Cons y ys)
  then show ?case by (cases "ys = []") (auto simp: fun_eq_iff first_append)
qed

text \<open>The list that the links of RACK represent.\<close>

definition rackChain :: "'s association \<Rightarrow> cref list \<Rightarrow> bool" where
  "rackChain a xs \<longleftrightarrow>
     distinct xs \<and> a_rackHead a = first xs \<and> a_rackTail a = first (rev xs) \<and>
     a_rackNext a = linksTo xs \<and> a_rackPrev a = linksTo (rev xs) \<and> a_rackInList a = (\<lambda>c. c \<in> set xs)"

lemma rackInsert_chain: "rackChain a xs \<Longrightarrow> rackChain (rackInsert c a) (if c \<in> set xs then xs else xs @ [c])"
proof (cases "c \<in> set xs")
  case False
  assume xs: "rackChain a xs"
  show ?thesis
  proof (cases "xs = []")
    case True
    then show ?thesis using xs by (auto simp: rackChain_def rackInsert_def fun_eq_iff)
  next
    case nonempty: False
    then show ?thesis using xs False linksTo_snoc [of xs c] first_rev [of xs]
      by (auto simp: rackChain_def rackInsert_def fun_eq_iff first_append)
  qed
qed (simp add: rackChain_def rackInsert_def)

lemma rackRemove_split:
  assumes "rackChain a (ys @ c # zs)"
  shows "rackChain (rackRemove c a) (ys @ zs)"
proof -
  have d: "distinct (ys @ c # zs)" "distinct (rev zs @ c # rev ys)" using assms by (auto simp: rackChain_def)
  have links: "a_rackNext a = linksTo (ys @ c # zs)" "a_rackPrev a = linksTo (rev zs @ c # rev ys)"
    "a_rackNext a c = first zs" "a_rackPrev a c = first (rev ys)"
    using assms linksTo_at [OF d(1)] linksTo_at [OF d(2)] by (auto simp: rackChain_def)
  have cut: "last (rev zs) = hd zs" if "zs \<noteq> []" using that by (simp add: last_rev)
  have ends: "zs \<noteq> [] \<Longrightarrow> first zs = Some (hd zs)" by (cases zs) auto
  show ?thesis
    using assms links linksTo_remove [OF d(1)] linksTo_remove [OF d(2)] cut ends d(1) first_rev [of ys]
    by (cases "ys = []"; cases "zs = []")
      (auto simp: rackChain_def rackRemove_def fun_eq_iff first_append first_rev hd_append)
qed

lemma rackRemove_chain: "rackChain a xs \<Longrightarrow> rackChain (rackRemove c a) (remove1 c xs)"
proof (cases "c \<in> set xs")
  case True
  assume xs: "rackChain a xs"
  obtain ys zs where "xs = ys @ c # zs" "c \<notin> set ys" using True split_list_first by metis
  then show ?thesis using xs rackRemove_split [of a ys c zs] by (simp add: remove1_append)
qed (simp add: rackChain_def rackRemove_def remove1_idem)

lemma rackLinks_chain:
  assumes "rackChain a (ys @ xs)" "length xs \<le> n"
  shows "rackLinks n (first xs) a = xs"
  using assms
proof (induction xs arbitrary: ys n)
  case Nil
  then show ?case by (cases n) simp_all
next
  case (Cons x xs)
  obtain m where "n = Suc m" "length xs \<le> m" using Cons.prems(2) by (cases n) auto
  moreover have "a_rackNext a x = first xs" using Cons.prems(1) linksTo_at [of ys x xs] by (simp add: rackChain_def)
  moreover have "rackLinks m (first xs) a = xs" using Cons.IH [of "ys @ [x]" m] Cons.prems(1) calculation(2) by simp
  ultimately show ?case by simp
qed

lemma rackList_chain: "rackChain a xs \<Longrightarrow> length xs \<le> a_nextChunk a \<Longrightarrow> rackList a = xs"
  using rackLinks_chain [of a "[]" xs] by (simp add: rackList_def rackChain_def)


section \<open>The invariant\<close>

definition windowsOK :: "'s association \<Rightarrow> bool" where
  "windowsOK a \<longleftrightarrow>
     a_minCwnd a \<le> a_cwnd a \<and>
     8 \<le> a_tlrBurstFirstRTTUnits a \<and> a_tlrBurstFirstRTTUnits a \<le> 16 \<and>
     5 \<le> a_tlrBurstLaterRTTUnits a \<and> a_tlrBurstLaterRTTUnits a \<le> 8 \<and> a_tlrGoodOps a < 16 \<and>
     0 \<le> a_rackKeepInflatedRecoveries a \<and> a_rackKeepInflatedRecoveries a \<le> 16"

definition extensionsOK :: "'s association \<Rightarrow> bool" where
  "extensionsOK a \<longleftrightarrow>
     (a_useIForwardTSN a \<longrightarrow> a_useInterleaving a) \<and> (a_useForwardTSN a \<longrightarrow> \<not> a_useInterleaving a) \<and>
     (a_useInterleaving a \<longrightarrow> a_localInterleaving a) \<and>
     a_maxPayloadSize a = a_mtu a - (if a_useInterleaving a then 32 else 28)"

definition assoc_inv :: "'s association \<Rightarrow> bool" where
  "assoc_inv a \<longleftrightarrow> windowsOK a \<and> extensionsOK a \<and> (\<exists>xs. rackChain a xs)"

text \<open>The other fields do not matter.\<close>

lemma assoc_inv_frame [simp]:
  "assoc_inv (a\<lparr>a_bytesReceived := v0\<rparr>) = assoc_inv a"
  "assoc_inv (a\<lparr>a_bytesSent := v1\<rparr>) = assoc_inv a"
  "assoc_inv (a\<lparr>a_stats := v2\<rparr>) = assoc_inv a"
  "assoc_inv (a\<lparr>a_peerVerificationTag := v3\<rparr>) = assoc_inv a"
  "assoc_inv (a\<lparr>a_myVerificationTag := v4\<rparr>) = assoc_inv a"
  "assoc_inv (a\<lparr>a_state := v5\<rparr>) = assoc_inv a"
  "assoc_inv (a\<lparr>a_myNextTSN := v6\<rparr>) = assoc_inv a"
  "assoc_inv (a\<lparr>a_minTSN2MeasureRTT := v7\<rparr>) = assoc_inv a"
  "assoc_inv (a\<lparr>a_willSendForwardTSN := v8\<rparr>) = assoc_inv a"
  "assoc_inv (a\<lparr>a_willRetransmitFast := v9\<rparr>) = assoc_inv a"
  "assoc_inv (a\<lparr>a_willRetransmitReconfig := v10\<rparr>) = assoc_inv a"
  "assoc_inv (a\<lparr>a_willSendShutdown := v11\<rparr>) = assoc_inv a"
  "assoc_inv (a\<lparr>a_willSendShutdownAck := v12\<rparr>) = assoc_inv a"
  "assoc_inv (a\<lparr>a_willSendShutdownComplete := v13\<rparr>) = assoc_inv a"
  "assoc_inv (a\<lparr>a_willSendAbort := v14\<rparr>) = assoc_inv a"
  "assoc_inv (a\<lparr>a_willSendAbortCause := v15\<rparr>) = assoc_inv a"
  "assoc_inv (a\<lparr>a_myNextRSN := v16\<rparr>) = assoc_inv a"
  "assoc_inv (a\<lparr>a_reconfigs := v17\<rparr>) = assoc_inv a"
  "assoc_inv (a\<lparr>a_reconfigRequests := v18\<rparr>) = assoc_inv a"
  "assoc_inv (a\<lparr>a_sourcePort := v19\<rparr>) = assoc_inv a"
  "assoc_inv (a\<lparr>a_destinationPort := v20\<rparr>) = assoc_inv a"
  "assoc_inv (a\<lparr>a_myMaxNumInboundStreams := v21\<rparr>) = assoc_inv a"
  "assoc_inv (a\<lparr>a_myMaxNumOutboundStreams := v22\<rparr>) = assoc_inv a"
  "assoc_inv (a\<lparr>a_myCookie := v23\<rparr>) = assoc_inv a"
  "assoc_inv (a\<lparr>a_payloadQueue := v24\<rparr>) = assoc_inv a"
  "assoc_inv (a\<lparr>a_inflightQueue := v25\<rparr>) = assoc_inv a"
  "assoc_inv (a\<lparr>a_pendingQueue := v26\<rparr>) = assoc_inv a"
  "assoc_inv (a\<lparr>a_controlQueue := v27\<rparr>) = assoc_inv a"
  "assoc_inv (a\<lparr>a_srtt := v28\<rparr>) = assoc_inv a"
  "assoc_inv (a\<lparr>a_cumulativeTSNAckPoint := v29\<rparr>) = assoc_inv a"
  "assoc_inv (a\<lparr>a_advancedPeerTSNAckPoint := v30\<rparr>) = assoc_inv a"
  "assoc_inv (a\<lparr>a_peerInterleaving := v31\<rparr>) = assoc_inv a"
  "assoc_inv (a\<lparr>a_peerForwardTSN := v32\<rparr>) = assoc_inv a"
  "assoc_inv (a\<lparr>a_peerIForwardTSN := v33\<rparr>) = assoc_inv a"
  "assoc_inv (a\<lparr>a_sendZeroChecksum := v34\<rparr>) = assoc_inv a"
  "assoc_inv (a\<lparr>a_recvZeroChecksum := v35\<rparr>) = assoc_inv a"
  "assoc_inv (a\<lparr>a_maxReceiveBufferSize := v36\<rparr>) = assoc_inv a"
  "assoc_inv (a\<lparr>a_maxMessageSize := v37\<rparr>) = assoc_inv a"
  "assoc_inv (a\<lparr>a_rwnd := v38\<rparr>) = assoc_inv a"
  "assoc_inv (a\<lparr>a_ssthresh := v39\<rparr>) = assoc_inv a"
  "assoc_inv (a\<lparr>a_partialBytesAcked := v40\<rparr>) = assoc_inv a"
  "assoc_inv (a\<lparr>a_inFastRecovery := v41\<rparr>) = assoc_inv a"
  "assoc_inv (a\<lparr>a_fastRecoverExitPoint := v42\<rparr>) = assoc_inv a"
  "assoc_inv (a\<lparr>a_fastRtxWnd := v43\<rparr>) = assoc_inv a"
  "assoc_inv (a\<lparr>a_cwndCAStep := v44\<rparr>) = assoc_inv a"
  "assoc_inv (a\<lparr>a_rtoMgr := v45\<rparr>) = assoc_inv a"
  "assoc_inv (a\<lparr>a_t1Init := v46\<rparr>) = assoc_inv a"
  "assoc_inv (a\<lparr>a_t1Cookie := v47\<rparr>) = assoc_inv a"
  "assoc_inv (a\<lparr>a_t2Shutdown := v48\<rparr>) = assoc_inv a"
  "assoc_inv (a\<lparr>a_t3RTX := v49\<rparr>) = assoc_inv a"
  "assoc_inv (a\<lparr>a_tReconfig := v50\<rparr>) = assoc_inv a"
  "assoc_inv (a\<lparr>a_ackTimer := v51\<rparr>) = assoc_inv a"
  "assoc_inv (a\<lparr>a_rackMinRTTWnd := v52\<rparr>) = assoc_inv a"
  "assoc_inv (a\<lparr>a_rackReoWndFloor := v53\<rparr>) = assoc_inv a"
  "assoc_inv (a\<lparr>a_rackWCDelAck := v54\<rparr>) = assoc_inv a"
  "assoc_inv (a\<lparr>a_rackReoWnd := v55\<rparr>) = assoc_inv a"
  "assoc_inv (a\<lparr>a_rackMinRTT := v56\<rparr>) = assoc_inv a"
  "assoc_inv (a\<lparr>a_rackDeliveredTime := v57\<rparr>) = assoc_inv a"
  "assoc_inv (a\<lparr>a_rackHighestDeliveredOrigTSN := v58\<rparr>) = assoc_inv a"
  "assoc_inv (a\<lparr>a_rackReorderingSeen := v59\<rparr>) = assoc_inv a"
  "assoc_inv (a\<lparr>a_rackDeadline := v60\<rparr>) = assoc_inv a"
  "assoc_inv (a\<lparr>a_ptoDeadline := v61\<rparr>) = assoc_inv a"
  "assoc_inv (a\<lparr>a_storedInit := v62\<rparr>) = assoc_inv a"
  "assoc_inv (a\<lparr>a_storedCookieEcho := v63\<rparr>) = assoc_inv a"
  "assoc_inv (a\<lparr>a_streams := v64\<rparr>) = assoc_inv a"
  "assoc_inv (a\<lparr>a_acceptCh := v65\<rparr>) = assoc_inv a"
  "assoc_inv (a\<lparr>a_awake := v66\<rparr>) = assoc_inv a"
  "assoc_inv (a\<lparr>a_closeWriteLoop := v67\<rparr>) = assoc_inv a"
  "assoc_inv (a\<lparr>a_readLoopClosed := v68\<rparr>) = assoc_inv a"
  "assoc_inv (a\<lparr>a_abortSent := v69\<rparr>) = assoc_inv a"
  "assoc_inv (a\<lparr>a_handshakeWaiting := v70\<rparr>) = assoc_inv a"
  "assoc_inv (a\<lparr>a_handshakeResult := v71\<rparr>) = assoc_inv a"
  "assoc_inv (a\<lparr>a_ackState := v72\<rparr>) = assoc_inv a"
  "assoc_inv (a\<lparr>a_ackMode := v73\<rparr>) = assoc_inv a"
  "assoc_inv (a\<lparr>a_delayedAckTriggered := v74\<rparr>) = assoc_inv a"
  "assoc_inv (a\<lparr>a_immediateAckTriggered := v75\<rparr>) = assoc_inv a"
  "assoc_inv (a\<lparr>a_blockWrite := v76\<rparr>) = assoc_inv a"
  "assoc_inv (a\<lparr>a_writePending := v77\<rparr>) = assoc_inv a"
  "assoc_inv (a\<lparr>a_writeNotify := v78\<rparr>) = assoc_inv a"
  "assoc_inv (a\<lparr>a_tlrActive := v79\<rparr>) = assoc_inv a"
  "assoc_inv (a\<lparr>a_tlrFirstRTT := v80\<rparr>) = assoc_inv a"
  "assoc_inv (a\<lparr>a_tlrHadAdditionalLoss := v81\<rparr>) = assoc_inv a"
  "assoc_inv (a\<lparr>a_tlrEndTSN := v82\<rparr>) = assoc_inv a"
  "assoc_inv (a\<lparr>a_tlrStartTime := v83\<rparr>) = assoc_inv a"
  "assoc_inv (a\<lparr>a_heap := v84\<rparr>) = assoc_inv a"
  "assoc_inv (a\<lparr>a_nextChunk := v85\<rparr>) = assoc_inv a"
  "assoc_inv (a\<lparr>a_store := v86\<rparr>) = assoc_inv a"
  "assoc_inv (a\<lparr>a_nextStream := v87\<rparr>) = assoc_inv a"
  by (simp_all add: assoc_inv_def windowsOK_def extensionsOK_def rackChain_def)

lemma assoc_inv_rack [simp]: "assoc_inv a \<Longrightarrow> assoc_inv (rackInsert c a)" "assoc_inv a \<Longrightarrow> assoc_inv (rackRemove c a)"
proof -
  assume inv: "assoc_inv a"
  then obtain xs where xs: "rackChain a xs" by (auto simp: assoc_inv_def)
  have "windowsOK (rackInsert c a)" "extensionsOK (rackInsert c a)" "windowsOK (rackRemove c a)" "extensionsOK (rackRemove c a)"
    using inv by (auto simp: assoc_inv_def windowsOK_def extensionsOK_def rackInsert_def rackRemove_def Let_def split: option.splits)
  then show "assoc_inv (rackInsert c a)" "assoc_inv (rackRemove c a)"
    using rackInsert_chain [OF xs] rackRemove_chain [OF xs] by (auto simp: assoc_inv_def)
qed

section \<open>Preservation\<close>

definition keeps :: "('s association \<Rightarrow> bool) \<Rightarrow> ('s, 'a) assocM \<Rightarrow> bool" where
  "keeps P m \<longleftrightarrow> (\<forall>a. P a \<longrightarrow> P (snd (m a)))"

named_theorems preserved \<open>methods that keep the invariant\<close>

lemma keepsI: "(\<And>a. P a \<Longrightarrow> P (snd (m a))) \<Longrightarrow> keeps P m"
  by (simp add: keeps_def)

lemma keepsD: "keeps P m \<Longrightarrow> P a \<Longrightarrow> P (snd (m a))"
  by (simp add: keeps_def)

lemma keeps_basic [preserved]: "keeps P (retA x)" "keeps P (failA err)" "keeps P stuckA" "keeps P (liftA r)"
  by (simp_all add: keeps_def retA_def failA_def stuckA_def liftA_def split: sum.splits)

lemma keeps_bindA [preserved]: "keeps P m \<Longrightarrow> (\<And>x. keeps P (f x)) \<Longrightarrow> keeps P (bindA m f)"
  unfolding keeps_def bindA_def by (auto split: prod.splits outcome.splits)

lemma keeps_withA [preserved]: "(\<And>a. P a \<Longrightarrow> keeps P (f a)) \<Longrightarrow> keeps P (withA f)"
  by (simp add: keeps_def withA_def)

lemma keeps_modA [preserved]: "(\<And>a. P a \<Longrightarrow> P (f a)) \<Longrightarrow> keeps P (modA f)"
  by (simp add: keeps_def modA_def)


lemma keeps_if [preserved]: "(b \<Longrightarrow> keeps P m) \<Longrightarrow> (\<not> b \<Longrightarrow> keeps P n) \<Longrightarrow> keeps P (if b then m else n)"
  by simp

lemma keeps_prod [preserved]: "(\<And>x y. p = (x, y) \<Longrightarrow> keeps P (f x y)) \<Longrightarrow> keeps P (case p of (x, y) \<Rightarrow> f x y)"
  by (cases p) simp

lemma keeps_option [preserved]:
  "(x = None \<Longrightarrow> keeps P m) \<Longrightarrow> (\<And>y. x = Some y \<Longrightarrow> keeps P (f y)) \<Longrightarrow> keeps P (case x of None \<Rightarrow> m | Some y \<Rightarrow> f y)"
  by (cases x) simp_all

lemma keeps_sum [preserved]:
  "(\<And>y. x = Inl y \<Longrightarrow> keeps P (f y)) \<Longrightarrow> (\<And>y. x = Inr y \<Longrightarrow> keeps P (g y)) \<Longrightarrow> keeps P (case x of Inl y \<Rightarrow> f y | Inr y \<Rightarrow> g y)"
  by (cases x) simp_all

lemma keeps_Let [preserved]: "keeps P (f x) \<Longrightarrow> keeps P (let y = x in f y)"
  by simp

lemma keeps_error [preserved]:
  "keeps P m \<Longrightarrow> (\<And>s. keeps P (f s)) \<Longrightarrow> keeps P (case err of Panic \<Rightarrow> m | Err s \<Rightarrow> f s)"
  by (cases err) simp_all

lemma keeps_bool [preserved]: "keeps P m \<Longrightarrow> keeps P n \<Longrightarrow> keeps P (case b of True \<Rightarrow> m | False \<Rightarrow> n)"
  by (cases b) simp_all

lemma keeps_fold: "(\<And>x a. P a \<Longrightarrow> P (f x a)) \<Longrightarrow> P a \<Longrightarrow> P (fold f xs a)"
  by (induction xs arbitrary: a) simp_all

text \<open>Small operations.\<close>

lemma assoc_inv_ops [simp]:
  "assoc_inv (awakeWriteLoop a) = assoc_inv a" "assoc_inv (notifyBlockWritable a) = assoc_inv a"
  "assoc_inv (unblockPendingWrites a) = assoc_inv a" "assoc_inv (abortProtocolViolation r a) = assoc_inv a"
  "assoc_inv (startT3 e a) = assoc_inv a" "assoc_inv (startT2 e a) = assoc_inv a" "assoc_inv (startReconfig e a) = assoc_inv a"
  "assoc_inv (startRackTimer e d a) = assoc_inv a" "assoc_inv (stopRackTimer a) = assoc_inv a"
  "assoc_inv (startPTOTimer e d a) = assoc_inv a" "assoc_inv (stopPTOTimer a) = assoc_inv a"
  "assoc_inv (updChunk c f a) = assoc_inv a" "assoc_inv (updStream sr g a) = assoc_inv a"
  "assoc_inv (pushPending e c a) = assoc_inv a" "assoc_inv (popPending e c a) = assoc_inv a"
  by (simp_all add: awakeWriteLoop_def notifyBlockWritable_def unblockPendingWrites_def abortProtocolViolation_def startT3_def
      startT2_def startReconfig_def startRackTimer_def stopRackTimer_def startPTOTimer_def stopPTOTimer_def updChunk_def
      updStream_def pushPending_def popPending_def)

lemma assoc_inv_setCWND [simp]: "assoc_inv a \<Longrightarrow> assoc_inv (setCWND n a)"
  by (auto simp: assoc_inv_def windowsOK_def extensionsOK_def rackChain_def setCWND_def)

lemma assoc_inv_ops2 [simp]:
  "assoc_inv (schedulePTOAfterSendLocked e a) = assoc_inv a" "assoc_inv (closeAllTimers a) = assoc_inv a"
  "assoc_inv (a_close a) = assoc_inv a" "assoc_inv (measureRTT e t a) = assoc_inv a"
  "assoc_inv (handleHeartbeatAck e ps a) = assoc_inv a" "assoc_inv (sendActiveHeartbeatLocked e a) = assoc_inv a"
  "assoc_inv (ActiveHeartbeat e a) = assoc_inv a" "assoc_inv (handleShutdown a) = assoc_inv a"
  "assoc_inv (handleShutdownAck a) = assoc_inv a" "assoc_inv (handleShutdownComplete a) = assoc_inv a"
  "assoc_inv (Abort r a) = assoc_inv a" "assoc_inv (sampleRTT e p a) = assoc_inv a"
  by (simp_all add: schedulePTOAfterSendLocked_def closeAllTimers_def a_close_def measureRTT_def handleHeartbeatAck_def
      sendActiveHeartbeatLocked_def ActiveHeartbeat_def handleShutdown_def handleShutdownAck_def handleShutdownComplete_def
      Abort_def sampleRTT_def split: prod.splits list.splits param.splits)

lemma assoc_inv_tlr [simp]:
  "assoc_inv (tlrUpdatePhaseLocked t a) = assoc_inv a"
  "assoc_inv (snd (tlrCurrentBurstBudgetScaledLocked e a)) = assoc_inv a"
  by (simp_all add: tlrUpdatePhaseLocked_def tlrCurrentBurstBudgetScaledLocked_def tlrCurrentBurstUnitsLocked_def Let_def
      split: option.splits)

lemma assoc_inv_loss [simp]: "assoc_inv a \<Longrightarrow> assoc_inv (tlrApplyAdditionalLossLocked t a)"
  by (auto simp: assoc_inv_def windowsOK_def extensionsOK_def rackChain_def tlrApplyAdditionalLossLocked_def
      tlrUpdatePhaseLocked_def Let_def split: option.splits)

lemma assoc_inv_finish [simp]: "assoc_inv a \<Longrightarrow> assoc_inv (tlrMaybeFinishLocked p a)"
  by (auto simp: assoc_inv_def windowsOK_def extensionsOK_def rackChain_def tlrMaybeFinishLocked_def Let_def)


subsection \<open>Handshake\<close>

lemma keeps_updateInterleavingState [preserved]: "keeps assoc_inv (updateInterleavingState e)"
proof (rule keepsI)
  fix a :: "'a association" assume inv: "assoc_inv a"
  then obtain xs where xs: "rackChain a xs" by (auto simp: assoc_inv_def)
  let ?b = "snd (updateInterleavingState e a)"
  have "windowsOK ?b" "extensionsOK ?b" using inv
    by (auto simp: updateInterleavingState_def assoc_inv_def windowsOK_def extensionsOK_def Let_def split: prod.splits option.splits if_splits)
  moreover have "rackChain ?b xs" using xs
    by (auto simp: updateInterleavingState_def rackChain_def Let_def split: prod.splits option.splits)
  ultimately show "assoc_inv ?b" by (auto simp: assoc_inv_def)
qed

lemma keeps_establish [preserved]: "keeps assoc_inv (establish e)"
  unfolding establish_def by (intro preserved) simp

lemma keeps_completeHandshake [preserved]: "keeps assoc_inv (completeHandshake e err)"
  by (rule keepsI) (simp add: completeHandshake_def)

lemma assoc_inv_send [simp]:
  "assoc_inv (snd (sendInit a)) = assoc_inv a" "assoc_inv (snd (sendCookieEcho a)) = assoc_inv a"
  by (simp_all add: sendInit_def sendCookieEcho_def Let_def split: option.splits)

lemma assoc_inv_peerParams: "assoc_inv (fst (peerParams ps a)) = assoc_inv a"
proof -
  have "assoc_inv (fst (fold peerParam ps x)) = assoc_inv (fst x)" for x :: "'a association \<times> bytes option"
    by (induction ps arbitrary: x) (auto simp: peerParam_def Let_def split: prod.splits param.splits)
  then show ?thesis by (simp add: peerParams_def)
qed

lemma keeps_answerInit [preserved]: "keeps assoc_inv (answerInit e)" "keeps assoc_inv (echoCookie e c)"
  by (rule keepsI, simp add: answerInit_def echoCookie_def Let_def split: option.splits sum.splits)+

lemma assoc_inv_learn [simp]:
  "assoc_inv (learnPeer pkt i a) = assoc_inv a" "assoc_inv (learnAck i a) = assoc_inv a" "assoc_inv (acceptAck i a) = assoc_inv a"
  by (simp_all add: learnPeer_def learnAck_def acceptAck_def)

lemma keeps_negotiated: "keeps assoc_inv f \<Longrightarrow> assoc_inv a \<Longrightarrow> assoc_inv (snd (bindA (updateInterleavingState e) (\<lambda>_. f) a))"
  by (rule keepsD [OF keeps_bindA [OF keeps_updateInterleavingState]])

lemma keeps_handleInit [preserved]: "keeps assoc_inv (handleInit e pkt i)"
  by (rule keepsI) (simp add: handleInit_def keeps_negotiated keeps_answerInit assoc_inv_peerParams)

lemma keeps_handleInitAck [preserved]: "keeps assoc_inv (handleInitAck e pkt i)"
proof (rule keepsI)
  fix a :: "'a association" assume inv: "assoc_inv a"
  have "assoc_inv b" if "peerParams ps (acceptAck i (learnAck i a)) = (b, c)" for ps b c
    using that inv assoc_inv_peerParams [of ps "acceptAck i (learnAck i a)"] by simp
  then show "assoc_inv (snd (handleInitAck e pkt i a))"
    using inv by (auto simp: handleInitAck_def Let_def keeps_negotiated keeps_answerInit split: prod.splits)
qed

lemma keeps_cookie_then:
  assumes "keeps assoc_inv m" "\<And>x. keeps assoc_inv (f x)" "\<And>s. keeps assoc_inv (g s)"
  shows "assoc_inv a \<Longrightarrow> assoc_inv (snd (case m a of (Ok x, a1) \<Rightarrow> f x a1 | (Fail (Err s), a1) \<Rightarrow> g s a1
     | (Fail Panic, a1) \<Rightarrow> (Fail Panic, a1) | (Stuck, a1) \<Rightarrow> (Stuck, a1)))"
  using assms unfolding keeps_def by (auto split: prod.splits outcome.splits sctp_error.splits)

lemma keeps_handleCookieEcho [preserved]: "keeps assoc_inv (handleCookieEcho e c)"
proof (rule keepsI)
  fix a :: "'a association" assume inv: "assoc_inv a"
  have "keeps assoc_inv (bindA (completeHandshake e None) (\<lambda>sent a3. (Ok (if sent then [cookieAckPacket a3] else []), a3)))"
    "\<And>s. keeps assoc_inv (bindA (completeHandshake e (Some s)) (\<lambda>_. retA [] :: ('a, packet list) assocM))"
    by (intro preserved, rule keepsI, simp) (intro preserved)
  note k = keeps_cookie_then [OF keeps_establish this]
  show "assoc_inv (snd (handleCookieEcho e c a))"
    unfolding handleCookieEcho_def Let_def by (auto simp: inv intro: k)
qed

lemma keeps_handleCookieAck [preserved]: "keeps assoc_inv (handleCookieAck e)"
proof (rule keepsI)
  fix a :: "'a association" assume inv: "assoc_inv a"
  have "keeps assoc_inv (bindA (completeHandshake e err) (\<lambda>_. retA () :: ('a, unit) assocM))" for err by (intro preserved)
  note k = keeps_cookie_then [OF keeps_establish this this]
  show "assoc_inv (snd (handleCookieAck e a))" unfolding handleCookieAck_def Let_def by (auto simp: inv intro: k)
qed

lemma keeps_Shutdown [preserved]: "keeps assoc_inv Shutdown" "keeps assoc_inv handleAbort"
  by (rule keepsI, simp add: Shutdown_def handleAbort_def)+


subsection \<open>Sending\<close>

lemma keeps_queues [preserved]:
  "keeps assoc_inv (inflightGet t)" "keeps assoc_inv (inflightPop t)" "keeps assoc_inv (peekPending e)"
  by (rule keepsI, simp add: inflightGet_def inflightPop_def peekPending_def liftA_def split: sum.splits prod.splits)+

lemma keeps_inflightLoop [preserved]: "keeps assoc_inv (inflightLoop n t)"
  by (induction n arbitrary: t) (auto intro!: preserved)

lemma keeps_inflightFrom [preserved]: "keeps assoc_inv (inflightFrom t)"
  unfolding inflightFrom_def by (intro preserved)

lemma assoc_inv_createStream: "assoc_inv a \<Longrightarrow> assoc_inv (snd (createStream sid accept a))"
  by (simp add: createStream_def Let_def)

lemma assoc_inv_getOrCreate: "assoc_inv a \<Longrightarrow> assoc_inv (snd (getOrCreateStream sid accept ppi a))"
  using assoc_inv_createStream [of a sid accept] by (auto simp: getOrCreateStream_def split: option.splits prod.splits)

lemma keeps_OpenStream [preserved]: "keeps assoc_inv (OpenStream sid ppi)" "keeps assoc_inv AcceptStream"
  by (rule_tac [!] keepsI) (auto simp: OpenStream_def AcceptStream_def dest: assoc_inv_getOrCreate [of _ sid False ppi] split: prod.splits list.splits)

lemma assoc_inv_pushAll [simp]: "assoc_inv (fold (pushPending e) cs a) = assoc_inv a"
  by (induction cs arbitrary: a) simp_all

lemma keeps_sendPayloadData [preserved]: "keeps assoc_inv (sendPayloadData e cs)"
  by (rule keepsI) (simp add: sendPayloadData_def Let_def)

lemma assoc_inv_alloc [simp]: "assoc_inv (snd (allocChunks cs a)) = assoc_inv a"
  by (simp add: allocChunks_def Let_def)

lemma keeps_WriteSCTP [preserved]: "keeps assoc_inv (WriteSCTP e r bs ppi)"
proof (rule keepsI)
  fix a :: "'a association" assume inv: "assoc_inv a"
  have "assoc_inv (snd (sendPayloadData e refs a1))" if "allocChunks cs (updStream r f a) = (refs, a1)" for cs f refs a1
    using that inv assoc_inv_alloc [of cs "updStream r f a"] keepsD [OF keeps_sendPayloadData] by (metis assoc_inv_ops(13) snd_conv)
  then show "assoc_inv (snd (WriteSCTP e r bs ppi a))"
    using inv by (auto simp: WriteSCTP_def split: option.splits prod.splits outcome.splits) (metis snd_conv)+
qed

lemma keeps_sendResetRequest [preserved]: "keeps assoc_inv (sendResetRequest e sid)"
  by (rule keepsI) (simp add: sendResetRequest_def allocChunks_def Let_def)

lemma keeps_CloseStream [preserved]: "keeps assoc_inv (CloseStream e r)"
  by (rule keepsI) (simp add: CloseStream_def keepsD [OF keeps_sendResetRequest] split: prod.splits bool.splits)

lemma assoc_inv_reliability [simp]: "assoc_inv a \<Longrightarrow> assoc_inv (checkPartialReliabilityStatus e c a)"
  by (simp add: checkPartialReliabilityStatus_def abandonChunk_def Let_def split: option.splits)

lemma assoc_inv_move [simp]: "assoc_inv a \<Longrightarrow> assoc_inv (movePendingDataChunkToInflightQueue e c a)"
  by (simp add: movePendingDataChunkToInflightQueue_def generateNextTSN_def Let_def)

lemma keeps_popLoop [preserved]: "keeps assoc_inv (popLoop e n b bip cs sis)"
proof (induction n arbitrary: b bip cs sis)
  case (Suc n)
  show ?case unfolding popLoop.simps Let_def by (intro preserved Suc) simp_all
qed (simp add: preserved)

lemma keeps_popPendingDataChunksToSend [preserved]: "keeps assoc_inv (popPendingDataChunksToSend e b)"
  unfolding popPendingDataChunksToSend_def windowProbe_def Let_def by (intro preserved) (simp_all add: Let_def)


lemma keeps_marshalAll [preserved]: "keeps assoc_inv (marshalAll ps)"
  by (induction ps) (auto intro!: preserved)

lemma assoc_inv_resend [simp]: "assoc_inv a \<Longrightarrow> assoc_inv (resend e c a)"
  by (simp add: resend_def)

lemma keeps_rtxLoop [preserved]: "keeps assoc_inv (rtxLoop e xs isFirst b sent bip cs)"
proof (induction xs arbitrary: isFirst b sent bip cs)
  case (Cons x xs)
  show ?case unfolding rtxLoop.simps Let_def by (intro preserved Cons) simp_all
qed (simp add: preserved)

lemma keeps_fastLoop [preserved]: "keeps assoc_inv (fastLoop e xs b wnd bip cs)"
proof (induction xs arbitrary: b wnd bip cs)
  case (Cons x xs)
  show ?case unfolding fastLoop.simps Let_def by (intro preserved Cons) simp_all
qed (simp add: preserved)

lemma keeps_retransmission [preserved]:
  "keeps assoc_inv (gatherDataPacketsToRetransmit e b)" "keeps assoc_inv (gatherOutboundFastRetransmissionPackets e b)"
  unfolding gatherDataPacketsToRetransmit_def getDataPacketsToRetransmit_def gatherOutboundFastRetransmissionPackets_def
  by (auto intro!: preserved)

lemma keeps_createSelectiveAckChunk [preserved]: "keeps assoc_inv createSelectiveAckChunk"
  by (rule keepsI) (auto simp: createSelectiveAckChunk_def popDuplicates_def Let_def split: option.splits sum.splits)

lemma keeps_forward [preserved]: "keeps assoc_inv (createForwardTSN e)" "keeps assoc_inv (createIForwardTSN e)"
  unfolding createForwardTSN_def createIForwardTSN_def skippedChunks_def Let_def by (intro preserved)+

lemma keeps_gatherReconfig [preserved]: "keeps assoc_inv (gatherReconfig e sis)"
  unfolding gatherReconfig_def generateNextRSN_def Let_def by (intro preserved) auto

lemma keeps_gather [preserved]:
  "keeps assoc_inv (gatherOutboundDataAndReconfigPackets e b)" "keeps assoc_inv gatherOutboundSackPackets"
  "keeps assoc_inv (gatherOutboundForwardTSNPackets e)" "keeps assoc_inv (gatherOutboundShutdownPackets e)"
  "keeps assoc_inv gatherAbortPacket"
  unfolding gatherOutboundDataAndReconfigPackets_def gatherOutboundSackPackets_def gatherOutboundForwardTSNPackets_def
    gatherOutboundShutdownPackets_def gatherAbortPacket_def
  by (auto intro!: preserved)

lemma assoc_inv_budget: "tlrCurrentBurstBudgetScaledLocked e a = (u, a1) \<Longrightarrow> assoc_inv a1 = assoc_inv a"
  using assoc_inv_tlr(2) [of e a] by simp

lemma keeps_gatherOutbound [preserved]: "keeps assoc_inv (gatherOutbound e)"
  unfolding gatherOutbound_def by (intro preserved) (auto simp: assoc_inv_budget)


subsection \<open>Receiving\<close>

lemma keeps_cumAckLoop [preserved]: "keeps assoc_inv (cumAckLoop e n idx cum x)"
proof (induction n arbitrary: idx x)
  case (Suc n)
  show ?case unfolding cumAckLoop.simps Let_def by (intro preserved Suc) simp_all
qed (simp add: preserved)

lemma keeps_gapAckLoop [preserved]: "keeps assoc_inv (gapAckLoop e n cum i hi st)"
proof (induction n arbitrary: i st)
  case (Suc n)
  show ?case unfolding gapAckLoop.simps Let_def by (intro preserved Suc) simp_all
qed (simp add: preserved)

lemma keeps_gapBlocksLoop [preserved]: "keeps assoc_inv (gapBlocksLoop e cum gs st)"
  by (induction gs arbitrary: st) (auto intro!: preserved)

lemma keeps_processSelectiveAck [preserved]: "keeps assoc_inv (processSelectiveAck e sack)"
  unfolding processSelectiveAck_def by (intro preserved)

lemma assoc_inv_congestion [simp]: "assoc_inv a \<Longrightarrow> assoc_inv (onCumulativeTSNAckPointAdvanced e n a)"
  by (simp add: onCumulativeTSNAckPointAdvanced_def Let_def)

lemma assoc_inv_recovery [simp]: "assoc_inv a \<Longrightarrow> assoc_inv (enterFastRecovery htna a)"
  by (simp add: enterFastRecovery_def Let_def)

lemma keeps_missLoop [preserved]: "keeps assoc_inv (missLoop e n t maxTSN htna)"
proof (induction n arbitrary: t)
  case (Suc n)
  show ?case unfolding missLoop.simps Let_def by (intro preserved Suc) simp_all
qed (simp add: preserved)

lemma keeps_processFastRetransmission [preserved]: "keeps assoc_inv (processFastRetransmission e cum gaps htna adv)"
  unfolding processFastRetransmission_def Let_def by (intro preserved) simp_all

lemma assoc_inv_rackMarkLoop: "assoc_inv a \<Longrightarrow> assoc_inv (snd (rackMarkLoop d cs lost a))"
  by (induction d cs lost a rule: rackMarkLoop.induct) simp_all

lemma assoc_inv_rackMarkLost [simp]: "assoc_inv a \<Longrightarrow> assoc_inv (rackMarkLost e a)"
  using assoc_inv_rackMarkLoop [of a "the (a_rackDeliveredTime a)" "rackList a" False]
  by (auto simp: rackMarkLost_def split: option.splits prod.splits)

lemma assoc_inv_rackReordering [simp]: "assoc_inv (rackReordering x a) = assoc_inv a"
  by (simp add: rackReordering_def Let_def split: option.splits prod.splits)

lemma assoc_inv_keepInflated: "assoc_inv a \<Longrightarrow> 0 \<le> k \<Longrightarrow> k \<le> 16 \<Longrightarrow> assoc_inv (a\<lparr>a_rackKeepInflatedRecoveries := k\<rparr>)"
  by (simp add: assoc_inv_def windowsOK_def extensionsOK_def rackChain_def)

lemma assoc_inv_deflate: "assoc_inv a \<Longrightarrow> 0 < a_rackKeepInflatedRecoveries a \<Longrightarrow>
   assoc_inv (a\<lparr>a_rackKeepInflatedRecoveries := a_rackKeepInflatedRecoveries a - 1\<rparr>)"
  by (simp add: assoc_inv_def windowsOK_def extensionsOK_def rackChain_def)

lemma assoc_inv_postprocess [simp]: "assoc_inv (postprocessSack e st aw a) = assoc_inv a"
  by (simp add: postprocessSack_def)

lemma assoc_inv_advanceLoop [simp]: "assoc_inv (advanceLoop xs a) = assoc_inv a"
  by (induction xs arbitrary: a) simp_all

lemma keeps_advancePeerAckPoint [preserved]: "keeps assoc_inv advancePeerAckPoint"
  unfolding advancePeerAckPoint_def Let_def by (intro preserved) simp

lemma assoc_inv_releaseBuffers: "assoc_inv (snd (releaseBuffers xs a)) = assoc_inv a"
proof (induction xs arbitrary: a)
  case (Cons x xs)
  obtain sid n where x: "x = (sid, n)" by (cases x)
  show ?case
  proof (cases "map_of (a_streams a) sid")
    case (Some r)
    then show ?thesis using Cons [of "updStream r (\<lambda>_. snd (onBufferReleased n (a_store a r))) a"]
      by (cases "onBufferReleased n (a_store a r)") (auto simp: x split: prod.splits)
  qed (simp add: x Cons)
qed simp


lemma assoc_inv_rackWindow [simp]: "assoc_inv a \<Longrightarrow> assoc_inv (rackWindow e sack a)"
proof -
  assume "assoc_inv a"
  then have "assoc_inv (rackBase (rackSampleMin e a))" by (simp add: rackBase_def rackSampleMin_def Let_def split: prod.splits)
  then have "assoc_inv (rackInflate sack (rackBase (rackSampleMin e a)))" by (simp add: rackInflate_def assoc_inv_keepInflated)
  then have "assoc_inv (rackDeflate (rackInflate sack (rackBase (rackSampleMin e a))))"
    by (simp add: rackDeflate_def Let_def assoc_inv_deflate assoc_inv_keepInflated)
  then show ?thesis by (simp add: rackWindow_def rackBound_def)
qed

lemma assoc_inv_onRack [simp]: "assoc_inv a \<Longrightarrow> assoc_inv (onRackAfterSACK e x sack a)"
  by (simp add: onRackAfterSACK_def Let_def split: option.splits)

lemma keeps_handleSack [preserved]: "keeps assoc_inv (handleSack e sack)"
proof -
  have r: "releaseBuffers xs b = (cbs, a1) \<Longrightarrow> assoc_inv b \<Longrightarrow> assoc_inv (sackWindow sack a1)" for xs b cbs and a1 :: "'a association"
    using assoc_inv_releaseBuffers [of xs b] by (simp add: sackWindow_def Let_def)
  show ?thesis unfolding handleSack_def Let_def by (intro preserved) (auto elim!: r)
qed

lemma assoc_inv_resetStream [simp]: "assoc_inv (resetStream sid a) = assoc_inv a"
  by (simp add: resetStream_def split: option.splits)

lemma assoc_inv_resetStreams [simp]: "assoc_inv (snd (resetStreamsIfAny req a)) = assoc_inv a"
proof -
  have "assoc_inv (fold resetStream sis a) = assoc_inv a" for sis by (induction sis arbitrary: a) simp_all
  then show ?thesis by (simp add: resetStreamsIfAny_def Let_def split: prod.splits)
qed

lemma assoc_inv_reset: "resetStreamsIfAny req b = (p, a1) \<Longrightarrow> assoc_inv a1 = assoc_inv b"
  using assoc_inv_resetStreams [of req b] by simp

lemma assoc_inv_resetOutgoing [simp]: "assoc_inv a \<Longrightarrow> assoc_inv (resetOutgoing rsn a)"
  by (auto simp: resetOutgoing_def intro!: keeps_fold [of assoc_inv] split: option.splits)

lemma keeps_handleReconfigParam [preserved]: "keeps assoc_inv (handleReconfigParam e p)"
proof (rule keepsI)
  fix a :: "'a association" assume inv: "assoc_inv a"
  show "assoc_inv (snd (handleReconfigParam e p a))"
    using inv by (auto simp: handleReconfigParam_def Let_def assoc_inv_reset split: param.splits prod.splits)
qed

lemma keeps_handleReconfig [preserved]: "keeps assoc_inv (handleReconfig e p q)"
  unfolding handleReconfig_def by (intro preserved)

lemma assoc_inv_resetPending: "assoc_inv (snd (resetPending e a)) = assoc_inv a"
proof -
  let ?f = "\<lambda>(ps, a) (k :: u32, req). case resetStreamsIfAny req a of (p, a1) \<Rightarrow> (ps @ [p], a1)"
  have "assoc_inv (snd (foldl ?f x reqs)) = assoc_inv (snd x)" for reqs and x :: "packet list \<times> 'a association"
  proof (induction reqs arbitrary: x)
    case (Cons r reqs)
    then show ?case by (auto dest: assoc_inv_reset split: prod.splits)
  qed simp
  then show ?thesis by (simp add: resetPending_def)
qed

lemma keeps_popTSNLoop [preserved]: "keeps assoc_inv (popTSNLoop e n reply)"
proof (induction n arbitrary: reply)
  case (Suc n)
  have r: "resetPending e b = (ps, a1) \<Longrightarrow> assoc_inv a1 = assoc_inv b" for b ps and a1 :: "'a association"
    using assoc_inv_resetPending [of e b] by simp
  show ?case unfolding popTSNLoop.simps by (intro preserved Suc) (auto simp: r)
qed (simp add: preserved)

lemma keeps_handlePeerLastTSN [preserved]: "keeps assoc_inv (handlePeerLastTSNAndAcknowledgement e now)"
  unfolding handlePeerLastTSNAndAcknowledgement_def by (intro preserved) simp

lemma keeps_pushPayloadDataToStream: "assoc_inv a \<Longrightarrow> assoc_inv (snd (pushPayloadDataToStream r pd a))"
  by (auto simp: pushPayloadDataToStream_def split: sum.splits prod.splits option.splits sctp_error.splits)

lemma keeps_acceptPayloadData [preserved]: "keeps assoc_inv (acceptPayloadData pd)"
proof (rule keepsI)
  fix a :: "'a association" assume "assoc_inv a"
  then have "assoc_inv (snd (getOrCreateStream (streamIdentifier pd) True PayloadTypeUnknown a))" by (rule assoc_inv_getOrCreate)
  then show "assoc_inv (snd (acceptPayloadData pd a))"
    by (auto simp: acceptPayloadData_def keeps_pushPayloadDataToStream split: prod.splits option.splits)
qed

lemma keeps_handleData [preserved]: "keeps assoc_inv (handleData e pd)"
  unfolding handleData_def by (intro preserved) simp_all

lemma assoc_inv_ackNow [simp]: "assoc_inv (ackNow a) = assoc_inv a"
  by (simp add: ackNow_def)

lemma keeps_advancePayloadQueue [preserved]: "keeps assoc_inv (advancePayloadQueue t)"
  by (rule keepsI) (simp add: advancePayloadQueue_def split: sum.splits)

lemma assoc_inv_onStream [simp]: "assoc_inv (onStream sid f a) = assoc_inv a"
  by (simp add: onStream_def split: option.splits)

lemma keeps_handleForwardTSN [preserved]: "keeps assoc_inv (handleForwardTSN e t fs)" "keeps assoc_inv (handleIForwardTSN e t gs)"
  unfolding handleForwardTSN_def handleIForwardTSN_def by (auto intro!: preserved keeps_fold [of assoc_inv])

lemma keeps_handleChunkByType: "keeps assoc_inv (handleChunkByType e pkt c)"
  by (cases c) (auto intro!: preserved simp: replying_def quietly_def)

lemma keeps_handleChunk [preserved]: "keeps assoc_inv (handleChunk e pkt c)"
proof (rule keepsI)
  fix a :: "'a association" assume inv: "assoc_inv a"
  then have "assoc_inv (snd (handleChunkByType e pkt c a))" by (rule keepsD [OF keeps_handleChunkByType])
  then show "assoc_inv (snd (handleChunk e pkt c a))"
    using inv by (auto simp: handleChunk_def split: prod.splits option.splits outcome.splits sctp_error.splits chunk.splits)
qed

lemma keeps_handleChunks [preserved]: "keeps assoc_inv (handleChunks e pkt cs)"
  by (induction cs) (auto intro!: preserved)

lemma keeps_handleInbound [preserved]: "keeps assoc_inv (handleInbound e raw)"
  unfolding handleInbound_def by (intro preserved) (simp_all add: handleChunksStart_def handleChunksEnd_def)


subsection \<open>Loops, timers and calls\<close>

lemma assoc_inv_readLoopEnds [simp]: "assoc_inv a \<Longrightarrow> assoc_inv (readLoopEnds err a)"
  by (simp add: readLoopEnds_def unregisterStream_def keeps_fold [of assoc_inv])

lemma keeps_readLoopRound [preserved]: "keeps assoc_inv (readLoopRound e input)"
proof (rule keepsI)
  fix a :: "'a association" assume inv: "assoc_inv a"
  have "assoc_inv a1" if "handleInbound e raw b = (r, a1)" "assoc_inv b" for raw b r and a1 :: "'a association"
    using keepsD [OF keeps_handleInbound that(2), of e raw] that(1) by simp
  then show "assoc_inv (snd (readLoopRound e input a))"
    using inv by (fastforce simp: readLoopRound_def split: sum.splits prod.splits outcome.splits sctp_error.splits)
qed

lemma assoc_inv_writePackets [simp]: "assoc_inv (snd (writePackets ok raws a)) = assoc_inv a"
  by (induction ok raws a rule: writePackets.induct) (simp_all add: Let_def)

lemma keeps_writeLoopRound [preserved]: "keeps assoc_inv (writeLoopRound e ok)"
proof -
  have "assoc_inv a1" if "writePackets ok raws a = (b, a1)" "assoc_inv a" for raws b and a a1 :: "'a association"
    using that assoc_inv_writePackets [of ok raws a] by simp
  then show ?thesis unfolding writeLoopRound_def by (intro preserved) (auto simp: writeLoopEnds_def)
qed

lemma keeps_writeLoopWait [preserved]: "keeps assoc_inv (writeLoopWait e)"
  by (rule keepsI) (simp add: writeLoopWait_def writeLoopEnds_def)

lemma keeps_onRetransmissionTimeout [preserved]: "keeps assoc_inv (onRetransmissionTimeoutA e n)"
  unfolding onRetransmissionTimeoutA_def onT3Timeout_def Let_def by (intro preserved) simp_all

lemma keeps_onRetransmissionFailure [preserved]: "keeps assoc_inv (onRetransmissionFailureA e n)"
  unfolding onRetransmissionFailureA_def by (intro preserved)

lemma keeps_timerLoopFires [preserved]: "keeps assoc_inv (timerLoopFires e)"
  unfolding timerLoopFires_def onPTOTimerLocked_def tlrBeginLocked_def onRackTimeoutLocked_def Let_def by (intro preserved) simp_all

lemma assoc_inv_run: "assoc_inv a \<Longrightarrow> assoc_inv (assocRun e act a)"
  by (cases act) (auto simp: assocRun_def onAckTimeout_def SetMaxMessageSize_def intro!: keepsD [of assoc_inv] preserved)

lemma assoc_inv_reach: "assoc_reach a0 a \<Longrightarrow> assoc_inv a0 \<Longrightarrow> assoc_inv a"
  by (induction rule: assoc_reach.induct) (simp_all add: assoc_inv_run)

lemma assoc_inv_create: "assoc_inv (createAssociationFromConfigWithTsn mk tag cfg t)"
  by (simp add: createAssociationFromConfigWithTsn_def Let_def setCWND_def assoc_inv_def windowsOK_def extensionsOK_def
      rackChain_def exI [of _ "[]"] not_less)

lemma create_plain: "\<not> a_useInterleaving (createAssociationFromConfigWithTsn mk tag cfg t)"
  by (simp add: createAssociationFromConfigWithTsn_def Let_def setCWND_def)

text \<open>A SNAP client takes over what its own token offers; no chunk format has been chosen yet.\<close>

lemma assoc_inv_localInterleaving: "assoc_inv a \<Longrightarrow> \<not> a_useInterleaving a \<Longrightarrow> assoc_inv (a\<lparr>a_localInterleaving := v\<rparr>)"
  by (simp add: assoc_inv_def windowsOK_def extensionsOK_def rackChain_def)

lemma assoc_inv_peer [simp]:
  "assoc_inv (setPeerSupportedExtensions ext a) = assoc_inv a" "assoc_inv (setSendZeroChecksum ps a) = assoc_inv a"
proof -
  show "assoc_inv (setPeerSupportedExtensions ext a) = assoc_inv a" by (simp add: setPeerSupportedExtensions_def)
  show "assoc_inv (setSendZeroChecksum ps a) = assoc_inv a"
    unfolding setSendZeroChecksum_def by (induction ps arbitrary: a) (simp_all split: param.splits)
qed

lemma assoc_inv_snap:
  assumes "assoc_inv a" "\<not> a_useInterleaving a"
  shows "assoc_inv (snd (initWithOutOfBandTokens e local remote a))"
  unfolding initWithOutOfBandTokens_def Let_def
  by (rule keepsD [OF keeps_establish]) (simp add: assms assoc_inv_localInterleaving)

lemma assoc_inv_start: "assoc_start mk a \<Longrightarrow> assoc_inv a"
  by (induction rule: assoc_start.induct)
    (simp_all add: assoc_inv_create create_plain assoc_inv_snap initServer_def initClient_def Let_def)


section \<open>Properties\<close>

text \<open>
  C12: In every state that an association reaches, started as a server, as a client or from out-of-band
  tokens, by any sequence of calls, incoming packets, write rounds and timeouts, whatever the peer, the
  network, the clock and the scheduler do:
  the congestion window is not below its configured minimum, the bursts of tail loss recovery stay
  between 8 and 16 and between 5 and 8 units, the largest payload is what is left of the MTU by the
  headers of the negotiated chunk format, interleaving is only used if it was offered, and at most one
  kind of FORWARD TSN is in use, the one that fits the chunk format.
\<close>

theorem association_state_well_formed:
  assumes "assoc_start mk a0" "assoc_reach a0 a"
  shows "a_minCwnd a \<le> a_cwnd a \<and>
     a_tlrBurstFirstRTTUnits a \<in> {8..16} \<and> a_tlrBurstLaterRTTUnits a \<in> {5..8} \<and> a_tlrGoodOps a < 16 \<and>
     a_maxPayloadSize a = a_mtu a - (if a_useInterleaving a then 32 else 28) \<and>
     (a_useInterleaving a \<longrightarrow> a_localInterleaving a \<and> \<not> a_useForwardTSN a) \<and>
     (a_useIForwardTSN a \<longrightarrow> a_useInterleaving a)"
  using assoc_inv_reach [OF assms(2) assoc_inv_start [OF assms(1)]] by (auto simp: assoc_inv_def windowsOK_def extensionsOK_def)

definition exampleEnv :: "int \<Rightarrow> roundRobin env" where
  "exampleEnv t = \<lparr>e_now = t, e_order16 = id, e_order32 = id, e_sched = roundRobinScheduler, e_cookie = Inr [1, 2, 3], e_pick = False\<rparr>"

text \<open>A client after a retransmission timeout of its INIT.\<close>

definition waitingClient :: "roundRobin association" where
  "waitingClient = initClient (exampleEnv 0) (createAssociationFromConfigWithTsn (\<lambda>_. None) 7 zeroConfig 100)"

definition timedOut :: "roundRobin association" where
  "timedOut = assocRun (exampleEnv 5) (RtxTimeout 0) waitingClient"

lemma waitingClient_start: "assoc_start (\<lambda>_. None) waitingClient"
  unfolding waitingClient_def by (rule assoc_start.client)

lemma timedOut_reach: "assoc_reach waitingClient timedOut"
  unfolding timedOut_def by (rule assoc_reach.step) (rule assoc_reach.init)

theorem association_state_well_formed_witness:
  "a_minCwnd timedOut \<le> a_cwnd timedOut \<and> a_tlrBurstFirstRTTUnits timedOut \<in> {8..16} \<and>
   a_maxPayloadSize timedOut = a_mtu timedOut - (if a_useInterleaving timedOut then 32 else 28)"
  using association_state_well_formed [OF waitingClient_start timedOut_reach] by simp

text \<open>
  C13: In every reachable state the links of the RACK list are those of a list of distinct chunks, in
  both directions, with the right ends and membership marks. Inserting a chunk appends it unless it is
  in the list, removing one takes it out and keeps the order of the others, and following the links from
  the head yields the list.
\<close>

theorem rack_list_refines:
  assumes "assoc_start mk a0" "assoc_reach a0 a"
  shows "\<exists>xs. rackChain a xs \<and>
     (\<forall>c. rackChain (rackInsert c a) (if c \<in> set xs then xs else xs @ [c]) \<and> rackChain (rackRemove c a) (remove1 c xs)) \<and>
     (\<forall>n. length xs \<le> n \<longrightarrow> rackLinks n (a_rackHead a) a = xs)"
proof -
  obtain xs where xs: "rackChain a xs"
    using assoc_inv_reach [OF assms(2) assoc_inv_start [OF assms(1)]] by (auto simp: assoc_inv_def)
  have "rackLinks n (a_rackHead a) a = xs" if "length xs \<le> n" for n
    using rackLinks_chain [of a "[]" xs n] xs that by (simp add: rackChain_def)
  then show ?thesis using xs rackInsert_chain [OF xs] rackRemove_chain [OF xs] by blast
qed

theorem rack_list_refines_witness:
  "\<exists>xs. rackChain timedOut xs \<and> rackChain (rackInsert 4 timedOut) (if 4 \<in> set xs then xs else xs @ [4]) \<and>
     rackLinks (length xs) (a_rackHead timedOut) timedOut = xs"
  using rack_list_refines [OF waitingClient_start timedOut_reach] by blast

end
