(* ===== verification/HandshakeFacts.thy ===== *)
theory HandshakeFacts
  imports AssocLoops
begin

text \<open>
  The handshake of two associations over their wire format: one write round of an association whose
  packets all reach the other one, and the four rounds that establish both.
\<close>

section \<open>Rounds\<close>

text \<open>A write round of \<open>a\<close>; its packets are read by \<open>b\<close> in order.\<close>

definition transfer :: "'s env \<Rightarrow> 's association \<Rightarrow> 's association \<Rightarrow> 's association \<times> 's association" where
  "transfer e a b =
     (case writeLoopRound e (\<lambda>_. True) a of
        (Ok (raws, _), a') \<Rightarrow> (a', fold (\<lambda>raw b. snd (readLoopRound e (Inr raw) b)) raws b)
      | (_, a') \<Rightarrow> (a', b))"

text \<open>Nothing but control packets is due.\<close>

definition idle :: "'s association \<Rightarrow> bool" where
  "idle a \<longleftrightarrow> \<not> a_willSendAbort a \<and> \<not> a_tlrActive a \<and> pq_size (a_inflightQueue a) = 0 \<and> pd_size (a_pendingQueue a) = 0 \<and>
     \<not> a_willRetransmitFast a \<and> a_ackState a = ackStateIdle \<and> \<not> a_willSendForwardTSN a \<and> \<not> a_willRetransmitReconfig a \<and>
     a_state a \<in> {closedState, cookieWait, cookieEchoed, established}"

lemma idle_popPending: "pd_size (a_pendingQueue a) = 0 \<Longrightarrow> popPendingDataChunksToSend e b a = (Ok ([], [], b), a)"
  by (simp add: popPendingDataChunksToSend_def bindA_def withA_def retA_def modA_def)

lemma idle_inflightFrom: "pq_size (a_inflightQueue a) = 0 \<Longrightarrow> inflightFrom t a = (Ok [], a)"
  by (simp add: inflightFrom_def withA_def retA_def)

lemma marshalAll_simps:
  "marshalAll [] a = (Ok [], a)"
  "marshalPacket p a = Inr raw \<Longrightarrow> marshalAll [p] a = (Ok [raw], a)"
  by (simp_all add: retA_def withA_def bindA_def)

lemma idle_gatherOutbound:
  assumes "idle a" "cq_queue (a_controlQueue a) = [p]" "marshalPacket p a = Inr raw"
  shows "gatherOutbound e a = (Ok ([raw], True), a\<lparr>a_controlQueue := a_controlQueue a\<lparr>cq_queue := []\<rparr>\<rparr>)"
proof -
  let ?q = "a\<lparr>a_controlQueue := a_controlQueue a\<lparr>cq_queue := []\<rparr>\<rparr>"
  have m: "marshalAll [p] ?q = (Ok [raw], ?q)"
    using assms(3) by (intro marshalAll_simps(2)) (simp add: marshalPacket_def)
  have "popPendingDataChunksToSend e b ?q = (Ok ([], [], b), ?q)" "inflightFrom t ?q = (Ok [], ?q)" for b t
    using assms(1) by (simp_all add: idle_popPending idle_inflightFrom idle_def)
  then show ?thesis using assms m
    by (auto simp: gatherOutbound_def idle_def cq_popAll_def tlrCurrentBurstBudgetScaledLocked_def gatherDataPacketsToRetransmit_def
        getDataPacketsToRetransmit_def bundleDataChunksIntoPackets_def gatherOutboundDataAndReconfigPackets_def gatherReconfig_def
        gatherOutboundFastRetransmissionPackets_def gatherOutboundSackPackets_def gatherOutboundForwardTSNPackets_def
        bindA_def withA_def retA_def modA_def)
qed

text \<open>The state after the write round: the packet is counted and gone.\<close>

definition sentOne :: "bytes \<Rightarrow> 's association \<Rightarrow> 's association" where
  "sentOne raw a =
     (let a1 = a\<lparr>a_controlQueue := a_controlQueue a\<lparr>cq_queue := []\<rparr>\<rparr>; a2 = (if isAbortPacket raw then a1\<lparr>a_abortSent := True\<rparr> else a1)
      in a2\<lparr>a_bytesSent := a_bytesSent a2 + of_nat (length raw), a_stats := (a_stats a2)\<lparr>nPacketsSent := nPacketsSent (a_stats a2) + 1\<rparr>\<rparr>)"

lemma idle_transfer:
  assumes "idle a" "cq_queue (a_controlQueue a) = [p]" "marshalPacket p a = Inr raw"
  shows "transfer e a b = (sentOne raw a, snd (readLoopRound e (Inr raw) b))"
  using idle_gatherOutbound [OF assms]
  by (simp add: transfer_def writeLoopRound_def bindA_def withA_def retA_def modA_def sentOne_def Let_def)


text \<open>A packet of one chunk survives the wire if zero checksums are only sent to a peer that accepts them.\<close>

lemma wire:
  assumes "chunks p = [c]" "chunk_ok c" "a_sendZeroChecksum a \<longrightarrow> a_recvZeroChecksum b"
  shows "\<exists>raw. marshalPacket p a = Inr raw \<and> unmarshalPacket raw b = Inr (packet_received p)"
proof -
  have ok: "chunks_ok (chunks p)" using assms by simp
  have "(\<not> a_sendZeroChecksum a \<or> chunkMandatoryChecksum (chunks p)) \<or> \<not> \<not> a_recvZeroChecksum b \<and> \<not> demandsChecksum (chunks p)"
    using assms by (cases c) (auto simp: chunkMandatoryChecksum_def)
  from packet_carried [OF ok this] show ?thesis by (simp add: marshalPacket_def unmarshalPacket_def)
qed

text \<open>How a packet with one control chunk changes its receiver.\<close>

definition received :: "nat \<Rightarrow> 's association \<Rightarrow> 's association" where
  "received n b = handleChunksStart (b\<lparr>a_bytesReceived := a_bytesReceived b + of_nat n\<rparr>)"

definition enqueue :: "packet list \<Rightarrow> 's association \<Rightarrow> 's association" where
  "enqueue ps b = (if ps \<noteq> [] then awakeWriteLoop (b\<lparr>a_controlQueue := cq_pushAll ps (a_controlQueue b)\<rparr>) else b)"

lemma transfer_control:
  assumes "idle a" "cq_queue (a_controlQueue a) = [p]" "chunks p = [c]" "chunk_ok c" "a_sendZeroChecksum a \<longrightarrow> a_recvZeroChecksum b"
    and "checkPacket (packet_received p) = None" "snd (chunk_check (chunk_received c)) = None"
    and handled: "\<And>n. \<exists>b1. handleChunkByType e (packet_received p) (chunk_received c) (received n b) = (Ok (ps, []), b1) \<and>
       \<not> a_immediateAckTriggered b1 \<and> \<not> a_delayedAckTriggered b1 \<and> Q (enqueue ps b1)"
  shows "\<exists>raw b1. transfer e a b = (sentOne raw a, b1) \<and> Q b1"
proof -
  obtain raw where raw: "marshalPacket p a = Inr raw" "unmarshalPacket raw b = Inr (packet_received p)"
    using wire [of p c a b] assms(3-5) by auto
  obtain b1 where b1: "handleChunkByType e (packet_received p) (chunk_received c) (received (length raw) b) = (Ok (ps, []), b1)"
    "\<not> a_immediateAckTriggered b1" "\<not> a_delayedAckTriggered b1" "Q (enqueue ps b1)"
    using handled [of "length raw"] by auto
  obtain x where x: "chunk_check (chunk_received c) = (x, None)" using assms(7) by (cases "chunk_check (chunk_received c)") simp
  have u: "unmarshalPacket raw (b\<lparr>a_bytesReceived := n\<rparr>) = Inr (packet_received p)" for n
    using raw(2) by (simp add: unmarshalPacket_def)
  have one: "chunks (packet_received p) = [chunk_received c]" using assms(3) by (simp add: packet_received_def)
  have "handleChunk e (packet_received p) (chunk_received c) (received (length raw) b) = (Ok [], enqueue ps b1)"
    using b1(1) x by (simp add: handleChunk_def enqueue_def)
  moreover have "handleChunksEnd e (enqueue ps b1) = enqueue ps b1"
    using b1(2,3) by (simp add: handleChunksEnd_def enqueue_def awakeWriteLoop_def)
  ultimately have "readLoopRound e (Inr raw) b = (Ok [], enqueue ps b1)"
    using u assms(6) one
    by (simp add: readLoopRound_def handleInbound_def withA_def bindA_def modA_def retA_def received_def)
  then show ?thesis using idle_transfer [OF assms(1,2) raw(1), of e b] b1(4) by auto
qed

section \<open>Negotiation\<close>

definition ready :: "'s association \<Rightarrow> bool" where
  "ready a \<longleftrightarrow> pd_nChunks (a_pendingQueue a) = 0 \<and> (\<exists>s. PendingQueue.newStreamScheduler (a_pendingQueue a) = Some (Some s)) \<and>
     a_useInterleaving a = PendingQueue.interleaving (a_pendingQueue a)"

lemma update_ready:
  assumes "ready a"
  defines "use \<equiv> a_localInterleaving a \<and> a_peerInterleaving a"
  obtains q n where "updateInterleavingState e a = (Ok (), a\<lparr>a_pendingQueue := q, a_useInterleaving := use, a_maxPayloadSize := n,
      a_useIForwardTSN := (use \<and> a_peerIForwardTSN a), a_useForwardTSN := (\<not> use \<and> a_peerForwardTSN a)\<rparr>)"
    and "pd_nChunks q = 0" "\<exists>s. PendingQueue.newStreamScheduler q = Some (Some s)" "PendingQueue.interleaving q = use"
proof -
  obtain s where s: "PendingQueue.newStreamScheduler (a_pendingQueue a) = Some (Some s)" using assms(1) by (auto simp: ready_def)
  show ?thesis
  proof (cases "use = a_useInterleaving a")
    case True
    then have "updateInterleavingState e a = (Ok (), a\<lparr>a_pendingQueue := a_pendingQueue a, a_useInterleaving := use,
        a_maxPayloadSize := a_maxPayloadSize a, a_useIForwardTSN := (use \<and> a_peerIForwardTSN a), a_useForwardTSN := (\<not> use \<and> a_peerForwardTSN a)\<rparr>)"
      by (auto simp: updateInterleavingState_def use_def Let_def)
    then show ?thesis by (rule that) (use assms True in \<open>auto simp: ready_def\<close>)
  next
    case False
    then obtain q where q: "setInterleaving (e_sched e) use (a_pendingQueue a) = (None, q)" "pd_nChunks q = 0"
      "\<exists>s. PendingQueue.newStreamScheduler q = Some (Some s)" "PendingQueue.interleaving q = use"
      using assms(1) s by (auto simp: setInterleaving_def ready_def Let_def)
    have "updateInterleavingState e a = (Ok (), a\<lparr>a_pendingQueue := q, a_useInterleaving := use,
        a_maxPayloadSize := (if use then a_mtu a - (12 + 20) else a_mtu a - (12 + 16)),
        a_useIForwardTSN := (use \<and> a_peerIForwardTSN a), a_useForwardTSN := (\<not> use \<and> a_peerForwardTSN a)\<rparr>)"
      using False q(1) by (auto simp: updateInterleavingState_def use_def Let_def)
    then show ?thesis by (rule that) (use q in auto)
  qed
qed


text \<open>What an endpoint brings into the handshake.\<close>

record endpoint =
  ep_tag :: u32
  ep_tsn :: u32
  ep_buffer :: u32
  ep_interleaving :: bool
  ep_zeroChecksum :: bool

definition endpointOf :: "'s association \<Rightarrow> endpoint" where
  "endpointOf a = \<lparr>ep_tag = a_myVerificationTag a, ep_tsn = a_myNextTSN a, ep_buffer = a_maxReceiveBufferSize a,
     ep_interleaving = a_localInterleaving a, ep_zeroChecksum = a_recvZeroChecksum a\<rparr>"

definition endpointOK :: "endpoint \<Rightarrow> bool" where
  "endpointOK x \<longleftrightarrow> ep_tag x \<noteq> 0 \<and> \<not> ep_buffer x < 1500"

definition extensionTypes :: "endpoint \<Rightarrow> chunkType list" where
  "extensionTypes x = [ctReconfig, ctForwardTSN] @ (if ep_interleaving x then [ctIData, ctIForwardTSN] else [])"

definition zeroChecksumParam :: "endpoint \<Rightarrow> param list" where
  "zeroChecksumParam x = (if ep_zeroChecksum x then [ZeroChecksumAcceptable zeroParamHeader 1] else [])"

text \<open>The handshake is going on, and nothing of it has been told to the creator.\<close>

definition handshaking :: "endpoint \<Rightarrow> 's association \<Rightarrow> bool" where
  "handshaking x a \<longleftrightarrow> endpointOf a = x \<and> endpointOK x \<and> idle a \<and> ready a \<and> a_handshakeWaiting a \<and> \<not> a_closeWriteLoop a \<and>
     a_myMaxNumInboundStreams a = 65535 \<and> a_myMaxNumOutboundStreams a = 65535"

text \<open>What one side has learnt of the other, \<open>y\<close>.\<close>

definition knows :: "endpoint \<Rightarrow> 's association \<Rightarrow> bool" where
  "knows y a \<longleftrightarrow> a_peerVerificationTag a = ep_tag y \<and> peerLastTSN a = ep_tsn y - 1 \<and> a_rwnd a = ep_buffer y \<and>
     a_sourcePort a = 5000 \<and> a_destinationPort a = 5000 \<and> a_sendZeroChecksum a = ep_zeroChecksum y \<and>
     a_peerInterleaving a = ep_interleaving y \<and> a_peerForwardTSN a \<and> a_peerIForwardTSN a = ep_interleaving y"

text \<open>What the two sides use.\<close>

definition agreed :: "endpoint \<Rightarrow> endpoint \<Rightarrow> 's association \<Rightarrow> bool" where
  "agreed x y a \<longleftrightarrow> (let use = (ep_interleaving x \<and> ep_interleaving y)
     in a_useInterleaving a = use \<and> a_useIForwardTSN a = use \<and> a_useForwardTSN a = (\<not> use))"

lemma negotiated:
  assumes h: "handshaking y a" and k: "knows x a"
  obtains b where "updateInterleavingState e a = (Ok (), b)" "handshaking y b" "knows x b" "agreed x y b"
    "a_state b = a_state a" "a_myCookie b = a_myCookie a" "a_controlQueue b = a_controlQueue a"
    "a_immediateAckTriggered b = a_immediateAckTriggered a" "a_delayedAckTriggered b = a_delayedAckTriggered a"
proof -
  have "ready a" using h by (simp add: handshaking_def)
  then obtain q n where q: "updateInterleavingState e a = (Ok (), a\<lparr>a_pendingQueue := q,
      a_useInterleaving := (a_localInterleaving a \<and> a_peerInterleaving a), a_maxPayloadSize := n,
      a_useIForwardTSN := ((a_localInterleaving a \<and> a_peerInterleaving a) \<and> a_peerIForwardTSN a),
      a_useForwardTSN := (\<not> (a_localInterleaving a \<and> a_peerInterleaving a) \<and> a_peerForwardTSN a)\<rparr>)"
    "pd_nChunks q = 0" "\<exists>s. PendingQueue.newStreamScheduler q = Some (Some s)"
    "PendingQueue.interleaving q = (a_localInterleaving a \<and> a_peerInterleaving a)"
    by (rule update_ready [where e = e])
  show ?thesis
  proof (rule that [OF q(1)])
    show "handshaking y (a\<lparr>a_pendingQueue := q,
      a_useInterleaving := (a_localInterleaving a \<and> a_peerInterleaving a), a_maxPayloadSize := n,
      a_useIForwardTSN := ((a_localInterleaving a \<and> a_peerInterleaving a) \<and> a_peerIForwardTSN a),
      a_useForwardTSN := (\<not> (a_localInterleaving a \<and> a_peerInterleaving a) \<and> a_peerForwardTSN a)\<rparr>)"
      using h q by (simp add: handshaking_def endpointOf_def idle_def ready_def pd_size_def)
  qed (use h k in \<open>auto simp: knows_def agreed_def peerLastTSN_def handshaking_def endpointOf_def\<close>)
qed

lemma sendZero_same: "\<not> a_sendZeroChecksum a \<Longrightarrow> a\<lparr>a_sendZeroChecksum := False\<rparr> = a"
  by (cases a) simp

lemma peerParams_extensions:
  assumes "ps = map param_filled qs"
    and "qs = StateCookie zeroParamHeader ck # zeroChecksumParam y @ [SupportedExtensions zeroParamHeader (extensionTypes y)] \<or>
         qs = SupportedExtensions zeroParamHeader (extensionTypes y) # zeroChecksumParam y"
    and "\<not> a_sendZeroChecksum a"
  shows "fst (peerParams ps a) = a\<lparr>a_peerInterleaving := ep_interleaving y, a_peerForwardTSN := True,
     a_peerIForwardTSN := ep_interleaving y, a_sendZeroChecksum := ep_zeroChecksum y\<rparr>"
  using assms
  by (auto simp: peerParams_def peerParam_def param_filled_def zeroChecksumParam_def extensionTypes_def supportedExtensionsFromChunkTypes_def Let_def)


definition initBody :: "endpoint \<Rightarrow> param list \<Rightarrow> chunkInitCommon" where
  "initBody x ps = \<lparr>initiateTag = ep_tag x, init_arwnd = ep_buffer x, numOutboundStreams = 65535, numInboundStreams = 65535,
     initialTSN = ep_tsn x, init_params = ps, unrecognizedParams = []\<rparr>"

definition initParamsOf :: "endpoint \<Rightarrow> param list" where
  "initParamsOf x = SupportedExtensions zeroParamHeader (extensionTypes x) # zeroChecksumParam x"

definition ackParamsOf :: "endpoint \<Rightarrow> bytes \<Rightarrow> param list" where
  "ackParamsOf x ck = StateCookie zeroParamHeader ck # zeroChecksumParam x @ [SupportedExtensions zeroParamHeader (extensionTypes x)]"

definition handshakePacket :: "u32 \<Rightarrow> chunk \<Rightarrow> packet" where
  "handshakePacket tag c = \<lparr>sourcePort = 5000, destinationPort = 5000, verificationTag = tag, chunks = [c]\<rparr>"

abbreviation initPacket :: "endpoint \<Rightarrow> packet" where
  "initPacket x \<equiv> handshakePacket 0 (ChunkInit zeroHeader (initBody x (initParamsOf x)))"

abbreviation initAckPacket :: "u32 \<Rightarrow> endpoint \<Rightarrow> bytes \<Rightarrow> packet" where
  "initAckPacket tag x ck \<equiv> handshakePacket tag (ChunkInitAck zeroHeader (initBody x (ackParamsOf x ck)))"

lemma handshaking_received: "handshaking x (received n b) = handshaking x b"
  by (simp add: received_def handleChunksStart_def handshaking_def endpointOf_def idle_def ready_def)

text \<open>The server answers the INIT and knows the client.\<close>

definition answered :: "endpoint \<Rightarrow> endpoint \<Rightarrow> bytes \<Rightarrow> 's association \<Rightarrow> bool" where
  "answered x y ck s \<longleftrightarrow> handshaking y s \<and> knows x s \<and> agreed x y s \<and> a_state s = closedState \<and> a_myCookie s = Some ck"

lemma init_handled:
  assumes "handshaking y b" "a_state b = closedState" "a_myCookie b = None" "\<not> a_sendZeroChecksum b"
    "cq_queue (a_controlQueue b) = []" "e_cookie e = Inr ck"
  shows "\<exists>b1. handleChunkByType e (packet_received (initPacket x))
       (chunk_received (ChunkInit zeroHeader (initBody x (initParamsOf x)))) (received n b) = (Ok ([initAckPacket (ep_tag x) y ck], []), b1) \<and>
     \<not> a_immediateAckTriggered b1 \<and> \<not> a_delayedAckTriggered b1 \<and>
     answered x y ck (enqueue [initAckPacket (ep_tag x) y ck] b1) \<and> cq_queue (a_controlQueue (enqueue [initAckPacket (ep_tag x) y ck] b1)) = [initAckPacket (ep_tag x) y ck]"
proof -
  define b0 where "b0 = received n b"
  define i where "i = init_received (initBody x (initParamsOf x))"
  define a1 where "a1 = learnPeer (packet_received (initPacket x)) i b0"
  define a2 where "a2 = a1\<lparr>a_peerInterleaving := ep_interleaving x, a_peerForwardTSN := True,
     a_peerIForwardTSN := ep_interleaving x, a_sendZeroChecksum := ep_zeroChecksum x\<rparr>"
  have h: "handshaking y b0" using assms(1) by (simp add: b0_def handshaking_received)
  have b0: "a_state b0 = closedState" "a_myCookie b0 = None" "\<not> a_sendZeroChecksum b0" "cq_queue (a_controlQueue b0) = []"
    "\<not> a_immediateAckTriggered b0" "\<not> a_delayedAckTriggered b0"
    using assms by (simp_all add: b0_def received_def handleChunksStart_def)
  have local: "a_myMaxNumInboundStreams b0 = 65535" "a_myMaxNumOutboundStreams b0 = 65535" using h by (auto simp: handshaking_def)
  have a2: "handshaking y a2" "a_state a2 = closedState" "a_myCookie a2 = None" "cq_queue (a_controlQueue a2) = []"
    "\<not> a_immediateAckTriggered a2" "\<not> a_delayedAckTriggered a2"
    "a_peerVerificationTag a2 = ep_tag x" "peerLastTSN a2 = ep_tsn x - 1" "a_rwnd a2 = ep_buffer x"
    "a_sourcePort a2 = 5000" "a_destinationPort a2 = 5000" "a_sendZeroChecksum a2 = ep_zeroChecksum x"
    "a_peerInterleaving a2 = ep_interleaving x" "a_peerForwardTSN a2" "a_peerIForwardTSN a2 = ep_interleaving x"
    using h b0
    by (simp_all add: a2_def a1_def learnPeer_def i_def handshaking_def endpointOf_def idle_def ready_def peerLastTSN_def getcumulativeTSN_def
        rq_init_def packet_received_def handshakePacket_def init_received_def initBody_def min16_def local)
  have "init_params i = map param_filled (initParamsOf x)" by (simp add: i_def init_received_def initBody_def)
  then have pp: "fst (peerParams (init_params i) a1) = a2"
    unfolding a2_def by (rule peerParams_extensions [OF _ disjI2]) (simp_all add: initParamsOf_def a1_def learnPeer_def b0)
  have "knows x a2" using a2 by (simp add: knows_def)
  with a2(1) obtain a3 where a3: "updateInterleavingState e a2 = (Ok (), a3)" "handshaking y a3" "knows x a3" "agreed x y a3"
    "a_state a3 = a_state a2" "a_myCookie a3 = a_myCookie a2" "a_controlQueue a3 = a_controlQueue a2"
    "a_immediateAckTriggered a3 = a_immediateAckTriggered a2" "a_delayedAckTriggered a3 = a_delayedAckTriggered a2"
    by (rule negotiated [where e = e])
  let ?ack = "initAckPacket (ep_tag x) y ck"
  have a3': "endpointOf a3 = y" "a_myMaxNumInboundStreams a3 = 65535" "a_myMaxNumOutboundStreams a3 = 65535"
    "a_sourcePort a3 = 5000" "a_destinationPort a3 = 5000" "a_peerVerificationTag a3 = ep_tag x"
    using a3(2,3) by (simp_all add: handshaking_def knows_def)
  have "answerInit e a3 = (Ok [?ack], a3\<lparr>a_myCookie := Some ck\<rparr>)"
    using a3(6) a3'(2-) a2(3) assms(6) unfolding a3'(1) [symmetric]
    by (simp add: answerInit_def createPacket_def setSupportedExtensions_def ackParamsOf_def zeroChecksumParam_def extensionTypes_def
        endpointOf_def handshakePacket_def initBody_def)
  then have "handleInit e (packet_received (initPacket x)) i b0 = (Ok [?ack], a3\<lparr>a_myCookie := Some ck\<rparr>)"
    using pp a3(1) b0(1) unfolding a1_def by (simp add: handleInit_def bindA_def)
  then have "handleChunkByType e (packet_received (initPacket x))
      (chunk_received (ChunkInit zeroHeader (initBody x (initParamsOf x)))) b0 = (Ok ([?ack], []), a3\<lparr>a_myCookie := Some ck\<rparr>)"
    by (simp add: replying_def bindA_def retA_def i_def)
  moreover have "answered x y ck (enqueue [?ack] (a3\<lparr>a_myCookie := Some ck\<rparr>))"
    using a3 a2 by (simp add: answered_def handshaking_def knows_def agreed_def endpointOf_def idle_def ready_def enqueue_def
        awakeWriteLoop_def peerLastTSN_def)
  moreover have "cq_queue (a_controlQueue (enqueue [?ack] (a3\<lparr>a_myCookie := Some ck\<rparr>))) = [?ack]"
    using a3 a2 by (simp add: enqueue_def awakeWriteLoop_def cq_pushAll_def)
  moreover have "\<not> a_immediateAckTriggered (a3\<lparr>a_myCookie := Some ck\<rparr>)" "\<not> a_delayedAckTriggered (a3\<lparr>a_myCookie := Some ck\<rparr>)"
    using a3 a2 by simp_all
  ultimately show ?thesis unfolding b0_def [symmetric] by blast
qed


lemma peerParams_ack:
  assumes "\<not> a_sendZeroChecksum a"
  shows "peerParams (map param_filled (ackParamsOf y ck)) a = (a\<lparr>a_peerInterleaving := ep_interleaving y, a_peerForwardTSN := True,
     a_peerIForwardTSN := ep_interleaving y, a_sendZeroChecksum := ep_zeroChecksum y\<rparr>, Some ck)"
  using sendZero_same [of "a\<lparr>a_peerInterleaving := ep_interleaving y, a_peerForwardTSN := True, a_peerIForwardTSN := ep_interleaving y\<rparr>"] assms
  by (cases "ep_interleaving y"; cases "ep_zeroChecksum y")
    (simp_all add: peerParams_def peerParam_def param_filled_def ackParamsOf_def zeroChecksumParam_def extensionTypes_def
      supportedExtensionsFromChunkTypes_def Let_def)

text \<open>The client echoes the cookie and knows the server.\<close>

abbreviation cookieEchoPacket :: "u32 \<Rightarrow> bytes \<Rightarrow> packet" where
  "cookieEchoPacket tag ck \<equiv> handshakePacket tag (ChunkCookieEcho zeroHeader ck)"

definition echoed :: "endpoint \<Rightarrow> endpoint \<Rightarrow> 's association \<Rightarrow> bool" where
  "echoed x y c \<longleftrightarrow> handshaking x c \<and> knows y c \<and> agreed y x c \<and> a_state c = cookieEchoed"

lemma init_ack_handled:
  assumes "handshaking x b" "a_state b = cookieWait" "\<not> a_sendZeroChecksum b" "cq_queue (a_controlQueue b) = []"
    "a_sourcePort b = 5000" "a_destinationPort b = 5000"
  shows "\<exists>b1. handleChunkByType e (packet_received (initAckPacket tag y ck))
       (chunk_received (ChunkInitAck zeroHeader (initBody y (ackParamsOf y ck)))) (received n b) = (Ok ([], []), b1) \<and>
     \<not> a_immediateAckTriggered b1 \<and> \<not> a_delayedAckTriggered b1 \<and>
     echoed x y (enqueue [] b1) \<and> cq_queue (a_controlQueue (enqueue [] b1)) = [cookieEchoPacket (ep_tag y) ck]"
proof -
  define b0 where "b0 = received n b"
  define i where "i = init_received (initBody y (ackParamsOf y ck))"
  define a1 where "a1 = acceptAck i (learnAck i b0)"
  define a2 where "a2 = a1\<lparr>a_peerInterleaving := ep_interleaving y, a_peerForwardTSN := True,
     a_peerIForwardTSN := ep_interleaving y, a_sendZeroChecksum := ep_zeroChecksum y\<rparr>"
  have h: "handshaking x b0" using assms(1) by (simp add: b0_def handshaking_received)
  have b0: "a_state b0 = cookieWait" "\<not> a_sendZeroChecksum b0" "cq_queue (a_controlQueue b0) = []" "a_sourcePort b0 = 5000"
    "a_destinationPort b0 = 5000" "\<not> a_immediateAckTriggered b0" "\<not> a_delayedAckTriggered b0"
    using assms by (simp_all add: b0_def received_def handleChunksStart_def)
  have local: "a_myMaxNumInboundStreams b0 = 65535" "a_myMaxNumOutboundStreams b0 = 65535" using h by (auto simp: handshaking_def)
  have a2: "handshaking x a2" "cq_queue (a_controlQueue a2) = []" "\<not> a_immediateAckTriggered a2" "\<not> a_delayedAckTriggered a2" "knows y a2"
    using h b0
    by (simp_all add: a2_def a1_def learnAck_def acceptAck_def i_def init_received_def initBody_def min16_def local handshaking_def
        endpointOf_def idle_def ready_def knows_def peerLastTSN_def getcumulativeTSN_def rq_init_def)
  have "peerParams (map param_filled (ackParamsOf y ck)) a1 = (a2, Some ck)"
    unfolding a2_def by (rule peerParams_ack) (simp add: a1_def learnAck_def acceptAck_def b0)
  then have pp: "peerParams (init_params i) a1 = (a2, Some ck)" by (simp add: i_def init_received_def initBody_def)
  obtain a3 where a3: "updateInterleavingState e a2 = (Ok (), a3)" "handshaking x a3" "knows y a3" "agreed y x a3"
    "a_state a3 = a_state a2" "a_myCookie a3 = a_myCookie a2" "a_controlQueue a3 = a_controlQueue a2"
    "a_immediateAckTriggered a3 = a_immediateAckTriggered a2" "a_delayedAckTriggered a3 = a_delayedAckTriggered a2"
    by (rule negotiated [OF a2(1,5), where e = e])
  have a3': "a_sourcePort a3 = 5000" "a_destinationPort a3 = 5000" "a_peerVerificationTag a3 = ep_tag y"
    using a3(3) by (simp_all add: knows_def)
  define a4 where "a4 = snd (sendCookieEcho (a3\<lparr>a_storedCookieEcho := Some ck\<rparr>))"
  define a5 where "a5 = a4\<lparr>a_t1Cookie := snd (rt_start (e_now e) (getRTO (a_rtoMgr a4)) (a_t1Cookie a4)), a_state := cookieEchoed\<rparr>"
  have "echoCookie e (Some ck) a3 = (Ok (), a5)" by (simp add: echoCookie_def a5_def a4_def Let_def)
  moreover have "a_sourcePort (learnAck i b0) = 5000" "a_destinationPort (learnAck i b0) = 5000" using b0 by (simp_all add: learnAck_def)
  moreover have "destinationPort (packet_received (initAckPacket tag y ck)) = 5000" "sourcePort (packet_received (initAckPacket tag y ck)) = 5000"
    by (simp_all add: packet_received_def handshakePacket_def)
  ultimately have "handleInitAck e (packet_received (initAckPacket tag y ck)) i b0 = (Ok (), a5)"
    using pp a3(1) b0(1) unfolding a1_def by (simp add: handleInitAck_def bindA_def Let_def)
  then have "handleChunkByType e (packet_received (initAckPacket tag y ck))
      (chunk_received (ChunkInitAck zeroHeader (initBody y (ackParamsOf y ck)))) b0 = (Ok ([], []), a5)"
    by (simp add: quietly_def bindA_def retA_def i_def)
  moreover have "echoed x y a5" "\<not> a_immediateAckTriggered a5" "\<not> a_delayedAckTriggered a5"
    using a3(2-) a2 unfolding a5_def a4_def
    by (simp_all add: echoed_def handshaking_def knows_def agreed_def endpointOf_def idle_def ready_def peerLastTSN_def
        sendCookieEcho_def awakeWriteLoop_def)
  moreover have "cq_queue (a_controlQueue a5) = [cookieEchoPacket (ep_tag y) ck]"
    using a3(7) a3' a2(2) unfolding a5_def a4_def
    by (simp add: sendCookieEcho_def awakeWriteLoop_def cq_push_def createPacket_def handshakePacket_def)
  ultimately show ?thesis unfolding b0_def [symmetric] by (auto simp: enqueue_def)
qed

text \<open>The server is established and tells its creator.\<close>

abbreviation cookieAck :: "u32 \<Rightarrow> packet" where
  "cookieAck tag \<equiv> handshakePacket tag (ChunkCookieAck zeroHeader)"

definition completed :: "endpoint \<Rightarrow> endpoint \<Rightarrow> 's association \<Rightarrow> bool" where
  "completed x y a \<longleftrightarrow> endpointOf a = x \<and> idle a \<and> knows y a \<and> agreed y x a \<and> a_state a = established \<and> a_handshakeResult a = Some None"

lemma established_completed:
  assumes "handshaking x a" "knows y a"
  obtains b where "establish e a = (Ok (), b)" "completeHandshake e None b = (Ok True, b\<lparr>a_handshakeWaiting := False, a_handshakeResult := Some None\<rparr>)"
    "completed x y (b\<lparr>a_handshakeWaiting := False, a_handshakeResult := Some None\<rparr>)" "a_controlQueue b = a_controlQueue a"
    "a_immediateAckTriggered b = a_immediateAckTriggered a" "a_delayedAckTriggered b = a_delayedAckTriggered a"
proof -
  obtain c where c: "updateInterleavingState e a = (Ok (), c)" "handshaking x c" "knows y c" "agreed y x c"
    "a_state c = a_state a" "a_myCookie c = a_myCookie a" "a_controlQueue c = a_controlQueue a"
    "a_immediateAckTriggered c = a_immediateAckTriggered a" "a_delayedAckTriggered c = a_delayedAckTriggered a"
    by (rule negotiated [OF assms, where e = e])
  let ?b = "c\<lparr>a_state := established\<rparr>"
  have "establish e a = (Ok (), ?b)" using c(1) by (simp add: establish_def bindA_def modA_def)
  moreover have "completeHandshake e None ?b = (Ok True, ?b\<lparr>a_handshakeWaiting := False, a_handshakeResult := Some None\<rparr>)"
    using c(2) by (simp add: completeHandshake_def handshaking_def)
  moreover have "completed x y (?b\<lparr>a_handshakeWaiting := False, a_handshakeResult := Some None\<rparr>)"
    using c(2,3,4) by (simp add: completed_def handshaking_def knows_def agreed_def endpointOf_def idle_def peerLastTSN_def)
  ultimately show ?thesis using c(7-9) by (intro that [of ?b]) simp_all
qed

lemma cookie_echo_handled:
  assumes "answered x y ck b" "cq_queue (a_controlQueue b) = []"
  shows "\<exists>b1. handleChunkByType e (packet_received (cookieEchoPacket tag ck)) (chunk_received (ChunkCookieEcho zeroHeader ck)) (received n b)
       = (Ok ([cookieAck (ep_tag x)], []), b1) \<and>
     \<not> a_immediateAckTriggered b1 \<and> \<not> a_delayedAckTriggered b1 \<and>
     completed y x (enqueue [cookieAck (ep_tag x)] b1) \<and> cq_queue (a_controlQueue (enqueue [cookieAck (ep_tag x)] b1)) = [cookieAck (ep_tag x)]"
proof -
  define b0 where "b0 = received n b"
  define a1 where "a1 = b0\<lparr>a_t1Init := rt_stop (a_t1Init b0), a_storedInit := None, a_t1Cookie := rt_stop (a_t1Cookie b0), a_storedCookieEcho := None\<rparr>"
  have b0: "a_state b0 = closedState" "a_myCookie b0 = Some ck"
    using assms by (simp_all add: b0_def received_def handleChunksStart_def answered_def)
  have a1: "handshaking y a1" "knows x a1" "cq_queue (a_controlQueue a1) = []" "\<not> a_immediateAckTriggered a1" "\<not> a_delayedAckTriggered a1"
    using assms by (simp_all add: a1_def b0_def received_def handleChunksStart_def answered_def handshaking_def knows_def endpointOf_def
        idle_def ready_def peerLastTSN_def)
  obtain a2 where a2: "establish e a1 = (Ok (), a2)"
    "completeHandshake e None a2 = (Ok True, a2\<lparr>a_handshakeWaiting := False, a_handshakeResult := Some None\<rparr>)"
    "completed y x (a2\<lparr>a_handshakeWaiting := False, a_handshakeResult := Some None\<rparr>)" "a_controlQueue a2 = a_controlQueue a1"
    "a_immediateAckTriggered a2 = a_immediateAckTriggered a1" "a_delayedAckTriggered a2 = a_delayedAckTriggered a1"
    by (rule established_completed [OF a1(1,2), where e = e])
  let ?f = "a2\<lparr>a_handshakeWaiting := False, a_handshakeResult := Some None\<rparr>"
  have "cookieAckPacket ?f = cookieAck (ep_tag x)"
    using a2(3) by (simp add: completed_def knows_def cookieAckPacket_def createPacket_def handshakePacket_def)
  then have "handleCookieEcho e ck b0 = (Ok [cookieAck (ep_tag x)], ?f)"
    using a2(1,2) b0 unfolding a1_def by (simp add: handleCookieEcho_def bindA_def)
  then have "handleChunkByType e (packet_received (cookieEchoPacket tag ck)) (chunk_received (ChunkCookieEcho zeroHeader ck)) b0
      = (Ok ([cookieAck (ep_tag x)], []), ?f)"
    by (simp add: replying_def bindA_def retA_def)
  moreover have "completed y x (enqueue [cookieAck (ep_tag x)] ?f)"
    using a2(3) by (simp add: completed_def knows_def agreed_def endpointOf_def idle_def peerLastTSN_def enqueue_def awakeWriteLoop_def)
  moreover have "cq_queue (a_controlQueue (enqueue [cookieAck (ep_tag x)] ?f)) = [cookieAck (ep_tag x)]"
    using a2(4) a1(3) by (simp add: enqueue_def awakeWriteLoop_def cq_pushAll_def)
  moreover have "\<not> a_immediateAckTriggered ?f" "\<not> a_delayedAckTriggered ?f" using a2(5,6) a1 by simp_all
  ultimately show ?thesis unfolding b0_def [symmetric] by blast
qed

lemma cookie_ack_handled:
  assumes "echoed x y b" "cq_queue (a_controlQueue b) = []"
  shows "\<exists>b1. handleChunkByType e (packet_received (cookieAck tag)) (chunk_received (ChunkCookieAck zeroHeader)) (received n b) = (Ok ([], []), b1) \<and>
     \<not> a_immediateAckTriggered b1 \<and> \<not> a_delayedAckTriggered b1 \<and>
     completed x y (enqueue [] b1) \<and> cq_queue (a_controlQueue (enqueue [] b1)) = []"
proof -
  define b0 where "b0 = received n b"
  define a1 where "a1 = b0\<lparr>a_t1Cookie := rt_stop (a_t1Cookie b0), a_storedCookieEcho := None\<rparr>"
  have b0: "a_state b0 = cookieEchoed" using assms by (simp add: b0_def received_def handleChunksStart_def echoed_def)
  have a1: "handshaking x a1" "knows y a1" "cq_queue (a_controlQueue a1) = []" "\<not> a_immediateAckTriggered a1" "\<not> a_delayedAckTriggered a1"
    using assms by (simp_all add: a1_def b0_def received_def handleChunksStart_def echoed_def handshaking_def knows_def endpointOf_def
        idle_def ready_def peerLastTSN_def)
  obtain a2 where a2: "establish e a1 = (Ok (), a2)"
    "completeHandshake e None a2 = (Ok True, a2\<lparr>a_handshakeWaiting := False, a_handshakeResult := Some None\<rparr>)"
    "completed x y (a2\<lparr>a_handshakeWaiting := False, a_handshakeResult := Some None\<rparr>)" "a_controlQueue a2 = a_controlQueue a1"
    "a_immediateAckTriggered a2 = a_immediateAckTriggered a1" "a_delayedAckTriggered a2 = a_delayedAckTriggered a1"
    by (rule established_completed [OF a1(1,2), where e = e])
  let ?f = "a2\<lparr>a_handshakeWaiting := False, a_handshakeResult := Some None\<rparr>"
  have "handleCookieAck e b0 = (Ok (), ?f)"
    using a2(1,2) b0 unfolding a1_def by (simp add: handleCookieAck_def bindA_def retA_def)
  then have "handleChunkByType e (packet_received (cookieAck tag)) (chunk_received (ChunkCookieAck zeroHeader)) b0 = (Ok ([], []), ?f)"
    by (simp add: quietly_def bindA_def retA_def)
  then show ?thesis unfolding b0_def [symmetric] using a2(3-6) a1 by (auto simp: enqueue_def)
qed


section \<open>The four rounds\<close>

lemma sentOne_simps [simp]:
  "cq_queue (a_controlQueue (sentOne raw a)) = []" "a_state (sentOne raw a) = a_state a" "a_sendZeroChecksum (sentOne raw a) = a_sendZeroChecksum a"
  "a_recvZeroChecksum (sentOne raw a) = a_recvZeroChecksum a"
  "a_sourcePort (sentOne raw a) = a_sourcePort a" "a_destinationPort (sentOne raw a) = a_destinationPort a"
  "handshaking x (sentOne raw a) = handshaking x a" "answered x y ck (sentOne raw a) = answered x y ck a"
  "echoed x y (sentOne raw a) = echoed x y a" "completed x y (sentOne raw a) = completed x y a"
  by (simp_all add: sentOne_def Let_def answered_def echoed_def completed_def handshaking_def knows_def agreed_def endpointOf_def idle_def
      ready_def peerLastTSN_def)

lemma length_marshalParams: "length (marshalParams ps) \<le> (\<Sum>p \<leftarrow> ps. 8 + length (param_value p))"
proof (induction ps rule: marshalParams.induct)
  case (3 p q ps)
  then show ?case using getPadding_lt [of "length (param_marshal p)"] by (simp add: padByte_def)
qed simp_all

lemma init_chunk_ok: "chunk_ok (ChunkInit zeroHeader (initBody x (initParamsOf x)))"
  using length_marshalParams [of "initParamsOf x"]
  by (auto simp: zeroHeader_def initBody_def chunkInitCommon_marshal_def params_ok_def initParamsOf_def zeroChecksumParam_def extensionTypes_def PutUint32_def)

lemma init_ack_chunk_ok: "length ck < 60000 \<Longrightarrow> chunk_ok (ChunkInitAck zeroHeader (initBody x (ackParamsOf x ck)))"
  using length_marshalParams [of "ackParamsOf x ck"]
  by (auto simp: zeroHeader_def initBody_def chunkInitCommon_marshal_def params_ok_def ackParamsOf_def zeroChecksumParam_def extensionTypes_def)

lemma endpointOK_check:
  assumes "endpointOK x"
  shows "snd (chunk_check (chunk_received (ChunkInit zeroHeader (initBody x ps)))) = None"
    and "snd (chunk_check (chunk_received (ChunkInitAck zeroHeader (initBody x ps)))) = None"
  using assms by (simp_all add: endpointOK_def initBody_def init_received_def chunkInit_check_def chunkInitAck_check_def)

lemma handshake_check: "tag = 0 \<or> \<not> isInit c \<Longrightarrow> checkPacket (packet_received (handshakePacket tag c)) = None"
  by (cases c) (simp_all add: checkPacket_def packet_received_def handshakePacket_def isInit_def)

lemma chunks_handshakePacket [simp]: "chunks (handshakePacket tag c) = [c]"
  by (simp add: handshakePacket_def)

lemma handshake_rounds:
  assumes c0: "handshaking x c0" "a_state c0 = cookieWait" "\<not> a_sendZeroChecksum c0" "a_sourcePort c0 = 5000" "a_destinationPort c0 = 5000"
      "cq_queue (a_controlQueue c0) = [initPacket x]"
    and s0: "handshaking y s0" "a_state s0 = closedState" "a_myCookie s0 = None" "\<not> a_sendZeroChecksum s0" "cq_queue (a_controlQueue s0) = []"
    and ck: "e_cookie e1 = Inr ck" "length ck < 60000"
  shows "\<exists>c1 s1 c2 s2 c3 s3 c4 s4. transfer e1 c0 s0 = (c1, s1) \<and> transfer e2 s1 c1 = (s2, c2) \<and> transfer e3 c2 s2 = (c3, s3) \<and>
     transfer e4 s3 c3 = (s4, c4) \<and> completed x y c4 \<and> completed y x s4"
proof -
  have ok: "endpointOK x" "endpointOK y" and zero: "a_recvZeroChecksum c0 = ep_zeroChecksum x" "a_recvZeroChecksum s0 = ep_zeroChecksum y"
    using c0(1) s0(1) by (auto simp: handshaking_def endpointOf_def)
  have idle0: "idle c0" using c0(1) by (simp add: handshaking_def)
  obtain r1 s1 where 1: "transfer e1 c0 s0 = (sentOne r1 c0, s1)" "answered x y ck s1" "cq_queue (a_controlQueue s1) = [initAckPacket (ep_tag x) y ck]"
    using transfer_control [OF idle0 c0(6) chunks_handshakePacket init_chunk_ok, of s0 e1, OF _ _ _ init_handled [OF s0 ck(1)]]
      c0(3) handshake_check [of 0] endpointOK_check(1) [OF ok(1)] by auto
  have s1: "idle s1" "a_sendZeroChecksum s1 \<longrightarrow> a_recvZeroChecksum c0" using 1(2) zero by (auto simp: answered_def handshaking_def knows_def)
  obtain r2 c2 where 2: "transfer e2 s1 (sentOne r1 c0) = (sentOne r2 s1, c2)" "echoed x y c2" "cq_queue (a_controlQueue c2) = [cookieEchoPacket (ep_tag y) ck]"
    using transfer_control [OF s1(1) 1(3) chunks_handshakePacket init_ack_chunk_ok [OF ck(2)], of "sentOne r1 c0" e2, OF _ _ _ init_ack_handled [of x]]
      c0 s1(2) handshake_check [of "ep_tag x"] endpointOK_check(2) [OF ok(2)] by (auto simp: isInit_def)
  have c2: "idle c2" "a_sendZeroChecksum c2 \<longrightarrow> a_recvZeroChecksum s1"
    using 1(2) 2(2) by (auto simp: echoed_def answered_def handshaking_def knows_def endpointOf_def)
  have "chunk_ok (ChunkCookieEcho zeroHeader ck)" using ck(2) by simp
  from transfer_control [OF c2(1) 2(3) chunks_handshakePacket this, of "sentOne r2 s1" e3, OF _ _ _ cookie_echo_handled [of x y ck]]
  obtain r3 s3 where 3: "transfer e3 c2 (sentOne r2 s1) = (sentOne r3 c2, s3)" "completed y x s3" "cq_queue (a_controlQueue s3) = [cookieAck (ep_tag x)]"
    using c2(2) 1(2) handshake_check [of "ep_tag y"] by (auto simp: isInit_def)
  have s3: "idle s3" "a_sendZeroChecksum s3 \<longrightarrow> a_recvZeroChecksum c2"
    using 3(2) 2(2) by (auto simp: completed_def echoed_def handshaking_def knows_def endpointOf_def)
  have "chunk_ok (ChunkCookieAck zeroHeader)" by (simp add: zeroHeader_def)
  from transfer_control [OF s3(1) 3(3) chunks_handshakePacket this, of "sentOne r3 c2" e4, OF _ _ _ cookie_ack_handled [of x y]]
  obtain r4 c4 where 4: "transfer e4 s3 (sentOne r3 c2) = (sentOne r4 s3, c4)" "completed x y c4"
    using s3(2) 2(2) handshake_check [of "ep_tag x"] by (auto simp: isInit_def)
  have "completed y x (sentOne r4 s3)" using 3(2) by simp
  then show ?thesis using 1(1) 2(1) 3(1) 4 by blast
qed


section \<open>Starting states\<close>

text \<open>A configuration that was built has a scheduler and a receive buffer.\<close>

lemma built_config:
  assumes "buildServerConfig opts = Inr cfg"
  shows "\<exists>i f. Options.interleaving cfg = Some i \<and> Options.newStreamScheduler i = Some f" and "MaxReceiveBufferSize cfg \<noteq> 0"
proof -
  have "\<exists>cfg0. cfg = applyDefaults cfg0"
    using assms by (cases "applyOpts opts (applyDefaults zeroConfig)") (auto simp: buildServerConfig_def Let_def split: if_splits)
  then obtain cfg0 where cfg: "cfg = applyDefaults cfg0" ..
  show "MaxReceiveBufferSize cfg \<noteq> 0" by (simp add: cfg applyDefaults_def Let_def)
  have "newStreamScheduler i = None \<or> (\<exists>f. newStreamScheduler i = Some f)" for i :: interleavingSettings by (cases "newStreamScheduler i") simp_all
  then show "\<exists>i f. Options.interleaving cfg = Some i \<and> Options.newStreamScheduler i = Some f"
    by (simp add: cfg applyDefaults_def setWeightedFairQueueingStreamScheduler_def Let_def)
qed

definition endpointFrom :: "u32 \<Rightarrow> u32 \<Rightarrow> Config \<Rightarrow> endpoint" where
  "endpointFrom tag t cfg = \<lparr>ep_tag = tag, ep_tsn = t, ep_buffer = MaxReceiveBufferSize cfg, ep_interleaving = enableInterleaving cfg,
     ep_zeroChecksum = EnableZeroChecksum cfg\<rparr>"

lemma created:
  fixes t :: u32
  assumes "buildServerConfig opts = Inr cfg" "\<forall>f. mk f \<noteq> None" "tag \<noteq> 0" "1500 \<le> MaxReceiveBufferSize cfg"
  defines "a \<equiv> createAssociationFromConfigWithTsn mk tag cfg t"
  shows "endpointOf a = endpointFrom tag t cfg" "endpointOK (endpointOf a)" "idle a" "ready a" "\<not> a_closeWriteLoop a"
    "a_myMaxNumInboundStreams a = 65535" "a_myMaxNumOutboundStreams a = 65535" "\<not> a_sendZeroChecksum a" "cq_queue (a_controlQueue a) = []"
    "a_state a = closedState" "a_myCookie a = None"
  using built_config [OF assms(1)] assms(2-4)
  by (auto simp: a_def createAssociationFromConfigWithTsn_def Let_def setCWND_def endpointOf_def endpointFrom_def endpointOK_def idle_def
      ready_def newPendingQueue_def newPayloadQueue_def pq_size_def newQueue_def Len_def pd_size_def newControlQueue_def not_less)


lemma client_started:
  fixes t :: u32 and e :: "'s env"
  assumes "buildServerConfig opts = Inr cfg" "\<forall>f. mk f \<noteq> None" "tag \<noteq> 0" "1500 \<le> MaxReceiveBufferSize cfg"
  defines "c \<equiv> initClient e (createAssociationFromConfigWithTsn mk tag cfg t)"
  shows "handshaking (endpointFrom tag t cfg) c" "a_state c = cookieWait" "\<not> a_sendZeroChecksum c" "a_sourcePort c = 5000" "a_destinationPort c = 5000"
    "cq_queue (a_controlQueue c) = [initPacket (endpointFrom tag t cfg)]"
proof -
  define a where "a = createAssociationFromConfigWithTsn mk tag cfg t"
  note a = created [OF assms(1-4), where t = t, folded a_def]
  have i: "localInitChunk a = initBody (endpointFrom tag t cfg) (initParamsOf (endpointFrom tag t cfg))"
    using a(6,7) unfolding a(1) [symmetric]
    by (simp add: Let_def localInitChunk_def initBody_def initParamsOf_def extensionTypes_def zeroChecksumParam_def endpointOf_def setSupportedExtensions_def)
  show "handshaking (endpointFrom tag t cfg) c" "a_state c = cookieWait" "\<not> a_sendZeroChecksum c" "a_sourcePort c = 5000" "a_destinationPort c = 5000"
    "cq_queue (a_controlQueue c) = [initPacket (endpointFrom tag t cfg)]"
    unfolding a(1) [symmetric] c_def a_def [symmetric] using a
    by (simp_all add: initClient_def sendInit_def Let_def i handshaking_def endpointOf_def idle_def ready_def awakeWriteLoop_def
        createPacket_def handshakePacket_def cq_push_def endpointFrom_def)
qed

lemma server_started:
  fixes t :: u32
  assumes "buildServerConfig opts = Inr cfg" "\<forall>f. mk f \<noteq> None" "tag \<noteq> 0" "1500 \<le> MaxReceiveBufferSize cfg"
  defines "s \<equiv> initServer (createAssociationFromConfigWithTsn mk tag cfg t)"
  shows "handshaking (endpointFrom tag t cfg) s" "a_state s = closedState" "a_myCookie s = None" "\<not> a_sendZeroChecksum s"
    "cq_queue (a_controlQueue s) = []"
  using created [OF assms(1-4), where t = t] unfolding s_def
  by (simp_all add: initServer_def handshaking_def endpointOf_def idle_def ready_def)

text \<open>
  C4: A client and a server, each made from options its constructor accepts, complete the handshake in
  four packets when none is lost. The two calls then return without an error and the two sides agree: the
  verification tags are crossed, each expects the other's first sequence number and starts with the
  other's buffer as its window, interleaving is used when both sides enabled it, partial reliability
  follows it, and each side omits its checksums exactly when the other accepts that.
\<close>

theorem handshake_establishes:
  assumes "buildClientConfig optsC = Inr cfgC" "buildServerConfig optsS = Inr cfgS" "snapConfig cfgC = None"
    and "\<forall>f. mk f \<noteq> None" "tagC \<noteq> 0" "tagS \<noteq> 0" "1500 \<le> MaxReceiveBufferSize cfgC" "1500 \<le> MaxReceiveBufferSize cfgS"
    and "e_cookie e1 = Inr ck" "length ck < 60000"
  shows "\<exists>c0 s0 c1 s1 c2 s2 c3 s3 c4 s4.
     createClientWithOptionsWithContext mk e0 tagC tC optsC = Ok c0 \<and> ServerWithOptions mk tagS tS optsS = Inr s0 \<and>
     transfer e1 c0 s0 = (c1, s1) \<and> transfer e2 s1 c1 = (s2, c2) \<and> transfer e3 c2 s2 = (c3, s3) \<and> transfer e4 s3 c3 = (s4, c4) \<and>
     fst (awaitHandshake c4) = Ok () \<and> fst (awaitHandshake s4) = Ok () \<and>
     a_myVerificationTag c4 = tagC \<and> a_peerVerificationTag s4 = tagC \<and> a_myVerificationTag s4 = tagS \<and> a_peerVerificationTag c4 = tagS \<and>
     peerLastTSN c4 + 1 = a_myNextTSN s4 \<and> peerLastTSN s4 + 1 = a_myNextTSN c4 \<and> a_myNextTSN c4 = tC \<and> a_myNextTSN s4 = tS \<and>
     a_rwnd c4 = MaxReceiveBufferSize cfgS \<and> a_rwnd s4 = MaxReceiveBufferSize cfgC \<and>
     (let both = (enableInterleaving cfgC \<and> enableInterleaving cfgS);
          pr = (if both then PartialReliabilityModeIForwardTSN else PartialReliabilityModeForwardTSN)
      in Metadata c4 = Some \<lparr>MessageInterleavingEnabled = both, PartialReliabilityMode = pr,
           ZeroChecksumSendingEnabled = EnableZeroChecksum cfgS, ZeroChecksumReceivingEnabled = EnableZeroChecksum cfgC\<rparr> \<and>
         Metadata s4 = Some \<lparr>MessageInterleavingEnabled = both, PartialReliabilityMode = pr,
           ZeroChecksumSendingEnabled = EnableZeroChecksum cfgC, ZeroChecksumReceivingEnabled = EnableZeroChecksum cfgS\<rparr>)"
proof -
  let ?x = "endpointFrom tagC tC cfgC" and ?y = "endpointFrom tagS tS cfgS"
  let ?c = "initClient e0 (createAssociationFromConfigWithTsn mk tagC cfgC tC)" and ?s = "initServer (createAssociationFromConfigWithTsn mk tagS cfgS tS)"
  have start: "createClientWithOptionsWithContext mk e0 tagC tC optsC = Ok ?c" "ServerWithOptions mk tagS tS optsS = Inr ?s"
    using assms(1-3) by (simp_all add: createClientWithOptionsWithContext_def ServerWithOptions_def createServerAssociation_def)
  obtain c1 s1 c2 s2 c3 s3 c4 s4 where run: "transfer e1 ?c ?s = (c1, s1)" "transfer e2 s1 c1 = (s2, c2)" "transfer e3 c2 s2 = (c3, s3)"
      "transfer e4 s3 c3 = (s4, c4)" and "completed ?x ?y c4" "completed ?y ?x s4"
    using handshake_rounds [OF client_started [OF assms(1) [unfolded buildClientConfig_def] assms(4,5,7), where e = e0 and t = tC]
        server_started [OF assms(2,4,6,8), where t = tS] assms(9,10), where ?e2.0 = e2 and ?e3.0 = e3 and ?e4.0 = e4] by blast
  then have end1: "endpointOf c4 = ?x" "knows ?y c4" "agreed ?y ?x c4" "a_state c4 = established" "a_handshakeResult c4 = Some None"
    and end2: "endpointOf s4 = ?y" "knows ?x s4" "agreed ?x ?y s4" "a_state s4 = established" "a_handshakeResult s4 = Some None"
    by (simp_all add: completed_def)
  show ?thesis
    by (intro exI conjI, rule start(1), rule start(2), rule run(1), rule run(2), rule run(3), rule run(4))
      (use end1 end2 in \<open>auto simp: awaitHandshake_def endpointOf_def endpointFrom_def knows_def agreed_def Metadata_def Let_def\<close>)
qed


definition exampleClient :: "assocOption option list" where
  "exampleClient = [Some (WithNetConn (Some 1)), Some (WithEnableZeroChecksum True)]"

definition exampleServer :: "assocOption option list" where
  "exampleServer = [Some (WithNetConn (Some 2)), None, Some (WithEnableInterleaving False), Some (WithMaxReceiveBufferSize 2000)]"

definition handshakeEnv :: "int \<Rightarrow> roundRobin env" where
  "handshakeEnv t = \<lparr>e_now = t, e_order16 = id, e_order32 = id, e_sched = roundRobinScheduler, e_cookie = Inr [1, 2, 3], e_pick = False\<rparr>"

theorem handshake_establishes_witness:
  "\<exists>c0 s0 c1 s1 c2 s2 c3 s3 c4 s4.
     createClientWithOptionsWithContext (\<lambda>_. Some newRoundRobin) (handshakeEnv 0) 7 100 exampleClient = Ok c0 \<and>
     ServerWithOptions (\<lambda>_. Some newRoundRobin) 9 4294967295 exampleServer = Inr s0 \<and>
     transfer (handshakeEnv 1) c0 s0 = (c1, s1) \<and> transfer (handshakeEnv 2) s1 c1 = (s2, c2) \<and>
     transfer (handshakeEnv 3) c2 s2 = (c3, s3) \<and> transfer (handshakeEnv 4) s3 c3 = (s4, c4) \<and>
     fst (awaitHandshake c4) = Ok () \<and> fst (awaitHandshake s4) = Ok () \<and> a_peerVerificationTag s4 = 7 \<and> a_rwnd c4 = 2000 \<and>
     Metadata s4 = Some \<lparr>MessageInterleavingEnabled = False, PartialReliabilityMode = PartialReliabilityModeForwardTSN,
        ZeroChecksumSendingEnabled = True, ZeroChecksumReceivingEnabled = False\<rparr>"
proof -
  define cfgC where "cfgC = applyDefaults ((applyDefaults zeroConfig)\<lparr>NetConn := Some 1, EnableZeroChecksum := True\<rparr>)"
  define cfgS where "cfgS = applyDefaults ((applyDefaults zeroConfig)\<lparr>NetConn := Some 2, enableInterleaving := False, enableInterleavingSet := True,
     MaxReceiveBufferSize := 2000\<rparr>)"
  have C: "buildClientConfig exampleClient = Inr cfgC"
    by (simp add: buildClientConfig_def buildServerConfig_def exampleClient_def WithNetConn_def WithEnableZeroChecksum_def cfgC_def Let_def applyDefaults_def)
  have S: "buildServerConfig exampleServer = Inr cfgS"
    by (simp add: buildServerConfig_def exampleServer_def WithNetConn_def WithEnableInterleaving_def WithMaxReceiveBufferSize_def cfgS_def Let_def applyDefaults_def)
  have f: "snapConfig cfgC = None" "MaxReceiveBufferSize cfgC = 1048576" "EnableZeroChecksum cfgC"
    "MaxReceiveBufferSize cfgS = 2000" "\<not> EnableZeroChecksum cfgS" "\<not> enableInterleaving cfgS"
    by (simp_all add: cfgC_def cfgS_def applyDefaults_def zeroConfig_def Let_def)
  show ?thesis
    using handshake_establishes [OF C S f(1), of "\<lambda>_. Some newRoundRobin" 7 9 "handshakeEnv 1" "[1, 2, 3]" "handshakeEnv 0" 100 4294967295
        "handshakeEnv 2" "handshakeEnv 3" "handshakeEnv 4"] f
    by (simp add: handshakeEnv_def Let_def) blast
qed

end
