(* ===== verification/Client.thy ===== *)
theory Client
  imports Messages "HOL-Library.Sublist"
begin

text \<open>
  The client's end of a protocol session (\<^verbatim>\<open>lib/src\<close>): messages (\<^verbatim>\<open>ws_message.dart\<close>), errors
  (\<^verbatim>\<open>exception.dart\<close>), the matching of replies to requests (\<^verbatim>\<open>bridge_connection.dart\<close>) and the two
  transports (\<^verbatim>\<open>websocket_connection.dart\<close>, \<^verbatim>\<open>ffi_connection.dart\<close>). A \<open>dynamic\<close> value is a
  \<open>gval\<close>; \<open>dbl\<close> is what \<open>toInt\<close> gives for a double, \<open>None\<close> where it throws. A frame that arrives is
  represented by what \<open>msgpack.deserialize\<close> returns for it, \<open>None\<close> where it throws; \<open>ser\<close> is
  \<open>msgpack.serialize\<close>.
\<close>

section \<open>Messages and errors\<close>

record WsMessage =
  wsType :: string
  wsId :: int
  wsHandle :: "string option"
  wsData :: gmap

definition toMap :: "WsMessage \<Rightarrow> gmap" where
  "toMap m = [(''type'', GString (wsType m)), (''id'', GInt (word_of_int (wsId m)))] @
     (case wsHandle m of None \<Rightarrow> [] | Some h \<Rightarrow> [(''handle'', GString h)]) @ [(''data'', GMap (wsData m))]"

fun numToInt :: "(gval \<Rightarrow> int option) \<Rightarrow> gval \<Rightarrow> int option" where
  "numToInt dbl (GInt n) = Some (sint n)"
| "numToInt dbl (GUint n) = Some (sint n)"
| "numToInt dbl (GFloat a b c) = dbl (GFloat a b c)"
| "numToInt dbl _ = None"

text \<open>Casts to a nullable type; \<open>None\<close> is a type error.\<close>

fun stringOrNull :: "gval \<Rightarrow> string option option" where
  "stringOrNull GNil = Some None"
| "stringOrNull (GString s) = Some (Some s)"
| "stringOrNull _ = None"

fun boolOrNull :: "gval \<Rightarrow> bool option option" where
  "boolOrNull GNil = Some None"
| "boolOrNull (GBool b) = Some (Some b)"
| "boolOrNull _ = None"

definition fromDecoded :: "(gval \<Rightarrow> int option) \<Rightarrow> gmap \<Rightarrow> WsMessage option" where
  "fromDecoded dbl decoded =
     (case (asString (get decoded ''type''), numToInt dbl (get decoded ''id''), stringOrNull (get decoded ''handle'')) of
        (Some t, Some i, Some h) \<Rightarrow>
          Some \<lparr>wsType = t, wsId = i, wsHandle = h, wsData = (case get decoded ''data'' of GMap m \<Rightarrow> m | _ \<Rightarrow> [])\<rparr>
      | _ \<Rightarrow> None)"

record PionException =
  exCode :: string
  exMessage :: string
  exFatal :: bool
  exHandle :: "string option"

definition orElse :: "'a option \<Rightarrow> 'a \<Rightarrow> 'a" where
  "orElse x d = (case x of None \<Rightarrow> d | Some y \<Rightarrow> y)"

definition fromWsMessage :: "WsMessage \<Rightarrow> PionException option" where
  "fromWsMessage msg =
     (let error = wsData msg
      in case (stringOrNull (get error ''code''), stringOrNull (get error ''message''),
               boolOrNull (get error ''fatal''), stringOrNull (get error ''handle'')) of
           (Some c, Some m, Some f, Some h) \<Rightarrow>
             Some \<lparr>exCode = orElse c ''UNKNOWN'', exMessage = orElse m ''Unknown error'', exFatal = orElse f False, exHandle = h\<rparr>
         | _ \<Rightarrow> None)"

section \<open>Requests and replies\<close>

text \<open>
  \<open>pendingRequests\<close> holds the keys of the map in the order of insertion; the completer of a request
  is named by its id. \<open>waiting\<close> are the requests whose future the caller has and which has not
  completed, \<open>settled\<close> the futures that have, in this order. A completer nobody waits for reports
  an error as unhandled.
\<close>

datatype settlement = Reply gmap | Failed PionException

record 't bridgeConnection =
  transport :: 't
  pendingRequests :: "int list"
  nextRequestId :: int
  waiting :: "int set"
  settled :: "(int \<times> settlement) list"
  unhandled :: "PionException list"

definition newConnection :: "'t \<Rightarrow> 't bridgeConnection" where
  "newConnection t = \<lparr>transport = t, pendingRequests = [], nextRequestId = 1, waiting = {}, settled = [], unhandled = []\<rparr>"

definition settle :: "int \<Rightarrow> settlement \<Rightarrow> 't bridgeConnection \<Rightarrow> 't bridgeConnection" where
  "settle i s c =
     (if i \<in> waiting c then c\<lparr>waiting := waiting c - {i}, settled := settled c @ [(i, s)]\<rparr>
      else case s of Failed ex \<Rightarrow> c\<lparr>unhandled := unhandled c @ [ex]\<rparr> | Reply _ \<Rightarrow> c)"

definition isReply :: "WsMessage \<Rightarrow> bool" where
  "isReply m \<longleftrightarrow> suffix '':ack'' (wsType m) \<or> wsType m = ''error''"

text \<open>The messages handed to \<open>onMessage\<close>, and the connection behind the frame.\<close>

definition handleFrame :: "(gval \<Rightarrow> int option) \<Rightarrow> gval option \<Rightarrow> 't bridgeConnection \<Rightarrow> WsMessage list \<times> 't bridgeConnection" where
  "handleFrame dbl frame c =
     (case frame of
        Some (GMap decoded) \<Rightarrow>
          (case fromDecoded dbl decoded of
             None \<Rightarrow> ([], c)
           | Some m \<Rightarrow>
               if \<not> isReply m then ([m], c)
               else if wsId m \<in> set (pendingRequests c)
               then (let c1 = c\<lparr>pendingRequests := remove1 (wsId m) (pendingRequests c)\<rparr>
                     in if wsType m = ''error''
                        then (case fromWsMessage m of None \<Rightarrow> ([], c1) | Some ex \<Rightarrow> ([], settle (wsId m) (Failed ex) c1))
                        else ([], settle (wsId m) (Reply (wsData m)) c1))
               else if wsId m = 0 then ([m], c)
               else ([], c))
      | _ \<Rightarrow> ([], c))"

definition connectionLost :: "string \<Rightarrow> PionException" where
  "connectionLost reason = \<lparr>exCode = ''CONNECTION_LOST'', exMessage = reason, exFatal = True, exHandle = None\<rparr>"

definition failPending :: "string \<Rightarrow> 't bridgeConnection \<Rightarrow> 't bridgeConnection" where
  "failPending reason c =
     fold (\<lambda>i. settle i (Failed (connectionLost reason))) (pendingRequests c) (c\<lparr>pendingRequests := []\<rparr>)"

text \<open>What a subclass provides; \<open>sendFrame\<close> may throw.\<close>

record 't transportOps =
  isConnected :: "'t \<Rightarrow> bool"
  sendFrame :: "bytes \<Rightarrow> 't \<Rightarrow> PionException option \<times> 't"
  transportName :: string

datatype dartError = Pion PionException | SerializeError

definition notConnected :: "'t transportOps \<Rightarrow> PionException" where
  "notConnected T = connectionLost (transportName T @ '' is not connected'')"

definition send :: "'t transportOps \<Rightarrow> (gmap \<Rightarrow> bytes option) \<Rightarrow> string \<Rightarrow> string option \<Rightarrow> gmap \<Rightarrow> 't bridgeConnection \<Rightarrow>
    dartError option \<times> 't bridgeConnection" where
  "send T ser type h data c =
     (if \<not> isConnected T (transport c) then (Some (Pion (notConnected T)), c)
      else case ser (toMap \<lparr>wsType = type, wsId = 0, wsHandle = h, wsData = data\<rparr>) of
             None \<Rightarrow> (Some SerializeError, c)
           | Some frame \<Rightarrow>
               (case sendFrame T frame (transport c) of
                  (Some ex, t) \<Rightarrow> (Some (Pion ex), c\<lparr>transport := t\<rparr>)
                | (None, t) \<Rightarrow> (None, c\<lparr>transport := t\<rparr>)))"

text \<open>The id of the request and its frame, or the error its future completes with at once.\<close>

definition request :: "'t transportOps \<Rightarrow> (gmap \<Rightarrow> bytes option) \<Rightarrow> string \<Rightarrow> string option \<Rightarrow> gmap \<Rightarrow> 't bridgeConnection \<Rightarrow>
    (dartError, int \<times> bytes) result \<times> 't bridgeConnection" where
  "request T ser type h data c =
     (if \<not> isConnected T (transport c) then (Inl (Pion (notConnected T)), c)
      else let i = nextRequestId c;
               c1 = c\<lparr>nextRequestId := i + 1, pendingRequests := pendingRequests c @ [i]\<rparr>
           in case ser (toMap \<lparr>wsType = type, wsId = i, wsHandle = h, wsData = data\<rparr>) of
                None \<Rightarrow> (Inl SerializeError, c1)
              | Some frame \<Rightarrow>
                  (case sendFrame T frame (transport c1) of
                     (Some ex, t) \<Rightarrow> (Inl (Pion ex), c1\<lparr>transport := t\<rparr>)
                   | (None, t) \<Rightarrow> (Inr (i, frame), c1\<lparr>transport := t, waiting := insert i (waiting c1)\<rparr>)))"

definition operationTimeout :: PionException where
  "operationTimeout = \<lparr>exCode = ''OPERATION_TIMEOUT'', exMessage = ''Request timed out'', exFatal = False, exHandle = None\<rparr>"

text \<open>The timer of a future that has completed is cancelled.\<close>

definition onTimeout :: "int \<Rightarrow> 't bridgeConnection \<Rightarrow> 't bridgeConnection" where
  "onTimeout i c =
     (if i \<in> waiting c
      then c\<lparr>pendingRequests := remove1 i (pendingRequests c), waiting := waiting c - {i}, settled := settled c @ [(i, Failed operationTimeout)]\<rparr>
      else c)"

section \<open>Transports\<close>

subsection \<open>WebSocket\<close>

record webSocket =
  ws_connected :: bool
  ws_disconnectHandled :: bool
  ws_sink :: "bytes list"

definition newWebSocket :: webSocket where
  "newWebSocket = \<lparr>ws_connected = False, ws_disconnectHandled = False, ws_sink = []\<rparr>"

definition webSocketOps :: "webSocket transportOps" where
  "webSocketOps = \<lparr>isConnected = ws_connected, sendFrame = (\<lambda>frame t. (None, t\<lparr>ws_sink := ws_sink t @ [frame]\<rparr>)), transportName = ''WebSocket''\<rparr>"

text \<open>\<open>connect\<close> behind the handshake.\<close>

definition ws_connect :: "webSocket bridgeConnection \<Rightarrow> webSocket bridgeConnection" where
  "ws_connect c = c\<lparr>transport := (transport c)\<lparr>ws_connected := True\<rparr>\<rparr>"

text \<open>The boolean tells whether \<open>onDisconnect\<close> is called.\<close>

definition handleDisconnect :: "string \<Rightarrow> webSocket bridgeConnection \<Rightarrow> bool \<times> webSocket bridgeConnection" where
  "handleDisconnect reason c =
     (if ws_disconnectHandled (transport c) then (False, c)
      else (True, failPending reason (c\<lparr>transport := (transport c)\<lparr>ws_disconnectHandled := True, ws_connected := False\<rparr>\<rparr>)))"

definition ws_close :: "webSocket bridgeConnection \<Rightarrow> webSocket bridgeConnection" where
  "ws_close c = failPending ''Connection closed'' (c\<lparr>transport := (transport c)\<lparr>ws_disconnectHandled := True, ws_connected := False\<rparr>\<rparr>)"

subsection \<open>Shared library\<close>

text \<open>\<open>lib_send\<close> is \<open>PionBridgeSend\<close>: its result and the library's state behind it.\<close>

record 'l ffi =
  ffi_open :: bool
  ffi_session :: int
  ffi_sendCap :: nat
  ffi_lib :: 'l

definition ffi_open_session :: "('l \<Rightarrow> int \<times> 'l) \<Rightarrow> 'l \<Rightarrow> 'l ffi bridgeConnection" where
  "ffi_open_session lib_open l = (case lib_open l of (session, l1) \<Rightarrow>
     newConnection \<lparr>ffi_open = True, ffi_session = session, ffi_sendCap = 0, ffi_lib = l1\<rparr>)"

definition growSendBuf :: "nat \<Rightarrow> nat \<Rightarrow> nat" where
  "growSendBuf len cap = (if len > cap then (if len < 4096 then 4096 else len * 2) else cap)"

definition ffiOps :: "(int \<Rightarrow> bytes \<Rightarrow> 'l \<Rightarrow> int \<times> 'l) \<Rightarrow> (int \<Rightarrow> string) \<Rightarrow> 'l ffi transportOps" where
  "ffiOps lib_send shown =
     \<lparr>isConnected = ffi_open,
      sendFrame = (\<lambda>frame t. case lib_send (ffi_session t) frame (ffi_lib t) of (rc, l) \<Rightarrow>
        (if rc \<noteq> 0 then Some (connectionLost (''shared session '' @ shown (ffi_session t) @ '' closed'')) else None,
         t\<lparr>ffi_sendCap := growSendBuf (length frame) (ffi_sendCap t), ffi_lib := l\<rparr>)),
      transportName = ''Shared library session''\<rparr>"

definition onFrame :: "(gval \<Rightarrow> int option) \<Rightarrow> gval option \<Rightarrow> 'l ffi bridgeConnection \<Rightarrow> WsMessage list \<times> 'l ffi bridgeConnection" where
  "onFrame dbl frame c = (if \<not> ffi_open (transport c) then ([], c) else handleFrame dbl frame c)"

definition ffi_close :: "(int \<Rightarrow> 'l \<Rightarrow> 'l) \<Rightarrow> 'l ffi bridgeConnection \<Rightarrow> 'l ffi bridgeConnection" where
  "ffi_close lib_close c =
     (if \<not> ffi_open (transport c) then c
      else let c1 = failPending ''Connection closed'' (c\<lparr>transport := (transport c)\<lparr>ffi_open := False\<rparr>\<rparr>); t = transport c1
           in c1\<lparr>transport := t\<lparr>ffi_lib := lib_close (ffi_session t) (ffi_lib t), ffi_sendCap := 0\<rparr>\<rparr>)"


section \<open>Every future completes at most once\<close>

definition conn_inv :: "'t bridgeConnection \<Rightarrow> bool" where
  "conn_inv c \<longleftrightarrow> 0 < nextRequestId c \<and> distinct (pendingRequests c) \<and> distinct (map fst (settled c)) \<and>
     fst ` set (settled c) \<inter> (waiting c \<union> set (pendingRequests c)) = {} \<and>
     (\<forall>i \<in> fst ` set (settled c) \<union> waiting c \<union> set (pendingRequests c). i < nextRequestId c)"

lemma conn_inv_transport [simp]: "conn_inv (c\<lparr>transport := t\<rparr>) = conn_inv c"
  by (simp add: conn_inv_def)

lemma settle_simps [simp]:
  "pendingRequests (settle i s c) = pendingRequests c" "nextRequestId (settle i s c) = nextRequestId c"
  "transport (settle i s c) = transport c" "waiting (settle i s c) = waiting c - {i}"
  "settled (settle i s c) = settled c @ (if i \<in> waiting c then [(i, s)] else [])"
  by (auto simp: settle_def split: settlement.splits)

text \<open>Settling a request that is no longer pending.\<close>

lemma conn_inv_settle:
  assumes "conn_inv c" "i \<notin> set (pendingRequests c)" "i \<notin> fst ` set (settled c)" "i < nextRequestId c"
  shows "conn_inv (settle i s c)"
  using assms by (auto simp: conn_inv_def)

lemma conn_inv_remove: "conn_inv c \<Longrightarrow> conn_inv (c\<lparr>pendingRequests := remove1 i (pendingRequests c)\<rparr>)"
  by (auto simp: conn_inv_def dest: notin_set_remove1)

lemma conn_inv_pending:
  "conn_inv c \<Longrightarrow> i \<in> set (pendingRequests c) \<Longrightarrow> i \<notin> fst ` set (settled c) \<and> i < nextRequestId c"
  by (auto simp: conn_inv_def)

lemma conn_inv_settle_pending:
  assumes "conn_inv c" "i \<in> set (pendingRequests c)"
  shows "conn_inv (settle i s (c\<lparr>pendingRequests := remove1 i (pendingRequests c)\<rparr>))"
proof (rule conn_inv_settle [OF conn_inv_remove [OF assms(1)]])
  show "i \<notin> set (pendingRequests (c\<lparr>pendingRequests := remove1 i (pendingRequests c)\<rparr>))"
    using assms by (simp add: conn_inv_def set_remove1_eq)
qed (use conn_inv_pending [OF assms] in simp_all)

lemma conn_inv_handleFrame: "conn_inv c \<Longrightarrow> conn_inv (snd (handleFrame dbl frame c))"
  by (auto simp: handleFrame_def Let_def intro: conn_inv_settle_pending conn_inv_remove split: option.splits gval.splits)

lemma conn_inv_new:
  assumes "conn_inv c" "w \<subseteq> insert (nextRequestId c) (waiting c)"
  shows "conn_inv (c\<lparr>nextRequestId := nextRequestId c + 1, pendingRequests := pendingRequests c @ [nextRequestId c], transport := t, waiting := w\<rparr>)"
proof -
  define S where "S = fst ` set (settled c)"
  have "i < nextRequestId c" "i \<le> nextRequestId c" if "i \<in> S \<or> i \<in> waiting c \<or> i \<in> set (pendingRequests c)" for i
    using assms(1) that by (auto simp: conn_inv_def S_def intro: less_imp_le)
  moreover have "S \<inter> (waiting c \<union> set (pendingRequests c)) = {}"
    "distinct (pendingRequests c)" "distinct (map fst (settled c))" "0 < nextRequestId c"
    using assms(1) by (simp_all add: conn_inv_def S_def)
  ultimately show ?thesis using assms(2) by (auto simp: conn_inv_def S_def [symmetric])
qed

lemma conn_inv_request: "conn_inv c \<Longrightarrow> conn_inv (snd (request T ser type h data c))"
  using conn_inv_new [of c "waiting c" "transport c"] conn_inv_new [of c "waiting c"] conn_inv_new [of c "insert (nextRequestId c) (waiting c)"]
  by (auto simp: request_def Let_def split: option.splits prod.splits)

lemma conn_inv_onTimeout: "conn_inv c \<Longrightarrow> conn_inv (onTimeout i c)"
  by (auto simp: onTimeout_def conn_inv_def set_remove1_eq)

lemma fold_settle:
  assumes "distinct is"
  shows "settled (fold (\<lambda>i. settle i s) is c) = settled c @ map (\<lambda>i. (i, s)) (filter (\<lambda>i. i \<in> waiting c) is)"
    "waiting (fold (\<lambda>i. settle i s) is c) = waiting c - set is" "pendingRequests (fold (\<lambda>i. settle i s) is c) = pendingRequests c"
    "nextRequestId (fold (\<lambda>i. settle i s) is c) = nextRequestId c" "transport (fold (\<lambda>i. settle i s) is c) = transport c"
  using assms
proof (induction "is" arbitrary: c)
  case (Cons i "is")
  { case 1 then have "filter (\<lambda>j. j \<in> waiting c - {i}) is = filter (\<lambda>j. j \<in> waiting c) is" by (intro filter_cong) auto
    with Cons.IH(1) [of "settle i s c"] 1 show ?case by simp }
qed auto

lemma failPending_simps:
  assumes "distinct (pendingRequests c)"
  shows "settled (failPending r c) = settled c @ map (\<lambda>i. (i, Failed (connectionLost r))) (filter (\<lambda>i. i \<in> waiting c) (pendingRequests c))"
    "waiting (failPending r c) = waiting c - set (pendingRequests c)" "pendingRequests (failPending r c) = []"
    "nextRequestId (failPending r c) = nextRequestId c" "transport (failPending r c) = transport c"
  by (simp_all add: failPending_def fold_settle [OF assms])

lemma conn_inv_failPending:
  assumes "conn_inv c"
  shows "conn_inv (failPending r c)"
proof -
  have "distinct (pendingRequests c)" using assms by (simp add: conn_inv_def)
  note f = failPending_simps [OF this, of r]
  show ?thesis using assms unfolding conn_inv_def f by (auto simp: distinct_map inj_on_def o_def)
qed

text \<open>Everything that can happen to a connection, in any order; the transport changes as it likes.\<close>

inductive conn_reach :: "'t transportOps \<Rightarrow> (gmap \<Rightarrow> bytes option) \<Rightarrow> (gval \<Rightarrow> int option) \<Rightarrow> 't bridgeConnection \<Rightarrow> bool"
  for T ser dbl where
  start: "conn_reach T ser dbl (newConnection t)"
| requests: "conn_reach T ser dbl c \<Longrightarrow> conn_reach T ser dbl (snd (request T ser type h data c))"
| sends: "conn_reach T ser dbl c \<Longrightarrow> conn_reach T ser dbl (snd (send T ser type h data c))"
| frames: "conn_reach T ser dbl c \<Longrightarrow> conn_reach T ser dbl (snd (handleFrame dbl frame c))"
| timers: "conn_reach T ser dbl c \<Longrightarrow> conn_reach T ser dbl (onTimeout i c)"
| drops: "conn_reach T ser dbl c \<Longrightarrow> conn_reach T ser dbl (failPending reason c)"
| transports: "conn_reach T ser dbl c \<Longrightarrow> conn_reach T ser dbl (c\<lparr>transport := t\<rparr>)"

lemma conn_reach_inv: "conn_reach T ser dbl c \<Longrightarrow> conn_inv c"
proof (induction rule: conn_reach.induct)
  case (sends c type h data)
  then show ?case by (auto simp: send_def split: option.splits prod.splits)
qed (simp_all add: conn_inv_request conn_inv_handleFrame conn_inv_onTimeout conn_inv_failPending, simp add: newConnection_def conn_inv_def)

section \<open>Closing a transport\<close>

text \<open>What \<open>BridgeConnection\<close> expects of a subclass.\<close>

locale bridge_transport =
  fixes T :: "'t transportOps" and closeC :: "'t bridgeConnection \<Rightarrow> 't bridgeConnection"
  assumes disconnects: "\<not> isConnected T (transport (closeC c))"
    and settles: "isConnected T (transport c) \<Longrightarrow> \<exists>t t'. closeC c = (failPending ''Connection closed'' (c\<lparr>transport := t\<rparr>))\<lparr>transport := t'\<rparr>"
    and keeps: "isConnected T t \<Longrightarrow> isConnected T (snd (sendFrame T frame t))"
begin

lemma close_refuses: "request T ser type h data (closeC c) = (Inl (Pion (notConnected T)), closeC c)"
  using disconnects by (simp add: request_def)

lemma close_settles:
  assumes "conn_inv c" "isConnected T (transport c)"
  shows "settled (closeC c) = settled c @ map (\<lambda>i. (i, Failed (connectionLost ''Connection closed''))) (filter (\<lambda>i. i \<in> waiting c) (pendingRequests c))"
    "pendingRequests (closeC c) = []"
proof -
  obtain t t' where "closeC c = (failPending ''Connection closed'' (c\<lparr>transport := t\<rparr>))\<lparr>transport := t'\<rparr>" using settles [OF assms(2)] by blast
  moreover have "distinct (pendingRequests (c\<lparr>transport := t\<rparr>))" using assms(1) by (simp add: conn_inv_def)
  ultimately show "settled (closeC c) = settled c @ map (\<lambda>i. (i, Failed (connectionLost ''Connection closed''))) (filter (\<lambda>i. i \<in> waiting c) (pendingRequests c))"
    "pendingRequests (closeC c) = []" by (simp_all add: failPending_simps)
qed

lemma request_keeps: "isConnected T (transport c) \<Longrightarrow> isConnected T (transport (snd (request T ser type h data c)))"
  using keeps [of "transport c"] by (auto simp: request_def Let_def split: option.splits prod.splits) (metis snd_conv)+

end

lemma failPending_transport: "failPending r (c\<lparr>transport := t\<rparr>) = (failPending r c)\<lparr>transport := t\<rparr>"
proof -
  have s: "settle i s (c\<lparr>transport := t\<rparr>) = (settle i s c)\<lparr>transport := t\<rparr>" for i s and c :: "'a bridgeConnection"
    by (simp add: settle_def split: settlement.splits)
  have f: "fold (\<lambda>i. settle i s) is (c\<lparr>transport := t\<rparr>) = (fold (\<lambda>i. settle i s) is c)\<lparr>transport := t\<rparr>" for "is" s and c :: "'a bridgeConnection"
    by (induction "is" arbitrary: c) (simp_all add: s)
  have eq: "c\<lparr>transport := t, pendingRequests := []\<rparr> = c\<lparr>pendingRequests := [], transport := t\<rparr>" by simp
  show ?thesis unfolding failPending_def eq f by simp
qed

interpretation webSocket: bridge_transport webSocketOps ws_close
  by unfold_locales (auto simp: webSocketOps_def ws_close_def failPending_transport)

interpretation sharedLibrary: bridge_transport "ffiOps lib_send shown" "ffi_close lib_close" for lib_send shown lib_close
  by unfold_locales (auto simp: ffiOps_def ffi_close_def Let_def failPending_transport split: prod.splits)


section \<open>Properties\<close>

text \<open>What the future of a request completes with when the reply \<open>m\<close> arrives.\<close>

definition replyOf :: "WsMessage \<Rightarrow> settlement option" where
  "replyOf m = (if wsType m = ''error'' then map_option Failed (fromWsMessage m) else Some (Reply (wsData m)))"

lemma handleFrame_reply:
  assumes "fromDecoded dbl d = Some m" "isReply m" "replyOf m = Some s" "wsId m \<in> set (pendingRequests c)"
  shows "handleFrame dbl (Some (GMap d)) c = ([], settle (wsId m) s (c\<lparr>pendingRequests := remove1 (wsId m) (pendingRequests c)\<rparr>))"
  using assms by (auto simp: handleFrame_def replyOf_def Let_def split: if_splits)

lemma handleFrame_event:
  "fromDecoded dbl d = Some m \<Longrightarrow> \<not> isReply m \<Longrightarrow> handleFrame dbl (Some (GMap d)) c = ([m], c)"
  by (simp add: handleFrame_def)

text \<open>
  C14: However requests, frames, timers and drops of the connection follow each other, a new request
  has an id that was never used, no future completes twice, and a reply completes exactly the request
  with its id: an acknowledgement with its data, an error with its exception. A drop fails exactly
  the pending requests, in the order they were made, and every future that has not completed can
  still be completed by its timer.
\<close>

theorem replies_settle_their_requests:
  assumes "conn_reach T ser dbl c"
  shows "distinct (map fst (settled c)) \<and> fst ` set (settled c) \<inter> waiting c = {} \<and>
    (\<forall>type h data i frame. fst (request T ser type h data c) = Inr (i, frame) \<longrightarrow>
       i \<notin> fst ` set (settled c) \<union> waiting c \<union> set (pendingRequests c)) \<and>
    (\<forall>d m s. fromDecoded dbl d = Some m \<and> isReply m \<and> replyOf m = Some s \<and> wsId m \<in> waiting c \<inter> set (pendingRequests c) \<longrightarrow>
       handleFrame dbl (Some (GMap d)) c = ([], c\<lparr>pendingRequests := remove1 (wsId m) (pendingRequests c),
         waiting := waiting c - {wsId m}, settled := settled c @ [(wsId m, s)]\<rparr>)) \<and>
    (\<forall>r. settled (failPending r c) = settled c @ map (\<lambda>i. (i, Failed (connectionLost r))) (filter (\<lambda>i. i \<in> waiting c) (pendingRequests c)) \<and>
       pendingRequests (failPending r c) = []) \<and>
    (\<forall>i \<in> waiting c. settled (onTimeout i c) = settled c @ [(i, Failed operationTimeout)])"
proof -
  have inv: "conn_inv c" using assms by (rule conn_reach_inv)
  then have d: "distinct (pendingRequests c)" by (simp add: conn_inv_def)
  have new: "\<forall>type h data i frame. fst (request T ser type h data c) = Inr (i, frame) \<longrightarrow>
      i \<notin> fst ` set (settled c) \<union> waiting c \<union> set (pendingRequests c)"
  proof (intro allI impI)
    fix type h data i frame
    assume "fst (request T ser type h data c) = Inr (i, frame)"
    then have "i = nextRequestId c" by (auto simp: request_def Let_def split: if_splits option.splits prod.splits)
    then show "i \<notin> fst ` set (settled c) \<union> waiting c \<union> set (pendingRequests c)" using inv by (force simp: conn_inv_def)
  qed
  have answer: "\<forall>d m s. fromDecoded dbl d = Some m \<and> isReply m \<and> replyOf m = Some s \<and> wsId m \<in> waiting c \<inter> set (pendingRequests c) \<longrightarrow>
      handleFrame dbl (Some (GMap d)) c = ([], c\<lparr>pendingRequests := remove1 (wsId m) (pendingRequests c),
        waiting := waiting c - {wsId m}, settled := settled c @ [(wsId m, s)]\<rparr>)"
    using handleFrame_reply [of dbl _ _ _ c] by (simp add: settle_def)
  have once: "distinct (map fst (settled c))" "fst ` set (settled c) \<inter> waiting c = {}" using inv by (auto simp: conn_inv_def)
  have lost: "\<forall>r. settled (failPending r c) = settled c @ map (\<lambda>i. (i, Failed (connectionLost r))) (filter (\<lambda>i. i \<in> waiting c) (pendingRequests c)) \<and>
      pendingRequests (failPending r c) = []"
    using failPending_simps(1,3) [OF d] by simp
  have late: "\<forall>i \<in> waiting c. settled (onTimeout i c) = settled c @ [(i, Failed operationTimeout)]" by (simp add: onTimeout_def)
  show ?thesis by (intro conjI once new answer lost late)
qed

text \<open>
  C40: Closing a connection, over a WebSocket or over the shared library, fails every request that is
  still pending with \<open>CONNECTION_LOST\<close>, in the order they were made, and every later request is
  refused without being registered or sent.
\<close>

theorem close_fails_requests:
  assumes "conn_reach webSocketOps ser dbl c" "ws_connected (transport c)"
    and "conn_reach (ffiOps lib_send shown) ser dbl d" "ffi_open (transport d)"
  shows "settled (ws_close c) = settled c @ map (\<lambda>i. (i, Failed (connectionLost ''Connection closed''))) (filter (\<lambda>i. i \<in> waiting c) (pendingRequests c)) \<and>
    pendingRequests (ws_close c) = [] \<and>
    request webSocketOps ser type h data (ws_close c) = (Inl (Pion (connectionLost ''WebSocket is not connected'')), ws_close c) \<and>
    settled (ffi_close lib_close d) = settled d @ map (\<lambda>i. (i, Failed (connectionLost ''Connection closed''))) (filter (\<lambda>i. i \<in> waiting d) (pendingRequests d)) \<and>
    pendingRequests (ffi_close lib_close d) = [] \<and>
    request (ffiOps lib_send shown) ser type h data (ffi_close lib_close d) =
      (Inl (Pion (connectionLost ''Shared library session is not connected'')), ffi_close lib_close d)"
proof -
  have c: "conn_inv c" "isConnected webSocketOps (transport c)" using assms(1,2) by (auto simp: webSocketOps_def intro: conn_reach_inv)
  have d: "conn_inv d" "isConnected (ffiOps lib_send shown) (transport d)" using assms(3,4) by (auto simp: ffiOps_def intro: conn_reach_inv)
  have n: "notConnected webSocketOps = connectionLost ''WebSocket is not connected''"
    "notConnected (ffiOps lib_send shown) = connectionLost ''Shared library session is not connected''"
    by (simp_all add: notConnected_def webSocketOps_def ffiOps_def)
  show ?thesis
    by (intro conjI webSocket.close_settles [OF c] webSocket.close_refuses [of ser type h data c, unfolded n]
        sharedLibrary.close_settles [OF d] sharedLibrary.close_refuses [of lib_send shown ser type h data lib_close d, unfolded n])
qed


section \<open>Witnesses\<close>

definition exampleSocket :: "webSocket bridgeConnection" where
  "exampleSocket = ws_connect (newConnection newWebSocket)"

definition exampleCall :: "webSocket bridgeConnection" where
  "exampleCall = snd (request webSocketOps (\<lambda>_. Some [1]) ''init'' None [] exampleSocket)"

definition exampleSession :: "nat ffi bridgeConnection" where
  "exampleSession = snd (request (ffiOps (\<lambda>_ _ l. (0, l + 1)) (\<lambda>_. ''1'')) (\<lambda>_. Some [1]) ''init'' None [] (ffi_open_session (\<lambda>l. (1, l)) 0))"

lemma example_reach:
  "conn_reach webSocketOps ser dbl exampleSocket" "conn_reach webSocketOps (\<lambda>_. Some [1]) dbl exampleCall"
  "conn_reach (ffiOps (\<lambda>_ _ l. (0, l + 1)) (\<lambda>_. ''1'')) (\<lambda>_. Some [1]) dbl exampleSession"
proof -
  show s: "conn_reach webSocketOps ser dbl exampleSocket" for ser
    unfolding exampleSocket_def ws_connect_def by (rule conn_reach.transports [OF conn_reach.start])
  show "conn_reach webSocketOps (\<lambda>_. Some [1]) dbl exampleCall" unfolding exampleCall_def by (rule conn_reach.requests [OF s])
  show "conn_reach (ffiOps (\<lambda>_ _ l. (0, l + 1)) (\<lambda>_. ''1'')) (\<lambda>_. Some [1]) dbl exampleSession"
    unfolding exampleSession_def ffi_open_session_def by (simp, rule conn_reach.requests [OF conn_reach.start])
qed

lemma exampleCall_simps:
  "pendingRequests exampleCall = [1]" "waiting exampleCall = {1}" "settled exampleCall = []" "ws_connected (transport exampleCall)"
  "pendingRequests exampleSession = [1]" "waiting exampleSession = {1}" "settled exampleSession = []" "ffi_open (transport exampleSession)"
  "ws_connected (transport exampleSocket)" "nextRequestId exampleSocket = 1" "settled exampleSocket = []"
  by (simp_all add: exampleCall_def exampleSocket_def exampleSession_def request_def ws_connect_def newConnection_def newWebSocket_def
      webSocketOps_def ffiOps_def ffi_open_session_def Let_def)

theorem replies_settle_their_requests_witness:
  "settled (snd (handleFrame (\<lambda>_. None) (Some (GMap (toMap \<lparr>wsType = ''init:ack'', wsId = 1, wsHandle = None, wsData = []\<rparr>))) exampleCall)) =
     [(1, Reply [])] \<and> pendingRequests (failPending ''gone'' exampleCall) = []"
proof -
  let ?m = "\<lparr>wsType = ''init:ack'', wsId = 1, wsHandle = None, wsData = []\<rparr>"
  have "fromDecoded (\<lambda>_. None) (toMap ?m) = Some ?m" "isReply ?m" "replyOf ?m = Some (Reply [])"
    by (simp_all add: fromDecoded_def toMap_def get_def isReply_def replyOf_def suffix_def)
  moreover have "wsId ?m \<in> waiting exampleCall \<inter> set (pendingRequests exampleCall)" by (simp add: exampleCall_simps)
  moreover note t = replies_settle_their_requests [OF example_reach(2) [of "\<lambda>_. None"], THEN conjunct2, THEN conjunct2, THEN conjunct2]
  ultimately show ?thesis
    using t [THEN conjunct1, rule_format, of "toMap ?m" ?m "Reply []"] t [THEN conjunct2, THEN conjunct1, rule_format, of "''gone''"]
    by (simp add: exampleCall_simps(3))
qed

theorem close_fails_requests_witness:
  "settled (ws_close exampleCall) = [(1, Failed (connectionLost ''Connection closed''))] \<and>
   settled (ffi_close (\<lambda>_ l. l) exampleSession) = [(1, Failed (connectionLost ''Connection closed''))]"
  using close_fails_requests [OF example_reach(2) [of "\<lambda>_. None"] exampleCall_simps(4) example_reach(3) exampleCall_simps(8)]
  by (simp add: exampleCall_simps)

end
