(* ===== verification/EndToEnd.thy ===== *)
theory EndToEnd
  imports Server Client
begin

text \<open>
  A client and the server together: the requests of a WebSocket connection are read by the connection
  loop of the server, and its replies, mixed with events, are read by the client. The codecs are the
  parameters \<open>ser\<close> and \<open>decode\<close>; the fields on the wire are those of the tags in \<^verbatim>\<open>types.go\<close>.
\<close>

section \<open>The wire\<close>

definition messageOf :: "WsMessage \<Rightarrow> Message" where
  "messageOf w = \<lparr>mType = wsType w, mID = wsId w, mHandle = orElse (wsHandle w) [], mData = wsData w\<rparr>"

definition wireOf :: "Message \<Rightarrow> gmap" where
  "wireOf m = [(''type'', GString (mType m)), (''id'', GInt (word_of_int (mID m)))] @
     (if mHandle m = [] then [] else [(''handle'', GString (mHandle m))]) @ [(''data'', GMap (mData m))]"

lemma fromDecoded_wireOf:
  assumes "- (2 ^ 63) \<le> mID m" "mID m < 2 ^ 63"
  shows "fromDecoded dbl (wireOf m) =
    Some \<lparr>wsType = mType m, wsId = mID m, wsHandle = (if mHandle m = [] then None else Some (mHandle m)), wsData = mData m\<rparr>"
proof -
  have "sint (word_of_int (mID m) :: u64) = mID m" using assms by (simp add: signed_of_int signed_take_bit_int_eq_self)
  then show ?thesis by (simp add: fromDecoded_def wireOf_def get_def)
qed

section \<open>The client's side\<close>

text \<open>Requests made one after another, before a reply is read.\<close>

fun requestAll :: "'t transportOps \<Rightarrow> (gmap \<Rightarrow> bytes option) \<Rightarrow> (string \<times> string option \<times> gmap) list \<Rightarrow> 't bridgeConnection \<Rightarrow>
    ((int \<times> bytes) list \<times> 't bridgeConnection) option" where
  "requestAll T ser [] c = Some ([], c)"
| "requestAll T ser ((type, h, data) # rs) c =
     (case request T ser type h data c of
        (Inl _, _) \<Rightarrow> None
      | (Inr x, c1) \<Rightarrow> map_option (\<lambda>(xs, c2). (x # xs, c2)) (requestAll T ser rs c1))"

fun receiveAll :: "(gval \<Rightarrow> int option) \<Rightarrow> Message list \<Rightarrow> 't bridgeConnection \<Rightarrow> WsMessage list \<times> 't bridgeConnection" where
  "receiveAll dbl [] c = ([], c)"
| "receiveAll dbl (m # ms) c =
     (case handleFrame dbl (Some (GMap (wireOf m))) c of (evs, c1) \<Rightarrow>
        case receiveAll dbl ms c1 of (evs', c2) \<Rightarrow> (evs @ evs', c2))"

fun numbered :: "int \<Rightarrow> (string \<times> string option \<times> gmap) list \<Rightarrow> WsMessage list" where
  "numbered n [] = []"
| "numbered n ((type, h, data) # rs) = \<lparr>wsType = type, wsId = n, wsHandle = h, wsData = data\<rparr> # numbered (n + 1) rs"

lemma length_numbered [simp]: "length (numbered n rs) = length rs"
  by (induction n rs rule: numbered.induct) simp_all

lemma numbered_ids: "map wsId (numbered n rs) = [n..n + int (length rs) - 1]"
  by (induction n rs rule: numbered.induct) (simp_all add: upto_rec1)

text \<open>A WebSocket takes every frame, so the requests are registered under consecutive ids.\<close>

lemma requestAll_webSocket:
  assumes "ws_connected (transport c)" "list_all2 (\<lambda>w f. ser (toMap w) = Some f) (numbered (nextRequestId c) rs) frames"
  shows "\<exists>c1. requestAll webSocketOps ser rs c = Some (zip (map wsId (numbered (nextRequestId c) rs)) frames, c1) \<and>
    pendingRequests c1 = pendingRequests c @ map wsId (numbered (nextRequestId c) rs) \<and>
    waiting c1 = waiting c \<union> set (map wsId (numbered (nextRequestId c) rs)) \<and> settled c1 = settled c \<and> unhandled c1 = unhandled c \<and>
    nextRequestId c1 = nextRequestId c + int (length rs)"
  using assms
proof (induction rs arbitrary: c frames)
  case (Cons r rs)
  obtain type h data where r: "r = (type, h, data)" by (cases r)
  let ?w = "\<lparr>wsType = type, wsId = nextRequestId c, wsHandle = h, wsData = data\<rparr>"
  from Cons.prems(2) obtain f fs where f: "frames = f # fs" "ser (toMap ?w) = Some f"
      "list_all2 (\<lambda>w f. ser (toMap w) = Some f) (numbered (nextRequestId c + 1) rs) fs"
    by (auto simp: r list_all2_Cons1)
  let ?c1 = "c\<lparr>nextRequestId := nextRequestId c + 1, pendingRequests := pendingRequests c @ [nextRequestId c],
    transport := (transport c)\<lparr>ws_sink := ws_sink (transport c) @ [f]\<rparr>, waiting := insert (nextRequestId c) (waiting c)\<rparr>"
  have "request webSocketOps ser type h data c = (Inr (nextRequestId c, f), ?c1)"
    using Cons.prems(1) f(2) by (simp add: request_def webSocketOps_def Let_def)
  moreover from Cons.IH [of ?c1 fs] Cons.prems(1) f(3) obtain c2 where
    "requestAll webSocketOps ser rs ?c1 = Some (zip (map wsId (numbered (nextRequestId c + 1) rs)) fs, c2)"
    "pendingRequests c2 = pendingRequests ?c1 @ map wsId (numbered (nextRequestId c + 1) rs)"
    "waiting c2 = waiting ?c1 \<union> set (map wsId (numbered (nextRequestId c + 1) rs))" "settled c2 = settled c" "unhandled c2 = unhandled c"
    "nextRequestId c2 = nextRequestId c + 1 + int (length rs)"
    by auto
  ultimately show ?case using f(1) by (auto simp: r)
qed simp

section \<open>Replies and events\<close>

definition isEvent :: "Message \<Rightarrow> bool" where
  "isEvent m \<longleftrightarrow> mID m = 0 \<and> \<not> suffix '':ack'' (mType m) \<and> mType m \<noteq> ''error''"

definition settlementOf :: "Message \<Rightarrow> settlement" where
  "settlementOf m =
     (if mType m = ''error''
      then Failed \<lparr>exCode = stringOrEmpty (get (mData m) ''code''), exMessage = stringOrEmpty (get (mData m) ''message''),
                   exFatal = (get (mData m) ''fatal'' = GBool True), exHandle = asString (get (mData m) ''handle'')\<rparr>
      else Reply (mData m))"

definition received :: "Message \<Rightarrow> WsMessage" where
  "received m = \<lparr>wsType = mType m, wsId = mID m, wsHandle = (if mHandle m = [] then None else Some (mHandle m)), wsData = mData m\<rparr>"

lemma reply_received:
  assumes "reply_ok q m"
  shows "isReply (received m)" "replyOf (received m) = Some (settlementOf m)" "mID m = mID q"
    "mType m = mType q @ '':ack'' \<or> mType m = ''error''"
  using assms by (auto simp: reply_ok_def received_def isReply_def replyOf_def settlementOf_def fromWsMessage_def ErrorResponse_def AckResponse_def
      get_def orElse_def stringOrEmpty_def append_eq_Cons_conv suffix_def)

lemma receive_reply:
  assumes "reply_ok q m" "mID q \<in> waiting c" "mID q \<in> set (pendingRequests c)" "0 \<le> mID q" "mID q < 2 ^ 63"
  shows "handleFrame dbl (Some (GMap (wireOf m))) c = ([], c\<lparr>pendingRequests := remove1 (mID q) (pendingRequests c),
    waiting := waiting c - {mID q}, settled := settled c @ [(mID q, settlementOf m)]\<rparr>)"
proof -
  have "fromDecoded dbl (wireOf m) = Some (received m)"
    using assms(4,5) reply_received(3) [OF assms(1)] by (simp add: fromDecoded_wireOf received_def)
  from handleFrame_reply [OF this reply_received(1,2) [OF assms(1)], of c] show ?thesis
    using assms(2,3) reply_received(3) [OF assms(1)] by (simp add: settle_def received_def)
qed

lemma receive_event: "isEvent m \<Longrightarrow> handleFrame dbl (Some (GMap (wireOf m))) c = ([received m], c)"
  using fromDecoded_wireOf [of m dbl] handleFrame_event [of dbl "wireOf m" "received m" c]
  by (simp add: isEvent_def received_def isReply_def)

text \<open>Replies in order settle the requests in order, whatever events come between them.\<close>

lemma receiveAll_settles:
  assumes "list_all2 reply_ok qs replies" "filter (\<lambda>m. \<not> isEvent m) ins = replies" "distinct (map mID qs)"
    and "set (map mID qs) \<subseteq> waiting c \<inter> set (pendingRequests c)" "\<forall>q \<in> set qs. 0 < mID q \<and> mID q < 2 ^ 63" "distinct (pendingRequests c)"
  shows "\<exists>c2. receiveAll dbl ins c = (map received (filter isEvent ins), c2) \<and>
    settled c2 = settled c @ zip (map mID qs) (map settlementOf replies) \<and> waiting c2 = waiting c - set (map mID qs) \<and>
    set (pendingRequests c2) = set (pendingRequests c) - set (map mID qs) \<and> unhandled c2 = unhandled c"
  using assms
proof (induction ins arbitrary: qs replies c)
  case (Cons m ins)
  show ?case
  proof (cases "isEvent m")
    case True
    with Cons.IH [OF Cons.prems(1) _ Cons.prems(3-6)] Cons.prems(2) receive_event [OF True, of dbl c] show ?thesis by fastforce
  next
    case False
    then obtain q qs' rs where split: "qs = q # qs'" "replies = m # rs" "filter (\<lambda>m. \<not> isEvent m) ins = rs" "reply_ok q m" "list_all2 reply_ok qs' rs"
      using Cons.prems(1,2) by (auto simp: list_all2_Cons2)
    let ?c1 = "c\<lparr>pendingRequests := remove1 (mID q) (pendingRequests c), waiting := waiting c - {mID q}, settled := settled c @ [(mID q, settlementOf m)]\<rparr>"
    have "handleFrame dbl (Some (GMap (wireOf m))) c = ([], ?c1)"
      using Cons.prems(4,5) split(1) by (intro receive_reply [OF split(4)]) auto
    moreover have "set (map mID qs') \<subseteq> waiting ?c1 \<inter> set (pendingRequests ?c1)"
      using Cons.prems(3,4,6) split(1) by (auto simp: set_remove1_eq) (metis image_eqI)+
    with Cons.IH [OF split(5,3), of ?c1] Cons.prems(3,5,6) split(1) obtain c2 where
      "receiveAll dbl ins ?c1 = (map received (filter isEvent ins), c2)" "settled c2 = settled ?c1 @ zip (map mID qs') (map settlementOf rs)"
      "waiting c2 = waiting ?c1 - set (map mID qs')" "set (pendingRequests c2) = set (pendingRequests ?c1) - set (map mID qs')" "unhandled c2 = unhandled c"
      by auto
    moreover have "set (remove1 (mID q) (pendingRequests c)) - set (map mID qs') = set (pendingRequests c) - set (map mID qs)"
      using Cons.prems(6) split(1) by auto
    ultimately show ?thesis using split(1,2) False by auto
  qed
qed simp


section \<open>Properties\<close>

text \<open>
  C3: From the client's call to its future. Requests other than \<open>dc:send\<close> are made one after another
  on a WebSocket connection in any state; the server reads their frames, answers each once and sends
  nothing else when no send is queued. When the client reads these replies, however events are mixed
  into them, every request completes with the data or the exception of its own reply, in order,
  earlier requests still wait, and exactly the events are handed on.
\<close>

theorem requests_complete_end_to_end:
  assumes "bridge_inv b" "pool_clean pool" "quiet b" "conn_reach webSocketOps ser dbl c" "ws_connected (transport c)"
    and codec: "list_all2 (\<lambda>w f. ser (toMap w) = Some f \<and> decode f newMessage = (None, messageOf w)) (numbered (nextRequestId c) rs) frames"
    and "\<forall>w \<in> set (numbered (nextRequestId c) rs). wsType w \<noteq> ''dc:send''" "nextRequestId c + int (length rs) \<le> 2 ^ 63"
    and "length envs = length rs" "uuids_fresh decode P (map2 (\<lambda>e f. (e, True, f)) envs frames) (pool, b)"
  shows "\<exists>c1 pool' b' replies. let ws = numbered (nextRequestId c) rs in
    requestAll webSocketOps ser rs c = Some (zip (map wsId ws) frames, c1) \<and>
    readLoop decode P (\<lambda>_ _. None) (map2 (\<lambda>e f. (e, True, f)) envs frames) (pool, b) = Some (pool', b') \<and>
    b_out b' = b_out b @ map (Pair (h_conn b)) replies \<and>
    list_all2 (\<lambda>w m. mID m = wsId w \<and> (mType m = wsType w @ '':ack'' \<or> mType m = ''error'')) ws replies \<and>
    (\<forall>ins. filter (\<lambda>m. \<not> isEvent m) ins = replies \<longrightarrow>
       (\<exists>c2. receiveAll dbl ins c1 = (map received (filter isEvent ins), c2) \<and>
          settled c2 = settled c @ zip (map wsId ws) (map settlementOf replies) \<and> waiting c2 = waiting c))"
proof -
  define ws where "ws = numbered (nextRequestId c) rs"
  define qs where "qs = map messageOf ws"
  have inv: "conn_inv c" using assms(4) by (rule conn_reach_inv)
  have ids: "map mID qs = map wsId ws" by (simp add: qs_def messageOf_def)
  have range: "set (map wsId ws) = {nextRequestId c..<nextRequestId c + int (length rs)}" "distinct (map wsId ws)" "length ws = length rs"
    using numbered_ids [of "nextRequestId c" rs] by (auto simp: ws_def)
  from codec have ser: "list_all2 (\<lambda>w f. ser (toMap w) = Some f) (numbered (nextRequestId c) rs) frames" by (rule list_all2_mono) simp
  from requestAll_webSocket [OF assms(5) ser] obtain c1 where c1: "requestAll webSocketOps ser rs c = Some (zip (map wsId ws) frames, c1)"
    "pendingRequests c1 = pendingRequests c @ map wsId ws" "waiting c1 = waiting c \<union> set (map wsId ws)" "settled c1 = settled c"
    unfolding ws_def by blast
  have "list_all2 (\<lambda>(env, binary, data) msg. binary \<and> decode data newMessage = (None, msg) \<and> mType msg \<noteq> ''dc:send'')
      (map2 (\<lambda>e f. (e, True, f)) envs frames) qs"
    using codec assms(7,9) range(3) by (auto simp: list_all2_conv_all_nth ws_def [symmetric] qs_def messageOf_def)
  from readLoop_replies [OF assms(1,2) this assms(10)] assms(3) obtain pool' b' replies where r:
    "readLoop decode P (\<lambda>_ _. None) (map2 (\<lambda>e f. (e, True, f)) envs frames) (pool, b) = Some (pool', b')"
    "list_all2 reply_ok qs replies" "b_out b' = b_out b @ map (Pair (h_conn b)) replies"
    by (elim exE conjE) simp
  have m: "list_all2 (\<lambda>w m. mID m = wsId w \<and> (mType m = wsType w @ '':ack'' \<or> mType m = ''error'')) ws replies"
    using r(2) unfolding qs_def list_all2_map1
    by (rule list_all2_mono) (use reply_received(3,4) in \<open>force simp: messageOf_def\<close>)
  have settles: "\<forall>ins. filter (\<lambda>m. \<not> isEvent m) ins = replies \<longrightarrow>
      (\<exists>c2. receiveAll dbl ins c1 = (map received (filter isEvent ins), c2) \<and>
         settled c2 = settled c @ zip (map wsId ws) (map settlementOf replies) \<and> waiting c2 = waiting c)"
  proof (intro allI impI)
    fix ins
    assume ins: "filter (\<lambda>m. \<not> isEvent m) ins = replies"
    have old: "i < nextRequestId c" if "i \<in> waiting c \<union> set (pendingRequests c)" for i using inv that by (auto simp: conn_inv_def)
    have a: "set (map mID qs) \<subseteq> waiting c1 \<inter> set (pendingRequests c1)" "distinct (map mID qs)"
      unfolding ids c1(2,3) using range(2) by auto
    have new: "set (pendingRequests c) \<inter> set (map wsId ws) = {}" "waiting c \<inter> set (map wsId ws) = {}"
      unfolding range(1) using old by (meson UnCI atLeastLessThan_iff disjoint_iff not_less)+
    have "distinct (pendingRequests c)" using inv by (simp add: conn_inv_def)
    then have b: "distinct (pendingRequests c1)" unfolding c1(2) distinct_append using new(1) range(2) by simp
    have "0 < mID q \<and> mID q < 2 ^ 63" if "q \<in> set qs" for q
    proof -
      have "mID q \<in> set (map wsId ws)" unfolding ids [symmetric] using that by simp
      then show ?thesis unfolding range(1) using inv assms(8) by (simp add: conn_inv_def)
    qed
    then have "\<forall>q \<in> set qs. 0 < mID q \<and> mID q < 2 ^ 63" ..
    from receiveAll_settles [OF r(2) ins a(2,1) this b, of dbl] obtain c2 where
      "receiveAll dbl ins c1 = (map received (filter isEvent ins), c2)" "settled c2 = settled c1 @ zip (map wsId ws) (map settlementOf replies)"
      "waiting c2 = waiting c1 - set (map wsId ws)"
      unfolding ids by blast
    moreover have "waiting c1 - set (map wsId ws) = waiting c" unfolding c1(3) using new(2) by blast
    ultimately show "\<exists>c2. receiveAll dbl ins c1 = (map received (filter isEvent ins), c2) \<and>
         settled c2 = settled c @ zip (map wsId ws) (map settlementOf replies) \<and> waiting c2 = waiting c"
      unfolding c1(4) by simp
  qed
  show ?thesis unfolding Let_def ws_def [symmetric]
    by (intro exI conjI) (rule c1(1), rule r(1), rule r(3), rule m, rule settles)
qed



section \<open>Witness\<close>

definition quietBridge :: "nat bridge" where
  "quietBridge = exampleBridge\<lparr>b_states := (\<lambda>_. newDCSendState DefaultDCConfig False)\<rparr>"

definition offerRequest :: WsMessage where
  "offerRequest = \<lparr>wsType = ''pc:offer'', wsId = 1, wsHandle = Some ''p'', wsData = []\<rparr>"

definition offerDecode :: decoder where
  "offerDecode data m = (if data = [] then (Some ''EOF'', m) else (None, messageOf offerRequest))"

theorem requests_complete_end_to_end_witness:
  "\<exists>c1 pool' b' m c2.
     requestAll webSocketOps (\<lambda>_. Some [1]) [(''pc:offer'', Some ''p'', [])] exampleSocket = Some ([(1, [1])], c1) \<and>
     readLoop offerDecode examplePion (\<lambda>_ _. None) [(\<lparr>fe_pool = 0, fe_pick = True, fe_now = 0, fe_uuid = ''u''\<rparr>, True, [1])] ([], quietBridge) = Some (pool', b') \<and>
     b_out b' = [(0, m)] \<and> mID m = 1 \<and>
     receiveAll (\<lambda>_. None) [Event ''event:iceCandidate'' ''p'' [], m] c1 = ([received (Event ''event:iceCandidate'' ''p'' [])], c2) \<and>
     settled c2 = [(1, settlementOf m)]"
proof -
  let ?env = "\<lparr>fe_pool = 0, fe_pick = True, fe_now = 0, fe_uuid = ''u''\<rparr>"
  have inv: "bridge_inv quietBridge" using exampleRegistry_inv
    by (simp add: bridge_inv_def quietBridge_def exampleBridge_def NewHandlerWithConfig_def newDCSendState_def hooks_inv_def
        states_ok_def exampleRegistry_simps DefaultDCConfig_def trace_inv_new)
  have quiet: "quiet quietBridge" by (simp add: quiet_def quietBridge_def newDCSendState_def)
  have fresh: "uuids_fresh offerDecode examplePion (map2 (\<lambda>e f. (e, True, f)) [?env] [[1]]) ([], quietBridge)"
    using exampleBridge_lookup(3) by (simp add: uuids_fresh_def generateHandle_def quietBridge_def)
  have n: "numbered (nextRequestId exampleSocket) [(''pc:offer'', Some ''p'', [])] = [offerRequest]"
    by (simp add: exampleCall_simps offerRequest_def)
  have codec: "list_all2 (\<lambda>w f. (\<lambda>_. Some [1]) (toMap w) = Some f \<and> offerDecode f newMessage = (None, messageOf w))
      (numbered (nextRequestId exampleSocket) [(''pc:offer'', Some ''p'', [])]) [[1]]"
    unfolding n by (simp add: offerDecode_def)
  have pre: "pool_clean []" "\<forall>w \<in> set (numbered (nextRequestId exampleSocket) [(''pc:offer'', Some ''p'', [])]). wsType w \<noteq> ''dc:send''"
    "nextRequestId exampleSocket + int (length [(''pc:offer'', Some ''p'', [] :: gmap)]) \<le> 2 ^ 63" "length [?env] = length [(''pc:offer'', Some ''p'', [] :: gmap)]"
    unfolding n by (simp_all add: pool_clean_def exampleCall_simps(10) offerRequest_def)
  have ids: "wsId offerRequest = 1" "settled exampleSocket = []"
    by (simp_all add: offerRequest_def exampleCall_simps)
  have out: "b_out quietBridge = []" "h_conn quietBridge = 0" by (simp_all add: quietBridge_def exampleBridge_simps)
  have "\<exists>c1 pool' b' replies.
      requestAll webSocketOps (\<lambda>_. Some [1]) [(''pc:offer'', Some ''p'', [])] exampleSocket = Some ([(1, [1])], c1) \<and>
      readLoop offerDecode examplePion (\<lambda>_ _. None) [(?env, True, [1])] ([], quietBridge) = Some (pool', b') \<and>
      b_out b' = map (Pair 0) replies \<and>
      list_all2 (\<lambda>w m. mID m = wsId w \<and> (mType m = wsType w @ '':ack'' \<or> mType m = ''error'')) [offerRequest] replies \<and>
      (\<forall>ins. filter (\<lambda>m. \<not> isEvent m) ins = replies \<longrightarrow> (\<exists>c2. receiveAll (\<lambda>_. None) ins c1 = (map received (filter isEvent ins), c2) \<and>
        settled c2 = zip [1] (map settlementOf replies) \<and> waiting c2 = waiting exampleSocket))"
    using requests_complete_end_to_end [OF inv pre(1) quiet example_reach(1) exampleCall_simps(9) codec pre(2-4) fresh, where dbl = "\<lambda>_. None"]
    by (simp only: Let_def n ids out append_Nil list.map zip_Cons_Cons zip_Nil prod.case)
  then obtain c1 pool' b' replies where *:
    "requestAll webSocketOps (\<lambda>_. Some [1]) [(''pc:offer'', Some ''p'', [])] exampleSocket = Some ([(1, [1])], c1)"
    "readLoop offerDecode examplePion (\<lambda>_ _. None) [(?env, True, [1])] ([], quietBridge) = Some (pool', b')"
    "b_out b' = map (Pair 0) replies" "list_all2 (\<lambda>w m. mID m = wsId w \<and> (mType m = wsType w @ '':ack'' \<or> mType m = ''error'')) [offerRequest] replies"
    "\<forall>ins. filter (\<lambda>m. \<not> isEvent m) ins = replies \<longrightarrow> (\<exists>c2. receiveAll (\<lambda>_. None) ins c1 = (map received (filter isEvent ins), c2) \<and>
        settled c2 = zip [1] (map settlementOf replies) \<and> waiting c2 = waiting exampleSocket)"
    by (elim exE conjE)
  then obtain m where m: "replies = [m]" "mID m = 1" by (auto simp: list_all2_Cons1 offerRequest_def)
  let ?ev = "Event ''event:iceCandidate'' ''p'' []"
  have ev: "\<not> isEvent m" "isEvent ?ev" using m(2) by (simp_all add: isEvent_def suffix_def)
  have f: "filter (\<lambda>m. \<not> isEvent m) [?ev, m] = replies" "map received (filter isEvent [?ev, m]) = [received ?ev]"
    unfolding m(1) by (simp_all only: filter.simps ev if_True if_False not_True_eq_False not_False_eq_True list.map)
  have z: "zip [1] (map settlementOf replies) = [(1, settlementOf m)]" unfolding m(1) by simp
  from *(5) [rule_format, OF f(1)] obtain c2 where c2: "receiveAll (\<lambda>_. None) [?ev, m] c1 = ([received ?ev], c2)" "settled c2 = [(1, settlementOf m)]"
    unfolding f(2) z by (elim exE conjE)
  have out: "b_out b' = [(0, m)]" using *(3) m(1) by simp
  show ?thesis by (intro exI conjI) (rule *(1), rule *(2), rule out, rule m(2), rule c2(1), rule c2(2))
qed

end
