(* ===== verification/Spec2Isabelle.thy ===== *)
theory Spec2Isabelle
  imports HandleRegistry RingQueue Serial Packet DCSend Session Server WindowedMin PendingFacts GapBlocks StreamFacts AssocInvariant HandshakeFacts EndToEnd
begin

text \<open>
  \<^bold>\<open>Verification of the Pion bridge.\<close> The program exposes the pion WebRTC stack to Flutter applications.
  \<^item> The \<^emph>\<open>bridge server\<close> (\<^verbatim>\<open>go/internal/pionserver\<close>) keeps a registry of the objects it handed out,
    dispatches the requests of its connections, sends the payloads of every DataChannel through one queue
    and one goroutine, and pushes events back.
  \<^item> The \<^emph>\<open>SCTP library\<close> (\<^verbatim>\<open>go/pion-sctp-patched\<close>, a fork of pion/sctp) carries the DataChannels.
  \<^item> The \<^emph>\<open>client\<close> (\<^verbatim>\<open>lib/src\<close>) makes requests over a WebSocket or through a shared library.

  A Go struct or Dart class is a record with its fields, an interface or enumeration a datatype, a method
  a function on the state with the name of the method. Errors and panics are values. Machine integers
  are words where they can wrap around. Code outside the repository (pion/webrtc, the codecs, UUIDs,
  clocks, random cookies), the order in which Go ranges over a map, and the choices of \<open>select\<close> and
  \<open>sync.Pool\<close> are arguments. Calls under one lock are one step; goroutines interleave by step relations.

  \<^bold>\<open>Shared.\<close> \<open>Prelude\<close> has the types, results and facts on maps and forests; \<open>GoBytes\<close> has slices and
  \<^verbatim>\<open>encoding/binary\<close> with their panics; \<open>Serial\<close> (\<^verbatim>\<open>util.go\<close>) serial number arithmetic.

  \<^bold>\<open>Bridge server.\<close>
  \<^item> \<open>Trace\<close> (\<^verbatim>\<open>trace.go\<close>): trace slots are in bounds and stable.
  \<^item> \<open>HandleRegistry\<close> (\<^verbatim>\<open>registry.go\<close>): the five maps, the cascading delete and the sweep. The maps agree
    in every reachable state; delete and sweep remove exactly the right subtrees and close each resource once.
  \<^item> \<open>Messages\<close> (\<^verbatim>\<open>types.go\<close>, \<^verbatim>\<open>hooks.go\<close>): messages and dynamic values.
  \<^item> \<open>DCSend\<close> (\<^verbatim>\<open>dcsend.go\<close>): the send queue with its goroutine. Every request is answered once, in order.
  \<^item> \<open>Session\<close> (\<^verbatim>\<open>frame_session.go\<close>, the writer of \<^verbatim>\<open>server.go\<close>): frames come in order, none after
    \<open>Close\<close> has returned, and \<open>Close\<close> can return.
  \<^item> \<open>Settings\<close> (\<^verbatim>\<open>settings_engine.go\<close>, \<^verbatim>\<open>media_engine.go\<close>): which payloads are refused.
  \<^item> \<open>Handler\<close>, \<open>HandlerFacts\<close>, \<open>HandlerProps\<close> (\<^verbatim>\<open>handler.go\<close>): all requests and callbacks; their replies,
    their invariant, when a request waits, what a deletion answers.
  \<^item> \<open>Server\<close> (\<^verbatim>\<open>server.go\<close>): frames, message pool and read loop; the pool is invisible.

  \<^bold>\<open>SCTP wire format.\<close> \<open>Params\<close>, \<open>ChunkHeader\<close>, \<open>Chunks\<close>, \<open>ChunkFacts\<close>, \<open>Packet\<close> (\<^verbatim>\<open>param*.go\<close>,
  \<^verbatim>\<open>chunk*.go\<close>, \<^verbatim>\<open>error_cause*.go\<close>, \<^verbatim>\<open>packet.go\<close>): parsers and printers of all chunks. Parsing never
  panics, packets come back from the wire, and a damaged byte is detected by the checksum.

  \<^bold>\<open>SCTP data structures.\<close>
  \<^item> \<open>RingQueue\<close> (\<^verbatim>\<open>queue.go\<close>, \<^verbatim>\<open>control_queue.go\<close>) refines a list; locale \<open>fifo\<close> is its contract.
  \<^item> \<open>WindowedMin\<close> (\<^verbatim>\<open>windowedmin.go\<close>) answers with the minimum of the window.
  \<^item> \<open>PayloadQueue\<close> (\<^verbatim>\<open>payload_queue.go\<close>): chunks in flight.
  \<^item> \<open>ReceiveQueue\<close>, \<open>GapBlocks\<close> (\<^verbatim>\<open>receive_payload_queue.go\<close>): received TSNs as a set, and the gap blocks
    as its maximal runs.
  \<^item> \<open>PendingQueue\<close>, \<open>PendingFacts\<close> (\<^verbatim>\<open>pending_queue.go\<close>): the locales \<open>pending_contract\<close> and
    \<open>scheduler_contract\<close>, interpreted on the message policy and on both stream schedulers.
  \<^item> \<open>Reassembly\<close>, \<open>ReassemblyFacts\<close> (\<^verbatim>\<open>reassembly_queue.go\<close>): messages are delivered in order.
  \<^item> \<open>Timers\<close> (\<^verbatim>\<open>rtx_timer.go\<close>, \<^verbatim>\<open>ack_timer.go\<close>): callbacks come on schedule in every interleaving.
  \<^item> \<open>StreamModel\<close>, \<open>StreamFacts\<close> (\<^verbatim>\<open>stream.go\<close>): what is written on a stream is read by the peer.

  \<^bold>\<open>SCTP association\<close> (\<^verbatim>\<open>association.go\<close> and its options). \<open>Options\<close> builds configurations, \<open>AssocState\<close>
  is the struct, \<open>AssocBase\<close> the helpers, \<open>AssocHandshake\<close> the life cycle, \<open>AssocSend\<close> and \<open>AssocRecv\<close> the
  two directions, \<open>AssocLoops\<close> the goroutines and the step relation. A method is a state transformer whose
  outcome is a value, an error, or \<open>Stuck\<close> if it does not return. \<open>AssocInvariant\<close> proves an
  invariant of all reachable states, with the RACK list as a list; \<open>HandshakeFacts\<close> proves that two
  associations establish each other through the wire format.

  \<^bold>\<open>Client.\<close> \<open>Client\<close> (\<^verbatim>\<open>bridge_connection.dart\<close> and both transports): futures complete once and with their
  own reply. The locale \<open>bridge_transport\<close> is what the base class relies on and is interpreted on both
  transports. \<open>EndToEnd\<close> composes client and server: the requests of a client complete with the
  replies the server computes for them.

  \<^bold>\<open>Loops and fuel.\<close> Most loops are structural or have a termination proof. Those that may not end are
  partial functions: the walks along parent links return on acyclic registries, \<open>gapLoop\<close> returns on
  windows without collisions, \<open>packetizeLoop\<close> for messages and payload sizes within the bounds of \<open>packetizeLoop_eq\<close>. \<open>collectLocked\<close> has one more than the number of
  \<open>children\<close> entries as fuel, which \<open>collect_spec\<close> shows to be enough. In the association,
  \<open>rackLinks\<close> has the number of allocated chunks, enough for a list of distinct chunks; the loops over
  the inflight and the receive queue have their size and a margin, since every round takes or looks up
  one chunk and the first missing one ends them; a gap block has its width. Fuel that runs out is \<open>Stuck\<close>.

  \<^bold>\<open>Not modelled.\<close> Logging, printing and \<open>String\<close> methods; the printer of the tracer; the HTTP upgrade, the
  ping timer and the listener of \<^verbatim>\<open>server.go\<close>; the entry points (\<^verbatim>\<open>main.go\<close>, \<^verbatim>\<open>mobile\<close>, \<^verbatim>\<open>cshared\<close>,
  \<^verbatim>\<open>shared\<close>, \<^verbatim>\<open>embed\<close>), which only wire the server to the outside; the benchmark and the examples; the native
  plugins; of the client the reconnection, the event streams, which rest on the scheduling of
  \<^verbatim>\<open>dart:async\<close>, and the API classes, which build payloads. Between a call into a stream and the
  association the lock is released in the code; the model takes both as one step.
\<close>

end
